(* ===== verification/Prelude.thy ===== *)
theory Prelude
  imports Main "HOL-Library.Word" "HOL-Library.Char_ord" "HOL-Library.Sublist"
begin

text \<open>
  The prelude of the development: the error values every component returns, the result
  type \<open>err + 'a\<close> with its bind, the machine integers, C character classes and decimal
  printing, and the generic lemmas the component theories share.

  A C string is a \<open>char list\<close> without its terminator: a read at the end of the list is
  the read of the terminating NUL, and a step beyond it is the error value \<open>Overrun\<close>.
\<close>

unbundle bit_operations_syntax

named_theorems res_simps \<open>how bind acts on error and success\<close>
named_theorems cls_simps \<open>character classes unfolded\<close>

section \<open>Error values\<close>

text \<open>
  \<open>error_tok\<close> carries the file and line of a token, \<open>error\<close> only a message; both
  leave the compiler. The other constructors are what C leaves undefined or turns into a
  signal: reading past a terminator, following a null pointer, an integer division that
  traps, an out-of-range shift, and a library call whose result is not specified.
  \<open>Thrown\<close> is a HolyC exception on its way to a handler, and \<open>Diverge\<close> stands for a loop of the
  program that is shown never to end. \<open>Fuel\<close> is no outcome of the program: it is the value of a
  loop of the model whose bound on iterations was used up (theory \<open>Iterate\<close>).
\<close>

datatype err =
    ErrTok string int string
  | Err string
  | Overrun
  | NullDeref
  | DivTrap
  | BadShift
  | Undefined
  | Thrown "64 word"
  | Diverge
  | Fuel

type_synonym 'a res = "err + 'a"

definition rbind :: "'e + 'a \<Rightarrow> ('a \<Rightarrow> 'e + 'b) \<Rightarrow> 'e + 'b" where
  "rbind m f = (case m of Inl e \<Rightarrow> Inl e | Inr x \<Rightarrow> f x)"

lemma rbind_Inl [simp, res_simps]: "rbind (Inl e) f = Inl e"
  by (simp add: rbind_def)

lemma rbind_Inr [simp, res_simps]: "rbind (Inr x) f = f x"
  by (simp add: rbind_def)

lemma rbind_eq_Inr: "rbind m f = Inr y \<longleftrightarrow> (\<exists>x. m = Inr x \<and> f x = Inr y)"
  by (cases m) auto

lemma rbind_eq_Inl: "rbind m f = Inl e \<longleftrightarrow> m = Inl e \<or> (\<exists>x. m = Inr x \<and> f x = Inl e)"
  by (cases m) auto

lemma rbind_assoc: "rbind (rbind m f) g = rbind m (\<lambda>x. rbind (f x) g)"
  by (cases m) auto

lemma rbind_split:
  "P (rbind m f) \<longleftrightarrow> (\<forall>e. m = Inl e \<longrightarrow> P (Inl e)) \<and> (\<forall>x. m = Inr x \<longrightarrow> P (f x))"
  by (cases m) auto

lemma rbind_cong [fundef_cong]:
  "m = m' \<Longrightarrow> (\<And>x. m' = Inr x \<Longrightarrow> f x = f' x) \<Longrightarrow> rbind m f = rbind m' f'"
  by (cases m') auto

section \<open>Machine integers\<close>

type_synonym i64 = "64 word"
type_synonym u32 = "32 word"
type_synonym u8 = "8 word"

definition size_max :: nat where
  "size_max = 2 ^ 64 - 1"

definition i64_of_bool :: "bool \<Rightarrow> i64" where
  "i64_of_bool b = (if b then 1 else 0)"

text \<open>C division truncates towards zero; \<open>INT64_MIN / -1\<close> is the one quotient that does
  not fit and raises SIGFPE on the machines the compiler runs on.\<close>

definition c_div :: "i64 \<Rightarrow> i64 \<Rightarrow> i64 res" where
  "c_div a b =
     (if sint a = - (2 ^ 63) \<and> sint b = -1 then Inl DivTrap
      else Inr (word_of_int (sgn (sint a) * sgn (sint b) * (\<bar>sint a\<bar> div \<bar>sint b\<bar>))))"

definition c_mod :: "i64 \<Rightarrow> i64 \<Rightarrow> i64 res" where
  "c_mod a b =
     (if sint a = - (2 ^ 63) \<and> sint b = -1 then Inl DivTrap
      else Inr (word_of_int (sgn (sint a) * (\<bar>sint a\<bar> mod \<bar>sint b\<bar>))))"

section \<open>Characters\<close>

abbreviation chr_nul :: char where "chr_nul \<equiv> CHR 0x00"
abbreviation chr_tab :: char where "chr_tab \<equiv> CHR 0x09"
abbreviation chr_nl :: char where "chr_nl \<equiv> CHR 0x0A"
abbreviation chr_cr :: char where "chr_cr \<equiv> CHR 0x0D"
abbreviation chr_sp :: char where "chr_sp \<equiv> CHR 0x20"
abbreviation chr_dq :: char where "chr_dq \<equiv> CHR 0x22"
abbreviation chr_sq :: char where "chr_sq \<equiv> CHR 0x27"
abbreviation chr_bs :: char where "chr_bs \<equiv> CHR 0x5C"

definition is_digit :: "char \<Rightarrow> bool" where
  "is_digit c \<longleftrightarrow> CHR ''0'' \<le> c \<and> c \<le> CHR ''9''"

definition is_alpha :: "char \<Rightarrow> bool" where
  "is_alpha c \<longleftrightarrow> (CHR ''a'' \<le> c \<and> c \<le> CHR ''z'') \<or> (CHR ''A'' \<le> c \<and> c \<le> CHR ''Z'')"

definition digit_val :: "char \<Rightarrow> nat" where
  "digit_val c = of_char c - 48"

definition digit_char :: "nat \<Rightarrow> char" where
  "digit_char n = char_of (48 + n)"

text \<open>A text in single quotes, as the messages print names.\<close>

definition sq :: "string \<Rightarrow> string" where
  "sq s = chr_sq # s @ [chr_sq]"

lemmas [cls_simps] = is_digit_def is_alpha_def

lemma digit_char_code [simp]: "n < 10 \<Longrightarrow> (of_char (digit_char n) :: nat) = 48 + n"
  by (simp add: digit_char_def)

lemma is_digit_digit_char [simp]: "n < 10 \<Longrightarrow> is_digit (digit_char n)"
  by (simp add: is_digit_def less_eq_char_def)

lemma digit_val_digit_char [simp]: "n < 10 \<Longrightarrow> digit_val (digit_char n) = n"
  by (simp add: digit_val_def)

lemma digit_val_less: "is_digit c \<Longrightarrow> digit_val c < 10"
  by (auto simp: is_digit_def digit_val_def less_eq_char_def)

lemma digit_not_alpha: "is_digit c \<Longrightarrow> \<not> is_alpha c"
  by (auto simp: is_digit_def is_alpha_def less_eq_char_def)

text \<open>\<open>*p\<close>: at the end of a string it is the terminator.\<close>

definition hd_nul :: "string \<Rightarrow> char" where
  "hd_nul s = (case s of [] \<Rightarrow> chr_nul | c # _ \<Rightarrow> c)"

section \<open>Decimal numbers\<close>

text \<open>\<open>printf("%d")\<close> and the decimal accumulation loop \<open>v = v * 10 + d\<close>.\<close>

fun dec_nat :: "nat \<Rightarrow> string" where
  "dec_nat n = (if n < 10 then [digit_char n] else dec_nat (n div 10) @ [digit_char (n mod 10)])"

declare dec_nat.simps [simp del]

definition dec_int :: "int \<Rightarrow> string" where
  "dec_int i = (if i < 0 then CHR ''-'' # dec_nat (nat (- i)) else dec_nat (nat i))"

definition dec_value :: "string \<Rightarrow> nat" where
  "dec_value s = fold (\<lambda>c v. 10 * v + digit_val c) s 0"

lemma dec_value_snoc: "dec_value (s @ [c]) = 10 * dec_value s + digit_val c"
  by (simp add: dec_value_def)

lemma dec_value_dec_nat [simp]: "dec_value (dec_nat n) = n"
proof (induction n rule: dec_nat.induct)
  case (1 n)
  show ?case
  proof (cases "n < 10")
    case True
    then show ?thesis by (simp add: dec_nat.simps [of n] dec_value_def)
  next
    case False
    with 1 have "dec_value (dec_nat (n div 10)) = n div 10" by simp
    with False show ?thesis
      by (simp add: dec_nat.simps [of n] dec_value_snoc)
  qed
qed

lemma dec_nat_digits: "list_all is_digit (dec_nat n)"
proof (induction n rule: dec_nat.induct)
  case (1 n)
  then show ?case by (cases "n < 10") (auto simp: dec_nat.simps [of n])
qed

lemma dec_nat_nonempty [simp]: "dec_nat n \<noteq> []"
  by (subst dec_nat.simps) simp

lemma dec_nat_inject: "dec_nat m = dec_nat n \<longleftrightarrow> m = n"
  by (metis dec_value_dec_nat)

lemma dec_nat_hd_digit: "is_digit (hd (dec_nat n))"
  using dec_nat_digits [of n] by (cases "dec_nat n") auto

section \<open>Shared list lemmas\<close>

lemma takeWhile_all_stop:
  "list_all P xs \<Longrightarrow> ys = [] \<or> \<not> P (hd ys) \<Longrightarrow> takeWhile P (xs @ ys) = xs"
  by (induction xs) (auto simp: takeWhile_eq_Nil_iff)

lemma dropWhile_all_stop:
  "list_all P xs \<Longrightarrow> ys = [] \<or> \<not> P (hd ys) \<Longrightarrow> dropWhile P (xs @ ys) = ys"
  by (induction xs) (auto simp: dropWhile_eq_self_iff)

lemma length_dropWhile_lt: "xs \<noteq> [] \<Longrightarrow> P (hd xs) \<Longrightarrow> length (dropWhile P xs) < length xs"
  by (cases xs) (auto intro: le_imp_less_Suc length_dropWhile_le)

lemma length_dropWhile_Suc [simp]: "length (dropWhile P xs) < Suc (length xs)"
  by (simp add: le_imp_less_Suc length_dropWhile_le)

end
