(* ===== verification/Util.thy ===== *)
theory Util
  imports Prelude
begin

text \<open>
  \<open>src/src/util.c\<close>: the instance's allocation list, the pending-cleanup stack and the
  diagnostics that unwind it, source reading, argument vectors and the construction of the
  C compiler's command line. What the host supplies (whether \<open>malloc\<close> succeeds, the
  environment variables, which files are executable, what \<open>pkg-config\<close> prints) is a
  parameter.
\<close>

section \<open>The allocation list\<close>

text \<open>
  \<open>cc->allocs\<close> is the list of live block addresses, newest first. Every block has a
  header of \<open>sizeof (AholyAlloc)\<close> = 16 bytes.
\<close>

definition alloc_header :: nat where
  "alloc_header = 16"

definition xmalloc_ok :: "(nat \<Rightarrow> bool) \<Rightarrow> nat \<Rightarrow> bool" where
  "xmalloc_ok can n =
     (let size = (if n \<noteq> 0 then n else 1)
      in size \<le> size_max - alloc_header \<and> can (alloc_header + size))"

definition xmalloc :: "(nat \<Rightarrow> bool) \<Rightarrow> nat \<Rightarrow> nat \<Rightarrow> nat list \<Rightarrow> (nat \<times> nat list) res" where
  "xmalloc can fresh n allocs =
     (if \<not> xmalloc_ok can n then Inl (Err ''out of memory'') else Inr (fresh, fresh # allocs))"

definition xcalloc_size :: "nat \<Rightarrow> nat \<Rightarrow> nat res" where
  "xcalloc_size n m =
     (if m \<noteq> 0 \<and> n > size_max div m then Inl (Err ''out of memory'') else Inr (n * m mod 2 ^ 64))"

text \<open>\<open>xfree_to\<close> pops and frees until the head is \<open>mark\<close>; \<open>None\<close> is the null mark.
  The second component of the result is what was freed, in order. A mark that is not on the
  list makes the loop reach the null head and dereference it.\<close>

fun xfree_to :: "nat option \<Rightarrow> nat list \<Rightarrow> (nat list \<times> nat list) res" where
  "xfree_to mark [] = (if mark = None then Inr ([], []) else Inl NullDeref)"
| "xfree_to mark (a # as) =
     (if mark = Some a then Inr (a # as, [])
      else rbind (xfree_to mark as) (\<lambda>(live, freed). Inr (live, a # freed)))"

lemma xfree_to_None: "xfree_to None as = Inr ([], as)"
  by (induction as) auto

lemma xfree_to_prefix: "m \<notin> set xs \<Longrightarrow> xfree_to (Some m) (xs @ m # ys) = Inr (m # ys, xs)"
  by (induction xs) auto

lemma xfree_to_missing: "m \<notin> set xs \<Longrightarrow> xfree_to (Some m) xs = Inl NullDeref"
  by (induction xs) auto

lemma xcalloc_no_wrap: "xcalloc_size n m = Inr k \<Longrightarrow> k = n * m"
proof (cases "m = 0")
  case False
  assume k: "xcalloc_size n m = Inr k"
  with False have le: "n \<le> size_max div m" and kk: "k = n * m mod 2 ^ 64"
    by (auto simp: xcalloc_size_def split: if_splits)
  from le have "n * m \<le> size_max div m * m" by (rule mult_le_mono1)
  also have "\<dots> \<le> size_max" by (rule div_times_less_eq_dividend)
  finally have "n * m < 2 ^ 64" by (simp add: size_max_def)
  with kk show ?thesis by simp
qed (simp add: xcalloc_size_def)

section \<open>Diagnostics and pending cleanups\<close>

text \<open>
  \<open>d_cleanups\<close> is the stack \<open>cc->cleanups[0 .. ncleanups)\<close>, top first, each entry an
  identifier of the pending \<open>fn (arg)\<close> call; \<open>d_ran\<close> records the calls made, in order.
\<close>

record diag =
  d_error :: string
  d_stream :: "string list option"
  d_cleanups :: "nat list"
  d_ran :: "nat list"
  d_active :: bool

datatype stop = LongJmp | ExitOne

definition snprintf_fit :: "nat \<Rightarrow> string \<Rightarrow> string" where
  "snprintf_fit n s = take (n - 1) s"

definition report :: "(string option \<times> int) option \<Rightarrow> string \<Rightarrow> string \<Rightarrow> diag \<Rightarrow> diag" where
  "report tok level text cc =
     (let msg = snprintf_fit 768 text;
          line = snprintf_fit 1024 (case tok of
              Some (f, n) \<Rightarrow> (case f of None \<Rightarrow> ''?'' | Some f' \<Rightarrow> f') @ '':'' @ dec_int n @ '': '' @ level @ '': '' @ msg
            | None \<Rightarrow> ''aholyc: '' @ level @ '': '' @ msg)
      in cc\<lparr>d_error := line,
            d_stream := map_option (\<lambda>ls. ls @ [line]) (d_stream cc)\<rparr>)"

fun cleanup_all :: "nat list \<Rightarrow> nat list \<Rightarrow> nat list" where
  "cleanup_all [] lg = lg"
| "cleanup_all (c # cs) lg = cleanup_all cs (lg @ [c])"

definition halt :: "diag \<Rightarrow> stop \<times> diag" where
  "halt cc =
     (if d_active cc then LongJmp else ExitOne,
      cc\<lparr>d_ran := cleanup_all (d_cleanups cc) (d_ran cc), d_cleanups := []\<rparr>)"

definition error_at :: "(string option \<times> int) option \<Rightarrow> string \<Rightarrow> diag \<Rightarrow> stop \<times> diag" where
  "error_at tok text cc = halt (report tok ''error'' text cc)"

definition warn_tok :: "(string option \<times> int) option \<Rightarrow> string \<Rightarrow> diag \<Rightarrow> diag" where
  "warn_tok tok text cc =
     (case d_stream cc of
        None \<Rightarrow> cc
      | Some ls \<Rightarrow>
          (let msg = snprintf_fit 768 text;
               line = (case tok of
                   Some (f, n) \<Rightarrow> (case f of None \<Rightarrow> ''?'' | Some f' \<Rightarrow> f') @ '':'' @ dec_int n @ '': warning: '' @ msg
                 | None \<Rightarrow> ''aholyc: warning: '' @ msg)
           in cc\<lparr>d_stream := Some (ls @ [line])\<rparr>))"

definition cleanup_push :: "nat \<Rightarrow> diag \<Rightarrow> (stop \<times> diag) + diag" where
  "cleanup_push c cc =
     (if length (d_cleanups cc) = 8
      then Inl (error_at None ''too many pending cleanups'' (cc\<lparr>d_ran := d_ran cc @ [c]\<rparr>))
      else Inr (cc\<lparr>d_cleanups := c # d_cleanups cc\<rparr>))"

definition cleanup_pop :: "diag \<Rightarrow> diag" where
  "cleanup_pop cc = cc\<lparr>d_cleanups := tl (d_cleanups cc)\<rparr>"

lemma cleanup_all_eq: "cleanup_all cs lg = lg @ cs"
  by (induction cs arbitrary: lg) auto

lemma report_cleanups [simp]:
  "d_cleanups (report t l s cc) = d_cleanups cc"
  "d_ran (report t l s cc) = d_ran cc"
  "d_active (report t l s cc) = d_active cc"
  by (simp_all add: report_def Let_def)

lemma report_error_length: "length (d_error (report t l s cc)) < 1024"
  by (simp add: report_def Let_def snprintf_fit_def)

text \<open>A run of pushes: every cleanup handed over is either still pending or has run.\<close>

fun push_all :: "nat list \<Rightarrow> diag \<Rightarrow> (stop \<times> diag) + diag" where
  "push_all [] cc = Inr cc"
| "push_all (c # cs) cc = rbind (cleanup_push c cc) (push_all cs)"

lemma error_at_runs:
  "error_at t s cc = (k, cc') \<Longrightarrow> d_ran cc' = d_ran cc @ d_cleanups cc \<and> d_cleanups cc' = []"
  by (auto simp: error_at_def halt_def cleanup_all_eq)

lemma cleanup_push_bound:
  "cleanup_push c cc = Inr cc' \<Longrightarrow> length (d_cleanups cc) \<le> 8 \<Longrightarrow> length (d_cleanups cc') \<le> 8"
  by (auto simp: cleanup_push_def split: if_splits)

section \<open>Argument vectors\<close>

record argv =
  av_v :: "string list"
  av_cap :: nat

definition argv_empty :: argv where
  "argv_empty = \<lparr>av_v = [], av_cap = 0\<rparr>"

definition arg_push :: "string \<Rightarrow> argv \<Rightarrow> argv" where
  "arg_push s a =
     (if length (av_v a) = av_cap a then a\<lparr>av_cap := av_cap a + 32, av_v := av_v a @ [s]\<rparr>
      else a\<lparr>av_v := av_v a @ [s]\<rparr>)"

definition word_sep :: "char \<Rightarrow> bool" where
  "word_sep c \<longleftrightarrow> c = chr_sp \<or> c = chr_tab \<or> c = chr_cr \<or> c = chr_nl"

text \<open>The words \<open>arg_push_words\<close> pushes, in order: it skips separators, then pushes from
  the first other byte up to the separator \<open>strpbrk\<close> finds, which it overwrites and steps
  over.\<close>

function arg_words :: "string \<Rightarrow> string list" where
  "arg_words w =
     (if w = [] then []
      else if word_sep (hd w) then arg_words (tl w)
      else takeWhile (\<lambda>c. \<not> word_sep c) w # arg_words (tl (dropWhile (\<lambda>c. \<not> word_sep c) w)))"
  by pat_completeness auto
termination
proof (relation "measure length", goal_cases)
  case (3 w)
  then have "length (dropWhile (\<lambda>c. \<not> word_sep c) w) < length w"
    by (intro length_dropWhile_lt) auto
  then show ?case by (simp add: less_imp_diff_less)
qed auto

declare arg_words.simps [simp del]

definition arg_push_words :: "string \<Rightarrow> argv \<Rightarrow> argv" where
  "arg_push_words w a = fold arg_push (arg_words w) a"

lemma arg_push_v [simp]: "av_v (arg_push s a) = av_v a @ [s]"
  by (simp add: arg_push_def)

lemma arg_push_cap: "length (av_v a) \<le> av_cap a \<Longrightarrow> length (av_v (arg_push s a)) \<le> av_cap (arg_push s a)"
  by (simp add: arg_push_def)

lemma fold_arg_push_v: "av_v (fold arg_push ws a) = av_v a @ ws"
  by (induction ws arbitrary: a) auto

lemma fold_arg_push_cap:
  "length (av_v a) \<le> av_cap a \<Longrightarrow> length (av_v (fold arg_push ws a)) \<le> av_cap (fold arg_push ws a)"
  by (induction ws arbitrary: a) (auto dest: arg_push_cap)

lemma arg_words_eqs [simp]:
  "arg_words [] = []"
  "word_sep c \<Longrightarrow> arg_words (c # s) = arg_words s"
  "\<not> word_sep c \<Longrightarrow> arg_words (c # s) =
     (c # takeWhile (\<lambda>c. \<not> word_sep c) s) # arg_words (tl (dropWhile (\<lambda>c. \<not> word_sep c) s))"
  by (subst arg_words.simps, simp)+

lemma arg_words_words: "w \<in> set (arg_words s) \<Longrightarrow> w \<noteq> [] \<and> (\<forall>c \<in> set w. \<not> word_sep c)"
proof (induction s rule: arg_words.induct)
  case (1 s)
  show ?case
  proof (cases s)
    case (Cons c cs)
    show ?thesis
    proof (cases "word_sep c")
      case True
      with 1 Cons show ?thesis by simp
    next
      case False
      from 1(3) consider "w = c # takeWhile (\<lambda>c. \<not> word_sep c) cs"
        | "w \<in> set (arg_words (tl (dropWhile (\<lambda>c. \<not> word_sep c) s)))"
        using Cons False by auto
      then show ?thesis
      proof cases
        case 1
        with False show ?thesis by (auto dest!: set_takeWhileD)
      next
        case 2
        from Cons False have "s \<noteq> []" "\<not> word_sep (hd s)" by simp_all
        from 1(2) [OF this 2] show ?thesis .
      qed
    qed
  qed (use 1(3) in simp)
qed

lemma filter_takeWhile: "filter P (takeWhile P xs) = takeWhile P xs"
  by (induction xs) auto

lemma filter_tl_dropWhile: "filter P (tl (dropWhile P xs)) = filter P (dropWhile P xs)"
  by (induction xs) auto

lemma concat_arg_words: "concat (arg_words s) = filter (\<lambda>c. \<not> word_sep c) s"
proof (induction s rule: arg_words.induct)
  case (1 s)
  show ?case
  proof (cases s)
    case (Cons c cs)
    have split: "filter (\<lambda>c. \<not> word_sep c) cs =
        takeWhile (\<lambda>c. \<not> word_sep c) cs
        @ filter (\<lambda>c. \<not> word_sep c) (dropWhile (\<lambda>c. \<not> word_sep c) cs)"
      by (metis filter_append filter_takeWhile takeWhile_dropWhile_id)
    show ?thesis
    proof (cases "word_sep c")
      case True
      with 1 Cons show ?thesis by simp
    next
      case False
      with 1 Cons split show ?thesis
        using 1(2) by (simp add: filter_tl_dropWhile)
    qed
  qed simp
qed

section \<open>Reading a source\<close>

text \<open>
  The loop of \<open>read_source\<close> over the bytes still unread: \<open>fread\<close> fills the space it is
  offered (\<open>cap - len - 1\<close> bytes) unless the input ends first, and the loop ends when it
  returns nothing. Each doubling allocates a new buffer of twice the capacity.
\<close>

function read_loop :: "(nat \<Rightarrow> bool) \<Rightarrow> nat \<Rightarrow> string \<Rightarrow> string \<Rightarrow> string res" where
  "read_loop can cap buf input =
     (let chunk = take (cap - length buf - 1) input
      in if chunk = [] then Inr buf
         else
           (let buf' = buf @ chunk; input' = drop (length chunk) input
            in if cap - length buf' < 2
               then (if cap > size_max div 2 then Inl (Err ''source is too large'')
                     else if \<not> xmalloc_ok can (cap * 2) then Inl (Err ''out of memory'')
                     else read_loop can (cap * 2) buf' input')
               else read_loop can cap buf' input'))"
  by pat_completeness auto
termination
  by (relation "measure (\<lambda>(can, cap, buf, input). length input)") (auto simp: Let_def)

declare read_loop.simps [simp del]

definition read_source :: "(nat \<Rightarrow> bool) \<Rightarrow> string option \<Rightarrow> string option res" where
  "read_source can file =
     (case file of
        None \<Rightarrow> Inr None
      | Some bytes \<Rightarrow>
          (if \<not> xmalloc_ok can (2 ^ 16) then Inl (Err ''out of memory'')
           else rbind (read_loop can (2 ^ 16) [] bytes) (\<lambda>s. Inr (Some s))))"

lemma take_chunk: "(buf @ take n input) @ drop (length (take n input)) input = buf @ input"
  by (cases "n \<le> length input") simp_all

lemma read_loop_content:
  "read_loop can cap buf input = Inr s \<Longrightarrow> length buf + 2 \<le> cap \<Longrightarrow> s = buf @ input"
proof (induction can cap buf input rule: read_loop.induct)
  case (1 can cap buf input)
  let ?chunk = "take (cap - length buf - 1) input"
  show ?case
  proof (cases "?chunk = []")
    case True
    with 1(3,4) show ?thesis by (auto simp: read_loop.simps [of can cap buf input])
  next
    case False
    let ?buf = "buf @ ?chunk" and ?in = "drop (length ?chunk) input"
    have split: "?buf @ ?in = buf @ input" by (rule take_chunk)
    show ?thesis
    proof (cases "cap - length ?buf < 2")
      case True
      with False 1(3) have *: "read_loop can (cap * 2) ?buf ?in = Inr s"
        by (auto simp: read_loop.simps [of can cap buf input] Let_def split: if_splits)
      have fits: "length ?buf + 2 \<le> cap * 2" using 1(4) by auto
      from True False 1(3) have ok: "\<not> cap > size_max div 2" "\<not> \<not> xmalloc_ok can (cap * 2)"
        by (auto simp: read_loop.simps [of can cap buf input] Let_def split: if_splits)
      from 1(1) [OF refl False refl refl True ok * fits] split show ?thesis by simp
    next
      case f2: False
      with False 1(3) have *: "read_loop can cap ?buf ?in = Inr s"
        by (auto simp: read_loop.simps [of can cap buf input] Let_def split: if_splits)
      have fits: "length ?buf + 2 \<le> cap" using f2 by auto
      from 1(2) [OF refl False refl refl f2 * fits] split show ?thesis by simp
    qed
  qed
qed

section \<open>Finding and building tool command lines\<close>

text \<open>The directories \<open>strtok_r (path, ":")\<close> yields: the non-empty fields.\<close>

function path_dirs :: "string \<Rightarrow> string list" where
  "path_dirs s =
     (let d = takeWhile (\<lambda>c. c \<noteq> CHR '':'') s; r = dropWhile (\<lambda>c. c \<noteq> CHR '':'') s
      in (if d = [] then [] else [d]) @ (if r = [] then [] else path_dirs (tl r)))"
  by pat_completeness auto
termination
proof (relation "measure length", goal_cases)
  case (2 s d r)
  then have "length (tl r) < length r" "length r \<le> length s"
    by (auto simp: length_dropWhile_le)
  then show ?case by simp
qed simp

definition have_cmd :: "string option \<Rightarrow> (string \<Rightarrow> bool) \<Rightarrow> string \<Rightarrow> bool" where
  "have_cmd path access name =
     (case path of
        None \<Rightarrow> False
      | Some p \<Rightarrow> list_ex (\<lambda>dir. access (dir @ ''/'' @ name)) (path_dirs p))"

definition pkg_char_ok :: "char \<Rightarrow> bool" where
  "pkg_char_ok c \<longleftrightarrow> is_alpha c \<or> is_digit c \<or> c \<in> set ''._+- '' \<or> c = chr_tab"

text \<open>\<open>popen\<close> gives the command's output and whether \<open>pclose\<close> reported success, or
  nothing when the shell cannot be started.\<close>

definition pkgconfig_push ::
  "(string \<Rightarrow> bool) \<Rightarrow> (string \<Rightarrow> (string \<times> bool) option) \<Rightarrow> string \<Rightarrow> argv \<Rightarrow> argv res" where
  "pkgconfig_push have popen pkgs a =
     (if \<not> list_all pkg_char_ok pkgs then Inl (Err (''invalid character in @pkgconfig='' @ pkgs))
      else if dropWhile (\<lambda>c. c = chr_sp \<or> c = chr_tab) pkgs = []
        then Inl (Err ''@pkgconfig requires a package name'')
      else if \<not> have ''pkg-config''
        then Inl (Err (''pkg-config not found (needed for @pkgconfig='' @ pkgs @ '')''))
      else
        (case popen (''pkg-config --libs '' @ pkgs @ '' 2>/dev/null'') of
           None \<Rightarrow> Inl (Err ''cannot run pkg-config'')
         | Some (out, ok) \<Rightarrow>
             (let buf = take 511 out
              in if \<not> ok then Inl (Err (''pkg-config failed for '' @ pkgs @ '' (package not found?)''))
                 else if length buf = 511
                   then Inl (Err (''pkg-config output for '' @ pkgs @ '' does not fit in one line''))
                 else Inr (arg_push_words (takeWhile (\<lambda>c. c \<noteq> chr_nul) buf) a))))"

text \<open>The words of an environment variable (\<open>arg_push_env\<close>).\<close>

definition arg_push_env :: "(string \<Rightarrow> string option) \<Rightarrow> string \<Rightarrow> argv \<Rightarrow> argv" where
  "arg_push_env getenv name a =
     (case getenv name of None \<Rightarrow> a | Some w \<Rightarrow> arg_push_words w a)"

record cc_flags =
  cf_ccflags :: "string list"
  cf_pic :: bool
  cf_shared :: bool
  cf_stack_protector :: bool

definition pick_tool ::
  "(string \<Rightarrow> string option) \<Rightarrow> (string \<Rightarrow> bool) \<Rightarrow> string option \<Rightarrow> string" where
  "pick_tool getenv have tool =
     (let usable = (\<lambda>t. t \<noteq> None \<and> t \<noteq> Some []);
          tool1 = (if usable tool then tool else getenv ''CC'')
      in if usable tool1 then the tool1
         else if have ''cc'' then ''cc'' else if have ''clang'' then ''clang'' else ''gcc'')"

text \<open>\<open>run_cc\<close>'s argument vector on a host that is not Darwin, up to the terminating null.\<close>

definition run_cc_argv ::
  "(string \<Rightarrow> string option) \<Rightarrow> (string \<Rightarrow> bool) \<Rightarrow> cc_flags \<Rightarrow> string option \<Rightarrow> string \<Rightarrow> string
   \<Rightarrow> string list \<Rightarrow> bool \<Rightarrow> bool \<Rightarrow> string list" where
  "run_cc_argv getenv have cc tool opt out inputs object gc =
     (let push = (\<lambda>ws a. fold arg_push ws a);
          a0 = push [pick_tool getenv have tool, opt, ''-w'', ''-fno-strict-aliasing''] argv_empty;
          a1 = push (if object then [''-c''] else []) a0;
          a2 = push (if gc then [''-ffunction-sections'', ''-fdata-sections'']
                       @ (if \<not> object then [''-Wl,--gc-sections''] else []) else []) a1;
          a3 = arg_push_env getenv ''CFLAGS'' a2;
          a4 = push ([''-o'', out] @ inputs @ cf_ccflags cc) a3;
          a5 = (if \<not> object then arg_push ''-lm'' (arg_push_env getenv ''LDFLAGS'' a4) else a4);
          a6 = push (if cf_pic cc then [''-fPIC''] else []) a5;
          a7 = push (if cf_shared cc \<and> \<not> object then [''-shared''] else []) a6;
          a8 = push (if \<not> cf_stack_protector cc then [''-fno-stack-protector''] else []) a7;
          a9 = push (if \<not> cf_pic cc then [''-fno-pic'']
                       @ (if \<not> object \<and> \<not> cf_shared cc then [''-no-pie''] else []) else []) a8
      in av_v a9)"

lemma arg_push_words_v [simp]: "av_v (arg_push_words w a) = av_v a @ arg_words w"
  by (simp add: arg_push_words_def fold_arg_push_v)

lemma arg_push_env_v:
  "av_v (arg_push_env getenv name a) =
     av_v a @ (case getenv name of None \<Rightarrow> [] | Some w \<Rightarrow> arg_words w)"
  by (simp add: arg_push_env_def split: option.split)

section \<open>Properties\<close>

lemma push_all_spec:
  "length (d_cleanups cc) \<le> 8 \<Longrightarrow>
     (case push_all cs cc of
        Inr cc' \<Rightarrow> length (d_cleanups cc) + length cs \<le> 8
          \<and> d_cleanups cc' = rev cs @ d_cleanups cc \<and> d_ran cc' = d_ran cc
      | Inl (k, cc') \<Rightarrow> d_cleanups cc' = []
          \<and> (\<exists>n < length cs. length (d_cleanups cc) + n = 8
               \<and> d_ran cc' = d_ran cc @ cs ! n # rev (take n cs) @ d_cleanups cc))"
proof (induction cs arbitrary: cc)
  case (Cons c cs)
  show ?case
  proof (cases "length (d_cleanups cc) = 8")
    case True
    then show ?thesis
      by (auto simp: cleanup_push_def error_at_def halt_def cleanup_all_eq)
  next
    case False
    let ?cc = "cc\<lparr>d_cleanups := c # d_cleanups cc\<rparr>"
    have step: "push_all (c # cs) cc = push_all cs ?cc"
      using False by (simp add: cleanup_push_def)
    have len: "length (d_cleanups ?cc) \<le> 8" using False Cons.prems by simp
    show ?thesis
    proof (cases "push_all cs ?cc")
      case (Inr cc')
      with Cons.IH [OF len] step show ?thesis by auto
    next
      case (Inl p)
      obtain k cc' where p: "p = (k, cc')" by fastforce
      from Cons.IH [OF len] Inl p obtain n where n: "n < length cs"
          "length (d_cleanups cc) + Suc n = 8" "d_cleanups cc' = []"
          "d_ran cc' = d_ran cc @ cs ! n # rev (take n cs) @ c # d_cleanups cc"
        by auto
      then have "Suc n < length (c # cs) \<and> length (d_cleanups cc) + Suc n = 8
          \<and> d_ran cc' = d_ran cc @ (c # cs) ! Suc n # rev (take (Suc n) (c # cs)) @ d_cleanups cc"
        by simp
      with Inl p step n(3) show ?thesis by auto
    qed
  qed
qed simp

text \<open>C29: A diagnostic runs every pending cleanup exactly once, newest first. Starting with
  at most 8 pending cleanups, a run of \<open>cleanup_push\<close> calls either stays within the 8 slots, and
  then the next error runs all of them in reverse order; or the first push without a slot is
  itself turned into an error that runs the refused cleanup and all pending ones, and leaves
  nothing pending.\<close>

theorem cleanups_run_exactly_once:
  assumes "length (d_cleanups cc) \<le> 8"
  shows "case push_all cs cc of
      Inr cc' \<Rightarrow> length (d_cleanups cc) + length cs \<le> 8
        \<and> d_ran (snd (error_at t msg cc')) = d_ran cc @ rev cs @ d_cleanups cc
        \<and> d_cleanups (snd (error_at t msg cc')) = []
    | Inl (k, cc') \<Rightarrow> d_cleanups cc' = []
        \<and> (\<exists>n < length cs. length (d_cleanups cc) + n = 8
             \<and> d_ran cc' = d_ran cc @ cs ! n # rev (take n cs) @ d_cleanups cc)"
  using push_all_spec [OF assms, of cs] error_at_runs [of t msg]
  by (auto split: sum.splits) (metis append.assoc prod.collapse)+

theorem cleanups_run_exactly_once_witness:
  "let cc = \<lparr>d_error = [], d_stream = None, d_cleanups = [], d_ran = [], d_active = True\<rparr>
   in (\<exists>cc'. push_all [1, 2, 3] cc = Inr cc' \<and> d_ran (snd (error_at None ''x'' cc')) = [3, 2, 1])
      \<and> (\<exists>cc'. push_all [1 ..< 12] cc = Inl (LongJmp, cc') \<and> d_ran cc' = [9, 8, 7, 6, 5, 4, 3, 2, 1])"
  using cleanups_run_exactly_once
    [of "\<lparr>d_error = [], d_stream = None, d_cleanups = [], d_ran = [], d_active = True\<rparr>"
        "[1, 2, 3]" None "''x''"]
  by (simp add: cleanup_push_def error_at_def halt_def cleanup_all_eq upt_rec)

text \<open>\<open>arg_push_words\<close> splits a flag string the way a shell without quoting does: the
  words appended to the argument vector are non-empty, none holds a separator, together they
  hold every other byte of the string in order, and the words already there stay in front.\<close>

theorem arg_push_words_splits:
  "av_v (arg_push_words s a) = av_v a @ arg_words s
   \<and> list_all (\<lambda>w. w \<noteq> [] \<and> \<not> list_ex word_sep w) (arg_words s)
   \<and> concat (arg_words s) = filter (\<lambda>c. \<not> word_sep c) s"
  by (auto simp: list_all_iff list_ex_iff concat_arg_words dest: arg_words_words)

lemma read_loop_total:
  assumes "\<forall>k \<le> 2 ^ 62. can k" "length buf + length input < 2 ^ 59"
    "length buf + 2 \<le> cap" "cap \<le> max 65536 (2 * length buf + 2)"
  shows "read_loop can cap buf input = Inr (buf @ input)"
  using assms
proof (induction can cap buf input rule: read_loop.induct)
  case (1 can cap buf input)
  let ?chunk = "take (cap - length buf - 1) input"
  show ?case
  proof (cases "?chunk = []")
    case True
    then have "input = []" using 1(5) by auto
    then show ?thesis by (simp add: read_loop.simps [of can cap buf "[]"])
  next
    case False
    let ?buf = "buf @ ?chunk" and ?in = "drop (length ?chunk) input"
    have split: "?buf @ ?in = buf @ input" by (rule take_chunk)
    have len: "length ?buf + length ?in < 2 ^ 59" using 1(4) by simp
    show ?thesis
    proof (cases "cap - length ?buf < 2")
      case True
      have small: "cap * 2 \<le> 2 ^ 61" using 1(4,6) by (auto simp: max_def split: if_splits)
      then have ok: "\<not> cap > size_max div 2" "\<not> \<not> xmalloc_ok can (cap * 2)"
        using 1(3) by (auto simp: size_max_def xmalloc_ok_def alloc_header_def)
      have fits: "length ?buf + 2 \<le> cap * 2" "cap * 2 \<le> max 65536 (2 * length ?buf + 2)"
        using True 1(5) by auto
      have "read_loop can (cap * 2) ?buf ?in = Inr (?buf @ ?in)"
        using 1(1) [OF refl False refl refl True ok 1(3) len fits] .
      with False True ok split show ?thesis
        by (simp add: read_loop.simps [of can cap buf input] Let_def)
    next
      case f2: False
      have fits: "length ?buf + 2 \<le> cap" "cap \<le> max 65536 (2 * length ?buf + 2)"
        using f2 1(6) by auto
      have "read_loop can cap ?buf ?in = Inr (?buf @ ?in)"
        using 1(2) [OF refl False refl refl f2 1(3) len fits] .
      with False f2 split show ?thesis
        by (simp add: read_loop.simps [of can cap buf input] Let_def)
    qed
  qed
qed

text \<open>\<open>read_source\<close> returns exactly the bytes of the file. The doubling loop ends for
  every input, and an allocator that serves blocks of up to 2 to the 62 bytes is enough for every
  file below 2 to the 59 bytes: nothing is lost at a chunk boundary or when the buffer moves.\<close>

theorem read_source_total:
  assumes "\<forall>k \<le> 2 ^ 62. can k" "length bytes < 2 ^ 59"
  shows "read_source can (Some bytes) = Inr (Some bytes)"
  using assms read_loop_total [OF assms(1), of "[]" bytes "2 ^ 16"]
  by (simp add: read_source_def xmalloc_ok_def alloc_header_def size_max_def)

theorem read_source_total_witness: "read_source (\<lambda>_. True) (Some ''U0 Main(){}'') = Inr (Some ''U0 Main(){}'')"
  by (rule read_source_total) simp_all

end
