(* ===== verification/Tokens.thy ===== *)
theory Tokens
  imports Util
begin

text \<open>
  The token type of \<open>src/src/aholyc.h\<close> and the small predicates on it. A token chain
  (\<open>next\<close> pointers) is a list; its \<open>TK_EOF\<close> token is an element like any other, and the
  null \<open>next\<close> of the EOF token is the end of the list. The \<open>str\<close> of a token that has none
  is the empty list; \<open>fval\<close> keeps the characters handed to \<open>strtod\<close> in place of the
  rounded double, and the owning compiler is not stored.
\<close>

datatype token_kind =
    TK_EOF | TK_ID | TK_NUM | TK_FNUM | TK_STR | TK_CHR | TK_PUNCT | TK_KEYWORD | TK_TYPE

definition HINT_INLINE :: u32 where "HINT_INLINE = 1"
definition HINT_NOINLINE :: u32 where "HINT_NOINLINE = 2"
definition HINT_NONNULL :: u32 where "HINT_NONNULL = 4"

lemmas hint_defs = HINT_INLINE_def HINT_NOINLINE_def HINT_NONNULL_def

record lex_hints =
  lh_bits :: int
  lh_align :: int
  lh_attrs :: u32

definition no_hints :: lex_hints where
  "no_hints = \<lparr>lh_bits = 0, lh_align = 0, lh_attrs = 0\<rparr>"

record token =
  kind :: token_kind
  ival :: i64
  fval :: string
  str :: string
  len :: nat
  tfile :: string
  tline :: int
  at_bol :: bool
  has_space :: bool
  no_expand :: bool
  hint_bits :: int
  hint_align :: int
  hints :: u32

text \<open>A zeroed token of the tokenizer (\<open>new_token\<close>).\<close>

definition new_token :: "string \<Rightarrow> int \<Rightarrow> token_kind \<Rightarrow> token" where
  "new_token f n k =
     \<lparr>kind = k, ival = 0, fval = [], str = [], len = 0, tfile = f, tline = n,
      at_bol = False, has_space = False, no_expand = False,
      hint_bits = 0, hint_align = 0, hints = 0\<rparr>"

definition tok_is_word :: "token \<Rightarrow> bool" where
  "tok_is_word t \<longleftrightarrow> kind t = TK_ID \<or> kind t = TK_KEYWORD \<or> kind t = TK_TYPE"

definition tok_is :: "token \<Rightarrow> string \<Rightarrow> bool" where
  "tok_is t s \<longleftrightarrow> (tok_is_word t \<or> kind t = TK_PUNCT) \<and> str t = s"

text \<open>\<open>error_tok\<close> on a token.\<close>

definition err_tok :: "token \<Rightarrow> string \<Rightarrow> err" where
  "err_tok t msg = ErrTok (tfile t) (tline t) msg"

text \<open>\<open>token_join\<close>: append \<open>b\<close> after \<open>a\<close>, dropping the EOF of \<open>a\<close>. The C walks \<open>a\<close> to the
  token before its first EOF (or its last token) and relinks that one.\<close>

definition token_join :: "token list \<Rightarrow> token list \<Rightarrow> token list" where
  "token_join a b = takeWhile (\<lambda>t. kind t \<noteq> TK_EOF) a @ b"

text \<open>A finished chain: one EOF, and it is the last token.\<close>

definition eof_terminated :: "token list \<Rightarrow> bool" where
  "eof_terminated ts \<longleftrightarrow>
     ts \<noteq> [] \<and> kind (last ts) = TK_EOF \<and> (\<forall>t \<in> set (butlast ts). kind t \<noteq> TK_EOF)"

lemma eof_terminated_iff:
  "eof_terminated ts \<longleftrightarrow>
     (\<exists>us e. ts = us @ [e] \<and> kind e = TK_EOF \<and> (\<forall>t \<in> set us. kind t \<noteq> TK_EOF))"
  by (metis append_butlast_last_id butlast_snoc eof_terminated_def last_snoc snoc_eq_iff_butlast)

lemma token_join_eof:
  "eof_terminated a \<Longrightarrow> eof_terminated b \<Longrightarrow> eof_terminated (token_join a b)"
  by (auto simp: eof_terminated_iff token_join_def takeWhile_append)

lemma token_join_body:
  "\<forall>t \<in> set us. kind t \<noteq> TK_EOF \<Longrightarrow> kind e = TK_EOF \<Longrightarrow> token_join (us @ [e]) b = us @ b"
  by (auto simp: token_join_def takeWhile_append)

end
