(* ===== verification/Hints.thy ===== *)
theory Hints
  imports Tokens
begin

text \<open>
  \<open>src/src/lexhints.c\<close>: the \<open>@bits\<close>, \<open>@align\<close>, \<open>@inline\<close>, \<open>@noinline\<close>,
  \<open>@nonnull\<close> and build-flag annotations of comments, the pending hints they accumulate,
  and how a token or a macro expansion takes them over.
\<close>

section \<open>Scanning a comment\<close>

definition comment_space :: "char \<Rightarrow> bool" where
  "comment_space c \<longleftrightarrow> c = chr_sp \<or> c = chr_tab \<or> c = chr_cr \<or> c = chr_nl"

definition hint_ident_cont :: "char \<Rightarrow> bool" where
  "hint_ident_cont c \<longleftrightarrow> c = CHR ''_'' \<or> is_alpha c \<or> is_digit c"

definition skip_comment_space :: "string \<Rightarrow> string" where
  "skip_comment_space s = dropWhile comment_space s"

text \<open>The digit loops stop accumulating once past their limit, which keeps the \<open>int\<close> small.\<close>

definition sat_digits :: "int \<Rightarrow> string \<Rightarrow> int" where
  "sat_digits lim ds = fold (\<lambda>c a. if a \<le> lim then a * 10 + int (digit_val c) else a) ds 0"

record hint_env =
  he_use :: bool
  he_pkg :: "string \<Rightarrow> argv \<Rightarrow> argv res"

record hint_st =
  hs_pending :: lex_hints
  hs_flags :: argv

definition hint_err :: "string \<Rightarrow> int \<Rightarrow> string \<Rightarrow> err" where
  "hint_err fname ln msg = Err (fname @ '':'' @ dec_int ln @ '': '' @ msg)"

text \<open>A hint's value must end at a space, at another hint or at the end of the comment.\<close>

definition ends_hint :: "string \<Rightarrow> bool" where
  "ends_hint q \<longleftrightarrow> q = [] \<or> comment_space (hd q) \<or> hd q = CHR ''@''"

definition scan_align :: "string \<Rightarrow> int \<Rightarrow> string \<Rightarrow> hint_st \<Rightarrow> (hint_st \<times> string) res" where
  "scan_align fname ln q0 st =
     (let q1 = skip_comment_space q0;
          finish = (\<lambda>a q. if lh_align (hs_pending st) \<noteq> 0
            then Inl (hint_err fname ln ''duplicate @align hint before declaration'')
            else Inr (st\<lparr>hs_pending := (hs_pending st)\<lparr>lh_align := a\<rparr>\<rparr>, q))
      in if q1 \<noteq> [] \<and> hd q1 = CHR ''=''
         then
           (let q2 = skip_comment_space (tl q1);
                a = sat_digits 0x100000 (takeWhile is_digit q2);
                q3 = dropWhile is_digit q2
            in if a < 1 \<or> a > 0x100000 \<or> a AND (a - 1) \<noteq> 0
               then Inl (hint_err fname ln ''@align must be a power of two'')
               else if \<not> ends_hint q3 then Inl (hint_err fname ln ''malformed @align hint'')
               else finish a q3)
         else finish (-1) q1)"

definition scan_attr :: "string \<Rightarrow> int \<Rightarrow> u32 \<Rightarrow> string \<Rightarrow> hint_st \<Rightarrow> (hint_st \<times> string) res" where
  "scan_attr fname ln hint q st =
     (let attrs = lh_attrs (hs_pending st); fn = HINT_INLINE OR HINT_NOINLINE
      in if attrs AND hint \<noteq> 0 \<or> (hint AND fn \<noteq> 0 \<and> attrs AND fn \<noteq> 0)
         then Inl (hint_err fname ln ''duplicate or conflicting hint before declaration'')
         else Inr (st\<lparr>hs_pending := (hs_pending st)\<lparr>lh_attrs := attrs OR hint\<rparr>\<rparr>, q))"

definition scan_flags ::
  "hint_env \<Rightarrow> string \<Rightarrow> int \<Rightarrow> string \<Rightarrow> string \<Rightarrow> hint_st \<Rightarrow> (hint_st \<times> string) res" where
  "scan_flags he fname ln word q0 st =
     (let q1 = skip_comment_space q0; pkg = (word = ''pkgconfig'')
      in if q1 = [] \<or> hd q1 \<noteq> CHR ''=''
         then Inl (hint_err fname ln (''malformed @'' @ word @ '' hint (expected =''
           @ (if pkg then ''name'' else ''flags'') @ '')''))
         else
           (let w = tl q1; eol = (\<lambda>c. c = chr_nl \<or> c = chr_cr);
                rest = takeWhile (\<lambda>c. \<not> eol c) w; q = dropWhile (\<lambda>c. \<not> eol c) w
            in if pkg
               then rbind (he_pkg he rest (hs_flags st)) (\<lambda>fl. Inr (st\<lparr>hs_flags := fl\<rparr>, q))
               else Inr (st\<lparr>hs_flags := arg_push_words rest (hs_flags st)\<rparr>, q)))"

definition scan_bits :: "string \<Rightarrow> int \<Rightarrow> string \<Rightarrow> hint_st \<Rightarrow> (hint_st \<times> string) res" where
  "scan_bits fname ln q0 st =
     (let bad = Inl (hint_err fname ln ''malformed @bits hint (expected @bits=N)'');
          q1 = skip_comment_space q0
      in if q1 = [] \<or> hd q1 \<noteq> CHR ''='' then bad
         else
           (let q2 = skip_comment_space (tl q1)
            in if q2 = [] \<or> \<not> is_digit (hd q2) then bad
               else
                 (let width = sat_digits 128 (takeWhile is_digit q2); q3 = dropWhile is_digit q2
                  in if \<not> ends_hint q3 then bad
                     else if width < 1 \<or> width > 128
                       then Inl (hint_err fname ln ''@bits width must be between 1 and 128'')
                     else if lh_bits (hs_pending st) \<noteq> 0
                       then Inl (hint_err fname ln ''duplicate @bits hint before declaration'')
                     else Inr (st\<lparr>hs_pending := (hs_pending st)\<lparr>lh_bits := width\<rparr>\<rparr>, q3))))"

definition attr_of_word :: "string \<Rightarrow> u32" where
  "attr_of_word w =
     (if w = ''inline'' then HINT_INLINE
      else if w = ''noinline'' then HINT_NOINLINE
      else if w = ''nonnull'' then HINT_NONNULL else 0)"

text \<open>What happens at an \<open>@\<close>: \<open>cs\<close> is the text after it, the second component of the
  result the text the loop goes on with.\<close>

definition hint_step ::
  "hint_env \<Rightarrow> string \<Rightarrow> int \<Rightarrow> string \<Rightarrow> hint_st \<Rightarrow> (hint_st \<times> string) res" where
  "hint_step he fname ln cs st =
     (let word = takeWhile hint_ident_cont cs; q = dropWhile hint_ident_cont cs
      in if word = ''align'' then scan_align fname ln q st
         else if attr_of_word word \<noteq> 0 then scan_attr fname ln (attr_of_word word) q st
         else if word = ''pkgconfig'' \<or> word = ''cflags'' \<or> word = ''ldflags''
           then scan_flags he fname ln word q st
         else if word \<noteq> ''bits'' then Inr (st, cs)
         else scan_bits fname ln q st)"

lemma length_dropWhile_trans: "length xs \<le> n \<Longrightarrow> length (dropWhile P xs) \<le> n"
  using length_dropWhile_le le_trans by blast

lemma length_tl_trans: "length xs \<le> n \<Longrightarrow> length (tl xs) \<le> n"
  by simp

lemmas suffix_bounds = length_dropWhile_trans length_tl_trans

lemma hint_step_shorter:
  "hint_step he fname ln cs st = Inr (st', r) \<Longrightarrow> length r \<le> length cs"
  by (auto simp: hint_step_def scan_align_def scan_attr_def scan_flags_def scan_bits_def
      skip_comment_space_def Let_def rbind_eq_Inr split: if_splits
      intro!: suffix_bounds)

function scan_hints :: "hint_env \<Rightarrow> string \<Rightarrow> int \<Rightarrow> string \<Rightarrow> hint_st \<Rightarrow> hint_st res" where
  "scan_hints he fname ln [] st = Inr st"
| "scan_hints he fname ln (c # cs) st =
     (if c \<noteq> CHR ''@'' then scan_hints he fname ln cs st
      else rbind (hint_step he fname ln cs st) (\<lambda>(st', r). scan_hints he fname ln r st'))"
  by pat_completeness auto
termination
  by (relation "measure (\<lambda>(he, fname, ln, cs, st). length cs)")
     (auto dest!: hint_step_shorter)

definition lex_hints_scan_comment ::
  "hint_env \<Rightarrow> string \<Rightarrow> int \<Rightarrow> string \<Rightarrow> hint_st \<Rightarrow> hint_st res" where
  "lex_hints_scan_comment he fname ln comment st =
     (if \<not> he_use he then Inr st else scan_hints he fname ln comment st)"

section \<open>Attaching hints to tokens\<close>

definition lex_hints_apply :: "lex_hints \<Rightarrow> token \<Rightarrow> lex_hints \<times> token" where
  "lex_hints_apply p t =
     (let (p1, t1) = (if lh_bits p \<noteq> 0 then (p\<lparr>lh_bits := 0\<rparr>, t\<lparr>hint_bits := lh_bits p\<rparr>) else (p, t));
          (p2, t2) = (if lh_align p1 \<noteq> 0
            then (p1\<lparr>lh_align := 0\<rparr>, t1\<lparr>hint_align := lh_align p1\<rparr>) else (p1, t1))
      in if lh_attrs p2 \<noteq> 0 then (p2\<lparr>lh_attrs := 0\<rparr>, t2\<lparr>hints := lh_attrs p2\<rparr>) else (p2, t2))"

definition lex_hints_inherit :: "token \<Rightarrow> token \<Rightarrow> token res" where
  "lex_hints_inherit src dst =
     rbind (if hint_bits src \<noteq> 0
            then (if hint_bits dst \<noteq> 0 then Inl (err_tok src ''duplicate @bits hint on declaration'')
                  else Inr (dst\<lparr>hint_bits := hint_bits src\<rparr>))
            else Inr dst) (\<lambda>d1.
     rbind (if hint_align src \<noteq> 0
            then (if hint_align d1 \<noteq> 0 then Inl (err_tok src ''duplicate @align hint on declaration'')
                  else Inr (d1\<lparr>hint_align := hint_align src\<rparr>))
            else Inr d1) (\<lambda>d2.
     if hints src \<noteq> 0
     then (let funcs = HINT_INLINE OR HINT_NOINLINE
           in if hints src AND funcs \<noteq> 0 \<and> hints d2 AND funcs \<noteq> 0
              then Inl (err_tok src ''duplicate hint on declaration'')
              else Inr (d2\<lparr>hints := hints d2 OR hints src\<rparr>))
     else Inr d2))"

section \<open>Well-formed hints\<close>

definition align_ok :: "int \<Rightarrow> bool" where
  "align_ok a \<longleftrightarrow> a = 0 \<or> a = -1 \<or> (\<exists>k. k \<le> 20 \<and> a = 2 ^ k)"

definition attrs_ok :: "u32 \<Rightarrow> bool" where
  "attrs_ok w \<longleftrightarrow> \<not> (w AND HINT_INLINE \<noteq> 0 \<and> w AND HINT_NOINLINE \<noteq> 0) \<and> w \<le> 7"

definition hints_ok :: "lex_hints \<Rightarrow> bool" where
  "hints_ok p \<longleftrightarrow> 0 \<le> lh_bits p \<and> lh_bits p \<le> 128 \<and> align_ok (lh_align p) \<and> attrs_ok (lh_attrs p)"

definition token_hints_ok :: "token \<Rightarrow> bool" where
  "token_hints_ok t \<longleftrightarrow>
     0 \<le> hint_bits t \<and> hint_bits t \<le> 128 \<and> align_ok (hint_align t) \<and> attrs_ok (hints t)"

lemma no_hints_ok [simp]: "hints_ok no_hints"
  by (simp add: hints_ok_def no_hints_def align_ok_def attrs_ok_def)

lemma pow2_and:
  fixes a :: int
  assumes "0 < a" "a AND (a - 1) = 0"
  shows "\<exists>k. a = 2 ^ k"
  using assms
proof (induction "nat a" arbitrary: a rule: less_induct)
  case less
  show ?case
  proof (cases "even a")
    case True
    then obtain b where b: "a = 2 * b" by blast
    with less.prems have "0 < b" by simp
    have "(a - 1) div 2 = b - 1" using b by simp
    moreover have "a AND (a - 1) = 2 * ((a div 2) AND ((a - 1) div 2))"
      using True by (subst and_rec) simp
    ultimately have "b AND (b - 1) = 0" using less.prems(2) b by simp
    then obtain k where "b = 2 ^ k" using less.hyps [of b] \<open>0 < b\<close> b by auto
    with b show ?thesis by (metis power_Suc)
  next
    case False
    have "a AND (a - 1) = 2 * ((a div 2) AND ((a - 1) div 2))"
      using False by (subst and_rec) simp
    moreover have "(a - 1) div 2 = a div 2" using False by presburger
    ultimately have "a div 2 = 0" using less.prems(2) by simp
    with less.prems(1) False have "a = 1" by presburger
    then show ?thesis by (metis power_0)
  qed
qed

lemma align_ok_checked: "\<not> a < 1 \<Longrightarrow> \<not> a > 0x100000 \<Longrightarrow> a AND (a - 1) = 0 \<Longrightarrow> align_ok a"
proof -
  assume a: "\<not> a < 1" "\<not> a > 0x100000" "a AND (a - 1) = 0"
  then obtain k where k: "a = 2 ^ k" using pow2_and [of a] by auto
  with a(2) have "(2::int) ^ k \<le> 2 ^ 20" by simp
  then have "k \<le> 20" using power_le_imp_le_exp [of "2::int" k 20] by simp
  with k show ?thesis by (auto simp: align_ok_def)
qed

lemma attr_of_word_cases:
  "attr_of_word w \<noteq> 0 \<Longrightarrow> attr_of_word w \<in> {HINT_INLINE, HINT_NOINLINE, HINT_NONNULL}"
  by (auto simp: attr_of_word_def split: if_splits)

lemma hint_masks [simp]:
  "HINT_INLINE OR HINT_NOINLINE = 3" "(1::u32) AND 3 = 1" "(2::u32) AND 3 = 2" "(4::u32) AND 3 = 0"
  by (simp_all add: hint_defs)

text \<open>Every attribute word a hint can produce: at most one of the two function hints.\<close>

lemma attrs_ok_iff: "attrs_ok w \<longleftrightarrow> w \<in> {0, 1, 2, 4, 5, 6}"
proof
  assume ok: "attrs_ok w"
  then have "w \<le> 7" by (simp add: attrs_ok_def)
  then have "unat w \<le> 7" by (simp add: word_le_nat_alt)
  then have "unat w = 0 \<or> unat w = 1 \<or> unat w = 2 \<or> unat w = 3 \<or> unat w = 4 \<or> unat w = 5
      \<or> unat w = 6 \<or> unat w = 7"
    by arith
  then have "w = 0 \<or> w = 1 \<or> w = 2 \<or> w = 3 \<or> w = 4 \<or> w = 5 \<or> w = 6 \<or> w = 7"
    by (simp add: word_unat_eq_iff)
  with ok show "w \<in> {0, 1, 2, 4, 5, 6}" by (auto simp: attrs_ok_def hint_defs)
qed (auto simp: attrs_ok_def hint_defs)

lemma attrs_ok_or:
  "attrs_ok a \<Longrightarrow> h \<in> {HINT_INLINE, HINT_NOINLINE, HINT_NONNULL} \<Longrightarrow>
     \<not> (a AND h \<noteq> 0 \<or> (h AND 3 \<noteq> 0 \<and> a AND 3 \<noteq> 0)) \<Longrightarrow> attrs_ok (a OR h)"
  by (auto simp: attrs_ok_iff hint_defs)

lemma attrs_ok_join:
  "attrs_ok a \<Longrightarrow> attrs_ok b \<Longrightarrow> a AND 3 = 0 \<or> b AND 3 = 0 \<Longrightarrow> attrs_ok (a OR b)"
  unfolding attrs_ok_iff by (elim insertE emptyE disjE; simp)

lemma hint_step_ok:
  "hint_step he fname ln cs st = Inr (st', r) \<Longrightarrow> hints_ok (hs_pending st) \<Longrightarrow> hints_ok (hs_pending st')"
  by (auto simp: hint_step_def scan_align_def scan_attr_def scan_flags_def scan_bits_def hints_ok_def
      Let_def rbind_eq_Inr align_ok_checked align_ok_def [of "-1"]
      split: if_splits dest!: attr_of_word_cases intro: attrs_ok_or)

lemma scan_hints_ok:
  "scan_hints he fname ln cs st = Inr st' \<Longrightarrow> hints_ok (hs_pending st) \<Longrightarrow> hints_ok (hs_pending st')"
  by (induction he fname ln cs st rule: scan_hints.induct)
     (fastforce simp: rbind_eq_Inr dest: hint_step_ok split: if_splits)+

lemma scan_comment_ok:
  "lex_hints_scan_comment he fname ln cs st = Inr st' \<Longrightarrow> hints_ok (hs_pending st) \<Longrightarrow>
     hints_ok (hs_pending st')"
  by (auto simp: lex_hints_scan_comment_def dest: scan_hints_ok split: if_splits)

lemma apply_hints_ok:
  "lex_hints_apply p t = (p', t') \<Longrightarrow> hints_ok p \<Longrightarrow> token_hints_ok t \<Longrightarrow>
     token_hints_ok t' \<and> p' = no_hints"
  by (cases p) (auto simp: lex_hints_apply_def hints_ok_def token_hints_ok_def no_hints_def Let_def
      split: if_splits)

lemma apply_hints_frame:
  "lex_hints_apply p t = (p', t') \<Longrightarrow>
     kind t' = kind t \<and> ival t' = ival t \<and> fval t' = fval t \<and> str t' = str t \<and> len t' = len t
     \<and> tfile t' = tfile t \<and> tline t' = tline t \<and> no_expand t' = no_expand t
     \<and> at_bol t' = at_bol t \<and> has_space t' = has_space t"
  by (auto simp: lex_hints_apply_def Let_def split: if_splits)

lemma apply_no_hints [simp]: "lex_hints_apply no_hints t = (no_hints, t)"
  by (simp add: lex_hints_apply_def no_hints_def)

lemma inherit_ok:
  "lex_hints_inherit src dst = Inr d \<Longrightarrow> token_hints_ok src \<Longrightarrow> token_hints_ok dst \<Longrightarrow> token_hints_ok d"
  by (auto simp: lex_hints_inherit_def token_hints_ok_def rbind_eq_Inr Let_def
      split: if_splits intro: attrs_ok_join)

lemma inherit_frame:
  "lex_hints_inherit src dst = Inr d \<Longrightarrow>
     kind d = kind dst \<and> ival d = ival dst \<and> str d = str dst \<and> tfile d = tfile dst \<and> tline d = tline dst
     \<and> at_bol d = at_bol dst \<and> no_expand d = no_expand dst"
  by (auto simp: lex_hints_inherit_def rbind_eq_Inr Let_def split: if_splits)

text \<open>The accumulators never leave the range of a 32-bit \<open>int\<close>.\<close>

lemma sat_fold_bound:
  assumes "list_all is_digit ds" "0 \<le> a" "a \<le> 10 * lim + 9" "0 \<le> lim"
  shows "0 \<le> fold (\<lambda>c a. if a \<le> lim then a * 10 + int (digit_val c) else a) ds a \<and>
    fold (\<lambda>c a. if a \<le> lim then a * 10 + int (digit_val c) else a) ds a \<le> 10 * lim + 9"
  using assms
proof (induction ds arbitrary: a)
  case (Cons d ds)
  then have "digit_val d < 10" using digit_val_less by simp
  with Cons show ?case by simp
qed simp

lemma sat_digits_bound:
  "list_all is_digit ds \<Longrightarrow> 0 \<le> lim \<Longrightarrow> 0 \<le> sat_digits lim ds \<and> sat_digits lim ds \<le> 10 * lim + 9"
  using sat_fold_bound [of ds 0 lim] by (simp add: sat_digits_def)

end
