(* ===== verification/Lexer.thy ===== *)
theory Lexer
  imports Hints
begin

text \<open>
  \<open>src/src/lex.c\<close>: the tokenizer. Each scanner takes the text still to be read and returns
  what it recognised with the text after it; \<open>lex_step\<close> is one iteration of the loop of
  \<open>tokenize\<close>. The loop is total: every iteration consumes at least one character.
\<close>

section \<open>Words\<close>

definition ident_start :: "char \<Rightarrow> bool" where
  "ident_start c \<longleftrightarrow> is_alpha c \<or> c = CHR ''_''"

definition ident_cont :: "char \<Rightarrow> bool" where
  "ident_cont c \<longleftrightarrow> ident_start c \<or> is_digit c"

definition type_words :: "string list" where
  "type_words =
     [''U0'', ''I8'', ''U8'', ''I16'', ''U16'', ''I32'', ''U32'', ''I64'', ''U64'', ''F64'']"

definition keyword_words :: "string list" where
  "keyword_words =
     [''_extern'', ''_import'', ''argpop'', ''asm'', ''break'', ''case'', ''catch'',
      ''class'', ''continue'', ''default'', ''do'', ''else'', ''extern'', ''for'',
      ''goto'', ''haserrcode'', ''if'', ''import'', ''interrupt'', ''lastclass'',
      ''lock'', ''no_warn'', ''noargpop'', ''public'', ''return'', ''sizeof'',
      ''switch'', ''try'', ''union'', ''while'']"

definition word_in :: "string \<Rightarrow> string list \<Rightarrow> bool" where
  "word_in s words \<longleftrightarrow> list_ex (\<lambda>w. s = w) words"

definition word_kind :: "string \<Rightarrow> token_kind" where
  "word_kind s =
     (if word_in s type_words then TK_TYPE
      else if word_in s keyword_words then TK_KEYWORD else TK_ID)"

definition lex_is_identifier :: "string option \<Rightarrow> bool" where
  "lex_is_identifier so =
     (case so of
        None \<Rightarrow> False
      | Some s \<Rightarrow>
          s \<noteq> [] \<and> ident_start (hd s) \<and> dropWhile ident_cont (tl s) = [] \<and> word_kind s = TK_ID)"

section \<open>Escapes and numbers\<close>

definition hexval :: "char \<Rightarrow> int" where
  "hexval c =
     (if is_digit c then int (of_char c) - 48
      else if CHR ''a'' \<le> c \<and> c \<le> CHR ''f'' then int (of_char c) - 97 + 10
      else if CHR ''A'' \<le> c \<and> c \<le> CHR ''F'' then int (of_char c) - 65 + 10
      else -1)"

definition is_hex :: "char \<Rightarrow> bool" where
  "is_hex c \<longleftrightarrow> hexval c \<ge> 0"

text \<open>The text is what follows the backslash. At its end the C reads the terminator as the
  escaped character and steps over it; the next read is out of bounds.\<close>

definition read_escape :: "string \<Rightarrow> (u32 \<times> string) res" where
  "read_escape s =
     (case s of
        [] \<Rightarrow> Inl Overrun
      | c # p \<Rightarrow>
          (if c = CHR ''n'' then Inr (10, p)
           else if c = CHR ''t'' then Inr (9, p)
           else if c = CHR ''r'' then Inr (13, p)
           else if c = CHR ''a'' then Inr (7, p)
           else if c = CHR ''b'' then Inr (8, p)
           else if c = CHR ''f'' then Inr (12, p)
           else if c = CHR ''v'' then Inr (11, p)
           else if c = CHR ''0'' then Inr (0, p)
           else if c = CHR ''x'' then
             Inr (fold (\<lambda>h v. v * 16 + word_of_int (hexval h)) (takeWhile is_hex p) 0,
                  dropWhile is_hex p)
           else Inr (of_nat (of_char c), p)))"

text \<open>\<open>strtoull\<close> in base 10 saturates.\<close>

definition strtoull10 :: "string \<Rightarrow> i64" where
  "strtoull10 ds = of_nat (min (dec_value ds) size_max)"

definition hex_or_sep :: "char \<Rightarrow> bool" where
  "hex_or_sep c \<longleftrightarrow> is_hex c \<or> c = CHR ''_''"

definition bin_or_sep :: "char \<Rightarrow> bool" where
  "bin_or_sep c \<longleftrightarrow> c = CHR ''0'' \<or> c = CHR ''1'' \<or> c = CHR ''_''"

definition scan_radix :: "i64 \<Rightarrow> string \<Rightarrow> i64" where
  "scan_radix base ds =
     fold (\<lambda>c v. if c \<noteq> CHR ''_'' then v * base + word_of_int (hexval c) else v) ds 0"

definition starts_digit :: "string \<Rightarrow> bool" where
  "starts_digit s \<longleftrightarrow> s \<noteq> [] \<and> is_digit (hd s)"

definition starts_number :: "string \<Rightarrow> bool" where
  "starts_number s \<longleftrightarrow>
     starts_digit s \<or> (s \<noteq> [] \<and> hd s = CHR ''.'' \<and> starts_digit (tl s))"

definition scan_fraction :: "string \<Rightarrow> bool \<times> string" where
  "scan_fraction p =
     (if p \<noteq> [] \<and> hd p = CHR ''.'' \<and> starts_digit (tl p)
      then (True, dropWhile is_digit (tl p)) else (False, p))"

definition scan_exponent :: "string \<Rightarrow> bool \<times> string" where
  "scan_exponent p =
     (if p \<noteq> [] \<and> (hd p = CHR ''e'' \<or> hd p = CHR ''E'')
      then
        (let q = tl p; q1 = (if q \<noteq> [] \<and> (hd q = CHR ''+'' \<or> hd q = CHR ''-'') then tl q else q)
         in if starts_digit q1 then (True, dropWhile is_digit q1) else (False, p))
      else (False, p))"

definition scan_number :: "string \<Rightarrow> int \<Rightarrow> string \<Rightarrow> token \<times> string" where
  "scan_number fname ln s =
     (if prefix ''0x'' s \<or> prefix ''0X'' s
      then (let p = drop 2 s
            in ((new_token fname ln TK_NUM)\<lparr>ival := scan_radix 16 (takeWhile hex_or_sep p)\<rparr>,
                dropWhile hex_or_sep p))
      else if prefix ''0b'' s \<or> prefix ''0B'' s
      then (let p = drop 2 s
            in ((new_token fname ln TK_NUM)\<lparr>ival := scan_radix 2 (takeWhile bin_or_sep p)\<rparr>,
                dropWhile bin_or_sep p))
      else
        (let ds = takeWhile is_digit s;
             (f1, p1) = scan_fraction (dropWhile is_digit s);
             (f2, p2) = scan_exponent p1
         in if f1 \<or> f2
            then ((new_token fname ln TK_FNUM)\<lparr>fval := take (length s - length p2) s\<rparr>, p2)
            else ((new_token fname ln TK_NUM)\<lparr>ival := strtoull10 ds\<rparr>, p2)))"

section \<open>Literals\<close>

lemma read_escape_shorter: "read_escape s = Inr (v, r) \<Longrightarrow> length r < length s"
  by (auto simp: read_escape_def split: list.splits if_splits)

definition lex_err :: "string \<Rightarrow> int \<Rightarrow> string \<Rightarrow> err" where
  "lex_err fname ln msg = Err (fname @ '':'' @ dec_int ln @ '': '' @ msg)"

text \<open>The decoded bytes, the line after the literal and the text after the closing quote.\<close>

function scan_str :: "string \<Rightarrow> int \<Rightarrow> string \<Rightarrow> (string \<times> int \<times> string) res" where
  "scan_str fname ln [] = Inl (lex_err fname ln ''unterminated string'')"
| "scan_str fname ln (c # cs) =
     (if c = chr_dq then Inr ([], ln, cs)
      else if c = chr_bs
        then rbind (read_escape cs) (\<lambda>(v, r).
             rbind (scan_str fname ln r) (\<lambda>(b, l, r'). Inr (char_of (unat v) # b, l, r')))
      else rbind (scan_str fname (if c = chr_nl then ln + 1 else ln) cs)
             (\<lambda>(b, l, r'). Inr (c # b, l, r')))"
  by pat_completeness auto
termination
  by (relation "measure (\<lambda>(fname, ln, s). length s)") (auto dest!: read_escape_shorter)

text \<open>\<open>v\<close> and \<open>n\<close> are the packed value and the number of characters so far.\<close>

function scan_chr :: "string \<Rightarrow> int \<Rightarrow> i64 \<Rightarrow> nat \<Rightarrow> string \<Rightarrow> (i64 \<times> nat \<times> string) res" where
  "scan_chr fname ln v n [] = Inl (lex_err fname ln ''unterminated char constant'')"
| "scan_chr fname ln v n (c # cs) =
     (if c = chr_sq then Inr (v, n, cs)
      else
        rbind (if c = chr_bs then read_escape cs else Inr (of_nat (of_char c), cs)) (\<lambda>(x, r).
          scan_chr fname ln
            (if n < 8 then v OR push_bit (8 * n) (ucast (x AND 0xff)) else v) (n + 1) r))"
  by pat_completeness auto
termination
  by (relation "measure (\<lambda>(fname, ln, v, n, s). length s)")
     (auto dest!: read_escape_shorter split: if_splits)

definition puncts :: "string list" where
  "puncts =
     [''<<='', ''>>='', ''...'',
      ''=='', ''!='', ''<='', ''>='', ''&&'', ''||'', ''^^'', ''<<'', ''>>'',
      ''+='', ''-='', ''*='', ''/='', ''%='', ''&='', ''|='', ''^='', ''++'', ''--'', ''->'', ''$$'',
      ''+'', ''-'', ''*'', ''/'', ''%'', ''&'', ''|'', ''^'', ''~'', ''!'', ''<'', ''>'', ''='',
      ''('', '')'', ''{'', ''}'', ''['', '']'', '','', '';'', '':'', ''.'', ''`'', ''#'', ''?'',
      ''@'', ''$'']"

definition find_punct :: "string \<Rightarrow> string option" where
  "find_punct s = find (\<lambda>p. prefix p s) puncts"

definition hex_digit :: "nat \<Rightarrow> char" where
  "hex_digit n = (if n < 10 then char_of (48 + n) else char_of (87 + n))"

definition stray_msg :: "char \<Rightarrow> string" where
  "stray_msg c = ''stray character '' @ [chr_sq, c, chr_sq] @ '' (0x''
     @ [hex_digit (of_char c div 16), hex_digit (of_char c mod 16)] @ '')''"

text \<open>One token: the token, the line after it and the text after it. A string literal may
  span lines, and its token carries the line it ends on.\<close>

definition scan_token :: "string \<Rightarrow> int \<Rightarrow> string \<Rightarrow> (token \<times> int \<times> string) res" where
  "scan_token fname ln s =
     (if ident_start (hd s)
      then (let w = takeWhile ident_cont s
            in Inr ((new_token fname ln (word_kind w))\<lparr>str := w, len := length w\<rparr>, ln,
                    dropWhile ident_cont s))
      else if starts_number s
      then (let (t, r) = scan_number fname ln s in Inr (t, ln, r))
      else if hd s = chr_dq
      then rbind (scan_str fname ln (tl s)) (\<lambda>(b, l, r).
             Inr ((new_token fname l TK_STR)\<lparr>str := b, len := length b\<rparr>, l, r))
      else if hd s = chr_sq
      then rbind (scan_chr fname ln 0 0 (tl s)) (\<lambda>(v, n, r).
             Inr ((new_token fname ln TK_CHR)\<lparr>ival := v, len := n\<rparr>, ln, r))
      else
        (case find_punct s of
           Some p \<Rightarrow> Inr ((new_token fname ln TK_PUNCT)\<lparr>str := p, len := length p\<rparr>, ln, drop (length p) s)
         | None \<Rightarrow> Inl (lex_err fname ln (stray_msg (hd s)))))"

section \<open>The tokenizer loop\<close>

record lexst =
  lx_line :: int
  lx_bol :: bool
  lx_space :: bool
  lx_hint :: hint_st
  lx_out :: "token list"

text \<open>The text of a block comment, and what follows from its \<open>*/\<close> on.\<close>

fun block_split :: "string \<Rightarrow> string \<times> string" where
  "block_split [] = ([], [])"
| "block_split [a] = ([a], [])"
| "block_split (a # b # r) =
     (if a = CHR ''*'' \<and> b = CHR ''/'' then ([], a # b # r)
      else (let (x, y) = block_split (b # r) in (a # x, y)))"

definition count_nl :: "string \<Rightarrow> int" where
  "count_nl s = int (length (filter (\<lambda>c. c = chr_nl) s))"

definition lex_step :: "hint_env \<Rightarrow> string \<Rightarrow> string \<Rightarrow> lexst \<Rightarrow> (string \<times> lexst) res" where
  "lex_step he fname s st =
     (if hd s = chr_nl
      then Inr (tl s, st\<lparr>lx_line := lx_line st + 1, lx_bol := True, lx_space := False\<rparr>)
      else if hd s = chr_sp \<or> hd s = chr_tab \<or> hd s = chr_cr
      then Inr (tl s, st\<lparr>lx_space := True\<rparr>)
      else if prefix ''//'' s
      then (let start = drop 2 s
            in rbind (lex_hints_scan_comment he fname (lx_line st)
                   (takeWhile (\<lambda>c. c \<noteq> chr_nl) start) (lx_hint st)) (\<lambda>h.
               Inr (dropWhile (\<lambda>c. c \<noteq> chr_nl) start, st\<lparr>lx_hint := h\<rparr>)))
      else if prefix ''/*'' s
      then (let (body, r) = block_split (drop 2 s)
            in rbind (lex_hints_scan_comment he fname (lx_line st) body (lx_hint st)) (\<lambda>h.
               Inr (drop 2 r,
                    st\<lparr>lx_line := lx_line st + count_nl body, lx_hint := h, lx_space := True\<rparr>)))
      else
        rbind (scan_token fname (lx_line st) s) (\<lambda>(t, ln, r).
          (let (p, t') = lex_hints_apply (hs_pending (lx_hint st)) t
           in Inr (r, st\<lparr>lx_line := ln, lx_bol := False, lx_space := False,
                         lx_hint := (lx_hint st)\<lparr>hs_pending := p\<rparr>,
                         lx_out := t'\<lparr>at_bol := lx_bol st, has_space := lx_space st\<rparr> # lx_out st\<rparr>))))"

lemma block_split_append: "block_split s = (x, y) \<Longrightarrow> s = x @ y"
  by (induction s arbitrary: x y rule: block_split.induct) (auto split: if_splits prod.splits)

lemma puncts_nonempty: "p \<in> set puncts \<Longrightarrow> p \<noteq> []"
  by (auto simp: puncts_def)

lemma find_punct_Some: "find_punct s = Some p \<Longrightarrow> p \<in> set puncts \<and> prefix p s"
  by (auto simp: find_punct_def find_Some_iff)

lemma scan_fraction_le: "scan_fraction p = (b, r) \<Longrightarrow> length r \<le> length p"
  by (auto simp: scan_fraction_def split: if_splits intro!: suffix_bounds)

lemma scan_exponent_le: "scan_exponent p = (b, r) \<Longrightarrow> length r \<le> length p"
  by (auto simp: scan_exponent_def Let_def split: if_splits intro!: suffix_bounds)

lemma fraction_progress:
  "\<not> starts_digit s \<Longrightarrow> starts_number s \<Longrightarrow> scan_fraction s = (b, r) \<Longrightarrow> length r < length s"
  by (cases s) (auto simp: starts_number_def starts_digit_def scan_fraction_def)

lemma scan_number_shorter:
  assumes "starts_number s" "scan_number fname ln s = (t, r)"
  shows "length r < length s"
proof -
  consider "prefix ''0x'' s \<or> prefix ''0X'' s \<or> prefix ''0b'' s \<or> prefix ''0B'' s"
    | "\<not> (prefix ''0x'' s \<or> prefix ''0X'' s \<or> prefix ''0b'' s \<or> prefix ''0B'' s)" by blast
  then show ?thesis
  proof cases
    case 1
    then have "2 \<le> length s" by (auto simp: prefix_def)
    moreover have "length r \<le> length (drop 2 s)"
      using 1 assms(2) by (auto simp: scan_number_def Let_def split: if_splits intro!: length_dropWhile_trans)
    ultimately show ?thesis by simp
  next
    case 2
    obtain f1 p1 where f: "scan_fraction (dropWhile is_digit s) = (f1, p1)" by fastforce
    obtain f2 p2 where e: "scan_exponent p1 = (f2, p2)" by fastforce
    from 2 f e assms(2) have r: "r = p2" by (auto simp: scan_number_def Let_def split: if_splits)
    have le: "length r \<le> length p1" using e r scan_exponent_le by blast
    show ?thesis
    proof (cases "starts_digit s")
      case True
      then have "length (dropWhile is_digit s) < length s"
        by (intro length_dropWhile_lt) (auto simp: starts_digit_def)
      with le scan_fraction_le [OF f] show ?thesis by simp
    next
      case False
      then have "dropWhile is_digit s = s" by (cases s) (auto simp: starts_digit_def)
      with f False assms(1) have "length p1 < length s" using fraction_progress by metis
      with le show ?thesis by simp
    qed
  qed
qed

lemma scan_str_shorter: "scan_str fname ln s = Inr (b, l, r) \<Longrightarrow> length r < length s"
  by (induction fname ln s arbitrary: b l r rule: scan_str.induct)
     (fastforce simp: rbind_eq_Inr dest: read_escape_shorter split: if_splits)+

lemma scan_chr_shorter: "scan_chr fname ln v n s = Inr (b, l, r) \<Longrightarrow> length r < length s"
proof (induction fname ln v n s arbitrary: b l r rule: scan_chr.induct)
  case (2 fname ln v n c cs)
  then show ?case
    by (fastforce simp: rbind_eq_Inr dest: read_escape_shorter split: if_splits)
qed simp

lemma scan_token_shorter:
  assumes "s \<noteq> []" "scan_token fname ln s = Inr (t, l, r)"
  shows "length r < length s"
proof -
  have "ident_start (hd s) \<Longrightarrow> length (dropWhile ident_cont s) < length s"
    using assms(1) by (intro length_dropWhile_lt) (auto simp: ident_cont_def)
  moreover have "length (drop (length p) s) < length s" if "find_punct s = Some p" for p
    using find_punct_Some [OF that] puncts_nonempty assms(1) by auto
  ultimately show ?thesis
    using assms
    by (cases s) (auto simp: scan_token_def rbind_eq_Inr Let_def
        dest: scan_str_shorter scan_chr_shorter scan_number_shorter
        split: if_splits prod.splits option.splits)
qed

lemma lex_step_shorter:
  assumes "s \<noteq> []" "lex_step he fname s st = Inr (r, st')"
  shows "length r < length s"
proof -
  have 1: "length (dropWhile P (drop 2 s)) < length s" for P
    using assms(1) length_dropWhile_le [of P "drop 2 s"] by (cases s) auto
  have 2: "length (drop 2 (snd (block_split (drop 2 s)))) < length s"
  proof -
    obtain x y where xy: "block_split (drop 2 s) = (x, y)" by fastforce
    then have "length (drop 2 s) = length x + length y" using block_split_append by fastforce
    then show ?thesis using assms(1) xy by (cases s) auto
  qed
  show ?thesis
    using assms 1 2
    by (auto simp: lex_step_def rbind_eq_Inr Let_def case_prod_beta dest: scan_token_shorter
        split: if_splits)
qed

function lex_loop :: "hint_env \<Rightarrow> string \<Rightarrow> string \<Rightarrow> lexst \<Rightarrow> lexst res" where
  "lex_loop he fname s st =
     (if s = [] then Inr st
      else rbind (lex_step he fname s st) (\<lambda>(r, st'). lex_loop he fname r st'))"
  by pat_completeness auto
termination
  by (relation "measure (\<lambda>(he, fname, s, st). length s)") (auto dest!: lex_step_shorter)

declare lex_loop.simps [simp del]

definition lexst_init :: "argv \<Rightarrow> lexst" where
  "lexst_init flags =
     \<lparr>lx_line = 1, lx_bol = True, lx_space = False,
      lx_hint = \<lparr>hs_pending = no_hints, hs_flags = flags\<rparr>, lx_out = []\<rparr>"

definition skip_hashbang :: "string \<Rightarrow> string" where
  "skip_hashbang s = (if prefix ''#!'' s then dropWhile (\<lambda>c. c \<noteq> chr_nl) s else s)"

definition lex_finish :: "string \<Rightarrow> lexst \<Rightarrow> token list \<times> argv" where
  "lex_finish fname st =
     (rev (lx_out st) @ [(new_token fname (lx_line st) TK_EOF)\<lparr>at_bol := True\<rparr>],
      hs_flags (lx_hint st))"

text \<open>The buffer ends at its first NUL. The result is the token chain and the toolchain flags
  the comments contributed.\<close>

definition tokenize :: "hint_env \<Rightarrow> string \<Rightarrow> string \<Rightarrow> argv \<Rightarrow> (token list \<times> argv) res" where
  "tokenize he fname src flags =
     rbind (lex_loop he fname (skip_hashbang (takeWhile (\<lambda>c. c \<noteq> chr_nul) src)) (lexst_init flags))
       (\<lambda>st. Inr (lex_finish fname st))"

end
