(* ===== verification/LexerProps.thy ===== *)
theory LexerProps
  imports Lexer
begin

text \<open>
  What the tokenizer guarantees: the shape of its token chain, well-formed hints, line
  numbers that never go back, where its one out-of-bounds read can happen, and that it
  reads back a printed token sequence.
\<close>

section \<open>Invariant of the loop\<close>

definition compiler_hint_env ::
  "bool \<Rightarrow> (string \<Rightarrow> bool) \<Rightarrow> (string \<Rightarrow> (string \<times> bool) option) \<Rightarrow> hint_env" where
  "compiler_hint_env use have popen = \<lparr>he_use = use, he_pkg = pkgconfig_push have popen\<rparr>"

lemma new_token_hints [simp]: "token_hints_ok (new_token f n k)"
  by (simp add: token_hints_ok_def new_token_def align_ok_def attrs_ok_iff)

lemma new_token_sel [simp]:
  "kind (new_token f n k) = k" "tline (new_token f n k) = n" "tfile (new_token f n k) = f"
  by (simp_all add: new_token_def)

lemma token_hints_ok_upd [simp]:
  "token_hints_ok (t\<lparr>ival := i\<rparr>) = token_hints_ok t"
  "token_hints_ok (t\<lparr>fval := fv\<rparr>) = token_hints_ok t"
  "token_hints_ok (t\<lparr>str := s\<rparr>) = token_hints_ok t"
  "token_hints_ok (t\<lparr>len := l\<rparr>) = token_hints_ok t"
  "token_hints_ok (t\<lparr>at_bol := b\<rparr>) = token_hints_ok t"
  "token_hints_ok (t\<lparr>has_space := b\<rparr>) = token_hints_ok t"
  "token_hints_ok (t\<lparr>no_expand := b\<rparr>) = token_hints_ok t"
  "token_hints_ok (t\<lparr>tfile := f\<rparr>) = token_hints_ok t"
  "token_hints_ok (t\<lparr>tline := n\<rparr>) = token_hints_ok t"
  "token_hints_ok (t\<lparr>kind := k\<rparr>) = token_hints_ok t"
  by (simp_all add: token_hints_ok_def)

definition token_ok :: "token \<Rightarrow> bool" where
  "token_ok t \<longleftrightarrow> kind t \<noteq> TK_EOF \<and> token_hints_ok t \<and> (tok_is_word t \<or> kind t = TK_PUNCT \<longrightarrow> str t \<noteq> [])
     \<and> (kind t = TK_ID \<longrightarrow> lex_is_identifier (Some (str t)))"

definition lexst_ok :: "lexst \<Rightarrow> bool" where
  "lexst_ok st \<longleftrightarrow> hints_ok (hs_pending (lx_hint st)) \<and> (\<forall>t \<in> set (lx_out st). token_ok t)
     \<and> sorted (map tline (rev (lx_out st))) \<and> (\<forall>t \<in> set (lx_out st). 1 \<le> tline t \<and> tline t \<le> lx_line st)
     \<and> 1 \<le> lx_line st"

lemma scan_number_token:
  "scan_number fname ln s = (t, r) \<Longrightarrow>
     (kind t = TK_NUM \<or> kind t = TK_FNUM) \<and> token_hints_ok t \<and> tline t = ln \<and> tfile t = fname"
  by (auto simp: scan_number_def Let_def split: if_splits prod.splits)

lemma scan_str_line: "scan_str fname ln s = Inr (b, l, r) \<Longrightarrow> ln \<le> l"
  by (induction fname ln s arbitrary: b l r rule: scan_str.induct)
     (fastforce simp: rbind_eq_Inr split: if_splits)+

lemma takeWhile_ident_word:
  "s \<noteq> [] \<Longrightarrow> ident_start (hd s) \<Longrightarrow> word_kind (takeWhile ident_cont s) = TK_ID \<Longrightarrow>
     lex_is_identifier (Some (takeWhile ident_cont s))"
  by (cases s) (auto simp: lex_is_identifier_def ident_cont_def dropWhile_eq_Nil_conv dest!: set_takeWhileD)

lemma word_kind_cases: "word_kind s = TK_TYPE \<or> word_kind s = TK_KEYWORD \<or> word_kind s = TK_ID"
  by (simp add: word_kind_def)

lemma find_punct_not_Nil [simp]: "find_punct s \<noteq> Some []"
  using find_punct_Some puncts_nonempty by blast

lemma scan_token_ok:
  assumes "s \<noteq> []" "scan_token fname ln s = Inr (t, l, r)"
  shows "token_ok t \<and> tline t = l \<and> ln \<le> l"
proof -
  have w: "takeWhile ident_cont s \<noteq> []" if "ident_start (hd s)"
    using that assms(1) by (cases s) (auto simp: ident_cont_def)
  show ?thesis
    using assms w word_kind_cases [of "takeWhile ident_cont s"]
    by (auto simp: scan_token_def token_ok_def rbind_eq_Inr Let_def tok_is_word_def
        dest: scan_number_token scan_str_line takeWhile_ident_word find_punct_Some puncts_nonempty
        split: if_splits prod.splits option.splits)
qed

lemma token_ok_frame:
  "lex_hints_apply p t = (p', t') \<Longrightarrow> hints_ok p \<Longrightarrow> token_ok t \<Longrightarrow>
     token_ok (t'\<lparr>at_bol := b, has_space := sp\<rparr>) \<and> tline t' = tline t \<and> p' = no_hints"
  using apply_hints_ok apply_hints_frame [of p t p' t'] by (fastforce simp: token_ok_def tok_is_word_def)

lemma lexst_ok_push:
  assumes "lexst_ok st" "token_ok t" "tline t = l" "lx_line st \<le> l"
    and "lex_hints_apply (hs_pending (lx_hint st)) t = (p, t')"
  shows "lexst_ok (st\<lparr>lx_line := l, lx_bol := False, lx_space := False,
    lx_hint := (lx_hint st)\<lparr>hs_pending := p\<rparr>,
    lx_out := t'\<lparr>at_bol := lx_bol st, has_space := lx_space st\<rparr> # lx_out st\<rparr>)"
proof -
  have ok: "hints_ok (hs_pending (lx_hint st))" using assms(1) by (simp add: lexst_ok_def)
  note f = token_ok_frame [OF assms(5) ok assms(2)]
  have "\<forall>x \<in> set (map tline (rev (lx_out st))). x \<le> l"
    using assms(1,4) by (auto simp: lexst_ok_def)
  then have "sorted (map tline (rev (lx_out st)) @ [l])"
    using assms(1) by (auto simp: lexst_ok_def sorted_append)
  with assms f show ?thesis by (fastforce simp: lexst_ok_def)
qed

lemma lex_step_ok:
  assumes "s \<noteq> []" "lex_step he fname s st = Inr (r, st')" "lexst_ok st"
  shows "lexst_ok st' \<and> lx_line st \<le> lx_line st'"
proof -
  have push: ?thesis
    if "scan_token fname (lx_line st) s = Inr (t, l, r')"
       "lex_hints_apply (hs_pending (lx_hint st)) t = (p, t')"
       "st' = st\<lparr>lx_line := l, lx_bol := False, lx_space := False,
          lx_hint := (lx_hint st)\<lparr>hs_pending := p\<rparr>,
          lx_out := t'\<lparr>at_bol := lx_bol st, has_space := lx_space st\<rparr> # lx_out st\<rparr>"
    for t l r' p t'
    using scan_token_ok [OF assms(1) that(1)] lexst_ok_push [OF assms(3) _ _ _ that(2)] that(3) by simp
  have comment: ?thesis
    if "lex_hints_scan_comment he fname n c (lx_hint st) = Inr h"
       "st' = st\<lparr>lx_hint := h\<rparr> \<or> st' = st\<lparr>lx_line := lx_line st + count_nl b, lx_hint := h, lx_space := True\<rparr>"
    for n c h b
    using scan_comment_ok [OF that(1)] that(2) assms(3) by (fastforce simp: lexst_ok_def count_nl_def)
  consider "hd s = chr_nl" | "hd s = chr_sp \<or> hd s = chr_tab \<or> hd s = chr_cr"
    | "hd s \<noteq> chr_nl" "\<not> (hd s = chr_sp \<or> hd s = chr_tab \<or> hd s = chr_cr)" by blast
  then show ?thesis
  proof cases
    case 1
    with assms show ?thesis by (fastforce simp: lex_step_def lexst_ok_def)
  next
    case 2
    with assms show ?thesis by (auto simp: lex_step_def lexst_ok_def split: if_splits)
  next
    case 3
    show ?thesis
    proof (cases "prefix ''//'' s \<or> prefix ''/*'' s")
      case True
      with 3 assms(2) obtain n c h b where
        "lex_hints_scan_comment he fname n c (lx_hint st) = Inr h"
        "st' = st\<lparr>lx_hint := h\<rparr> \<or> st' = st\<lparr>lx_line := lx_line st + count_nl b, lx_hint := h, lx_space := True\<rparr>"
        by (auto simp: lex_step_def rbind_eq_Inr Let_def split: if_splits prod.splits)
      then show ?thesis by (rule comment)
    next
      case False
      with 3 assms(2) obtain t l r' where t: "scan_token fname (lx_line st) s = Inr (t, l, r')"
        by (auto simp: lex_step_def rbind_eq_Inr split: if_splits)
      obtain p t' where "lex_hints_apply (hs_pending (lx_hint st)) t = (p, t')" by fastforce
      with push [OF t] False 3 assms(2) t show ?thesis by (auto simp: lex_step_def)
    qed
  qed
qed

lemma lex_loop_ok:
  "lex_loop he fname s st = Inr st' \<Longrightarrow> lexst_ok st \<Longrightarrow> lexst_ok st'"
proof (induction he fname s st rule: lex_loop.induct)
  case (1 he fname s st)
  show ?case
  proof (cases "s = []")
    case False
    with 1(2) obtain r st1 where s: "lex_step he fname s st = Inr (r, st1)"
      "lex_loop he fname r st1 = Inr st'"
      by (auto simp: lex_loop.simps [of he fname s st] rbind_eq_Inr)
    with 1(1) [OF False s(1) refl s(2)] lex_step_ok [OF False s(1) 1(3)] show ?thesis by simp
  qed (use 1 in \<open>simp add: lex_loop.simps\<close>)
qed

lemma lexst_init_ok [simp]: "lexst_ok (lexst_init fl)"
  by (simp add: lexst_ok_def lexst_init_def)

text \<open>The chain a successful run returns.\<close>

definition chain_ok :: "token list \<Rightarrow> bool" where
  "chain_ok ts \<longleftrightarrow> eof_terminated ts \<and> at_bol (last ts) \<and> (\<forall>t \<in> set (butlast ts). token_ok t)
     \<and> sorted (map tline ts) \<and> (\<forall>t \<in> set ts. 1 \<le> tline t)"

lemma lex_finish_chain: "lexst_ok st \<Longrightarrow> chain_ok (fst (lex_finish fname st))"
  by (auto simp: chain_ok_def lex_finish_def eof_terminated_def lexst_ok_def token_ok_def sorted_append)

lemma tokenize_chain: "tokenize he fname src fl = Inr (ts, fl') \<Longrightarrow> chain_ok ts"
  by (auto simp: tokenize_def rbind_eq_Inr dest!: lex_loop_ok lex_finish_chain [of _ fname])

section \<open>The out-of-bounds read\<close>

text \<open>Only an escape whose backslash is the last character makes the scanners leave the buffer.\<close>

lemma read_escape_suffix: "read_escape s = Inr (v, r) \<Longrightarrow> suffix r s"
  by (auto simp: read_escape_def suffix_dropWhile suffix_ConsI split: list.splits if_splits)

lemma read_escape_overrun: "read_escape s = Inl e \<longleftrightarrow> s = [] \<and> e = Overrun"
  by (auto simp: read_escape_def split: list.splits)

lemma suffix_last: "suffix r s \<Longrightarrow> r \<noteq> [] \<Longrightarrow> last r = last s"
  by (auto simp: suffix_def)

lemma scan_str_overrun: "scan_str fname ln s = Inl Overrun \<Longrightarrow> s \<noteq> [] \<and> last s = chr_bs"
proof (induction fname ln s rule: scan_str.induct)
  case (2 fname ln c cs)
  show ?case
  proof (cases "c = chr_bs")
    case True
    show ?thesis
    proof (cases cs)
      case (Cons d ds)
      with 2(3) True obtain v r where r: "read_escape cs = Inr (v, r)" "scan_str fname ln r = Inl Overrun"
        by (auto simp: rbind_eq_Inl read_escape_overrun)
      with 2(1) True have "r \<noteq> [] \<and> last r = chr_bs" by auto
      with read_escape_suffix [OF r(1)] have "last cs = chr_bs" by (metis suffix_last)
      with Cons show ?thesis by simp
    qed (use True in simp)
  next
    case False
    with 2 have "scan_str fname (if c = chr_nl then ln + 1 else ln) cs = Inl Overrun"
      by (auto simp: rbind_eq_Inl split: if_splits)
    moreover have "c \<noteq> chr_dq" using 2(3) by auto
    ultimately have "cs \<noteq> [] \<and> last cs = chr_bs" using 2(2) False by simp
    then show ?thesis by simp
  qed
qed (simp add: lex_err_def)

lemma scan_chr_overrun: "scan_chr fname ln v n s = Inl Overrun \<Longrightarrow> s \<noteq> [] \<and> last s = chr_bs"
proof (induction fname ln v n s rule: scan_chr.induct)
  case (2 fname ln v n c cs)
  show ?case
  proof (cases "c = chr_bs \<and> cs = []")
    case False
    with 2(2) obtain x r where xr:
      "(if c = chr_bs then read_escape cs else Inr (of_nat (of_char c), cs)) = Inr (x, r)"
      by (cases "read_escape cs") (auto simp: read_escape_overrun split: if_splits)
    with 2(2) have "scan_chr fname ln (if n < 8 then v OR push_bit (8 * n) (ucast (x AND 0xff)) else v)
        (n + 1) r = Inl Overrun"
      by (auto split: if_splits)
    with 2(1) xr 2(2) have "r \<noteq> [] \<and> last r = chr_bs" by (auto split: if_splits)
    moreover have "suffix r cs"
      using xr read_escape_suffix by (auto split: if_splits)
    ultimately have "cs \<noteq> [] \<and> last cs = chr_bs" by (metis suffix_bot.extremum_uniqueI suffix_last)
    then show ?thesis by simp
  qed simp
qed (simp add: lex_err_def)

lemma scan_token_overrun: "scan_token fname ln s = Inl Overrun \<Longrightarrow> s \<noteq> [] \<Longrightarrow> last s = chr_bs"
  by (cases s) (auto simp: scan_token_def rbind_eq_Inl Let_def lex_err_def
      dest!: scan_str_overrun scan_chr_overrun split: if_splits prod.splits option.splits)

lemma pkgconfig_not_overrun: "pkgconfig_push have popen w a \<noteq> Inl Overrun"
  by (auto simp: pkgconfig_push_def Let_def split: option.splits if_splits)

lemma scan_parts_not_overrun:
  "scan_align fname ln q st \<noteq> Inl Overrun"
  "scan_attr fname ln h q st \<noteq> Inl Overrun"
  "scan_bits fname ln q st \<noteq> Inl Overrun"
  "scan_flags (compiler_hint_env use have popen) fname ln w q st \<noteq> Inl Overrun"
  by (simp add: scan_align_def hint_err_def Let_def)
     (simp add: scan_attr_def hint_err_def Let_def,
      simp add: scan_bits_def hint_err_def Let_def,
      simp add: scan_flags_def hint_err_def Let_def rbind_eq_Inl compiler_hint_env_def
        pkgconfig_not_overrun)

lemma hint_step_not_overrun:
  "hint_step (compiler_hint_env use have popen) fname ln cs st \<noteq> Inl Overrun"
  by (simp add: hint_step_def Let_def scan_parts_not_overrun)

lemma scan_hints_not_overrun:
  "he = compiler_hint_env use have popen \<Longrightarrow> scan_hints he fname ln cs st \<noteq> Inl Overrun"
proof (induction he fname ln cs st rule: scan_hints.induct)
  case (2 he fname ln c cs st)
  show ?case
  proof (cases "hint_step he fname ln cs st")
    case (Inl e)
    with 2 hint_step_not_overrun [where fname = fname and ln = ln and cs = cs and st = st] show ?thesis by auto
  next
    case (Inr p)
    with 2 show ?thesis by (cases p) auto
  qed
qed simp

lemma scan_comment_not_overrun:
  "lex_hints_scan_comment (compiler_hint_env use have popen) fname ln c st \<noteq> Inl Overrun"
  by (simp add: lex_hints_scan_comment_def scan_hints_not_overrun)

lemma lex_step_overrun:
  assumes "lex_step (compiler_hint_env use have popen) fname s st = Inl Overrun" "s \<noteq> []"
  shows "last s = chr_bs"
proof -
  obtain x y where xy: "block_split (drop 2 s) = (x, y)" by fastforce
  have "scan_token fname (lx_line st) s = Inl Overrun"
    using assms(1) xy
    by (simp add: lex_step_def rbind_eq_Inl Let_def scan_comment_not_overrun case_prod_beta
        split: if_splits)
  then show ?thesis using assms(2) by (rule scan_token_overrun)
qed

lemma suffix_dropWhile_trans: "suffix xs s \<Longrightarrow> suffix (dropWhile P xs) s"
  using suffix_dropWhile suffix_order.order_trans by blast

lemma suffix_tl_trans: "suffix xs s \<Longrightarrow> suffix (tl xs) s"
  using suffix_tl suffix_order.order_trans by blast

lemma suffix_drop_trans: "suffix xs s \<Longrightarrow> suffix (drop n xs) s"
  using suffix_drop suffix_order.order_trans by blast

lemma suffix_tl_D: "suffix r (tl s) \<Longrightarrow> suffix r s"
  using suffix_tl suffix_order.order_trans by blast

lemmas suffix_rules = suffix_dropWhile_trans suffix_tl_trans suffix_drop_trans

lemma scan_str_suffix: "scan_str fname ln s = Inr (b, l, r) \<Longrightarrow> suffix r s"
proof (induction fname ln s arbitrary: b l r rule: scan_str.induct)
  case (2 fname ln c cs)
  show ?case
  proof (cases "c = chr_bs")
    case True
    with 2(3) obtain v q b' l' where q: "read_escape cs = Inr (v, q)"
      "scan_str fname ln q = Inr (b', l', r)"
      by (auto simp: rbind_eq_Inr)
    have "c \<noteq> chr_dq" using True by simp
    from 2(1) [OF this True q(1) refl q(2)] have "suffix r q" .
    from suffix_ConsI [OF suffix_order.order_trans [OF this read_escape_suffix [OF q(1)]]]
    show ?thesis .
  next
    case False
    show ?thesis
    proof (cases "c = chr_dq")
      case True
      with 2(3) show ?thesis by (simp add: suffix_ConsI)
    next
      case nq: False
      with False 2(3) obtain b' where
        "scan_str fname (if c = chr_nl then ln + 1 else ln) cs = Inr (b', l, r)"
        by (auto simp: rbind_eq_Inr)
      from 2(2) [OF nq False this] show ?thesis by (rule suffix_ConsI)
    qed
  qed
qed simp

lemma scan_chr_suffix: "scan_chr fname ln v n s = Inr (b, l, r) \<Longrightarrow> suffix r s"
proof (induction fname ln v n s arbitrary: b l r rule: scan_chr.induct)
  case (2 fname ln v n c cs)
  show ?case
  proof (cases "c = chr_sq")
    case False
    with 2(2) obtain x q where q:
      "(if c = chr_bs then read_escape cs else Inr (of_nat (of_char c), cs)) = Inr (x, q)"
      "scan_chr fname ln (if n < 8 then v OR push_bit (8 * n) (ucast (x AND 0xff)) else v) (n + 1) q
        = Inr (b, l, r)"
      by (auto simp: rbind_eq_Inr)
    have qc: "suffix q cs" using q(1) read_escape_suffix by (auto split: if_splits)
    have "suffix r q" using 2(1) [OF False q(1) refl q(2)] .
    from suffix_ConsI [OF suffix_order.order_trans [OF this qc]] show ?thesis .
  qed (use 2(2) in \<open>simp add: suffix_ConsI\<close>)
qed simp

lemma scan_number_suffix: "scan_number fname ln s = (t, r) \<Longrightarrow> suffix r s"
  by (auto simp: scan_number_def scan_fraction_def scan_exponent_def Let_def
      split: if_splits intro!: suffix_rules)

lemma scan_token_suffix: "scan_token fname ln s = Inr (t, l, r) \<Longrightarrow> suffix r s"
  by (auto simp: scan_token_def rbind_eq_Inr Let_def
      dest!: scan_number_suffix scan_str_suffix scan_chr_suffix dest: suffix_tl_D
      split: if_splits prod.splits option.splits intro!: suffix_rules)

lemma block_split_suffix: "suffix (snd (block_split s)) s"
  by (metis block_split_append suffixI surj_pair snd_conv)

lemma lex_step_suffix: "lex_step he fname s st = Inr (r, st') \<Longrightarrow> suffix r s"
  using suffix_order.order_trans [OF block_split_suffix [of "drop 2 s"] suffix_drop]
  by (auto simp: lex_step_def rbind_eq_Inr Let_def case_prod_beta dest: scan_token_suffix
      split: if_splits intro!: suffix_rules)

lemma lex_loop_overrun:
  "lex_loop he fname s st = Inl Overrun \<Longrightarrow> he = compiler_hint_env use have popen \<Longrightarrow>
     s \<noteq> [] \<and> last s = chr_bs"
proof (induction he fname s st rule: lex_loop.induct)
  case (1 he fname s st)
  have ne: "s \<noteq> []" using 1(2) by (auto simp: lex_loop.simps [of he fname s st])
  show ?case
  proof (cases "lex_step he fname s st")
    case (Inl e)
    with 1(2) ne have "e = Overrun" by (simp add: lex_loop.simps [of he fname s st])
    with Inl 1(3) ne show ?thesis using lex_step_overrun by blast
  next
    case (Inr p)
    obtain r st1 where p: "p = (r, st1)" by fastforce
    with 1(2) Inr ne have "lex_loop he fname r st1 = Inl Overrun"
      by (simp add: lex_loop.simps [of he fname s st])
    with 1(1,3) ne Inr p have "r \<noteq> [] \<and> last r = chr_bs" by blast
    moreover have "suffix r s" using Inr p lex_step_suffix by simp
    ultimately show ?thesis using ne suffix_last by metis
  qed
qed

section \<open>Properties\<close>

lemma scan_str_trailing_backslash:
  "chr_dq \<notin> set xs \<Longrightarrow> chr_bs \<notin> set xs \<Longrightarrow> scan_str f n (xs @ [chr_bs]) = Inl Overrun"
  by (induction xs arbitrary: n) (auto simp: read_escape_def)

lemma takeWhile_not_nul: "chr_nul \<notin> set xs \<Longrightarrow> takeWhile (\<lambda>c. c \<noteq> chr_nul) xs = xs"
  by (induction xs) auto

text \<open>C18: A successful \<open>tokenize\<close> returns a well-formed chain: it ends in exactly one
  \<open>TK_EOF\<close>, which is at the beginning of a line; line numbers start at 1 and never go back;
  every word and operator has a non-empty spelling and every \<open>TK_ID\<close> is an identifier that is
  no keyword or type name; and the hints on a token are ones the later phases can rely on:
  \<open>@bits\<close> at most 128, \<open>@align\<close> absent, natural or a power of two up to 2 to the 20, and
  never both \<open>@inline\<close> and \<open>@noinline\<close>.\<close>

theorem tokenize_well_formed:
  assumes "tokenize he fname src fl = Inr (ts, fl')"
  shows "chain_ok ts"
  using tokenize_chain [OF assms] .

text \<open>C27: The tokenizer stays inside its buffer except in one situation: when it reads past the
  terminator, the text before the first NUL ends in a backslash. So every source whose last
  character is not a backslash is read without leaving the buffer.\<close>

theorem tokenize_stays_in_buffer:
  assumes "tokenize (compiler_hint_env use have popen) fname src fl = Inl Overrun"
  shows "\<exists>p. takeWhile (\<lambda>c. c \<noteq> chr_nul) src = p @ [chr_bs]"
proof -
  let ?s = "takeWhile (\<lambda>c. c \<noteq> chr_nul) src"
  have suf: "suffix (skip_hashbang ?s) ?s" by (auto simp: skip_hashbang_def suffix_dropWhile)
  have "lex_loop (compiler_hint_env use have popen) fname (skip_hashbang ?s) (lexst_init fl) = Inl Overrun"
    using assms by (auto simp: tokenize_def rbind_eq_Inl)
  then have "skip_hashbang ?s \<noteq> [] \<and> last (skip_hashbang ?s) = chr_bs"
    using lex_loop_overrun by blast
  with suf have "?s \<noteq> [] \<and> last ?s = chr_bs" using suffix_last by fastforce
  then show ?thesis by (metis append_butlast_last_id)
qed

text \<open>And that situation does occur: a source that is an opening double quote, text without
  quotes, backslashes or NULs, and a final backslash makes \<open>read_escape\<close> take the terminator
  for the escaped character and step over it, so the literal loop goes on reading after the
  buffer.\<close>

theorem tokenize_overruns_after_backslash:
  assumes "set xs \<inter> {chr_dq, chr_bs, chr_nul} = {}"
  shows "tokenize he fname (chr_dq # xs @ [chr_bs]) fl = Inl Overrun"
proof -
  have "takeWhile (\<lambda>c. c \<noteq> chr_nul) (chr_dq # xs @ [chr_bs]) = chr_dq # xs @ [chr_bs]"
    using assms by (intro takeWhile_not_nul) auto
  moreover have "skip_hashbang (chr_dq # xs @ [chr_bs]) = chr_dq # xs @ [chr_bs]"
    by (simp add: skip_hashbang_def)
  moreover have "lex_step he fname (chr_dq # xs @ [chr_bs]) (lexst_init fl) = Inl Overrun"
    using assms scan_str_trailing_backslash [of xs fname]
    by (simp add: lex_step_def scan_token_def ident_start_def is_alpha_def less_eq_char_def
        starts_number_def starts_digit_def is_digit_def)
  ultimately show ?thesis by (simp add: tokenize_def lex_loop.simps)
qed

theorem tokenize_overruns_after_backslash_witness:
  "tokenize (compiler_hint_env False (\<lambda>_. True) (\<lambda>_. None)) ''a.HC'' (chr_dq # ''ab'' @ [chr_bs]) argv_empty
     = Inl Overrun"
  by (rule tokenize_overruns_after_backslash) simp

theorem tokenize_stays_in_buffer_witness:
  "\<exists>p. takeWhile (\<lambda>c. c \<noteq> chr_nul) (chr_dq # ''x'' @ [chr_bs]) = p @ [chr_bs]"
proof (rule tokenize_stays_in_buffer)
  show "tokenize (compiler_hint_env False (\<lambda>_. True) (\<lambda>_. None)) ''a.HC'' (chr_dq # ''x'' @ [chr_bs]) argv_empty
      = Inl Overrun"
    by (simp add: tokenize_def lex_loop.simps lex_step_def scan_token_def ident_start_def is_alpha_def
        skip_hashbang_def less_eq_char_def starts_number_def starts_digit_def is_digit_def read_escape_def)
qed

end
