(* ===== verification/LexerRound.thy ===== *)
theory LexerRound
  imports LexerProps
begin

text \<open>
  Printing and reading back: a sequence of words, decimal numbers, punctuators and string
  literals, each written out and followed by a space, is tokenized into exactly that
  sequence. The printer is the specification side; the reader is the model of
  \<open>tokenize\<close>.
\<close>

datatype lexeme = LWord string | LNum nat | LPunct string | LStr string

definition esc_char :: "char \<Rightarrow> string" where
  "esc_char c =
     (if c = chr_nl then [chr_bs, CHR ''n'']
      else if c = chr_nul then [chr_bs, CHR ''0'']
      else if c = chr_dq then [chr_bs, chr_dq]
      else if c = chr_bs then [chr_bs, chr_bs]
      else [c])"

definition esc_str :: "string \<Rightarrow> string" where
  "esc_str s = concat (map esc_char s)"

fun show_lexeme :: "lexeme \<Rightarrow> string" where
  "show_lexeme (LWord w) = w"
| "show_lexeme (LNum n) = dec_nat n"
| "show_lexeme (LPunct p) = p"
| "show_lexeme (LStr s) = chr_dq # esc_str s @ [chr_dq]"

fun render :: "lexeme list \<Rightarrow> string" where
  "render [] = []"
| "render (l # ls) = show_lexeme l @ chr_sp # render ls"

fun lexeme_ok :: "lexeme \<Rightarrow> bool" where
  "lexeme_ok (LWord w) \<longleftrightarrow> w \<noteq> [] \<and> ident_start (hd w) \<and> list_all ident_cont w"
| "lexeme_ok (LNum n) \<longleftrightarrow> n \<le> size_max"
| "lexeme_ok (LPunct p) \<longleftrightarrow> p \<in> set puncts"
| "lexeme_ok (LStr s) \<longleftrightarrow> True"

fun lexeme_tok :: "string \<Rightarrow> int \<Rightarrow> lexeme \<Rightarrow> token" where
  "lexeme_tok f n (LWord w) = (new_token f n (word_kind w))\<lparr>str := w, len := length w\<rparr>"
| "lexeme_tok f n (LNum k) = (new_token f n TK_NUM)\<lparr>ival := of_nat k\<rparr>"
| "lexeme_tok f n (LPunct p) = (new_token f n TK_PUNCT)\<lparr>str := p, len := length p\<rparr>"
| "lexeme_tok f n (LStr s) = (new_token f n TK_STR)\<lparr>str := s, len := length s\<rparr>"

fun lexeme_toks :: "string \<Rightarrow> int \<Rightarrow> bool \<Rightarrow> bool \<Rightarrow> lexeme list \<Rightarrow> token list" where
  "lexeme_toks f n bol sp [] = []"
| "lexeme_toks f n bol sp (l # ls) =
     (lexeme_tok f n l)\<lparr>at_bol := bol, has_space := sp\<rparr> # lexeme_toks f n False True ls"

section \<open>String literals\<close>

lemma char_of_word32 [simp]: "char_of (unat (of_nat (of_char c) :: u32)) = c"
proof -
  have "(of_char c :: nat) < 256" by simp
  then have "(of_char c :: nat) < 2 ^ LENGTH(32)" by (rule less_trans) simp
  then have "unat (of_nat (of_char c) :: u32) = of_char c" by (simp add: unsigned_of_nat take_bit_nat_eq_self)
  then show ?thesis by simp
qed

lemma char_of_word32' [simp]: "char_of (unat (word_of_nat (of_char c) :: u32)) = c"
  by (rule char_of_word32)

lemma char_of_codes [simp]:
  "char_of (10::nat) = chr_nl" "char_of (0::nat) = chr_nul"
  "char_of (92::nat) = chr_bs" "char_of (34::nat) = chr_dq"
  by (simp_all add: char_of_eq_iff)

lemma scan_str_esc_char:
  "scan_str f n (esc_char c @ r) = rbind (scan_str f n r) (\<lambda>(b, l, q). Inr (c # b, l, q))"
  by (simp add: esc_char_def read_escape_def)

lemma scan_str_esc_str: "scan_str f n (esc_str s @ chr_dq # r) = Inr (s, n, r)"
proof (induction s)
  case (Cons c s)
  have "esc_str (c # s) @ chr_dq # r = esc_char c @ (esc_str s @ chr_dq # r)"
    by (simp add: esc_str_def)
  with Cons show ?case by (simp add: scan_str_esc_char)
qed (simp add: esc_str_def)

section \<open>Numbers\<close>

lemma strtoull10_dec [simp]: "n \<le> size_max \<Longrightarrow> strtoull10 (dec_nat n) = of_nat n"
  by (simp add: strtoull10_def)

lemma not_radix_prefix:
  assumes "ds \<noteq> []" "list_all is_digit ds" "\<not> is_digit x" "x \<noteq> chr_sp"
  shows "\<not> prefix [a, x] (ds @ chr_sp # r)"
proof (cases ds)
  case (Cons d es)
  with assms show ?thesis by (cases es) auto
qed (use assms in simp)

lemma scan_number_dec:
  assumes "n \<le> size_max"
  shows "scan_number f k (dec_nat n @ chr_sp # r) = (lexeme_tok f k (LNum n), chr_sp # r)"
proof -
  have nd: "\<not> is_digit chr_sp" "\<not> is_digit CHR ''x''" "\<not> is_digit CHR ''X''"
    "\<not> is_digit CHR ''b''" "\<not> is_digit CHR ''B''"
    by (simp_all add: is_digit_def)
  have tw: "takeWhile is_digit (dec_nat n @ chr_sp # r) = dec_nat n"
    "dropWhile is_digit (dec_nat n @ chr_sp # r) = chr_sp # r"
    using dec_nat_digits [of n] nd by (auto intro!: takeWhile_all_stop dropWhile_all_stop)
  have np: "\<not> prefix ''0x'' (dec_nat n @ chr_sp # r)" "\<not> prefix ''0X'' (dec_nat n @ chr_sp # r)"
    "\<not> prefix ''0b'' (dec_nat n @ chr_sp # r)" "\<not> prefix ''0B'' (dec_nat n @ chr_sp # r)"
    using nd dec_nat_digits [of n] by (intro not_radix_prefix; simp)+
  show ?thesis
    using assms np by (simp add: scan_number_def tw scan_fraction_def scan_exponent_def Let_def)
qed

section \<open>Punctuators\<close>

lemma puncts_first: "list_all (\<lambda>p. find (\<lambda>q. prefix q p) puncts = Some p) puncts"
  unfolding puncts_def by code_simp

lemma puncts_chars:
  "list_all (\<lambda>p. list_all (\<lambda>c. c \<noteq> chr_sp \<and> c \<noteq> chr_nul) p) puncts"
  unfolding puncts_def by code_simp

lemma puncts_hd:
  "list_all (\<lambda>p. \<not> ident_start (hd p) \<and> \<not> is_digit (hd p)
     \<and> hd p \<noteq> chr_nl \<and> hd p \<noteq> chr_sp \<and> hd p \<noteq> chr_tab \<and> hd p \<noteq> chr_cr \<and> hd p \<noteq> chr_dq
     \<and> hd p \<noteq> chr_sq \<and> (tl p \<noteq> [] \<longrightarrow> \<not> is_digit (hd (tl p)))
     \<and> \<not> prefix ''//'' (p @ '' '') \<and> \<not> prefix ''/*'' (p @ '' '') \<and> \<not> prefix ''#!'' (p @ '' '')) puncts"
  unfolding puncts_def ident_start_def is_alpha_def is_digit_def by code_simp

lemma prefix_before_space:
  "chr_sp \<notin> set q \<Longrightarrow> prefix q (p @ chr_sp # r) \<longleftrightarrow> prefix q p"
proof (induction p arbitrary: q)
  case Nil
  then show ?case by (cases q) auto
next
  case (Cons a p)
  then show ?case by (cases q) auto
qed

lemma find_punct_space:
  assumes "p \<in> set puncts"
  shows "find_punct (p @ chr_sp # r) = Some p"
proof -
  have "chr_sp \<notin> set q" if "q \<in> set puncts" for q
    using puncts_chars that by (auto simp: list_all_iff)
  then have "find (\<lambda>q. prefix q (p @ chr_sp # r)) puncts = find (\<lambda>q. prefix q p) puncts"
    by (intro find_cong) (auto simp: prefix_before_space)
  with puncts_first assms show ?thesis by (simp add: find_punct_def list_all_iff)
qed

lemma prefix_two:
  "p \<noteq> [] \<Longrightarrow> prefix [a, b] (p @ chr_sp # r) \<longleftrightarrow> prefix [a, b] (p @ '' '')"
  by (cases p rule: remdups_adj.cases) auto

section \<open>One token and the space after it\<close>

text \<open>What the first character of a printed lexeme rules out.\<close>

lemma lexeme_starts:
  assumes "lexeme_ok l"
  shows "\<exists>c cs. show_lexeme l = c # cs \<and> c \<notin> {chr_nl, chr_sp, chr_tab, chr_cr, chr_nul}
    \<and> \<not> prefix ''//'' (show_lexeme l @ chr_sp # r) \<and> \<not> prefix ''/*'' (show_lexeme l @ chr_sp # r)
    \<and> \<not> prefix ''#!'' (show_lexeme l @ chr_sp # r)"
proof (cases l)
  case (LWord w)
  with assms show ?thesis by (cases w) (auto simp: ident_start_def is_alpha_def)
next
  case (LNum n)
  then obtain c cs where "dec_nat n = c # cs" "is_digit c"
    using dec_nat_hd_digit [of n] by (cases "dec_nat n") auto
  with LNum show ?thesis by (auto simp: is_digit_def)
next
  case (LPunct p)
  with assms puncts_nonempty obtain c cs where p: "p = c # cs" by (cases p) auto
  with assms LPunct puncts_hd have h: "c \<notin> {chr_nl, chr_sp, chr_tab, chr_cr}"
    "\<not> prefix ''//'' (p @ '' '')" "\<not> prefix ''/*'' (p @ '' '')" "\<not> prefix ''#!'' (p @ '' '')"
    by (auto simp: list_all_iff simp del: append.simps)
  moreover have "c \<noteq> chr_nul" using assms LPunct p puncts_chars by (auto simp: list_all_iff)
  ultimately show ?thesis using p LPunct prefix_two [of p] by (auto simp del: append.simps)
qed auto

lemma scan_token_lexeme:
  assumes "lexeme_ok l"
  shows "scan_token f n (show_lexeme l @ chr_sp # r) = Inr (lexeme_tok f n l, n, chr_sp # r)"
proof (cases l)
  case (LWord w)
  have "\<not> ident_cont chr_sp" by (simp add: ident_cont_def ident_start_def is_alpha_def is_digit_def)
  with LWord assms have "takeWhile ident_cont (w @ chr_sp # r) = w"
    "dropWhile ident_cont (w @ chr_sp # r) = chr_sp # r"
    by (auto intro!: takeWhile_all_stop dropWhile_all_stop)
  with LWord assms show ?thesis by (simp add: scan_token_def hd_append)
next
  case (LNum k)
  have d: "is_digit (hd (dec_nat k @ chr_sp # r))" using dec_nat_hd_digit [of k] by (simp add: hd_append)
  then have "\<not> ident_start (hd (dec_nat k @ chr_sp # r))"
    by (auto simp: ident_start_def digit_not_alpha) (simp add: is_digit_def)
  with d LNum assms show ?thesis
    by (simp add: scan_token_def starts_number_def starts_digit_def scan_number_dec)
next
  case (LPunct p)
  with assms puncts_nonempty obtain c cs where p: "p = c # cs" by (cases p) auto
  with assms LPunct puncts_hd have h: "\<not> ident_start c" "\<not> is_digit c" "c \<noteq> chr_dq" "c \<noteq> chr_sq"
    "cs \<noteq> [] \<longrightarrow> \<not> is_digit (hd cs)"
    by (auto simp: list_all_iff)
  then have "\<not> starts_number (p @ chr_sp # r)"
    using p by (cases cs) (auto simp: starts_number_def starts_digit_def is_digit_def)
  with h p LPunct assms find_punct_space [of p r] show ?thesis by (simp add: scan_token_def)
next
  case (LStr s)
  have "\<not> ident_start chr_dq" "\<not> starts_number (chr_dq # x)" for x
    by (simp_all add: ident_start_def is_alpha_def starts_number_def starts_digit_def is_digit_def)
  with LStr show ?thesis by (simp add: scan_token_def scan_str_esc_str)
qed

lemma lex_loop_space: "lex_loop he f (chr_sp # s) st = lex_loop he f s (st\<lparr>lx_space := True\<rparr>)"
  by (subst lex_loop.simps) (simp add: lex_step_def)

lemma lex_loop_lexeme:
  assumes "lexeme_ok l" "hs_pending (lx_hint st) = no_hints"
  shows "lex_loop he f (show_lexeme l @ chr_sp # r) st =
    lex_loop he f r (st\<lparr>lx_bol := False, lx_space := True,
      lx_out := (lexeme_tok f (lx_line st) l)\<lparr>at_bol := lx_bol st, has_space := lx_space st\<rparr> # lx_out st\<rparr>)"
proof -
  obtain c cs where c: "show_lexeme l = c # cs" "c \<notin> {chr_nl, chr_sp, chr_tab, chr_cr, chr_nul}"
    "\<not> prefix ''//'' (show_lexeme l @ chr_sp # r)" "\<not> prefix ''/*'' (show_lexeme l @ chr_sp # r)"
    using lexeme_starts [OF assms(1), of r] by blast
  have h: "(lx_hint st)\<lparr>hs_pending := no_hints\<rparr> = lx_hint st"
    using assms(2) by (cases "lx_hint st") simp
  have "lex_step he f (show_lexeme l @ chr_sp # r) st =
      Inr (chr_sp # r, st\<lparr>lx_bol := False, lx_space := False,
        lx_out := (lexeme_tok f (lx_line st) l)\<lparr>at_bol := lx_bol st, has_space := lx_space st\<rparr> # lx_out st\<rparr>)"
  proof -
    let ?s = "show_lexeme l @ chr_sp # r"
    have "hd ?s = c" by (simp add: c(1))
    with c(2) have "hd ?s \<noteq> chr_nl" "\<not> (hd ?s = chr_sp \<or> hd ?s = chr_tab \<or> hd ?s = chr_cr)" by auto
    with c(3,4) show ?thesis
      unfolding lex_step_def scan_token_lexeme [OF assms(1)]
      by (simp only: if_False rbind_Inr prod.case assms(2) apply_no_hints Let_def h) simp
  qed
  then show ?thesis
    using c(1) by (subst lex_loop.simps) (cases st, simp add: lex_loop_space)
qed

lemma lex_loop_render:
  assumes "list_all lexeme_ok ls" "hs_pending (lx_hint st) = no_hints"
  shows "lex_loop he f (render ls) st =
    Inr (st\<lparr>lx_bol := (lx_bol st \<and> ls = []), lx_space := (lx_space st \<or> ls \<noteq> []),
      lx_out := rev (lexeme_toks f (lx_line st) (lx_bol st) (lx_space st) ls) @ lx_out st\<rparr>)"
  using assms
proof (induction ls arbitrary: st)
  case Nil
  then show ?case by (simp add: lex_loop.simps)
next
  case (Cons l ls)
  then show ?case by (simp add: lex_loop_lexeme)
qed

section \<open>The round trip\<close>

lemma render_no_nul: "list_all lexeme_ok ls \<Longrightarrow> list_all (\<lambda>c. c \<noteq> chr_nul) (render ls)"
proof (induction ls)
  case (Cons l ls)
  have esc: "list_all (\<lambda>c. c \<noteq> chr_nul) (esc_str s)" for s
    by (induction s) (auto simp: esc_str_def esc_char_def)
  have "list_all (\<lambda>c. c \<noteq> chr_nul) (show_lexeme l)"
  proof (cases l)
    case (LWord w)
    with Cons.prems show ?thesis
      by (auto simp: list_all_iff ident_cont_def ident_start_def is_alpha_def is_digit_def)
  next
    case (LNum n)
    with dec_nat_digits [of n] show ?thesis by (auto simp: list_all_iff is_digit_def)
  next
    case (LPunct p)
    with Cons.prems puncts_chars show ?thesis by (auto simp: list_all_iff)
  qed (use esc in simp)
  with Cons show ?case by simp
qed simp

lemma render_no_hashbang: "list_all lexeme_ok ls \<Longrightarrow> skip_hashbang (render ls) = render ls"
  by (cases ls) (use lexeme_starts in \<open>auto simp: skip_hashbang_def\<close>)

lemma takeWhile_all: "list_all P xs \<Longrightarrow> takeWhile P xs = xs"
  by (auto simp: list_all_iff takeWhile_eq_all_conv)

lemma tokenize_render_lemma:
  assumes "list_all lexeme_ok ls"
  shows "tokenize he f (render ls) fl =
    Inr (lexeme_toks f 1 True False ls @ [(new_token f 1 TK_EOF)\<lparr>at_bol := True\<rparr>], fl)"
  using assms
  by (simp add: tokenize_def takeWhile_all render_no_nul render_no_hashbang lex_loop_render
      lexst_init_def lex_finish_def)

text \<open>C9: Printing and tokenizing a token sequence is the identity: any list of words,
  decimal constants of at most 64 bits, operators and string literals of arbitrary
  bytes, written out with one blank after each, is read back as exactly those tokens with
  the right kinds, values, spellings and lengths, followed by the end-of-file token, whatever the
  hint settings are.\<close>

theorem tokenize_reads_back:
  assumes "list_all lexeme_ok ls"
  shows "tokenize he f (render ls) fl =
    Inr (lexeme_toks f 1 True False ls @ [(new_token f 1 TK_EOF)\<lparr>at_bol := True\<rparr>], fl)"
  by (rule tokenize_render_lemma [OF assms])

theorem tokenize_reads_back_witness:
  "map (\<lambda>t. (kind t, str t, ival t)) (fst (projr (tokenize (compiler_hint_env True (\<lambda>_. False) (\<lambda>_. None)) ''a.HC''
      (render [LWord ''I64'', LWord ''x'', LPunct ''='', LNum 42, LPunct '';'']) argv_empty)))
   = [(TK_TYPE, ''I64'', 0), (TK_ID, ''x'', 0), (TK_PUNCT, ''='', 0), (TK_NUM, [], 42),
      (TK_PUNCT, '';'', 0), (TK_EOF, [], 0)]"
proof -
  have ok: "list_all lexeme_ok [LWord ''I64'', LWord ''x'', LPunct ''='', LNum 42, LPunct '';'']"
    by (simp add: ident_start_def ident_cont_def is_alpha_def is_digit_def less_eq_char_def size_max_def
        puncts_def)
  show ?thesis
    unfolding tokenize_reads_back [OF ok]
    by (simp add: new_token_def word_kind_def word_in_def type_words_def
        keyword_words_def)
qed

theorem tokenize_well_formed_witness:
  "chain_ok (lexeme_toks ''a.HC'' 1 True False [LWord ''I64'', LWord ''x'', LPunct ''='', LNum 42, LPunct '';'']
     @ [(new_token ''a.HC'' 1 TK_EOF)\<lparr>at_bol := True\<rparr>])"
  by (rule tokenize_well_formed [OF tokenize_render_lemma])
     (simp add: ident_start_def ident_cont_def is_alpha_def is_digit_def less_eq_char_def size_max_def
        puncts_def)

end
