(* ===== verification/StrBuf.thy ===== *)
theory StrBuf
  imports Util
begin

text \<open>
  \<open>src/src/sb.c\<close>: the growable string buffer with a 64-byte inline store that every
  emitter writes to, and the interface \<open>byte_sink\<close> its clients rely on. \<open>can\<close> says
  which block sizes the allocator can provide.
\<close>

section \<open>The buffer\<close>

text \<open>\<open>sb_data\<close> is \<open>data[0 .. len)\<close>; the terminating NUL at \<open>data[len]\<close> is implicit, so
  a buffer is well formed when one more byte fits. \<open>sb_inline\<close> says \<open>data == buf\<close>.\<close>

record strbuf =
  sb_data :: string
  sb_cap :: nat
  sb_inline :: bool

definition sb_init :: strbuf where
  "sb_init = \<lparr>sb_data = [], sb_cap = 64, sb_inline = True\<rparr>"

definition reserve :: "(nat \<Rightarrow> bool) \<Rightarrow> nat \<Rightarrow> strbuf \<Rightarrow> strbuf res" where
  "reserve can n sb =
     (let len = length (sb_data sb)
      in if n > size_max - len - 1 then Inl (Err ''string buffer overflow'')
         else
           (let need = len + n + 1
            in if need \<le> sb_cap sb then Inr sb
               else
                 (let cap0 = (if sb_cap sb \<le> size_max div 2 then sb_cap sb * 2 else need);
                      cap = (if cap0 < need then need else cap0)
                  in if \<not> xmalloc_ok can cap then Inl (Err ''out of memory'')
                     else Inr (sb\<lparr>sb_cap := cap, sb_inline := False\<rparr>))))"

definition sb_putn :: "(nat \<Rightarrow> bool) \<Rightarrow> string \<Rightarrow> strbuf \<Rightarrow> strbuf res" where
  "sb_putn can s sb =
     (if s = [] then Inr sb
      else rbind (reserve can (length s) sb) (\<lambda>sb'. Inr (sb'\<lparr>sb_data := sb_data sb' @ s\<rparr>)))"

definition sb_puts :: "(nat \<Rightarrow> bool) \<Rightarrow> string \<Rightarrow> strbuf \<Rightarrow> strbuf res" where
  "sb_puts can s sb = sb_putn can s sb"

definition sb_putc :: "(nat \<Rightarrow> bool) \<Rightarrow> char \<Rightarrow> strbuf \<Rightarrow> strbuf res" where
  "sb_putc can c sb =
     rbind (reserve can 1 sb) (\<lambda>sb'. Inr (sb'\<lparr>sb_data := sb_data sb' @ [c]\<rparr>))"

text \<open>\<open>text\<close> is what \<open>vsnprintf\<close> formats, \<open>None\<close> its failure. The first call writes as
  much as fits; only when that was not everything is the buffer grown and the call repeated.\<close>

definition sb_printf :: "(nat \<Rightarrow> bool) \<Rightarrow> string option \<Rightarrow> strbuf \<Rightarrow> strbuf res" where
  "sb_printf can text sb =
     (case text of
        None \<Rightarrow> Inl (Err ''string formatting failed'')
      | Some s \<Rightarrow>
          (let avail = sb_cap sb - length (sb_data sb)
           in if length s \<ge> avail
              then rbind (reserve can (length s) sb) (\<lambda>sb'. Inr (sb'\<lparr>sb_data := sb_data sb' @ s\<rparr>))
              else Inr (sb\<lparr>sb_data := sb_data sb @ s\<rparr>)))"

definition sb_take :: "(nat \<Rightarrow> bool) \<Rightarrow> strbuf \<Rightarrow> (string \<times> strbuf) res" where
  "sb_take can sb =
     (if sb_inline sb \<and> \<not> xmalloc_ok can (length (sb_data sb) + 1) then Inl (Err ''out of memory'')
      else Inr (sb_data sb, sb_init))"

text \<open>Room for the terminator, a capacity that is a valid object size, and the inline store
  only while the capacity is its own.\<close>

definition sb_inv :: "strbuf \<Rightarrow> bool" where
  "sb_inv sb \<longleftrightarrow> length (sb_data sb) < sb_cap sb \<and> sb_cap sb \<le> size_max
     \<and> (sb_inline sb \<longrightarrow> sb_cap sb = 64)"

lemma sb_init_inv [simp]: "sb_inv sb_init" "sb_data sb_init = []"
  by (simp_all add: sb_inv_def sb_init_def size_max_def)

lemma xmalloc_ok_bound: "xmalloc_ok can n \<Longrightarrow> n \<le> size_max"
  by (auto simp: xmalloc_ok_def Let_def alloc_header_def size_max_def split: if_splits)

lemma reserve_spec:
  "reserve can n sb = Inr sb' \<Longrightarrow> sb_inv sb \<Longrightarrow>
     sb_inv sb' \<and> sb_data sb' = sb_data sb \<and> length (sb_data sb) + n < sb_cap sb'"
  by (auto simp: reserve_def sb_inv_def Let_def dest!: xmalloc_ok_bound split: if_splits)

text \<open>Growth at least doubles the capacity whenever doubling does not overflow.\<close>

lemma reserve_doubles:
  "reserve can n sb = Inr sb' \<Longrightarrow> sb_cap sb' \<noteq> sb_cap sb \<Longrightarrow> sb_cap sb \<le> size_max div 2 \<Longrightarrow>
     2 * sb_cap sb \<le> sb_cap sb'"
  by (auto simp: reserve_def Let_def split: if_splits)

lemma sb_putn_spec:
  "sb_putn can s sb = Inr sb' \<Longrightarrow> sb_inv sb \<Longrightarrow> sb_inv sb' \<and> sb_data sb' = sb_data sb @ s"
  by (auto simp: sb_putn_def rbind_eq_Inr dest: reserve_spec split: if_splits)
     (auto simp: sb_inv_def dest!: reserve_spec)

lemma sb_putc_spec:
  "sb_putc can c sb = Inr sb' \<Longrightarrow> sb_inv sb \<Longrightarrow> sb_inv sb' \<and> sb_data sb' = sb_data sb @ [c]"
  by (auto simp: sb_putc_def rbind_eq_Inr sb_inv_def dest!: reserve_spec)

lemma sb_printf_spec:
  "sb_printf can (Some s) sb = Inr sb' \<Longrightarrow> sb_inv sb \<Longrightarrow> sb_inv sb' \<and> sb_data sb' = sb_data sb @ s"
  by (auto simp: sb_printf_def rbind_eq_Inr Let_def sb_inv_def dest!: reserve_spec split: if_splits)

section \<open>The interface of an append-only text buffer\<close>

text \<open>
  What a writer relies on: a put either fails or appends exactly what it was given, and
  keeps the buffer well formed. The string buffer above and the runtime's \<open>HcOut\<close> provide
  it.
\<close>

locale byte_sink =
  fixes inv :: "'s \<Rightarrow> bool"
    and content :: "'s \<Rightarrow> string"
    and put :: "string \<Rightarrow> 's \<Rightarrow> 's res"
  assumes put_inv: "inv s \<Longrightarrow> put xs s = Inr s' \<Longrightarrow> inv s'"
    and put_content: "inv s \<Longrightarrow> put xs s = Inr s' \<Longrightarrow> content s' = content s @ xs"
begin

fun puts :: "string list \<Rightarrow> 's \<Rightarrow> 's res" where
  "puts [] s = Inr s"
| "puts (x # xs) s = rbind (put x s) (puts xs)"

lemma puts_spec:
  "inv s \<Longrightarrow> puts xss s = Inr s' \<Longrightarrow> inv s' \<and> content s' = content s @ concat xss"
proof (induction xss arbitrary: s)
  case (Cons x xs)
  then obtain t where t: "put x s = Inr t" "puts xs t = Inr s'"
    by (auto simp: rbind_eq_Inr)
  with Cons show ?case using put_inv [OF _ t(1)] put_content [OF _ t(1)] by auto
qed simp

lemma puts_append: "puts (xs @ ys) s = rbind (puts xs s) (puts ys)"
  by (induction xs arbitrary: s) (auto simp: rbind_def split: sum.splits)

end

interpretation sbw: byte_sink sb_inv sb_data "sb_puts can" for can
  by unfold_locales (auto simp: sb_puts_def dest: sb_putn_spec)

text \<open>A run of writes through the calls the emitters mix.\<close>

datatype sb_call = Puts string | Putc char | Putn string | Printf string

fun sb_text :: "sb_call \<Rightarrow> string" where
  "sb_text (Puts s) = s"
| "sb_text (Putc c) = [c]"
| "sb_text (Putn s) = s"
| "sb_text (Printf s) = s"

fun sb_do :: "(nat \<Rightarrow> bool) \<Rightarrow> sb_call \<Rightarrow> strbuf \<Rightarrow> strbuf res" where
  "sb_do can (Puts s) sb = sb_puts can s sb"
| "sb_do can (Putc c) sb = sb_putc can c sb"
| "sb_do can (Putn s) sb = sb_putn can s sb"
| "sb_do can (Printf s) sb = sb_printf can (Some s) sb"

fun sb_run :: "(nat \<Rightarrow> bool) \<Rightarrow> sb_call list \<Rightarrow> strbuf \<Rightarrow> strbuf res" where
  "sb_run can [] sb = Inr sb"
| "sb_run can (c # cs) sb = rbind (sb_do can c sb) (sb_run can cs)"

lemma sb_do_spec:
  "sb_do can c sb = Inr sb' \<Longrightarrow> sb_inv sb \<Longrightarrow> sb_inv sb' \<and> sb_data sb' = sb_data sb @ sb_text c"
  by (cases c) (auto simp: sb_puts_def dest: sb_putn_spec sb_putc_spec sb_printf_spec)

lemma sb_run_spec:
  "sb_run can cs sb = Inr sb' \<Longrightarrow> sb_inv sb \<Longrightarrow>
     sb_inv sb' \<and> sb_data sb' = sb_data sb @ concat (map sb_text cs)"
proof (induction cs arbitrary: sb)
  case (Cons c cs)
  then show ?case by (fastforce simp: rbind_eq_Inr dest: sb_do_spec)
qed simp

text \<open>Capacity stays within twice the contents, so a run whose text fits in half the address
  space fails only when the allocator does.\<close>

definition sb_tight :: "strbuf \<Rightarrow> bool" where
  "sb_tight sb \<longleftrightarrow> sb_cap sb \<le> max 64 (2 * (length (sb_data sb) + 1))"

lemma reserve_total:
  assumes "sb_inv sb" "sb_tight sb" "length (sb_data sb) + n < 2 ^ 62"
    and can: "\<forall>k \<le> 2 ^ 63 + 16. can k"
  shows "\<exists>sb'. reserve can n sb = Inr sb' \<and> sb_cap sb' \<le> max 64 (2 * (length (sb_data sb) + n + 1))"
proof -
  let ?len = "length (sb_data sb)"
  have no: "\<not> n > size_max - ?len - 1" using assms(3) by (auto simp: size_max_def)
  show ?thesis
  proof (cases "?len + n + 1 \<le> sb_cap sb")
    case True
    with no assms(2) have "reserve can n sb = Inr sb" by (simp add: reserve_def Let_def)
    with assms(2) show ?thesis by (auto simp: sb_tight_def)
  next
    case False
    then have small: "sb_cap sb < 2 ^ 62" using assms(3) by simp
    let ?cap = "max (sb_cap sb * 2) (?len + n + 1)"
    have le: "?cap \<le> 2 ^ 63" using small assms(3) by auto
    then have "xmalloc_ok can ?cap"
      using can by (auto simp: xmalloc_ok_def Let_def alloc_header_def size_max_def)
    then have "reserve can n sb = Inr (sb\<lparr>sb_cap := ?cap, sb_inline := False\<rparr>)"
      using no False small by (auto simp: reserve_def Let_def size_max_def max_def split: if_splits)
    moreover have "?cap \<le> max 64 (2 * (?len + n + 1))" using False by auto
    ultimately show ?thesis by simp
  qed
qed

lemma sb_do_total:
  assumes "sb_inv sb" "sb_tight sb" "length (sb_data sb) + length (sb_text c) < 2 ^ 62"
    and can: "\<forall>k \<le> 2 ^ 63 + 16. can k"
  shows "\<exists>sb'. sb_do can c sb = Inr sb' \<and> sb_tight sb'"
proof -
  obtain t where t: "reserve can (length (sb_text c)) sb = Inr t"
      "sb_cap t \<le> max 64 (2 * (length (sb_data sb) + length (sb_text c) + 1))"
    using reserve_total [OF assms(1-3) can] by blast
  have data: "sb_data t = sb_data sb" using reserve_spec [OF t(1) assms(1)] by simp
  show ?thesis
    using t data assms(2)
    by (cases c) (auto simp: sb_puts_def sb_putn_def sb_putc_def sb_printf_def sb_tight_def Let_def
        rbind_eq_Inr split: if_splits)
qed

lemma sb_run_total:
  assumes "sb_inv sb" "sb_tight sb" "length (sb_data sb) + length (concat (map sb_text cs)) < 2 ^ 62"
    and can: "\<forall>k \<le> 2 ^ 63 + 16. can k"
  shows "\<exists>sb'. sb_run can cs sb = Inr sb' \<and> sb_tight sb'"
  using assms(1-3)
proof (induction cs arbitrary: sb)
  case (Cons c cs)
  then have "length (sb_data sb) + length (sb_text c) < 2 ^ 62" by simp
  then obtain t where t: "sb_do can c sb = Inr t" "sb_tight t"
    using sb_do_total [OF Cons.prems(1,2) _ can] by blast
  then have "sb_inv t" "sb_data t = sb_data sb @ sb_text c"
    using sb_do_spec Cons.prems(1) by blast+
  with Cons t show ?case by simp
qed simp

section \<open>Properties\<close>



text \<open>Whatever the allocator refuses, a run of buffer writes that does return has lost and
  duplicated nothing: the well-formedness of the buffer is kept from any state and its contents
  grow by exactly the texts written.\<close>

theorem sb_writes_sound:
  assumes "sb_inv sb" "sb_run can cs sb = Inr sb'"
  shows "sb_inv sb' \<and> sb_data sb' = sb_data sb @ concat (map sb_text cs)"
  using sb_run_spec [OF assms(2,1)] .

theorem sb_writes_sound_witness:
  "\<exists>sb. sb_run (\<lambda>n. n < 500) [Puts (replicate 70 (CHR ''a'')), Putc (CHR ''b'')] sb_init = Inr sb
     \<and> sb_cap sb = 128 \<and> sb_data sb = replicate 70 (CHR ''a'') @ ''b''"
proof -
  have run: "\<exists>sb. sb_run (\<lambda>n. n < 500) [Puts (replicate 70 (CHR ''a'')), Putc (CHR ''b'')] sb_init
      = Inr sb \<and> sb_cap sb = 128"
    by (simp add: sb_puts_def sb_putn_def sb_putc_def reserve_def sb_init_def xmalloc_ok_def
        alloc_header_def size_max_def)
  then show ?thesis using sb_writes_sound [OF sb_init_inv(1)] by fastforce
qed

end
