(* ===== verification/Macros.thy ===== *)
theory Macros
  imports Hints
begin

text \<open>
  The macro table of \<open>src/src/lexpp.c\<close>: a list of entries, newest first, that \<open>#define\<close>
  and \<open>-D\<close> extend or overwrite and \<open>#undef\<close> kills by blanking the name. The interface
  \<open>name_table\<close> says what its users rely on, a partial map from names to bodies.
\<close>

section \<open>The table\<close>

type_synonym macros = "(string \<times> token list) list"

definition find_macro :: "macros \<Rightarrow> string \<Rightarrow> token list option" where
  "find_macro ms name = map_option snd (find (\<lambda>m. fst m = name) ms)"

fun set_body :: "string \<Rightarrow> token list \<Rightarrow> macros \<Rightarrow> macros" where
  "set_body name body [] = []"
| "set_body name body (m # ms) =
     (if fst m = name then (fst m, body) # ms else m # set_body name body ms)"

definition define_macro :: "string \<Rightarrow> token list \<Rightarrow> macros \<Rightarrow> macros" where
  "define_macro name body ms =
     (if find_macro ms name \<noteq> None then set_body name body ms else (name, body) # ms)"

fun undef_macro :: "string \<Rightarrow> macros \<Rightarrow> macros" where
  "undef_macro name [] = []"
| "undef_macro name (m # ms) = (if fst m = name then ([], snd m) # ms else m # undef_macro name ms)"

text \<open>No name is live twice, so that killing one entry does not bring back an older one.\<close>

definition macros_inv :: "macros \<Rightarrow> bool" where
  "macros_inv ms \<longleftrightarrow> distinct (filter (\<lambda>n. n \<noteq> []) (map fst ms))"

lemma find_macro_simps [simp]:
  "find_macro [] n = None"
  "find_macro (m # ms) n = (if fst m = n then Some (snd m) else find_macro ms n)"
  by (simp_all add: find_macro_def)

lemma find_macro_None: "find_macro ms n = None \<longleftrightarrow> n \<notin> fst ` set ms"
  by (induction ms) auto

lemma map_fst_set_body [simp]: "map fst (set_body n b ms) = map fst ms"
  by (induction ms) auto

lemma find_set_body:
  "find_macro ms n \<noteq> None \<Longrightarrow> find_macro (set_body n b ms) k = (if k = n then Some b else find_macro ms k)"
  by (induction ms) auto

lemma find_define: "find_macro (define_macro n b ms) = (find_macro ms)(n \<mapsto> b)"
  by (auto simp: define_macro_def find_set_body)

lemma find_undef_other: "k \<noteq> n \<Longrightarrow> k \<noteq> [] \<Longrightarrow> find_macro (undef_macro n ms) k = find_macro ms k"
  by (induction ms) auto

lemma find_undef_same:
  "macros_inv ms \<Longrightarrow> n \<noteq> [] \<Longrightarrow> find_macro (undef_macro n ms) n = None"
proof (induction ms)
  case (Cons m ms)
  then show ?case by (auto simp: macros_inv_def find_macro_None split: if_splits)
qed simp

lemma undef_names: "set (map fst (undef_macro n ms)) \<subseteq> insert [] (set (map fst ms))"
  by (induction ms) auto

lemma define_inv: "macros_inv ms \<Longrightarrow> macros_inv (define_macro n b ms)"
  by (auto simp: macros_inv_def define_macro_def find_macro_None)

lemma macros_inv_Cons:
  "macros_inv (m # ms) \<longleftrightarrow> (fst m = [] \<or> fst m \<notin> set (map fst ms)) \<and> macros_inv ms"
  by (simp add: macros_inv_def)

lemma undef_inv: "macros_inv ms \<Longrightarrow> macros_inv (undef_macro n ms)"
proof (induction ms)
  case (Cons m ms)
  from Cons.prems have m: "fst m = [] \<or> fst m \<notin> set (map fst ms)" "macros_inv ms"
    by (simp_all only: macros_inv_Cons)
  then have "fst m = [] \<or> fst m \<notin> set (map fst (undef_macro n ms))"
    using undef_names [of n ms] by blast
  with m Cons.IH show ?case by (simp add: macros_inv_Cons del: set_map)
qed (simp add: macros_inv_def)

section \<open>The interface\<close>

text \<open>A table of named bodies: an invariant, lookup as a partial map on real (non-empty) names,
  and the two updates.\<close>

locale name_table =
  fixes inv :: "'m \<Rightarrow> bool"
    and lookup :: "'m \<Rightarrow> string \<Rightarrow> 'b option"
    and put :: "string \<Rightarrow> 'b \<Rightarrow> 'm \<Rightarrow> 'm"
    and kill :: "string \<Rightarrow> 'm \<Rightarrow> 'm"
  assumes put_inv: "inv m \<Longrightarrow> inv (put n b m)"
    and kill_inv: "inv m \<Longrightarrow> inv (kill n m)"
    and lookup_put: "inv m \<Longrightarrow> k \<noteq> [] \<Longrightarrow> lookup (put n b m) k = ((lookup m)(n \<mapsto> b)) k"
    and lookup_kill: "inv m \<Longrightarrow> n \<noteq> [] \<Longrightarrow> k \<noteq> [] \<Longrightarrow> lookup (kill n m) k = ((lookup m)(n := None)) k"
begin

text \<open>A history of updates: \<open>(n, Some b)\<close> defines, \<open>(n, None)\<close> undefines.\<close>

fun upd :: "(string \<times> 'b option) \<Rightarrow> 'm \<Rightarrow> 'm" where
  "upd (n, Some b) m = put n b m"
| "upd (n, None) m = kill n m"

definition upds :: "(string \<times> 'b option) list \<Rightarrow> 'm \<Rightarrow> 'm" where
  "upds us m = fold upd us m"

lemma upd_inv: "inv m \<Longrightarrow> inv (upd u m)"
  by (cases u; cases "snd u") (auto intro: put_inv kill_inv)

lemma upds_inv: "inv m \<Longrightarrow> inv (upds us m)"
  by (induction us arbitrary: m) (auto simp: upds_def intro: upd_inv)

lemma lookup_upd:
  "inv m \<Longrightarrow> fst u \<noteq> [] \<Longrightarrow> k \<noteq> [] \<Longrightarrow> lookup (upd u m) k = ((lookup m)(fst u := snd u)) k"
  by (cases u; cases "snd u") (auto simp: lookup_put lookup_kill)

lemma lookup_upds:
  "inv m \<Longrightarrow> list_all (\<lambda>u. fst u \<noteq> []) us \<Longrightarrow> k \<noteq> [] \<Longrightarrow>
     lookup (upds us m) k = (case map_of (rev us) k of Some b \<Rightarrow> b | None \<Rightarrow> lookup m k)"
proof (induction us rule: rev_induct)
  case (snoc u us)
  have "inv (upds us m)" using snoc.prems upds_inv by blast
  with snoc show ?case by (cases u) (auto simp: upds_def lookup_upd)
qed (simp add: upds_def)

end

interpretation mt: name_table macros_inv find_macro define_macro undef_macro
  by unfold_locales (auto simp: find_define define_inv undef_inv find_undef_other find_undef_same)

section \<open>Histories of directives\<close>

text \<open>What the preprocessor does with the table: a sequence of definitions and undefinitions.\<close>

datatype macro_op = MDefine string "token list" | MUndef string

fun run_macro_ops :: "macro_op list \<Rightarrow> macros \<Rightarrow> macros" where
  "run_macro_ops [] ms = ms"
| "run_macro_ops (MDefine n b # ops) ms = run_macro_ops ops (define_macro n b ms)"
| "run_macro_ops (MUndef n # ops) ms = run_macro_ops ops (undef_macro n ms)"

fun op_update :: "macro_op \<Rightarrow> string \<times> token list option" where
  "op_update (MDefine n b) = (n, Some b)"
| "op_update (MUndef n) = (n, None)"

lemma run_macro_ops_upds: "run_macro_ops ops ms = mt.upds (map op_update ops) ms"
proof (induction ops arbitrary: ms)
  case (Cons a ops)
  then show ?case by (cases a) (simp_all add: mt.upds_def)
qed (simp add: mt.upds_def)

text \<open>C23: The macro table behaves as a partial map under every history of \<open>#define\<close>s and
  \<open>#undef\<close>s of identifiers from the empty table: a name is defined exactly when the last
  directive on it was a \<open>#define\<close>, with the body of that one. A redefinition replaces the body
  instead of stacking an entry, so that an \<open>#undef\<close> never brings back an older definition, and no
  live name occurs twice.\<close>

theorem macro_table_last_wins:
  assumes "list_all (\<lambda>u. fst (op_update u) \<noteq> []) ops" "name \<noteq> []"
  shows "find_macro (run_macro_ops ops []) name =
      (case find (\<lambda>u. fst (op_update u) = name) (rev ops) of
         Some u \<Rightarrow> snd (op_update u) | None \<Rightarrow> None)
    \<and> macros_inv (run_macro_ops ops [])"
proof
  have inv: "macros_inv []" by (simp add: macros_inv_def)
  have m: "map_of (map op_update us) name = map_option (snd \<circ> op_update)
      (find (\<lambda>u. fst (op_update u) = name) us)" for us
    by (induction us) auto
  have "list_all (\<lambda>u. fst u \<noteq> []) (map op_update ops)" using assms(1) by (simp add: list_all_iff)
  from mt.lookup_upds [OF inv this assms(2)]
  have "find_macro (run_macro_ops ops []) name =
      (case map_of (map op_update (rev ops)) name of Some b \<Rightarrow> b | None \<Rightarrow> None)"
    by (simp add: run_macro_ops_upds rev_map split: option.splits)
  then show "find_macro (run_macro_ops ops []) name =
      (case find (\<lambda>u. fst (op_update u) = name) (rev ops) of
         Some u \<Rightarrow> snd (op_update u) | None \<Rightarrow> None)"
    by (simp add: m split: option.splits)
  show "macros_inv (run_macro_ops ops [])"
    using mt.upds_inv [OF inv] by (simp add: run_macro_ops_upds)
qed

theorem macro_table_last_wins_witness:
  "find_macro (run_macro_ops [MDefine ''A'' [], MDefine ''B'' [], MDefine ''A'' [], MUndef ''A''] []) ''A'' = None"
  using macro_table_last_wins [of "[MDefine ''A'' [], MDefine ''B'' [], MDefine ''A'' [], MUndef ''A'']" "''A''"]
  by simp

end
