(* ===== verification/Iterate.thy ===== *)
theory Iterate
  imports Prelude
begin

text \<open>
  Loops that may not end. A loop body is a function from the loop state to an error, to
  \<open>Inl\<close> the next state or to \<open>Inr\<close> the result; \<open>iter n\<close> runs at most \<open>n\<close> iterations and is
  \<open>Inl Fuel\<close> when they were not enough. The lemmas say that more fuel never changes a result,
  when some fuel is enough, when none is, and how runs compose.
\<close>

type_synonym ('s, 'r) body = "'s \<Rightarrow> ('s + 'r) res"

fun iter :: "nat \<Rightarrow> ('s, 'r) body \<Rightarrow> 's \<Rightarrow> 'r res" where
  "iter 0 b s = Inl Fuel"
| "iter (Suc n) b s =
     (case b s of
        Inl e \<Rightarrow> Inl e
      | Inr (Inl s') \<Rightarrow> iter n b s'
      | Inr (Inr r) \<Rightarrow> Inr r)"

text \<open>\<open>reaches b s t\<close>: some number of iterations lead from \<open>s\<close> to \<open>t\<close>.\<close>

inductive reaches :: "('s, 'r) body \<Rightarrow> 's \<Rightarrow> 's \<Rightarrow> bool" for b where
  reaches_refl [simp, intro]: "reaches b s s"
| reaches_step: "b s = Inr (Inl s') \<Longrightarrow> reaches b s' t \<Longrightarrow> reaches b s t"

lemma iter_mono: "iter n b s = r \<Longrightarrow> r \<noteq> Inl Fuel \<Longrightarrow> n \<le> m \<Longrightarrow> iter m b s = r"
proof (induction n arbitrary: s m)
  case (Suc n)
  then obtain k where "m = Suc k" "n \<le> k" by (cases m) auto
  with Suc show ?case by (auto split: sum.splits)
qed simp

lemma iter_unique:
  "iter n b s \<noteq> Inl Fuel \<Longrightarrow> iter m b s \<noteq> Inl Fuel \<Longrightarrow> iter n b s = iter m b s"
  by (metis iter_mono nat_le_linear)

lemma iter_body_mono:
  "(\<And>s. b s \<noteq> Inl Fuel \<Longrightarrow> b' s = b s) \<Longrightarrow> iter n b s \<noteq> Inl Fuel \<Longrightarrow> iter n b' s = iter n b s"
proof (induction n arbitrary: s)
  case (Suc n)
  then have "b s \<noteq> Inl Fuel" by auto
  with Suc show ?case by (auto split: sum.splits)
qed simp

lemma iter_measure:
  assumes "\<And>s s'. P s \<Longrightarrow> b s = Inr (Inl s') \<Longrightarrow> P s' \<and> m s' < (m s :: nat)"
    and "\<And>s. P s \<Longrightarrow> b s \<noteq> Inl Fuel"
  shows "P s \<Longrightarrow> m s < n \<Longrightarrow> iter n b s \<noteq> Inl Fuel"
proof (induction n arbitrary: s)
  case (Suc n)
  then show ?case using assms(1) [OF Suc.prems(1)] assms(2) [OF Suc.prems(1)]
    by (fastforce split: sum.splits)
qed simp

lemma iter_diverges:
  assumes "\<And>s. P s \<Longrightarrow> \<exists>s'. b s = Inr (Inl s') \<and> P s'"
  shows "P s \<Longrightarrow> iter n b s = Inl Fuel"
proof (induction n arbitrary: s)
  case (Suc n)
  then show ?case using assms [OF Suc.prems] by auto
qed simp

lemma iter_invariant:
  assumes "\<And>s s'. P s \<Longrightarrow> b s = Inr (Inl s') \<Longrightarrow> P s'"
    and "\<And>s r. P s \<Longrightarrow> b s = Inr (Inr r) \<Longrightarrow> Q r"
  shows "P s \<Longrightarrow> iter n b s = Inr r \<Longrightarrow> Q r"
proof (induction n arbitrary: s)
  case (Suc n)
  then show ?case using assms by (fastforce split: sum.splits)
qed simp

lemma reaches_one: "b s = Inr (Inl s') \<Longrightarrow> reaches b s s'"
  by (rule reaches_step) auto

lemma reaches_trans: "reaches b s t \<Longrightarrow> reaches b t u \<Longrightarrow> reaches b s u"
  by (induction rule: reaches.induct) (auto intro: reaches_step)

lemma reaches_iter: "reaches b s t \<Longrightarrow> \<exists>k. \<forall>n. iter (k + n) b s = iter n b t"
proof (induction rule: reaches.induct)
  case (reaches_refl s)
  show ?case by (rule exI [of _ 0]) simp
next
  case (reaches_step s s' t)
  then obtain k where "\<forall>n. iter (k + n) b s' = iter n b t" by blast
  with reaches_step(1) have "\<forall>n. iter (Suc k + n) b s = iter n b t" by simp
  then show ?case by blast
qed

lemma reaches_result:
  "reaches b s t \<Longrightarrow> iter n b t = r \<Longrightarrow> r \<noteq> Inl Fuel \<Longrightarrow> \<exists>k. \<forall>m \<ge> k. iter m b s = r"
  using reaches_iter [of b s t] iter_mono by (metis le_add2 le_add_diff_inverse2 le_refl)

lemma reaches_diverges:
  assumes "reaches b s t" "\<And>n. iter n b t = Inl Fuel"
  shows "iter n b s = Inl Fuel"
proof -
  obtain k where "\<forall>n. iter (k + n) b s = iter n b t" using reaches_iter [OF assms(1)] by blast
  with assms(2) have "iter (k + n) b s = Inl Fuel" by simp
  then show ?thesis by (metis iter_mono le_add2)
qed

end
