(* ===== verification/PPExpr.thy ===== *)
theory PPExpr
  imports Lexer Iterate
begin

text \<open>
  The constant-expression evaluator of \<open>src/src/lexpp.c\<close> (\<open>pp_prim\<close> to \<open>pp_or\<close>). The C
  has one function per precedence level, all of the shape ``evaluate one operand of the
  tighter level, then fold in further operands while the next token is an operator of this
  level''; here they are \<open>pp_level k\<close> with the operator table \<open>level_ops k\<close>. A read of a
  null token is \<open>NullDeref\<close>; the evaluator is only given chains that end in \<open>TK_EOF\<close>.
\<close>

section \<open>Operators\<close>

datatype pp_op =
    OShl | OShr | OMul | ODiv | OMod | OBand | OBxor | OBor | OAdd | OSub
  | OLt | OGt | OLe | OGe | OEq | ONe | OAnd | OXor | OOr

definition level_ops :: "nat \<Rightarrow> (string \<times> pp_op) list" where
  "level_ops k =
     (if k = 1 then [(''<<'', OShl), (''>>'', OShr)]
      else if k = 2 then [(''*'', OMul), (''/'', ODiv), (''%'', OMod)]
      else if k = 3 then [(''&'', OBand)]
      else if k = 4 then [(''^'', OBxor)]
      else if k = 5 then [(''|'', OBor)]
      else if k = 6 then [(''+'', OAdd), (''-'', OSub)]
      else if k = 7 then [(''<'', OLt), (''>'', OGt), (''<='', OLe), (''>='', OGe)]
      else if k = 8 then [(''=='', OEq), (''!='', ONe)]
      else if k = 9 then [(''&&'', OAnd)]
      else if k = 10 then [(''^^'', OXor)]
      else if k = 11 then [(''||'', OOr)]
      else [])"

definition level_op :: "nat \<Rightarrow> token \<Rightarrow> pp_op option" where
  "level_op k t = map_option snd (find (\<lambda>(s, _). tok_is t s) (level_ops k))"

text \<open>\<open>error_tok\<close> at a chain position; a null token gives the message without a place.\<close>

definition err_at :: "token list \<Rightarrow> string \<Rightarrow> err" where
  "err_at ts msg = (case ts of [] \<Rightarrow> Err msg | t # _ \<Rightarrow> err_tok t msg)"

definition c_shl :: "i64 \<Rightarrow> i64 \<Rightarrow> i64 res" where
  "c_shl a b = (if 0 \<le> sint b \<and> sint b < 64 then Inr (push_bit (nat (sint b)) a) else Inl BadShift)"

definition c_sar :: "i64 \<Rightarrow> i64 \<Rightarrow> i64 res" where
  "c_sar a b =
     (if 0 \<le> sint b \<and> sint b < 64 then Inr (signed_drop_bit (nat (sint b)) a) else Inl BadShift)"

text \<open>One operator applied to two values; \<open>after\<close> is the chain after the second operand, where
  the division error is reported.\<close>

definition pp_apply :: "token list \<Rightarrow> pp_op \<Rightarrow> i64 \<Rightarrow> i64 \<Rightarrow> i64 res" where
  "pp_apply after p a b =
     (case p of
        OShl \<Rightarrow> c_shl a b
      | OShr \<Rightarrow> c_sar a b
      | OMul \<Rightarrow> Inr (a * b)
      | ODiv \<Rightarrow> (if b = 0 then Inl (err_at after ''division by zero in constant expression'') else c_div a b)
      | OMod \<Rightarrow> (if b = 0 then Inl (err_at after ''division by zero in constant expression'') else c_mod a b)
      | OBand \<Rightarrow> Inr (a AND b)
      | OBxor \<Rightarrow> Inr (a XOR b)
      | OBor \<Rightarrow> Inr (a OR b)
      | OAdd \<Rightarrow> Inr (a + b)
      | OSub \<Rightarrow> Inr (a - b)
      | OLt \<Rightarrow> Inr (i64_of_bool (a <s b))
      | OGt \<Rightarrow> Inr (i64_of_bool (b <s a))
      | OLe \<Rightarrow> Inr (i64_of_bool (a \<le>s b))
      | OGe \<Rightarrow> Inr (i64_of_bool (b \<le>s a))
      | OEq \<Rightarrow> Inr (i64_of_bool (a = b))
      | ONe \<Rightarrow> Inr (i64_of_bool (a \<noteq> b))
      | OAnd \<Rightarrow> Inr (i64_of_bool (a \<noteq> 0 \<and> b \<noteq> 0))
      | OXor \<Rightarrow> Inr (i64_of_bool ((a \<noteq> 0) \<noteq> (b \<noteq> 0)))
      | OOr \<Rightarrow> Inr (i64_of_bool (a \<noteq> 0 \<or> b \<noteq> 0)))"

datatype pp_uop = UNot | UCom | UNeg | UPos

definition unary_op :: "token \<Rightarrow> pp_uop option" where
  "unary_op t =
     (if tok_is t ''!'' then Some UNot
      else if tok_is t ''~'' then Some UCom
      else if tok_is t ''-'' then Some UNeg
      else if tok_is t ''+'' then Some UPos else None)"

fun pp_uapply :: "pp_uop \<Rightarrow> i64 \<Rightarrow> i64" where
  "pp_uapply UNot v = i64_of_bool (v = 0)"
| "pp_uapply UCom v = NOT v"
| "pp_uapply UNeg v = - v"
| "pp_uapply UPos v = v"

section \<open>The evaluator\<close>

definition pp_close :: "i64 \<Rightarrow> token list \<Rightarrow> (i64 \<times> token list) res" where
  "pp_close v ts =
     (if ts \<noteq> [] \<and> tok_is (hd ts) '')'' then Inr (v, tl ts)
      else Inl (err_at ts (''expected '' @ sq '')'' @ '' in constant expression'')))"

lemma pp_close_eq_Inr:
  "pp_close v ts = Inr (w, q) \<longleftrightarrow> w = v \<and> (\<exists>c. ts = c # q \<and> tok_is c '')'')"
  by (cases ts) (auto simp: pp_close_def)

text \<open>
  \<open>pp_level 0\<close> is \<open>pp_unary\<close> with \<open>pp_prim\<close>, levels 1 to 11 are \<open>pp_shift\<close>, \<open>pp_mul\<close>,
  \<open>pp_band\<close>, \<open>pp_bxor\<close>, \<open>pp_bor\<close>, \<open>pp_addsub\<close>, \<open>pp_rel\<close>, \<open>pp_eq\<close>, \<open>pp_logand\<close>,
  \<open>pp_logxor\<close> and \<open>pp_or\<close>. \<open>pp_fold\<close> is the loop of a level.
\<close>

function (sequential)
  pp_level :: "nat \<Rightarrow> token list \<Rightarrow> (i64 \<times> token list) res" and
  pp_fold :: "nat \<Rightarrow> i64 \<Rightarrow> token list \<Rightarrow> (i64 \<times> token list) res"
where
  "pp_level (Suc k) ts = rbind (pp_level k ts) (\<lambda>(v, r). pp_fold k v r)"
| "pp_level 0 [] = Inl NullDeref"
| "pp_level 0 (t # r) =
     (case unary_op t of
        Some u \<Rightarrow> rbind (pp_level 0 r) (\<lambda>(v, r'). Inr (pp_uapply u v, r'))
      | None \<Rightarrow>
          (if tok_is t ''(''
           then rbind (pp_level 11 r) (\<lambda>(v, r'). pp_close v r')
           else if kind t = TK_NUM \<or> kind t = TK_CHR then Inr (ival t, r)
           else if kind t = TK_ID then Inr (0, r)
           else Inl (err_tok t ''malformed constant expression'')))"
| "pp_fold k v [] = Inr (v, [])"
| "pp_fold k v (t # r) =
     (case level_op (Suc k) t of
        None \<Rightarrow> Inr (v, t # r)
      | Some p \<Rightarrow>
          rbind (pp_level k r) (\<lambda>(d, r').
          rbind (pp_apply r' p v d) (\<lambda>v'. pp_fold k v' r')))"
  by pat_completeness auto

abbreviation pp_dom where "pp_dom \<equiv> pp_level_pp_fold_dom"

text \<open>An operand consumes at least one token.\<close>

lemma pp_consumes:
  "pp_dom (Inl (k, ts)) \<Longrightarrow> pp_level k ts = Inr (v, r) \<Longrightarrow> length r < length ts"
  "pp_dom (Inr (k, w, us)) \<Longrightarrow> pp_fold k w us = Inr (v', r') \<Longrightarrow> length r' \<le> length us"
proof (induction k ts and k w us arbitrary: v r and v' r' rule: pp_level_pp_fold.pinduct)
  case (1 k ts)
  from 1(4) obtain x q where q: "pp_level k ts = Inr (x, q)" "pp_fold k x q = Inr (v, r)"
    by (auto simp: pp_level.psimps(1) [OF 1(1)] rbind_eq_Inr)
  with 1(2) [OF q(1)] 1(3) [OF q(1) refl q(2)] show ?case by simp
next
  case (3 t r v q)
  show ?case
  proof (cases "unary_op t")
    case (Some u)
    with 3(4) obtain x where x: "pp_level 0 r = Inr (x, q)"
      by (auto simp: pp_level.psimps(3) [OF 3(1)] rbind_eq_Inr)
    with 3(3) [OF Some x] show ?thesis by simp
  next
    case None
    show ?thesis
    proof (cases "tok_is t ''(''")
      case True
      with None 3(4) obtain x c where x: "pp_level 11 r = Inr (x, c # q)"
        by (auto simp: pp_level.psimps(3) [OF 3(1)] rbind_eq_Inr pp_close_eq_Inr)
      with 3(2) [OF None True x] show ?thesis by simp
    qed (use None 3(4) in \<open>auto simp: pp_level.psimps(3) [OF 3(1)] split: if_splits\<close>)
  qed
next
  case (5 k v t r)
  show ?case
  proof (cases "level_op (Suc k) t")
    case (Some p)
    with 5(4) obtain d q v1 where q: "pp_level k r = Inr (d, q)" "pp_apply q p v d = Inr v1"
        "pp_fold k v1 q = Inr (v', r')"
      by (auto simp: pp_fold.psimps(2) [OF 5(1)] rbind_eq_Inr)
    with 5(2) [OF Some q(1)] 5(3) [OF Some q(1) refl q(2,3)] show ?thesis by simp
  qed (use 5(4) in \<open>auto simp: pp_fold.psimps(2) [OF 5(1)]\<close>)
qed (auto simp: pp_level.psimps pp_fold.psimps)

termination pp_level
  by (relation "inv_image (less_than <*lex*> less_than <*lex*> less_than)
        (\<lambda>x. case x of Inl (k, ts) \<Rightarrow> (length ts, k, 0) | Inr (k, v, ts) \<Rightarrow> (length ts, k, 0))")
     (auto dest: pp_consumes)

definition pp_or :: "token list \<Rightarrow> (i64 \<times> token list) res" where
  "pp_or ts = pp_level 11 ts"

section \<open>Reference semantics\<close>

text \<open>
  Expression trees, their value, and their printed form with as few parentheses as HolyC's
  precedences and left associativity allow: an operator of level \<open>L\<close> has operands printed at
  levels \<open>L\<close> and \<open>L - 1\<close>, and is parenthesised where only a tighter level is admitted.
\<close>

datatype pexp = PNum i64 | PName string | PUn pp_uop pexp | PBin pp_op pexp pexp

fun op_level :: "pp_op \<Rightarrow> nat" where
  "op_level OShl = 1" | "op_level OShr = 1"
| "op_level OMul = 2" | "op_level ODiv = 2" | "op_level OMod = 2"
| "op_level OBand = 3" | "op_level OBxor = 4" | "op_level OBor = 5"
| "op_level OAdd = 6" | "op_level OSub = 6"
| "op_level OLt = 7" | "op_level OGt = 7" | "op_level OLe = 7" | "op_level OGe = 7"
| "op_level OEq = 8" | "op_level ONe = 8"
| "op_level OAnd = 9" | "op_level OXor = 10" | "op_level OOr = 11"

fun op_str :: "pp_op \<Rightarrow> string" where
  "op_str OShl = ''<<''" | "op_str OShr = ''>>''"
| "op_str OMul = ''*''" | "op_str ODiv = ''/''" | "op_str OMod = ''%''"
| "op_str OBand = ''&''" | "op_str OBxor = ''^''" | "op_str OBor = ''|''"
| "op_str OAdd = ''+''" | "op_str OSub = ''-''"
| "op_str OLt = ''<''" | "op_str OGt = ''>''" | "op_str OLe = ''<=''" | "op_str OGe = ''>=''"
| "op_str OEq = ''==''" | "op_str ONe = ''!=''"
| "op_str OAnd = ''&&''" | "op_str OXor = ''^^''" | "op_str OOr = ''||''"

fun uop_str :: "pp_uop \<Rightarrow> string" where
  "uop_str UNot = ''!''" | "uop_str UCom = ''~''" | "uop_str UNeg = ''-''" | "uop_str UPos = ''+''"

definition ptok :: "string \<Rightarrow> int \<Rightarrow> string \<Rightarrow> token" where
  "ptok f n s = (new_token f n TK_PUNCT)\<lparr>str := s\<rparr>"

fun show_pe :: "string \<Rightarrow> int \<Rightarrow> nat \<Rightarrow> pexp \<Rightarrow> token list" where
  "show_pe f n k (PNum v) = [(new_token f n TK_NUM)\<lparr>ival := v\<rparr>]"
| "show_pe f n k (PName s) = [(new_token f n TK_ID)\<lparr>str := s\<rparr>]"
| "show_pe f n k (PUn u e) = ptok f n (uop_str u) # show_pe f n 0 e"
| "show_pe f n k (PBin p a b) =
     (let body = show_pe f n (op_level p) a @ ptok f n (op_str p) # show_pe f n (op_level p - 1) b
      in if op_level p \<le> k then body else ptok f n ''('' # body @ [ptok f n '')''])"

text \<open>Names are identifiers; the evaluator gives every name that is left the value 0.\<close>

fun pe_names :: "pexp \<Rightarrow> string list" where
  "pe_names (PNum v) = []"
| "pe_names (PName s) = [s]"
| "pe_names (PUn u e) = pe_names e"
| "pe_names (PBin p a b) = pe_names a @ pe_names b"

definition pe_ok :: "pexp \<Rightarrow> bool" where
  "pe_ok e \<longleftrightarrow> list_all (\<lambda>s. lex_is_identifier (Some s)) (pe_names e)"

fun pe_val :: "pexp \<Rightarrow> i64 option" where
  "pe_val (PNum v) = Some v"
| "pe_val (PName s) = Some 0"
| "pe_val (PUn u e) = map_option (pp_uapply u) (pe_val e)"
| "pe_val (PBin p a b) =
     (case (pe_val a, pe_val b) of
        (Some x, Some y) \<Rightarrow> (case pp_apply [] p x y of Inr v \<Rightarrow> Some v | Inl _ \<Rightarrow> None)
      | _ \<Rightarrow> None)"

section \<open>The evaluator computes the reference semantics\<close>

lemma tok_is_ptok [simp]: "tok_is (ptok f n s) s' \<longleftrightarrow> s = s'"
  by (simp add: tok_is_def ptok_def new_token_def)

lemma kind_ptok [simp]: "kind (ptok f n s) = TK_PUNCT"
  by (simp add: ptok_def new_token_def)

lemma level_op_ptok:
  "level_op k (ptok f n (op_str p)) = (if op_level p = k then Some p else None)"
  by (cases p) (auto simp: level_op_def level_ops_def)

lemma level_op_paren [simp]: "level_op k (ptok f n '')'') = None"
  by (auto simp: level_op_def level_ops_def)

lemma op_level_pos: "\<exists>l. op_level p = Suc l"
  by (cases p) auto

lemma unary_op_uop [simp]: "unary_op (ptok f n (uop_str u)) = Some u"
  by (cases u) (auto simp: unary_op_def)

lemma pp_apply_after:
  "(case pp_apply r p a b of Inr v \<Rightarrow> Some v | Inl _ \<Rightarrow> None) =
   (case pp_apply [] p a b of Inr v \<Rightarrow> Some v | Inl _ \<Rightarrow> None)"
  by (cases p) (auto simp: pp_apply_def)

definition pe_quiet :: "nat \<Rightarrow> token list \<Rightarrow> bool" where
  "pe_quiet j ts \<longleftrightarrow> ts = [] \<or> level_op j (hd ts) = None"

lemma pp_fold_quiet: "pe_quiet (Suc k) ts \<Longrightarrow> pp_fold k v ts = Inr (v, ts)"
  by (cases ts) (auto simp: pe_quiet_def)

definition pe_after :: "nat \<Rightarrow> i64 \<Rightarrow> token list \<Rightarrow> (i64 \<times> token list) res" where
  "pe_after k v rest = (case k of 0 \<Rightarrow> Inr (v, rest) | Suc k' \<Rightarrow> pp_fold k' v rest)"

definition pe_agree :: "nat \<Rightarrow> token list \<Rightarrow> token list \<Rightarrow> i64 option \<Rightarrow> bool" where
  "pe_agree k ts rest w \<longleftrightarrow>
     (case w of Some v \<Rightarrow> pp_level k ts = pe_after k v rest | None \<Rightarrow> \<exists>e. pp_level k ts = Inl e)"

lemma after_quiet: "pe_quiet k rest \<or> k = 0 \<Longrightarrow> pe_after k v rest = Inr (v, rest)"
  by (cases k) (auto simp: pe_after_def pp_fold_quiet)

lemma agree_up:
  assumes "pe_agree j ts rest w" "j \<le> k" "\<And>i. 0 < i \<Longrightarrow> i < k \<Longrightarrow> pe_quiet i rest"
  shows "pe_agree k ts rest w"
  using assms(2,1,3)
proof (induction k rule: dec_induct)
  case (step k)
  then have ag: "pe_agree k ts rest w" by simp
  show ?case
  proof (cases w)
    case (Some v)
    have "pe_quiet k rest \<or> k = 0" using step.prems(2) by auto
    with Some ag show ?thesis by (simp add: pe_agree_def after_quiet) (simp add: pe_after_def)
  qed (use ag in \<open>auto simp: pe_agree_def\<close>)
qed simp

lemma agree_binary:
  assumes a: "pe_agree (Suc l) (show_pe f n (Suc l) a @ opt # q) (opt # q) (pe_val a)"
    and b: "pe_agree l q rest (pe_val b)"
    and opt: "opt = ptok f n (op_str p)" "op_level p = Suc l"
    and pe_quiet: "pe_quiet l rest \<or> l = 0"
  shows "pe_agree (Suc l) (show_pe f n (Suc l) a @ opt # q) rest (pe_val (PBin p a b))"
proof (cases "pe_val a")
  case (Some x)
  with a opt have x: "pp_level (Suc l) (show_pe f n (Suc l) a @ opt # q) =
      rbind (pp_level l q) (\<lambda>(d, r'). rbind (pp_apply r' p x d) (\<lambda>v'. pp_fold l v' r'))"
    by (simp add: pe_agree_def pe_after_def level_op_ptok del: pp_level.simps)
  show ?thesis
  proof (cases "pe_val b")
    case Some_b: (Some y)
    with b pe_quiet have "pp_level l q = Inr (y, rest)" by (simp add: pe_agree_def after_quiet)
    with x Some Some_b pp_apply_after [of rest p x y] show ?thesis
      by (auto simp: pe_agree_def pe_after_def simp del: pp_level.simps split: sum.splits)
  qed (use b x Some in \<open>auto simp: pe_agree_def simp del: pp_level.simps\<close>)
qed (use a in \<open>auto simp: pe_agree_def simp del: pp_level.simps\<close>)

lemma agree_show:
  "(\<And>i. 0 < i \<Longrightarrow> i < k \<Longrightarrow> pe_quiet i rest) \<Longrightarrow> pe_ok e \<Longrightarrow> pe_agree k (show_pe f n k e @ rest) rest (pe_val e)"
proof (induction e arbitrary: k rest)
  case (PNum v)
  have "pe_agree 0 (show_pe f n k (PNum v) @ rest) rest (pe_val (PNum v))"
    by (simp add: pe_agree_def pe_after_def unary_op_def tok_is_def tok_is_word_def new_token_def)
  then show ?case by (rule agree_up) (use PNum in auto)
next
  case (PName s)
  have "pe_agree 0 (show_pe f n k (PName s) @ rest) rest (pe_val (PName s))"
    using PName.prems(2)
    by (auto simp: pe_agree_def pe_after_def unary_op_def tok_is_def tok_is_word_def new_token_def pe_ok_def
        lex_is_identifier_def ident_start_def is_alpha_def less_eq_char_def)
  then show ?case by (rule agree_up) (use PName in auto)
next
  case (PUn u e)
  have "pe_agree 0 (show_pe f n 0 e @ rest) rest (pe_val e)" by (rule PUn.IH) (use PUn.prems(2) in \<open>simp_all add: pe_ok_def\<close>)
  then have "pe_agree 0 (show_pe f n k (PUn u e) @ rest) rest (pe_val (PUn u e))"
    by (auto simp: pe_agree_def pe_after_def split: option.splits)
  then show ?case by (rule agree_up) (use PUn in auto)
next
  case (PBin p a b)
  obtain l where l: "op_level p = Suc l" using op_level_pos by blast
  let ?opt = "ptok f n (op_str p)"
  have body: "pe_agree (Suc l) (show_pe f n (Suc l) a @ ?opt # show_pe f n l b @ r) r (pe_val (PBin p a b))"
    if "\<And>i. 0 < i \<Longrightarrow> i < Suc l \<Longrightarrow> pe_quiet i r" for r
  proof (rule agree_binary [OF _ _ refl l])
    show "pe_agree (Suc l) (show_pe f n (Suc l) a @ ?opt # show_pe f n l b @ r) (?opt # show_pe f n l b @ r) (pe_val a)"
      by (rule PBin.IH(1)) (use PBin.prems(2) in \<open>auto simp: pe_quiet_def level_op_ptok l pe_ok_def\<close>)
    show "pe_agree l (show_pe f n l b @ r) r (pe_val b)" by (rule PBin.IH(2)) (use that PBin.prems(2) in \<open>auto simp: pe_ok_def\<close>)
    show "pe_quiet l r \<or> l = 0" using that by auto
  qed
  show ?case
  proof (cases "op_level p \<le> k")
    case True
    have "pe_agree (Suc l) (show_pe f n k (PBin p a b) @ rest) rest (pe_val (PBin p a b))"
      using body [of rest] PBin.prems True l by (simp del: pe_val.simps)
    then show ?thesis by (rule agree_up) (use PBin True l in auto)
  next
    case False
    let ?in = "show_pe f n (Suc l) a @ ?opt # show_pe f n l b @ ptok f n '')'' # rest"
    have "pe_agree (Suc l) ?in (ptok f n '')'' # rest) (pe_val (PBin p a b))"
      by (rule body) (simp add: pe_quiet_def)
    then have "pe_agree 11 ?in (ptok f n '')'' # rest) (pe_val (PBin p a b))"
      by (rule agree_up) (use l in \<open>cases p; simp add: pe_quiet_def\<close>)+
    then have "pe_agree 0 (show_pe f n k (PBin p a b) @ rest) rest (pe_val (PBin p a b))"
      using False l
      by (auto simp: pe_agree_def after_quiet pe_quiet_def unary_op_def pp_close_def
          simp del: pe_val.simps pp_level.simps(1) split: option.splits)
    then show ?thesis by (rule agree_up) (use PBin in auto)
  qed
qed

section \<open>Properties\<close>



end
