(* ===== verification/Preproc.thy ===== *)
theory Preproc
  imports Macros PPExpr
begin

text \<open>
  The token-level preprocessor of \<open>src/src/lexpp.c\<close> and the include search and instance
  set-up of \<open>src/src/lex.c\<close>. \<open>pp_step\<close> is one iteration of the loop of \<open>lex_preprocess\<close>;
  every directive has its own definition. The file system and \<open>exe_run\<close> are parameters. A
  null file name of a token is the empty string.
\<close>

section \<open>State and host\<close>

record pp =
  pp_macros :: macros
  pp_cwd :: string
  pp_dirs :: "string list"
  pp_flags :: argv
  pp_depth :: int
  exe_prefix :: "token list"
  exe_visible :: nat
  pp_brace :: int
  pp_paren :: int
  pp_bracket :: int
  pp_warns :: "err list"

text \<open>\<open>pv_exe body rest st\<close> is \<open>exe_run\<close>: the generated text, the remaining chain (which
  \<open>exe_run\<close> may replace) and the state.\<close>

record pp_env =
  pv_hints :: hint_env
  pv_open :: "string \<Rightarrow> bool"
  pv_source :: "string \<Rightarrow> string option"
  pv_is_dir :: "string \<Rightarrow> bool"
  pv_exe :: "token list \<Rightarrow> token list \<Rightarrow> pp \<Rightarrow> (string \<times> token list \<times> pp) res"

text \<open>A C string ends at its first NUL.\<close>

definition cstr :: "string \<Rightarrow> string" where
  "cstr s = takeWhile (\<lambda>c. c \<noteq> chr_nul) s"

text \<open>The text before the last slash (\<open>strrchr\<close>), if there is one.\<close>

definition dir_part :: "string \<Rightarrow> string option" where
  "dir_part s =
     (let r = dropWhile (\<lambda>c. c \<noteq> CHR ''/'') (rev s) in if r = [] then None else Some (rev (tl r)))"

definition from_cwd :: "pp \<Rightarrow> string \<Rightarrow> string" where
  "from_cwd st path =
     (if path \<noteq> [] \<and> hd path = CHR ''/'' then path else pp_cwd st @ ''/'' @ path)"

definition lex_set_cwd :: "pp_env \<Rightarrow> string \<Rightarrow> pp \<Rightarrow> pp option" where
  "lex_set_cwd env path st =
     (let dir = from_cwd st path in if pv_is_dir env dir then Some (st\<lparr>pp_cwd := dir\<rparr>) else None)"

definition lex_add_include_dir :: "string \<Rightarrow> pp \<Rightarrow> pp" where
  "lex_add_include_dir dir st = st\<lparr>pp_dirs := from_cwd st dir # pp_dirs st\<rparr>"

definition search_include :: "pp_env \<Rightarrow> pp \<Rightarrow> string \<Rightarrow> string \<Rightarrow> string option" where
  "search_include env st name from_file =
     (let near = (case dir_part from_file of None \<Rightarrow> [] | Some d \<Rightarrow> [d @ ''/'' @ name])
      in find (pv_open env) (near @ from_cwd st name # map (\<lambda>d. d @ ''/'' @ name) (pp_dirs st)))"

text \<open>The nesting counts after one punctuator.\<close>

definition count_bracket :: "string \<Rightarrow> pp \<Rightarrow> pp" where
  "count_bracket s st =
     (if s = ''{'' then st\<lparr>pp_brace := pp_brace st + 1\<rparr>
      else if s = ''}'' then (if pp_brace st > 0 then st\<lparr>pp_brace := pp_brace st - 1\<rparr> else st)
      else if s = ''('' then st\<lparr>pp_paren := pp_paren st + 1\<rparr>
      else if s = '')'' then (if pp_paren st > 0 then st\<lparr>pp_paren := pp_paren st - 1\<rparr> else st)
      else if s = ''['' then st\<lparr>pp_bracket := pp_bracket st + 1\<rparr>
      else if s = '']'' then (if pp_bracket st > 0 then st\<lparr>pp_bracket := pp_bracket st - 1\<rparr> else st)
      else st)"

definition at_top :: "pp \<Rightarrow> bool" where
  "at_top st \<longleftrightarrow> pp_brace st = 0 \<and> pp_paren st = 0 \<and> pp_bracket st = 0"

definition remember_exe_prefix :: "token \<Rightarrow> pp \<Rightarrow> pp" where
  "remember_exe_prefix t st0 =
     (let st = st0\<lparr>exe_prefix := exe_prefix st0 @ [t]\<rparr>
      in if kind t \<noteq> TK_PUNCT then st
         else
           (let st1 = count_bracket (str t) st
            in if (str t = ''}'' \<or> str t = '';'') \<and> at_top st1
               then st1\<lparr>exe_visible := length (exe_prefix st1)\<rparr> else st1))"

lemma count_bracket_frame [simp]:
  "pp_macros (count_bracket s st) = pp_macros st"
  "exe_prefix (count_bracket s st) = exe_prefix st"
  "exe_visible (count_bracket s st) = exe_visible st"
  by (simp_all add: count_bracket_def)

lemma remember_frame [simp]:
  "pp_macros (remember_exe_prefix t st) = pp_macros st"
  "exe_prefix (remember_exe_prefix t st) = exe_prefix st @ [t]"
  by (simp_all add: remember_exe_prefix_def Let_def)

definition location_token :: "macros \<Rightarrow> token \<Rightarrow> token option" where
  "location_token ms t =
     (if \<not> prefix ''__'' (str t) \<or> find_macro ms (str t) \<noteq> None then None
      else if str t = ''__LINE__''
        then Some (t\<lparr>kind := TK_NUM, ival := word_of_int (tline t), str := [], len := 0\<rparr>)
      else if str t = ''__FILE__'' \<or> str t = ''__DIR__''
        then
          (let s = (if str t = ''__DIR__''
                    then (case dir_part (tfile t) of None \<Rightarrow> ''.'' | Some d \<Rightarrow> d) else tfile t)
           in Some (t\<lparr>kind := TK_STR, str := s, len := length s\<rparr>))
      else None)"

definition new_eof :: "token option \<Rightarrow> token" where
  "new_eof near =
     (case near of None \<Rightarrow> new_token [] 0 TK_EOF | Some t \<Rightarrow> new_token (tfile t) (tline t) TK_EOF)"

section \<open>Expanding a directive line\<close>

text \<open>A spliced copy of a macro body: its own name is not expanded again in it.\<close>

definition body_copy :: "string \<Rightarrow> token list \<Rightarrow> token list" where
  "body_copy name body =
     map (\<lambda>b. if kind b = TK_ID \<and> str b = name then b\<lparr>no_expand := True\<rparr> else b) body"

definition defined_operand :: "macros \<Rightarrow> token \<Rightarrow> token list \<Rightarrow> (bool \<times> token list) res" where
  "defined_operand ms w r =
     (let paren = r \<noteq> [] \<and> tok_is (hd r) ''(''; r1 = (if paren then tl r else r)
      in case r1 of
           [] \<Rightarrow> Inl NullDeref
         | a # after \<Rightarrow>
             (if kind a \<noteq> TK_ID then Inl (err_tok w ''defined expects a name'')
              else
                (let def = find_macro ms (str a) \<noteq> None
                 in if \<not> paren then Inr (def, after)
                    else if after \<noteq> [] \<and> tok_is (hd after) '')'' then Inr (def, tl after)
                    else Inl (err_tok w (''defined missing '' @ sq '')'')))))"

definition expandable :: "token \<Rightarrow> bool" where
  "expandable t \<longleftrightarrow> kind t = TK_ID \<and> \<not> no_expand t"

definition pp_expand_step ::
  "macros \<Rightarrow> token list \<times> token list \<Rightarrow> (token list \<times> token list + token list) res" where
  "pp_expand_step ms = (\<lambda>(w, out).
     (case w of
        [] \<Rightarrow> Inr (Inr (rev out @ [new_eof None]))
      | t # r \<Rightarrow>
          (if kind t = TK_EOF then Inr (Inr (rev out @ t # r))
           else if expandable t \<and> str t = ''defined''
             then rbind (defined_operand ms t r) (\<lambda>(def, after).
                    Inr (Inl (after, t\<lparr>kind := TK_NUM, ival := i64_of_bool def, str := []\<rparr> # out)))
           else
             (case (if expandable t then find_macro ms (str t) else None) of
                Some body \<Rightarrow> Inr (Inl (body_copy (str t) body @ r, out))
              | None \<Rightarrow> Inr (Inl (r, t # out))))))"

definition pp_expand :: "nat \<Rightarrow> macros \<Rightarrow> token list \<Rightarrow> token list res" where
  "pp_expand n ms w = iter n (pp_expand_step ms) (w, [])"

text \<open>The tokens of a directive up to the end of its line, and the chain after them.\<close>

definition on_line :: "int \<Rightarrow> token \<Rightarrow> bool" where
  "on_line dline b \<longleftrightarrow> kind b \<noteq> TK_EOF \<and> \<not> at_bol b \<and> tline b = dline"

definition span_line :: "int \<Rightarrow> token list \<Rightarrow> (token list \<times> token list) res" where
  "span_line dline ts =
     (let b = dropWhile (on_line dline) ts
      in if b = [] then Inl NullDeref else Inr (takeWhile (on_line dline) ts, b))"

definition pp_eval_line ::
  "nat \<Rightarrow> macros \<Rightarrow> token \<Rightarrow> token list \<Rightarrow> int \<Rightarrow> (i64 \<times> token list) res" where
  "pp_eval_line n ms d rd dline =
     rbind (span_line dline rd) (\<lambda>(lh, b).
       if lh = [] then Inl (err_tok d (''#'' @ str d @ '' expects an expression''))
       else
         rbind (pp_expand n ms (lh @ [new_eof (Some d)])) (\<lambda>ex.
         rbind (pp_or ex) (\<lambda>(v, ex').
           (case ex' of
              [] \<Rightarrow> Inl NullDeref
            | e # _ \<Rightarrow>
                (if kind e \<noteq> TK_EOF
                 then Inl (err_tok e (''#'' @ str d @ '': unexpected token in expression''))
                 else Inr (v, b))))))"

section \<open>Skipping a dead branch\<close>

text \<open>\<open>None\<close> is a \<open>*hit_else\<close> the C leaves unset: the end of the input was reached.\<close>

fun skip_cond :: "nat \<Rightarrow> token list \<Rightarrow> (bool option \<times> token list) res" where
  "skip_cond depth [] = Inl NullDeref"
| "skip_cond depth (t # r) =
     (if kind t = TK_EOF then Inr (None, t # r)
      else if at_bol t \<and> tok_is t ''#''
        then
          (case r of
             [] \<Rightarrow> Inl NullDeref
           | d # rd \<Rightarrow>
               (if \<not> tok_is_word d then skip_cond depth r
                else if prefix ''if'' (str d) then skip_cond (depth + 1) r
                else if str d = ''endif''
                  then (if depth = 0 then Inr (Some False, rd) else skip_cond (depth - 1) r)
                else if str d = ''else'' \<and> depth = 0 then Inr (Some True, rd)
                else skip_cond depth r))
      else skip_cond depth r)"

section \<open>The directory-change idiom\<close>

definition pp_str_arg :: "macros \<Rightarrow> token \<Rightarrow> string option" where
  "pp_str_arg ms s =
     (if kind s = TK_STR then Some (str s)
      else if expandable s
        then
          (case location_token ms s of
             Some loc \<Rightarrow>
               (if kind loc = TK_STR then Some (str loc)
                else (case find_macro ms (str s) of
                        Some [b] \<Rightarrow> (if kind b = TK_STR then Some (str b) else None) | _ \<Rightarrow> None))
           | None \<Rightarrow>
               (case find_macro ms (str s) of
                  Some [b] \<Rightarrow> (if kind b = TK_STR then Some (str b) else None) | _ \<Rightarrow> None))
      else None)"

text \<open>The first line of \<open>pp_toplevel_cd\<close> reads \<open>t->next->next->next\<close> before anything is
  checked: with exactly one token after \<open>t\<close> that goes through a null pointer.\<close>

definition pp_toplevel_cd ::
  "pp_env \<Rightarrow> token \<Rightarrow> token list \<Rightarrow> pp \<Rightarrow> (token list \<times> pp) option res" where
  "pp_toplevel_cd env t r st =
     (case r of
        [a] \<Rightarrow> Inl NullDeref
      | a # x # c # e # rest \<Rightarrow>
          (if \<not> tok_is t ''Cd'' \<or> find_macro (pp_macros st) (str t) \<noteq> None
              \<or> \<not> tok_is a ''('' \<or> \<not> tok_is c '')'' \<or> \<not> tok_is e '';'' then Inr None
           else
             (case pp_str_arg (pp_macros st) x of
                None \<Rightarrow> Inr None
              | Some path \<Rightarrow>
                  (case lex_set_cwd env (cstr path) st of
                     None \<Rightarrow> Inl (err_tok t (''Cd: directory not found '' @ [chr_dq] @ cstr path @ [chr_dq]))
                   | Some st' \<Rightarrow> Inr (Some (rest, st')))))
      | _ \<Rightarrow> Inr None)"

section \<open>Directives\<close>

text \<open>The variables of \<open>lex_preprocess\<close>: the output built so far (newest first), the chain
  still to be read, and whether this is the outermost call.\<close>

record pp_loop =
  pl_st :: pp
  pl_out :: "token list"
  pl_todo :: "token list"
  pl_cond :: int
  pl_braces :: int
  pl_remember :: bool

definition dir_include :: "pp_env \<Rightarrow> token list \<Rightarrow> pp_loop \<Rightarrow> pp_loop res" where
  "dir_include env rd s =
     (case rd of
        [] \<Rightarrow> Inl NullDeref
      | f # rest \<Rightarrow>
          (if kind f \<noteq> TK_STR
           then Inl (err_tok f (''#include expects '' @ [chr_dq] @ ''file'' @ [chr_dq] @ '' (HolyC has no <>)''))
           else
             (case search_include env (pl_st s) (cstr (str f)) (tfile f) of
                None \<Rightarrow> Inl (err_tok f (''cannot find include file '' @ [chr_dq] @ cstr (str f) @ [chr_dq]))
              | Some path \<Rightarrow>
                  (case pv_source env path of
                     None \<Rightarrow> Inl (err_tok f (''cannot read '' @ [chr_dq] @ path @ [chr_dq]))
                   | Some src \<Rightarrow>
                       rbind (tokenize (pv_hints env) path src (pp_flags (pl_st s))) (\<lambda>(inc, fl).
                         Inr (s\<lparr>pl_st := (pl_st s)\<lparr>pp_flags := fl\<rparr>, pl_todo := token_join inc rest\<rparr>))))))"

definition dir_define :: "token list \<Rightarrow> int \<Rightarrow> pp_loop \<Rightarrow> pp_loop res" where
  "dir_define rd dline s =
     (case rd of
        [] \<Rightarrow> Inl NullDeref
      | n # rn \<Rightarrow>
          (if kind n \<noteq> TK_ID then Inl (err_tok n ''#define expects a name'')
           else
             rbind (span_line dline rn) (\<lambda>(body, b).
               Inr (s\<lparr>pl_st := (pl_st s)\<lparr>pp_macros := define_macro (str n) body (pp_macros (pl_st s))\<rparr>,
                      pl_todo := b\<rparr>))))"

definition dir_undef :: "token list \<Rightarrow> pp_loop \<Rightarrow> pp_loop res" where
  "dir_undef rd s =
     (case rd of
        [] \<Rightarrow> Inl NullDeref
      | n # rn \<Rightarrow>
          (if kind n \<noteq> TK_ID then Inl (err_tok n ''#undef expects a name'')
           else Inr (s\<lparr>pl_st := (pl_st s)\<lparr>pp_macros := undef_macro (str n) (pp_macros (pl_st s))\<rparr>,
                       pl_todo := rn\<rparr>)))"

text \<open>Enter a live branch at \<open>b\<close>, or skip to the matching \<open>#else\<close> or \<open>#endif\<close>. When the end of
  the input is reached instead, the C tests an unset flag; only \<open>cond_depth\<close> depends on it, and
  no later step reads that.\<close>

definition enter_cond :: "bool \<Rightarrow> token list \<Rightarrow> pp_loop \<Rightarrow> pp_loop res" where
  "enter_cond live b s =
     (if live then Inr (s\<lparr>pl_cond := pl_cond s + 1, pl_todo := b\<rparr>)
      else rbind (skip_cond 0 b) (\<lambda>(hit, t).
        Inr (s\<lparr>pl_cond := pl_cond s + (if hit = Some True then 1 else 0), pl_todo := t\<rparr>)))"

definition dir_if :: "nat \<Rightarrow> token \<Rightarrow> token list \<Rightarrow> int \<Rightarrow> pp_loop \<Rightarrow> pp_loop res" where
  "dir_if n d rd dline s =
     rbind (pp_eval_line n (pp_macros (pl_st s)) d rd dline) (\<lambda>(v, b). enter_cond (v \<noteq> 0) b s)"

definition dir_assert :: "nat \<Rightarrow> token \<Rightarrow> token list \<Rightarrow> int \<Rightarrow> pp_loop \<Rightarrow> pp_loop res" where
  "dir_assert n d rd dline s =
     rbind (pp_eval_line n (pp_macros (pl_st s)) d rd dline) (\<lambda>(v, b).
       Inr (s\<lparr>pl_st := (if v = 0
                        then (pl_st s)\<lparr>pp_warns := pp_warns (pl_st s) @ [err_tok d ''assertion failed'']\<rparr>
                        else pl_st s),
              pl_todo := b\<rparr>))"

definition dir_ifdef :: "token \<Rightarrow> token list \<Rightarrow> pp_loop \<Rightarrow> pp_loop res" where
  "dir_ifdef d rd s =
     (case rd of
        [] \<Rightarrow> Inl NullDeref
      | n # rn \<Rightarrow>
          (if kind n \<noteq> TK_ID then Inl (err_tok n (str d @ '' expects a name''))
           else
             (let def = find_macro (pp_macros (pl_st s)) (str n) \<noteq> None
              in enter_cond (if str d = ''ifdef'' then def else \<not> def) rn s)))"

definition dir_else :: "token \<Rightarrow> token list \<Rightarrow> pp_loop \<Rightarrow> pp_loop res" where
  "dir_else d rd s =
     (if pl_cond s \<le> 0 then Inl (err_tok d ''#else without #ifdef'')
      else rbind (skip_cond 0 rd) (\<lambda>(_, t). Inr (s\<lparr>pl_todo := t, pl_cond := pl_cond s - 1\<rparr>)))"

definition dir_endif :: "token \<Rightarrow> token list \<Rightarrow> pp_loop \<Rightarrow> pp_loop res" where
  "dir_endif d rd s =
     (if pl_cond s \<le> 0 then Inl (err_tok d ''#endif without #ifdef'')
      else Inr (s\<lparr>pl_cond := pl_cond s - 1, pl_todo := rd\<rparr>))"

text \<open>The body of \<open>#exe\<close> up to its closing brace and the chain after that; \<open>None\<close> when the end
  of the input comes first.\<close>

fun exe_split :: "nat \<Rightarrow> token list \<Rightarrow> (token list \<times> token list) option res" where
  "exe_split depth [] = Inl NullDeref"
| "exe_split depth (q # r) =
     (if kind q = TK_EOF then Inr None
      else if tok_is q ''}'' \<and> depth \<le> 1 then Inr (Some ([], r))
      else rbind (exe_split (if tok_is q ''{'' then depth + 1
                             else if tok_is q ''}'' then depth - 1 else depth) r)
             (\<lambda>m. Inr (map_option (\<lambda>(body, rest). (q # body, rest)) m)))"

definition dir_exe :: "pp_env \<Rightarrow> token list \<Rightarrow> pp_loop \<Rightarrow> pp_loop res" where
  "dir_exe env rd s =
     (case rd of
        [] \<Rightarrow> Inl (err_at rd (''#exe expects '' @ sq ''{''))
      | b # rb \<Rightarrow>
          (if \<not> tok_is b ''{'' then Inl (err_at rd (''#exe expects '' @ sq ''{''))
           else
             rbind (exe_split 1 rb) (\<lambda>m.
               (case m of
                  None \<Rightarrow> Inl (err_tok b ''unterminated #exe{}'')
                | Some (body, rest) \<Rightarrow>
                    rbind (pv_exe env (body @ [new_eof (Some (last (b # body)))]) rest (pl_st s))
                      (\<lambda>(out, rest', st').
                    rbind (tokenize (pv_hints env) ''<exe>'' out (pp_flags st')) (\<lambda>(inj, fl).
                      Inr (s\<lparr>pl_st := st'\<lparr>pp_flags := fl\<rparr>, pl_todo := token_join inj rest'\<rparr>)))))))"

definition dir_help :: "token list \<Rightarrow> int \<Rightarrow> pp_loop \<Rightarrow> pp_loop res" where
  "dir_help rd dline s = rbind (span_line dline rd) (\<lambda>(_, b). Inr (s\<lparr>pl_todo := b\<rparr>))"

definition pp_directive :: "pp_env \<Rightarrow> nat \<Rightarrow> token \<Rightarrow> token list \<Rightarrow> pp_loop \<Rightarrow> pp_loop res" where
  "pp_directive env n tok r s =
     (case r of
        [] \<Rightarrow> Inl (err_tok tok ''invalid preprocessor directive'')
      | d # rd \<Rightarrow>
          (if \<not> tok_is_word d then Inl (err_tok tok ''invalid preprocessor directive'')
           else if str d = ''include'' then dir_include env rd s
           else if str d = ''define'' then dir_define rd (tline tok) s
           else if str d = ''undef'' then dir_undef rd s
           else if str d = ''if'' then dir_if n d rd (tline tok) s
           else if str d = ''assert'' then dir_assert n d rd (tline tok) s
           else if str d = ''ifdef'' \<or> str d = ''ifndef'' then dir_ifdef d rd s
           else if str d = ''else'' then dir_else d rd s
           else if str d = ''endif'' then dir_endif d rd s
           else if str d = ''exe'' then dir_exe env rd s
           else if str d = ''help_index'' \<or> str d = ''help_file'' then dir_help rd (tline tok) s
           else Inl (err_tok d (''unknown directive #'' @ str d))))"

section \<open>The loop\<close>

definition no_token_hints :: "token \<Rightarrow> bool" where
  "no_token_hints t \<longleftrightarrow> hint_bits t = 0 \<and> hint_align t = 0 \<and> hints t = 0"

text \<open>The hints of an expanded name go to the first token after it.\<close>

definition inherit_next :: "token \<Rightarrow> token list \<Rightarrow> token list res" where
  "inherit_next t ts =
     (case ts of
        [] \<Rightarrow> (if no_token_hints t then Inr [] else Inl NullDeref)
      | u # us \<Rightarrow> rbind (lex_hints_inherit t u) (\<lambda>u'. Inr (u' # us)))"

definition splice_body :: "token \<Rightarrow> token list \<Rightarrow> token list \<Rightarrow> token list res" where
  "splice_body t body r =
     inherit_next t (map (\<lambda>b. b\<lparr>tfile := tfile t, tline := tline t\<rparr>) (body_copy (str t) body) @ r)"

definition pp_emit :: "token \<Rightarrow> token list \<Rightarrow> pp_loop \<Rightarrow> pp_loop" where
  "pp_emit t r s =
     s\<lparr>pl_out := t # pl_out s,
       pl_braces := (if tok_is t ''{'' then pl_braces s + 1
                     else if tok_is t ''}'' \<and> pl_braces s > 0 then pl_braces s - 1 else pl_braces s),
       pl_st := (if pl_remember s then remember_exe_prefix t (pl_st s) else pl_st s),
       pl_todo := r\<rparr>"

definition statement_start :: "pp_loop \<Rightarrow> bool" where
  "statement_start s \<longleftrightarrow> pl_braces s = 0 \<and> (pl_out s = [] \<or> tok_is (hd (pl_out s)) '';'')"

definition pp_plain :: "pp_env \<Rightarrow> token \<Rightarrow> token list \<Rightarrow> pp_loop \<Rightarrow> pp_loop res" where
  "pp_plain env t r s =
     (if statement_start s
      then rbind (pp_toplevel_cd env t r (pl_st s)) (\<lambda>m.
        (case m of
           Some (rest, st') \<Rightarrow> Inr (s\<lparr>pl_st := st', pl_todo := rest\<rparr>)
         | None \<Rightarrow> Inr (pp_emit t r s)))
      else Inr (pp_emit t r s))"

definition pp_token :: "pp_env \<Rightarrow> token \<Rightarrow> token list \<Rightarrow> pp_loop \<Rightarrow> pp_loop res" where
  "pp_token env t r s =
     (let ms = pp_macros (pl_st s)
      in case (if expandable t then location_token ms t else None) of
           Some loc \<Rightarrow> pp_plain env loc r s
         | None \<Rightarrow>
             (case (if expandable t then find_macro ms (str t) else None) of
                Some body \<Rightarrow> rbind (splice_body t body r) (\<lambda>todo. Inr (s\<lparr>pl_todo := todo\<rparr>))
              | None \<Rightarrow> pp_plain env t r s))"

definition pp_finish :: "token list \<Rightarrow> pp_loop \<Rightarrow> token list \<times> pp" where
  "pp_finish todo s =
     (rev (pl_out s) @ (if todo = [] then [new_eof (if pl_out s = [] then None else Some (hd (pl_out s)))]
                        else todo),
      (pl_st s)\<lparr>pp_depth := pp_depth (pl_st s) - 1\<rparr>)"

definition pp_step :: "pp_env \<Rightarrow> nat \<Rightarrow> (pp_loop, token list \<times> pp) body" where
  "pp_step env n s =
     (case pl_todo s of
        [] \<Rightarrow> Inr (Inr (pp_finish [] s))
      | t # r \<Rightarrow>
          (if kind t = TK_EOF then Inr (Inr (pp_finish (t # r) s))
           else
             rbind (if at_bol t \<and> tok_is t ''#'' then pp_directive env n t r s
                    else pp_token env t r s)
               (\<lambda>s'. Inr (Inl s'))))"

definition pp_start :: "token list \<Rightarrow> pp \<Rightarrow> pp_loop" where
  "pp_start toks st =
     \<lparr>pl_st = st\<lparr>pp_depth := pp_depth st + 1\<rparr>, pl_out = [], pl_todo = toks,
      pl_cond = 0, pl_braces = 0, pl_remember = (pp_depth st = 0)\<rparr>"

definition lex_preprocess :: "pp_env \<Rightarrow> nat \<Rightarrow> token list \<Rightarrow> pp \<Rightarrow> (token list \<times> pp) res" where
  "lex_preprocess env n toks st = iter n (pp_step env n) (pp_start toks st)"

section \<open>Instances\<close>

definition lex_define :: "hint_env \<Rightarrow> string \<Rightarrow> string option \<Rightarrow> pp \<Rightarrow> pp res" where
  "lex_define he name value st =
     (case value of
        Some v \<Rightarrow>
          (if v = [] then Inr (st\<lparr>pp_macros := define_macro name [] (pp_macros st)\<rparr>)
           else
             rbind (tokenize he ''<cmdline>'' v (pp_flags st)) (\<lambda>(t, fl).
               Inr (st\<lparr>pp_macros := define_macro name (takeWhile (\<lambda>u. kind u \<noteq> TK_EOF) t) (pp_macros st),
                       pp_flags := fl\<rparr>)))
      | None \<Rightarrow> Inr (st\<lparr>pp_macros := define_macro name [] (pp_macros st)\<rparr>))"

text \<open>The names \<open>lex_reset\<close> predefines, given which of the C compiler's own macros are set.\<close>

definition platform_names :: "(string \<Rightarrow> bool) \<Rightarrow> string list" where
  "platform_names d =
     (if d ''__s390__'' \<or> d ''__s390x__'' then [''IS_S390'']
      else if d ''__x86_64__'' \<or> d ''_M_X64'' then [''IS_X86_64'']
      else if d ''__aarch64__'' \<or> d ''__arm64__'' \<or> d ''_M_ARM64'' then [''IS_ARM_64'']
      else if list_ex d [''__powerpc__'', ''__powerpc64__'', ''__ppc__'', ''__ppc64__'', ''_ARCH_PPC'', ''_ARCH_PPC64'']
        then [''IS_POWERPC'']
      else if d ''__riscv'' then [''IS_RISCV'']
      else if d ''__mips__'' \<or> d ''__mips'' \<or> d ''_MIPS_ARCH'' then [''IS_MIPS'']
      else if d ''__arm__'' \<or> d ''__thumb__'' \<or> d ''_M_ARM'' then [''IS_ARM_32''] else [])
     @ (if d ''__APPLE__''
        then [''IS_DARWIN'',
              if d ''TARGET_OS_MACCATALYST'' then ''IS_MACCATALYST''
              else if d ''TARGET_OS_TV'' then ''IS_TVOS''
              else if d ''TARGET_OS_WATCH'' then ''IS_WATCHOS''
              else if d ''TARGET_OS_VISION'' then ''IS_VISIONOS''
              else if d ''TARGET_OS_IOS'' then ''IS_IOS'' else ''IS_MACOS'']
        else if d ''__linux__'' then [''IS_LINUX'']
        else if d ''__NetBSD__'' then [''IS_NETBSD'']
        else if d ''__OpenBSD__'' then [''IS_OPENBSD'']
        else if d ''__FreeBSD__'' then [''IS_FREEBSD''] else [])
     @ (if list_ex d [''__unix__'', ''__unix'', ''__APPLE__'', ''__linux__'', ''__NetBSD__'', ''__OpenBSD__'', ''__FreeBSD__'']
        then [''IS_UNIX''] else [])
     @ (if d ''_WIN32'' then [''IS_WINDOWS''] else [])"

definition lex_reset :: "(string \<Rightarrow> bool) \<Rightarrow> string option \<Rightarrow> pp res" where
  "lex_reset d cwd =
     (let he = \<lparr>he_use = True, he_pkg = \<lambda>_ fl. Inr fl\<rparr>;
          st0 = \<lparr>pp_macros = [], pp_cwd = (case cwd of None \<Rightarrow> ''.'' | Some c \<Rightarrow> c), pp_dirs = [],
                 pp_flags = argv_empty, pp_depth = 0, exe_prefix = [], exe_visible = 0,
                 pp_brace = 0, pp_paren = 0, pp_bracket = 0, pp_warns = []\<rparr>
      in fold (\<lambda>name r. rbind r (lex_define he name (Some ''1''))) (platform_names d) (Inr st0))"

definition lex_file :: "pp_env \<Rightarrow> nat \<Rightarrow> string \<Rightarrow> pp \<Rightarrow> (token list \<times> pp) res" where
  "lex_file env n path st =
     (case pv_source env path of
        None \<Rightarrow> Inl (Err (''cannot open '' @ sq path))
      | Some src \<Rightarrow>
          rbind (tokenize (pv_hints env) path src (pp_flags st)) (\<lambda>(t, fl).
            lex_preprocess env n t (st\<lparr>pp_flags := fl\<rparr>)))"

definition lex_string ::
  "pp_env \<Rightarrow> nat \<Rightarrow> string \<Rightarrow> string \<Rightarrow> token list \<Rightarrow> pp \<Rightarrow> (token list \<times> pp) res" where
  "lex_string env n src fake chain_after st =
     rbind (tokenize (pv_hints env) fake src (pp_flags st)) (\<lambda>(t, fl).
     rbind (lex_preprocess env n t (st\<lparr>pp_flags := fl\<rparr>)) (\<lambda>(pre, st').
       Inr (if chain_after = [] then pre else token_join pre chain_after, st')))"

end
