(* ===== verification/PreprocProps.thy ===== *)
theory PreprocProps
  imports Preproc LexerRound
begin

text \<open>
  What the preprocessor guarantees: the shape of its output, when expansion ends and when it
  does not, and the null dereference of the directory-change look-ahead.
\<close>

section \<open>Chains stay terminated\<close>

lemma eof_terminated_Nil [simp]: "\<not> eof_terminated []"
  by (simp add: eof_terminated_def)

lemma eof_terminated_Cons [simp]:
  "eof_terminated (t # r) \<longleftrightarrow> (kind t = TK_EOF \<and> r = []) \<or> (kind t \<noteq> TK_EOF \<and> eof_terminated r)"
  by (auto simp: eof_terminated_def)

lemma eof_terminated_append:
  "\<forall>t \<in> set us. kind t \<noteq> TK_EOF \<Longrightarrow> eof_terminated (us @ ts) \<longleftrightarrow> eof_terminated ts"
  by (induction us) auto

definition bodies_ok :: "macros \<Rightarrow> bool" where
  "bodies_ok ms \<longleftrightarrow> (\<forall>m \<in> set ms. \<forall>b \<in> set (snd m). kind b \<noteq> TK_EOF)"

lemma find_macro_body: "find_macro ms n = Some b \<Longrightarrow> bodies_ok ms \<Longrightarrow> \<forall>t \<in> set b. kind t \<noteq> TK_EOF"
  by (induction ms) (auto simp: bodies_ok_def split: if_splits)

lemma set_body_ok: "bodies_ok ms \<Longrightarrow> \<forall>t \<in> set b. kind t \<noteq> TK_EOF \<Longrightarrow> bodies_ok (set_body n b ms)"
  by (induction ms) (auto simp: bodies_ok_def)

lemma define_bodies_ok:
  "bodies_ok ms \<Longrightarrow> \<forall>t \<in> set b. kind t \<noteq> TK_EOF \<Longrightarrow> bodies_ok (define_macro n b ms)"
  by (auto simp: define_macro_def set_body_ok) (auto simp: bodies_ok_def)

lemma undef_bodies_ok: "bodies_ok ms \<Longrightarrow> bodies_ok (undef_macro n ms)"
  by (induction ms) (auto simp: bodies_ok_def)

lemma span_line_ok:
  assumes "span_line l ts = Inr (a, b)" "eof_terminated ts"
  shows "eof_terminated b \<and> (\<forall>t \<in> set a. kind t \<noteq> TK_EOF)"
proof -
  have "eof_terminated (dropWhile (on_line l) ts)"
    using assms(2) by (induction ts) (auto simp: on_line_def)
  with assms(1) show ?thesis
    by (auto simp: span_line_def Let_def on_line_def split: if_splits dest!: set_takeWhileD)
qed

lemma word_not_eof: "tok_is_word d \<Longrightarrow> kind d \<noteq> TK_EOF"
  by (auto simp: tok_is_word_def)

declare skip_cond.simps(2) [simp del]

lemma skip_cond_eof: "kind t = TK_EOF \<Longrightarrow> skip_cond d (t # r) = Inr (None, t # r)"
  by (simp add: skip_cond.simps(2))

lemma skip_cond_plain:
  "kind t \<noteq> TK_EOF \<Longrightarrow> \<not> (at_bol t \<and> tok_is t ''#'') \<Longrightarrow> skip_cond d (t # r) = skip_cond d r"
  by (subst skip_cond.simps(2)) auto

lemma skip_cond_hash:
  "kind t \<noteq> TK_EOF \<Longrightarrow> at_bol t \<Longrightarrow> tok_is t ''#'' \<Longrightarrow>
     skip_cond d (t # w # r) =
       (if \<not> tok_is_word w then skip_cond d (w # r)
        else if prefix ''if'' (str w) then skip_cond (d + 1) (w # r)
        else if str w = ''endif'' then (if d = 0 then Inr (Some False, r) else skip_cond (d - 1) (w # r))
        else if str w = ''else'' \<and> d = 0 then Inr (Some True, r)
        else skip_cond d (w # r))"
  by (simp add: skip_cond.simps(2))

lemma skip_cond_ok: "skip_cond d ts = Inr (h, r) \<Longrightarrow> eof_terminated ts \<Longrightarrow> eof_terminated r"
proof (induction ts arbitrary: d h r)
  case (Cons t ts)
  show ?case
  proof (cases "kind t = TK_EOF \<or> \<not> (at_bol t \<and> tok_is t ''#'')")
    case True
    with Cons show ?thesis by (cases "kind t = TK_EOF") (auto simp: skip_cond_eof skip_cond_plain)
  next
    case False
    with Cons.prems obtain w rd where w: "ts = w # rd" by (cases ts) auto
    with False Cons.prems have "eof_terminated ts" "tok_is_word w \<Longrightarrow> eof_terminated rd"
      by (auto dest: word_not_eof)
    moreover have "\<And>d h r. skip_cond d (w # rd) = Inr (h, r) \<Longrightarrow> eof_terminated r"
      using Cons.IH w \<open>eof_terminated ts\<close> by blast
    ultimately show ?thesis
      using False Cons.prems(1) w by (auto simp: skip_cond_hash split: if_splits)
  qed
qed simp

lemma exe_split_ok:
  "exe_split d ts = Inr (Some (b, r)) \<Longrightarrow> eof_terminated ts \<Longrightarrow>
     eof_terminated r \<and> (\<forall>t \<in> set b. kind t \<noteq> TK_EOF)"
  by (induction d ts arbitrary: b r rule: exe_split.induct)
     (fastforce simp: rbind_eq_Inr split: if_splits)+

lemma tokenize_eof: "tokenize he f src fl = Inr (ts, fl') \<Longrightarrow> eof_terminated ts"
  using tokenize_chain by (auto simp: chain_ok_def)

text \<open>\<open>exe_run\<close> hands on a terminated chain and a table of terminator-free bodies.\<close>

definition exe_keeps :: "pp_env \<Rightarrow> bool" where
  "exe_keeps env \<longleftrightarrow>
     (\<forall>body rest st out rest' st'. pv_exe env body rest st = Inr (out, rest', st') \<longrightarrow>
        eof_terminated rest \<longrightarrow> bodies_ok (pp_macros st) \<longrightarrow>
        eof_terminated rest' \<and> bodies_ok (pp_macros st'))"

definition pl_ok :: "pp_loop \<Rightarrow> bool" where
  "pl_ok s \<longleftrightarrow> eof_terminated (pl_todo s) \<and> bodies_ok (pp_macros (pl_st s))
     \<and> (\<forall>t \<in> set (pl_out s). kind t \<noteq> TK_EOF \<and> \<not> (at_bol t \<and> tok_is t ''#''))"

lemma eval_line_span: "pp_eval_line n ms d rd l = Inr (v, b) \<Longrightarrow> \<exists>lh. span_line l rd = Inr (lh, b)"
  by (auto simp: pp_eval_line_def rbind_def split: sum.splits if_splits list.splits prod.splits)

lemma eval_line_ok:
  "pp_eval_line n ms d rd l = Inr (v, b) \<Longrightarrow> eof_terminated rd \<Longrightarrow> eof_terminated b"
  by (auto dest!: eval_line_span dest: span_line_ok)

lemma enter_cond_ok:
  "enter_cond live b s = Inr s' \<Longrightarrow> pl_ok s \<Longrightarrow> eof_terminated b \<Longrightarrow> pl_ok s'"
  by (auto simp: enter_cond_def rbind_eq_Inr pl_ok_def split: if_splits dest: skip_cond_ok)

lemma dir_exe_Inr:
  assumes "dir_exe env rd s = Inr s'"
  obtains b rb body rest out rest' st' inj fl where
    "rd = b # rb" "tok_is b ''{''" "exe_split 1 rb = Inr (Some (body, rest))"
    "pv_exe env (body @ [new_eof (Some (last (b # body)))]) rest (pl_st s) = Inr (out, rest', st')"
    "tokenize (pv_hints env) ''<exe>'' out (pp_flags st') = Inr (inj, fl)"
    "s' = s\<lparr>pl_st := st'\<lparr>pp_flags := fl\<rparr>, pl_todo := token_join inj rest'\<rparr>"
  using assms
  by (auto simp: dir_exe_def rbind_eq_Inr split: list.splits if_splits option.splits)

lemma dir_exe_ok:
  assumes "dir_exe env rd s = Inr s'" "pl_ok s" "eof_terminated rd" "exe_keeps env"
  shows "pl_ok s'"
  using assms(1)
proof (rule dir_exe_Inr)
  fix b rb body rest out rest' st' inj fl
  assume a: "rd = b # rb" "tok_is b ''{''" "exe_split 1 rb = Inr (Some (body, rest))"
    "pv_exe env (body @ [new_eof (Some (last (b # body)))]) rest (pl_st s) = Inr (out, rest', st')"
    "tokenize (pv_hints env) ''<exe>'' out (pp_flags st') = Inr (inj, fl)"
    "s' = s\<lparr>pl_st := st'\<lparr>pp_flags := fl\<rparr>, pl_todo := token_join inj rest'\<rparr>"
  have "eof_terminated rb" using a(1,2) assms(3) by (auto simp: tok_is_def tok_is_word_def)
  with a(3) have "eof_terminated rest" using exe_split_ok by blast
  with a(4) assms(2,4) have "eof_terminated rest' \<and> bodies_ok (pp_macros st')"
    unfolding exe_keeps_def pl_ok_def by blast
  moreover have "eof_terminated inj" using a(5) tokenize_eof by blast
  ultimately show ?thesis using a(6) assms(2) by (simp add: pl_ok_def token_join_eof)
qed

lemma pp_directive_ok:
  assumes "pp_directive env n tok r s = Inr s'" "pl_ok s" "eof_terminated (tok # r)" "exe_keeps env"
    "kind tok \<noteq> TK_EOF"
  shows "pl_ok s'"
proof -
  from assms(1) obtain d rd where r: "r = d # rd" "tok_is_word d"
    by (auto simp: pp_directive_def split: list.splits if_splits)
  then have rd: "eof_terminated rd" using assms(3,5) by (auto simp: tok_is_word_def)
  have incl: "dir_include env rd s = Inr s' \<Longrightarrow> ?thesis"
    using assms(2) rd
    by (auto simp: dir_include_def rbind_eq_Inr pl_ok_def split: list.splits if_splits option.splits
        dest!: tokenize_eof intro: token_join_eof)
  have dfn: "dir_define rd l s = Inr s' \<Longrightarrow> ?thesis" for l
    using assms(2) rd
    by (auto simp: dir_define_def rbind_eq_Inr pl_ok_def split: list.splits if_splits
        dest!: span_line_ok intro: define_bodies_ok)
  have udef: "dir_undef rd s = Inr s' \<Longrightarrow> ?thesis"
    using assms(2) rd
    by (auto simp: dir_undef_def pl_ok_def undef_bodies_ok split: list.splits if_splits)
  have if': "dir_if n d rd l s = Inr s' \<Longrightarrow> ?thesis" for l
    using assms(2) rd by (auto simp: dir_if_def rbind_eq_Inr dest: eval_line_ok intro: enter_cond_ok)
  have asrt: "dir_assert n d rd l s = Inr s' \<Longrightarrow> ?thesis" for l
    using assms(2) rd by (auto simp: dir_assert_def rbind_eq_Inr pl_ok_def dest: eval_line_ok)
  have ifd: "dir_ifdef d rd s = Inr s' \<Longrightarrow> ?thesis"
    using assms(2) rd
    by (auto simp: dir_ifdef_def Let_def split: list.splits if_splits intro: enter_cond_ok)
  have els: "dir_else d rd s = Inr s' \<Longrightarrow> ?thesis"
    using assms(2) rd
    by (auto simp: dir_else_def rbind_eq_Inr pl_ok_def split: if_splits dest: skip_cond_ok)
  have endi: "dir_endif d rd s = Inr s' \<Longrightarrow> ?thesis"
    using assms(2) rd by (auto simp: dir_endif_def pl_ok_def split: if_splits)
  have exe: "dir_exe env rd s = Inr s' \<Longrightarrow> ?thesis" by (rule dir_exe_ok [OF _ assms(2) rd assms(4)])
  have hlp: "dir_help rd l s = Inr s' \<Longrightarrow> ?thesis" for l
    using assms(2) rd by (auto simp: dir_help_def rbind_eq_Inr pl_ok_def dest: span_line_ok)
  show ?thesis
    using assms(1) r
    by (auto simp: pp_directive_def split: if_splits
        intro: incl dfn udef if' asrt ifd els endi exe hlp)
qed

lemma tok_is_not_eof: "tok_is t s \<Longrightarrow> kind t \<noteq> TK_EOF"
  by (auto simp: tok_is_def tok_is_word_def)

lemma cd_arg_not_eof: "pp_str_arg ms x = Some p \<Longrightarrow> kind x \<noteq> TK_EOF"
  by (auto simp: pp_str_arg_def expandable_def split: if_splits)

lemma toplevel_cd_Some:
  assumes "pp_toplevel_cd env t r st = Inr (Some (rest, st'))"
  shows "\<exists>a x c e p. r = a # x # c # e # rest \<and> tok_is a ''('' \<and> tok_is c '')'' \<and> tok_is e '';''
    \<and> pp_str_arg (pp_macros st) x = Some p \<and> pp_macros st' = pp_macros st"
proof -
  obtain a x c e q where r: "r = a # x # c # e # q"
    using assms by (auto simp: pp_toplevel_cd_def split: list.splits)
  with assms show ?thesis
    by (auto simp: pp_toplevel_cd_def lex_set_cwd_def Let_def split: if_splits option.splits)
qed

lemma toplevel_cd_ok:
  "pp_toplevel_cd env t r st = Inr (Some (rest, st')) \<Longrightarrow> eof_terminated r \<Longrightarrow>
     eof_terminated rest \<and> pp_macros st' = pp_macros st"
  by (drule toplevel_cd_Some) (auto dest: tok_is_not_eof cd_arg_not_eof)

lemma pp_emit_ok:
  "pl_ok s \<Longrightarrow> eof_terminated r \<Longrightarrow> kind t \<noteq> TK_EOF \<Longrightarrow> \<not> (at_bol t \<and> tok_is t ''#'') \<Longrightarrow>
     pl_ok (pp_emit t r s)"
  by (simp add: pl_ok_def pp_emit_def)

lemma pp_plain_cases:
  "pp_plain env t r s = Inr s' \<Longrightarrow>
     s' = pp_emit t r s
     \<or> (\<exists>rest st'. pp_toplevel_cd env t r (pl_st s) = Inr (Some (rest, st'))
          \<and> s' = s\<lparr>pl_st := st', pl_todo := rest\<rparr>)"
  by (auto simp: pp_plain_def rbind_eq_Inr split: if_splits option.splits)

lemma pp_plain_ok:
  assumes "pp_plain env t r s = Inr s'" "pl_ok s" "eof_terminated r" "kind t \<noteq> TK_EOF"
    "\<not> (at_bol t \<and> tok_is t ''#'')"
  shows "pl_ok s'"
  using pp_plain_cases [OF assms(1)]
proof
  assume "s' = pp_emit t r s"
  with pp_emit_ok [OF assms(2-5)] show ?thesis by simp
next
  assume "\<exists>rest st'. pp_toplevel_cd env t r (pl_st s) = Inr (Some (rest, st'))
    \<and> s' = s\<lparr>pl_st := st', pl_todo := rest\<rparr>"
  then obtain rest st' where cd: "pp_toplevel_cd env t r (pl_st s) = Inr (Some (rest, st'))"
    "s' = s\<lparr>pl_st := st', pl_todo := rest\<rparr>" by blast
  from toplevel_cd_ok [OF cd(1) assms(3)] assms(2) show ?thesis by (simp add: cd(2) pl_ok_def)
qed

lemma location_token_kind:
  "location_token ms t = Some u \<Longrightarrow> kind u = TK_NUM \<or> kind u = TK_STR"
  by (auto simp: location_token_def Let_def split: if_splits)

lemma inherit_next_eof:
  "inherit_next t ts = Inr us \<Longrightarrow> eof_terminated ts \<Longrightarrow> eof_terminated us"
  by (auto simp: inherit_next_def rbind_eq_Inr split: list.splits if_splits dest: inherit_frame)

lemma splice_body_eof:
  assumes "splice_body t body r = Inr us" "eof_terminated r" "\<forall>b \<in> set body. kind b \<noteq> TK_EOF"
  shows "eof_terminated us"
proof -
  let ?b = "map (\<lambda>b. b\<lparr>tfile := tfile t, tline := tline t\<rparr>) (body_copy (str t) body)"
  have "\<forall>b \<in> set ?b. kind b \<noteq> TK_EOF" using assms(3) by (auto simp: body_copy_def)
  then have "eof_terminated (?b @ r)" using assms(2) by (simp add: eof_terminated_append)
  with assms(1) show ?thesis by (auto simp: splice_body_def dest: inherit_next_eof)
qed

lemma pp_token_ok:
  assumes "pp_token env t r s = Inr s'" "pl_ok s" "eof_terminated r" "kind t \<noteq> TK_EOF"
    "\<not> (at_bol t \<and> tok_is t ''#'')"
  shows "pl_ok s'"
proof -
  have loc: ?thesis if "location_token ms t = Some u" "pp_plain env u r s = Inr s'" for u ms
  proof (rule pp_plain_ok [OF that(2) assms(2,3)])
    show "kind u \<noteq> TK_EOF" "\<not> (at_bol u \<and> tok_is u ''#'')"
      using location_token_kind [OF that(1)] by (auto simp: tok_is_def tok_is_word_def)
  qed
  have mac: "pl_ok (s\<lparr>pl_todo := us\<rparr>)"
    if "find_macro (pp_macros (pl_st s)) n = Some body" "splice_body t body r = Inr us" for n body us
    using that assms(2,3) splice_body_eof [OF that(2)] find_macro_body [OF that(1)]
    by (auto simp: pl_ok_def)
  show ?thesis
    using assms(1) pp_plain_ok [OF _ assms(2-5)]
    by (auto simp: pp_token_def Let_def rbind_eq_Inr split: option.splits if_splits intro: loc mac)
qed

lemma pp_step_ok:
  assumes "pp_step env n s = Inr (Inl s')" "pl_ok s" "exe_keeps env"
  shows "pl_ok s'"
proof -
  from assms(1) obtain t r where t: "pl_todo s = t # r" "kind t \<noteq> TK_EOF"
    by (auto simp: pp_step_def split: list.splits if_splits)
  with assms(2) have r: "eof_terminated (t # r)" "eof_terminated r" by (auto simp: pl_ok_def)
  show ?thesis
    using assms(1) t pp_directive_ok [OF _ assms(2) r(1) assms(3) t(2)] pp_token_ok [OF _ assms(2) r(2) t(2)]
    by (auto simp: pp_step_def rbind_eq_Inr split: if_splits)
qed

definition clean_output :: "token list \<Rightarrow> bool" where
  "clean_output ts \<longleftrightarrow>
     eof_terminated ts \<and> (\<forall>t \<in> set (butlast ts). \<not> (at_bol t \<and> tok_is t ''#''))"

lemma pp_step_finish:
  assumes "pp_step env n s = Inr (Inr res)" "pl_ok s"
  shows "clean_output (fst res)"
proof -
  obtain t r where t: "pl_todo s = t # r" using assms(2) by (cases "pl_todo s") (auto simp: pl_ok_def)
  with assms have k: "kind t = TK_EOF" "res = pp_finish (t # r) s"
    by (auto simp: pp_step_def rbind_def split: if_splits sum.splits)
  with assms(2) t have "r = []" by (auto simp: pl_ok_def)
  with k assms(2) show ?thesis
    by (auto simp: clean_output_def pp_finish_def pl_ok_def eof_terminated_append butlast_append)
qed

text \<open>C22: Preprocessing a finished token chain gives a finished token chain: whatever includes,
  conditionals, macros and \<open>#exe\<close> blocks do, the result ends in its only \<open>TK_EOF\<close>, and no
  directive is left in it. The only assumption on the host is that \<open>exe_run\<close> hands back a
  finished remaining chain.\<close>

theorem preprocess_output_clean:
  assumes "lex_preprocess env n toks st = Inr (out, st')" "eof_terminated toks"
    "bodies_ok (pp_macros st)" "exe_keeps env"
  shows "clean_output out"
proof -
  have "pl_ok (pp_start toks st)" using assms(2,3) by (simp add: pl_ok_def pp_start_def)
  from iter_invariant [of pl_ok "pp_step env n" "\<lambda>res. clean_output (fst res)", OF _ _ this]
    pp_step_ok pp_step_finish assms(1,4)
  show ?thesis by (fastforce simp: lex_preprocess_def)
qed

definition quiet_env :: pp_env where
  "quiet_env = \<lparr>pv_hints = \<lparr>he_use = True, he_pkg = \<lambda>_ fl. Inr fl\<rparr>, pv_open = \<lambda>_. False,
     pv_source = \<lambda>_. None, pv_is_dir = \<lambda>_. False, pv_exe = \<lambda>_ rest st. Inr ([], rest, st)\<rparr>"

definition empty_pp :: pp where
  "empty_pp = \<lparr>pp_macros = [], pp_cwd = ''.'', pp_dirs = [], pp_flags = argv_empty, pp_depth = 0,
     exe_prefix = [], exe_visible = 0, pp_brace = 0, pp_paren = 0, pp_bracket = 0, pp_warns = []\<rparr>"

definition tok_at :: "int \<Rightarrow> bool \<Rightarrow> token_kind \<Rightarrow> string \<Rightarrow> token" where
  "tok_at n bol k s = (new_token ''a.HC'' n k)\<lparr>str := s, at_bol := bol\<rparr>"

theorem preprocess_output_clean_witness:
  "\<exists>out st'. lex_preprocess quiet_env 5
       [tok_at 1 True TK_PUNCT ''#'', tok_at 1 False TK_ID ''ifdef'', tok_at 1 False TK_ID ''X'',
        tok_at 2 True TK_NUM [], tok_at 3 True TK_PUNCT ''#'', tok_at 3 False TK_ID ''endif'',
        tok_at 4 True TK_STR ''s'', tok_at 4 False TK_PUNCT '';'', tok_at 5 True TK_EOF []] empty_pp
     = Inr (out, st') \<and> clean_output out \<and> map str out = [''s'', '';'', []]"
proof -
  let ?toks = "[tok_at 1 True TK_PUNCT ''#'', tok_at 1 False TK_ID ''ifdef'', tok_at 1 False TK_ID ''X'',
        tok_at 2 True TK_NUM [], tok_at 3 True TK_PUNCT ''#'', tok_at 3 False TK_ID ''endif'',
        tok_at 4 True TK_STR ''s'', tok_at 4 False TK_PUNCT '';'', tok_at 5 True TK_EOF []]"
  have "map_sum id (\<lambda>(out, _). map str out) (lex_preprocess quiet_env 5 ?toks empty_pp) = Inr [''s'', '';'', []]"
    by code_simp
  then have run: "\<exists>out st'. lex_preprocess quiet_env 5 ?toks empty_pp = Inr (out, st') \<and> map str out = [''s'', '';'', []]"
    by (cases "lex_preprocess quiet_env 5 ?toks empty_pp") auto
  then obtain out st' where o: "lex_preprocess quiet_env 5 ?toks empty_pp = Inr (out, st')"
    "map str out = [''s'', '';'', []]" by (elim exE conjE)
  have "eof_terminated ?toks" "bodies_ok (pp_macros empty_pp)" "exe_keeps quiet_env"
    by (simp_all add: tok_at_def new_token_def bodies_ok_def empty_pp_def exe_keeps_def quiet_env_def)
  from preprocess_output_clean [OF o(1) this] o show ?thesis by (intro exI conjI)
qed

section \<open>When expansion ends\<close>

text \<open>A macro table is acyclic below a ranking when the names a body expands to, other than the
  macro's own, rank lower.\<close>

definition ranked :: "(string \<Rightarrow> nat) \<Rightarrow> macros \<Rightarrow> bool" where
  "ranked rk ms \<longleftrightarrow>
     (\<forall>name body. find_macro ms name = Some body \<longrightarrow>
        (\<forall>b \<in> set body. expandable b \<and> str b \<noteq> name \<and> find_macro ms (str b) \<noteq> None \<longrightarrow>
           rk (str b) < rk name))"

text \<open>How many steps a token can cost, to nesting depth \<open>k\<close>.\<close>

fun cost :: "macros \<Rightarrow> nat \<Rightarrow> token \<Rightarrow> nat" where
  "cost ms 0 t = 1"
| "cost ms (Suc k) t =
     1 + (case (if expandable t then find_macro ms (str t) else None) of
            None \<Rightarrow> 0
          | Some body \<Rightarrow> sum_list (map (cost ms k) (body_copy (str t) body)))"

definition tok_cost :: "(string \<Rightarrow> nat) \<Rightarrow> macros \<Rightarrow> token \<Rightarrow> nat" where
  "tok_cost rk ms t = cost ms (Suc (rk (str t))) t"

lemma sum_list_mono2: "(\<And>x. x \<in> set xs \<Longrightarrow> f x \<le> (g x :: nat)) \<Longrightarrow> sum_list (map f xs) \<le> sum_list (map g xs)"
  by (induction xs) (auto simp: add_mono)

lemma cost_Suc_mono: "cost ms k t \<le> cost ms (Suc k) t"
proof (induction k arbitrary: t)
  case (Suc k)
  have "sum_list (map (cost ms k) bs) \<le> sum_list (map (cost ms (Suc k)) bs)" for bs
    by (rule sum_list_mono2) (rule Suc.IH)
  then show ?case
    unfolding cost.simps(2) [of ms k t] cost.simps(2) [of ms "Suc k" t]
    by (auto split: option.split simp del: cost.simps)
qed simp

lemma cost_mono: "k \<le> m \<Longrightarrow> cost ms k t \<le> cost ms m t"
  by (induction rule: dec_induct) (auto intro: order_trans cost_Suc_mono simp del: cost.simps(2))

lemma cost_pos: "0 < cost ms k t"
  by (cases k) auto

lemma cost_stuck: "\<not> expandable t \<or> find_macro ms (str t) = None \<Longrightarrow> cost ms k t = 1"
  by (cases k) auto

lemma body_cost:
  assumes "ranked rk ms" "find_macro ms (str t) = Some body" "expandable t"
  shows "sum_list (map (tok_cost rk ms) (body_copy (str t) body)) < tok_cost rk ms t"
proof -
  have "tok_cost rk ms b \<le> cost ms (rk (str t)) b" if "b \<in> set (body_copy (str t) body)" for b
  proof (cases "expandable b \<and> find_macro ms (str b) \<noteq> None")
    case True
    from that obtain c where c: "c \<in> set body"
      "b = (if kind c = TK_ID \<and> str c = str t then c\<lparr>no_expand := True\<rparr> else c)"
      by (auto simp: body_copy_def)
    with True have "b = c" "str c \<noteq> str t" by (auto simp: expandable_def split: if_splits)
    with assms(1,2) True c(1) have "rk (str b) < rk (str t)" unfolding ranked_def by blast
    then show ?thesis unfolding tok_cost_def by (intro cost_mono) simp
  next
    case False
    then show ?thesis using cost_stuck [of b ms] cost_pos [of ms "rk (str t)" b]
      by (auto simp: tok_cost_def simp del: cost.simps)
  qed
  then have "sum_list (map (tok_cost rk ms) (body_copy (str t) body))
      \<le> sum_list (map (cost ms (rk (str t))) (body_copy (str t) body))"
    by (rule sum_list_mono2)
  with assms(2,3) show ?thesis by (simp add: tok_cost_def)
qed

lemma defined_operand_shorter:
  "defined_operand ms w r = Inr (d, after) \<Longrightarrow> \<exists>us. r = us @ after"
  by (cases r; cases "tl r"; cases "tl (tl r)")
     (auto simp: defined_operand_def Let_def split: if_splits list.splits)

definition chain_cost :: "(string \<Rightarrow> nat) \<Rightarrow> macros \<Rightarrow> token list \<times> token list \<Rightarrow> nat" where
  "chain_cost rk ms = (\<lambda>(w, out). sum_list (map (tok_cost rk ms) w))"

lemma pp_expand_step_cost:
  assumes "ranked rk ms" "pp_expand_step ms s = Inr (Inl s')"
  shows "chain_cost rk ms s' < chain_cost rk ms s"
proof -
  obtain w out where s: "s = (w, out)" by fastforce
  with assms(2) obtain t r where w: "w = t # r" by (cases w) (auto simp: pp_expand_step_def)
  have pos: "0 < tok_cost rk ms t" by (simp add: tok_cost_def cost_pos del: cost.simps)
  consider (dfd) "expandable t \<and> str t = ''defined''"
    | (mac) body where "\<not> (expandable t \<and> str t = ''defined'')" "expandable t"
        "find_macro ms (str t) = Some body"
    | (plain) "\<not> (expandable t \<and> str t = ''defined'')"
        "(if expandable t then find_macro ms (str t) else None) = None"
    by (cases "expandable t"; cases "find_macro ms (str t)") auto
  then show ?thesis
  proof cases
    case dfd
    with assms(2) s w obtain d after where d: "defined_operand ms t r = Inr (d, after)" "fst s' = after"
      by (auto simp: pp_expand_step_def rbind_eq_Inr split: if_splits)
    then obtain us where "r = us @ after" using defined_operand_shorter by blast
    with d(2) s w pos show ?thesis by (auto simp: chain_cost_def case_prod_beta)
  next
    case mac
    with assms(2) s w have "s' = (body_copy (str t) body @ r, out)"
      by (auto simp: pp_expand_step_def split: if_splits)
    with s w body_cost [OF assms(1) mac(3,2)] show ?thesis by (simp add: chain_cost_def)
  next
    case plain
    with assms(2) s w have "s' = (r, t # out)"
      by (auto simp: pp_expand_step_def split: if_splits option.splits)
    with s w pos show ?thesis by (simp add: chain_cost_def)
  qed
qed

lemma pp_expand_step_not_fuel: "pp_expand_step ms s \<noteq> Inl Fuel"
  by (auto simp: pp_expand_step_def defined_operand_def rbind_eq_Inl Let_def err_tok_def
      split: list.splits option.splits prod.splits if_splits)

text \<open>C24: Expanding a directive line ends for every acyclic macro table. When the macros can be
  ranked so that each body mentions, besides its own name, only lower-ranked macros (which the
  self-reference guard makes sufficient), the expansion loop returns or reports an error within an
  explicitly bounded number of iterations on every token chain.\<close>

theorem pp_expand_terminates:
  assumes "ranked rk ms" "sum_list (map (tok_cost rk ms) w) < n"
  shows "pp_expand n ms w \<noteq> Inl Fuel"
  unfolding pp_expand_def
  by (rule iter_measure [where P = "\<lambda>_. True" and m = "chain_cost rk ms"])
     (use assms pp_expand_step_cost [OF assms(1)] pp_expand_step_not_fuel in \<open>auto simp: chain_cost_def\<close>)

theorem pp_expand_terminates_witness:
  "pp_expand 20 [(''A'', [tok_at 1 False TK_ID ''B'', tok_at 1 False TK_ID ''A'']),
      (''B'', [tok_at 1 False TK_NUM []])] [tok_at 2 False TK_ID ''A'', tok_at 2 True TK_EOF []] \<noteq> Inl Fuel"
proof (rule pp_expand_terminates [where rk = "\<lambda>n. if n = ''A'' then 1 else 0"])
  show "ranked (\<lambda>n. if n = ''A'' then 1 else 0)
      [(''A'', [tok_at 1 False TK_ID ''B'', tok_at 1 False TK_ID ''A'']), (''B'', [tok_at 1 False TK_NUM []])]"
    by (auto simp: ranked_def tok_at_def new_token_def expandable_def split: if_splits)
  show "sum_list (map (tok_cost (\<lambda>n. if n = ''A'' then 1 else 0)
      [(''A'', [tok_at 1 False TK_ID ''B'', tok_at 1 False TK_ID ''A'']), (''B'', [tok_at 1 False TK_NUM []])])
      [tok_at 2 False TK_ID ''A'', tok_at 2 True TK_EOF []]) < 20"
    by (simp add: tok_cost_def tok_at_def new_token_def expandable_def body_copy_def numeral_eq_Suc)
qed

section \<open>When expansion does not end\<close>

lemma inherit_no_hints: "no_token_hints t \<Longrightarrow> lex_hints_inherit t u = Inr u"
  by (simp add: lex_hints_inherit_def no_token_hints_def)

text \<open>Two macros whose bodies are each other's name.\<close>

definition cyclic_pair :: "string \<Rightarrow> string \<Rightarrow> macros \<Rightarrow> bool" where
  "cyclic_pair a b ms \<longleftrightarrow>
     (\<exists>x y. find_macro ms a = Some [x] \<and> find_macro ms b = Some [y]
        \<and> expandable x \<and> str x = b \<and> no_token_hints x \<and> expandable y \<and> str y = a \<and> no_token_hints y)"

definition at_cyclic :: "string \<Rightarrow> string \<Rightarrow> pp_loop \<Rightarrow> bool" where
  "at_cyclic a b s \<longleftrightarrow> cyclic_pair a b (pp_macros (pl_st s))
     \<and> (\<exists>t r. pl_todo s = t # r \<and> expandable t \<and> no_token_hints t \<and> (str t = a \<or> str t = b))"

lemma at_cyclic_step:
  assumes "at_cyclic a b s" "a \<noteq> b" "a \<noteq> ''#''" "b \<noteq> ''#''"
  shows "\<exists>s'. pp_step env n s = Inr (Inl s') \<and> at_cyclic a b s'"
proof -
  obtain t r x where t: "pl_todo s = t # r" "expandable t" "no_token_hints t" "str t = a \<or> str t = b"
      "find_macro (pp_macros (pl_st s)) (str t) = Some [x]" "expandable x" "no_token_hints x"
      "str x = a \<or> str x = b" "str x \<noteq> str t"
    using assms(1,2) unfolding at_cyclic_def cyclic_pair_def by metis
  let ?x = "x\<lparr>tfile := tfile t, tline := tline t\<rparr>"
  have "splice_body t [x] r = Inr (?x # r)"
    using t(9) by (simp add: splice_body_def body_copy_def inherit_next_def inherit_no_hints [OF t(3)])
  moreover have "\<not> tok_is t ''#''" using t(4) assms(3,4) by (auto simp: tok_is_def)
  ultimately have "pp_step env n s = Inr (Inl (s\<lparr>pl_todo := ?x # r\<rparr>))"
    using t(1,2,5) by (auto simp: pp_step_def pp_token_def location_token_def Let_def expandable_def)
  moreover have "at_cyclic a b (s\<lparr>pl_todo := ?x # r\<rparr>)"
    using assms(1) t(6-8) by (auto simp: at_cyclic_def expandable_def no_token_hints_def)
  ultimately show ?thesis by blast
qed

definition cyclic_source :: "string \<Rightarrow> string \<Rightarrow> token list" where
  "cyclic_source a b =
     [tok_at 1 True TK_PUNCT ''#'', tok_at 1 False TK_ID ''define'', tok_at 1 False TK_ID a, tok_at 1 False TK_ID b,
      tok_at 2 True TK_PUNCT ''#'', tok_at 2 False TK_ID ''define'', tok_at 2 False TK_ID b, tok_at 2 False TK_ID a,
      tok_at 3 True TK_ID a]"

lemma tok_at_sel [simp]:
  "kind (tok_at n bol k s) = k" "str (tok_at n bol k s) = s" "at_bol (tok_at n bol k s) = bol"
  "tline (tok_at n bol k s) = n" "no_expand (tok_at n bol k s) = False" "no_token_hints (tok_at n bol k s)"
  by (simp_all add: tok_at_def new_token_def no_token_hints_def)

lemma tok_is_tok_at [simp]:
  "tok_is (tok_at n bol TK_PUNCT s) s' \<longleftrightarrow> s = s'" "tok_is (tok_at n bol TK_ID s) s' \<longleftrightarrow> s = s'"
  "tok_is_word (tok_at n bol TK_ID s)" "\<not> tok_is_word (tok_at n bol TK_PUNCT s)"
  by (simp_all add: tok_is_def tok_is_word_def)

lemma define_line_step:
  assumes "pl_todo s = tok_at l True TK_PUNCT ''#'' # tok_at l False TK_ID ''define'' # tok_at l False TK_ID a
      # tok_at l False TK_ID b # u # r" "at_bol u"
  shows "pp_step env n s = Inr (Inl (s\<lparr>pl_todo := u # r,
      pl_st := (pl_st s)\<lparr>pp_macros := define_macro a [tok_at l False TK_ID b] (pp_macros (pl_st s))\<rparr>\<rparr>))"
  using assms by (simp add: pp_step_def pp_directive_def dir_define_def span_line_def on_line_def)

text \<open>C25: The self-reference guard does not cover mutual recursion. After \<open>#define A B\<close> and
  \<open>#define B A\<close>, a use of \<open>A\<close> makes \<open>lex_preprocess\<close> run forever, in every state, on every
  host and whatever follows: no number of iterations is enough.\<close>

theorem mutual_macros_never_return:
  assumes "a \<noteq> b" "a \<noteq> ''#''" "b \<noteq> ''#''"
  shows "lex_preprocess env n (cyclic_source a b @ rest) st = Inl Fuel"
proof -
  let ?s = "pp_start (cyclic_source a b @ rest) st"
  let ?use = "tok_at 3 True TK_ID a # rest"
  let ?d2 = "tok_at 2 True TK_PUNCT ''#'' # tok_at 2 False TK_ID ''define'' # tok_at 2 False TK_ID b
      # tok_at 2 False TK_ID a # ?use"
  let ?m1 = "define_macro a [tok_at 1 False TK_ID b] (pp_macros (pl_st ?s))"
  let ?s1 = "?s\<lparr>pl_todo := ?d2, pl_st := (pl_st ?s)\<lparr>pp_macros := ?m1\<rparr>\<rparr>"
  let ?m2 = "define_macro b [tok_at 2 False TK_ID a] ?m1"
  let ?s2 = "?s1\<lparr>pl_todo := ?use, pl_st := (pl_st ?s1)\<lparr>pp_macros := ?m2\<rparr>\<rparr>"
  have "pp_step env n ?s = Inr (Inl ?s1)"
    by (rule define_line_step) (simp_all add: pp_start_def cyclic_source_def)
  moreover have "pp_step env n ?s1 = Inr (Inl ?s2)"
    by (subst define_line_step [of ?s1 2 b a "tok_at 3 True TK_ID a" rest]) simp_all
  ultimately have "reaches (pp_step env n) ?s ?s2" by (blast intro: reaches_step reaches_one)
  moreover have "at_cyclic a b ?s2"
    using assms(1) by (simp add: at_cyclic_def cyclic_pair_def find_define expandable_def)
  then have "iter m (pp_step env n) ?s2 = Inl Fuel" for m
    by (rule iter_diverges [rotated]) (rule at_cyclic_step [OF _ assms])
  ultimately show ?thesis unfolding lex_preprocess_def by (rule reaches_diverges)
qed

theorem mutual_macros_never_return_witness:
  "lex_preprocess quiet_env 1000 (cyclic_source ''A'' ''B'' @ [tok_at 3 True TK_EOF []]) empty_pp = Inl Fuel"
  by (rule mutual_macros_never_return) simp_all

section \<open>The look-ahead of the directory-change idiom\<close>

lemma look_ahead_null:
  assumes "pl_todo s = [t, e]" "kind t \<noteq> TK_EOF" "\<not> tok_is t ''#''" "\<not> expandable t" "statement_start s"
  shows "pp_step env n s = Inl NullDeref"
  using assms by (simp add: pp_step_def pp_token_def pp_plain_def pp_toplevel_cd_def)

text \<open>A source file that is a single token other than a word or \<open>#\<close>, for example an empty
  statement \<open>;\<close>, makes \<open>lex_file\<close> follow a null pointer: before it looks at the token at all,
  \<open>pp_toplevel_cd\<close> reads three links ahead of it, past the end-of-file token.\<close>

theorem one_token_file_null_deref:
  assumes "pv_source env path = Some (render [l])" "lexeme_ok l"
    "case l of LWord w \<Rightarrow> False | LPunct p \<Rightarrow> p \<noteq> ''#'' | _ \<Rightarrow> True"
  shows "lex_file env (Suc n) path st = Inl NullDeref"
proof -
  let ?t = "(lexeme_tok path 1 l)\<lparr>at_bol := True, has_space := False\<rparr>"
  let ?e = "(new_token path 1 TK_EOF)\<lparr>at_bol := True\<rparr>"
  have tok: "tokenize (pv_hints env) path (render [l]) (pp_flags st) = Inr ([?t, ?e], pp_flags st)"
    using tokenize_render_lemma [of "[l]" "pv_hints env" path "pp_flags st"] assms(2) by simp
  have k: "kind ?t \<noteq> TK_EOF \<and> \<not> tok_is ?t ''#'' \<and> \<not> expandable ?t"
    using assms(3) by (cases l) (auto simp: tok_is_def tok_is_word_def expandable_def new_token_def)
  have "pp_step env (Suc n) (pp_start [?t, ?e] st') = Inl NullDeref" for st'
    by (rule look_ahead_null [of _ ?t ?e]) (use k in \<open>auto simp: pp_start_def statement_start_def\<close>)
  then show ?thesis
    by (simp add: lex_file_def assms(1) tok lex_preprocess_def del: render.simps)
qed

theorem one_token_file_null_deref_witness:
  "lex_file (quiet_env\<lparr>pv_source := \<lambda>_. Some ''; ''\<rparr>) 7 ''empty.HC'' empty_pp = Inl NullDeref"
  using one_token_file_null_deref [of "quiet_env\<lparr>pv_source := \<lambda>_. Some ''; ''\<rparr>" "''empty.HC''" "LPunct '';''" 6 empty_pp]
  by (simp add: puncts_def)

end
