(* ===== verification/Types.thy ===== *)
theory Types
  imports Prelude
begin

text \<open>
  The types of \<open>src/src/aholyc.h\<close> and the operations of \<open>src/src/parse.c\<close> on them. A class is its
  position in the list of declared classes, so that class types are equal exactly when the \<open>Type\<close>
  pointers are; all other types are compared by content. Sizes and offsets are C \<open>int\<close>s: a result
  that does not fit is undefined behaviour and the error \<open>Undefined\<close>.
\<close>

section \<open>Types\<close>

text \<open>\<open>TyInt size unsigned bits\<close>; \<open>TyPtr base nonnull\<close>; \<open>TyArray base length size align\<close> with size and
  alignment as they were when the type was built; \<open>TyFunc result params variadic holyc_variadic\<close>.\<close>

datatype ty =
    TyVoid
  | TyInt int bool int
  | TyF64
  | TyPtr ty bool
  | TyArray ty int int int
  | TyClass nat
  | TyFunc ty "ty list" bool bool

record member =
  m_name :: string
  m_ty :: ty
  m_offset :: int

record class_info =
  ci_name :: string
  ci_union :: bool
  ci_parent :: "nat option"
  ci_members :: "member list"
  ci_size :: int
  ci_align :: int

definition ty_u0 :: ty where "ty_u0 = TyVoid"
definition ty_i8 :: ty where "ty_i8 = TyInt 1 False 0"
definition ty_u8 :: ty where "ty_u8 = TyInt 1 True 0"
definition ty_i16 :: ty where "ty_i16 = TyInt 2 False 0"
definition ty_u16 :: ty where "ty_u16 = TyInt 2 True 0"
definition ty_i32 :: ty where "ty_i32 = TyInt 4 False 0"
definition ty_u32 :: ty where "ty_u32 = TyInt 4 True 0"
definition ty_i64 :: ty where "ty_i64 = TyInt 8 False 0"
definition ty_u64 :: ty where "ty_u64 = TyInt 8 True 0"
definition ty_f64 :: ty where "ty_f64 = TyF64"

lemmas builtin_tys = ty_u0_def ty_i8_def ty_u8_def ty_i16_def ty_u16_def ty_i32_def ty_u32_def
  ty_i64_def ty_u64_def ty_f64_def

definition builtin_type :: "string \<Rightarrow> ty option" where
  "builtin_type s = map_of
     [(''U0'', ty_u0), (''I8'', ty_i8), (''U8'', ty_u8), (''I16'', ty_i16), (''U16'', ty_u16),
      (''I32'', ty_i32), (''U32'', ty_u32), (''I64'', ty_i64), (''U64'', ty_u64), (''F64'', ty_f64)] s"

definition subint_view_type :: "string \<Rightarrow> ty option" where
  "subint_view_type s = map_of
     [(''i8'', ty_i8), (''u8'', ty_u8), (''i16'', ty_i16), (''u16'', ty_u16), (''i32'', ty_i32), (''u32'', ty_u32)] s"

fun is_int_ty :: "ty \<Rightarrow> bool" where "is_int_ty (TyInt n u b) = True" | "is_int_ty _ = False"
fun is_ptr_ty :: "ty \<Rightarrow> bool" where "is_ptr_ty (TyPtr b nn) = True" | "is_ptr_ty _ = False"
fun is_array_ty :: "ty \<Rightarrow> bool" where "is_array_ty (TyArray b n s a) = True" | "is_array_ty _ = False"
fun is_class_ty :: "ty \<Rightarrow> bool" where "is_class_ty (TyClass c) = True" | "is_class_ty _ = False"
fun is_func_ty :: "ty \<Rightarrow> bool" where "is_func_ty (TyFunc r ps v h) = True" | "is_func_ty _ = False"

definition is_ptrish :: "ty \<Rightarrow> bool" where
  "is_ptrish t \<longleftrightarrow> is_ptr_ty t \<or> is_array_ty t"

fun nonnull :: "ty \<Rightarrow> bool" where "nonnull (TyPtr b nn) = nn" | "nonnull _ = False"

text \<open>\<open>base\<close>: the element, target or result type.\<close>

fun base_of :: "ty \<Rightarrow> ty option" where
  "base_of (TyPtr b nn) = Some b"
| "base_of (TyArray b n s a) = Some b"
| "base_of (TyFunc r ps v h) = Some r"
| "base_of _ = None"

fun ty_unsigned :: "ty \<Rightarrow> bool" where "ty_unsigned (TyInt n u b) = u" | "ty_unsigned _ = False"

definition ty_size :: "class_info list \<Rightarrow> ty \<Rightarrow> int" where
  "ty_size cs t =
     (case t of TyVoid \<Rightarrow> 0 | TyInt n u b \<Rightarrow> n | TyF64 \<Rightarrow> 8 | TyPtr b nn \<Rightarrow> 8 | TyArray b n s a \<Rightarrow> s
      | TyClass c \<Rightarrow> ci_size (cs ! c) | TyFunc r ps v h \<Rightarrow> 8)"

definition ty_align :: "class_info list \<Rightarrow> ty \<Rightarrow> int" where
  "ty_align cs t =
     (case t of TyVoid \<Rightarrow> 1 | TyInt n u b \<Rightarrow> n | TyF64 \<Rightarrow> 8 | TyPtr b nn \<Rightarrow> 8 | TyArray b n s a \<Rightarrow> a
      | TyClass c \<Rightarrow> ci_align (cs ! c) | TyFunc r ps v h \<Rightarrow> 8)"

definition c_int :: "int \<Rightarrow> int res" where
  "c_int n = (if - (2 ^ 31) \<le> n \<and> n < 2 ^ 31 then Inr n else Inl Undefined)"

lemma c_int_Inr: "c_int n = Inr m \<longleftrightarrow> m = n \<and> - (2 ^ 31) \<le> n \<and> n < 2 ^ 31"
  by (auto simp: c_int_def)

text \<open>The conversion of a 64-bit value to \<open>int\<close> keeps the low half.\<close>

definition int_of_i64 :: "i64 \<Rightarrow> int" where
  "int_of_i64 v = sint (ucast v :: 32 word)"

definition array_of :: "class_info list \<Rightarrow> ty \<Rightarrow> int \<Rightarrow> ty res" where
  "array_of cs b n = rbind (c_int (ty_size cs b * n)) (\<lambda>s. Inr (TyArray b n s (ty_align cs b)))"

definition value_type :: "ty \<Rightarrow> ty" where
  "value_type t =
     (case t of TyInt n u b \<Rightarrow> if u then ty_u64 else ty_i64 | TyArray b n s a \<Rightarrow> TyPtr b False | _ \<Rightarrow> t)"

section \<open>Equality of types\<close>

fun same_type :: "ty \<Rightarrow> ty \<Rightarrow> bool" where
  "same_type TyVoid TyVoid = True"
| "same_type TyF64 TyF64 = True"
| "same_type (TyInt n u b) (TyInt m v c) = (n = m \<and> u = v)"
| "same_type (TyPtr a x) (TyPtr b y) = (x = y \<and> same_type a b)"
| "same_type (TyArray a n s k) (TyArray b m t l) = (n = m \<and> same_type a b)"
| "same_type (TyClass c) (TyClass d) = (c = d)"
| "same_type (TyFunc r ps v h) (TyFunc q qs w g) =
     (same_type r q \<and> length ps = length qs \<and> v = w \<and> h = g \<and> list_all2 same_type ps qs)"
| "same_type _ _ = False"

definition is_fnptr :: "ty \<Rightarrow> bool" where
  "is_fnptr t \<longleftrightarrow> (case t of TyPtr b nn \<Rightarrow> is_func_ty b | _ \<Rightarrow> False)"

definition returns_class :: "ty \<Rightarrow> bool" where
  "returns_class t \<longleftrightarrow> (case base_of t of None \<Rightarrow> False | Some b \<Rightarrow> is_class_ty b)"

text \<open>The HolyC name of a type without its pointers and arrays.\<close>

fun holyc_type_name :: "class_info list \<Rightarrow> ty \<Rightarrow> string" where
  "holyc_type_name cs (TyPtr b nn) = holyc_type_name cs b"
| "holyc_type_name cs (TyArray b n s a) = holyc_type_name cs b"
| "holyc_type_name cs (TyClass c) = ci_name (cs ! c)"
| "holyc_type_name cs TyF64 = ''F64''"
| "holyc_type_name cs (TyInt n u b) =
     (if u then CHR ''U'' else CHR ''I'')
       # (if n = 1 then ''8'' else if n = 2 then ''16'' else if n = 4 then ''32'' else ''64'')"
| "holyc_type_name cs _ = ''U0''"

section \<open>Classes\<close>

definition find_class :: "class_info list \<Rightarrow> string \<Rightarrow> nat option" where
  "find_class cs s = map_option fst (find (\<lambda>(i, c). ci_name c = s) (rev (enumerate 0 cs)))"

text \<open>A member is looked up in the class and then in its parents. A class may be declared with itself
  or one of its descendants as its parent; the walk up then never ends for a name that none of
  them has. One step more than there are classes decides this.\<close>

fun find_member_from :: "nat \<Rightarrow> class_info list \<Rightarrow> nat \<Rightarrow> string \<Rightarrow> member option res" where
  "find_member_from 0 cs c s = Inl Fuel"
| "find_member_from (Suc n) cs c s =
     (case find (\<lambda>m. m_name m = s) (ci_members (cs ! c)) of
        Some m \<Rightarrow> Inr (Some m)
      | None \<Rightarrow> (case ci_parent (cs ! c) of None \<Rightarrow> Inr None | Some p \<Rightarrow> find_member_from n cs p s))"

definition find_member :: "class_info list \<Rightarrow> nat \<Rightarrow> string \<Rightarrow> member option res" where
  "find_member cs c s =
     (case find_member_from (length cs + 1) cs c s of Inl e \<Rightarrow> Inl Diverge | Inr m \<Rightarrow> Inr m)"

text \<open>The walk as a path of classes: each is the parent of the one before, and none of them has the
  name.\<close>

definition no_member :: "class_info list \<Rightarrow> string \<Rightarrow> nat \<Rightarrow> bool" where
  "no_member cs s c \<longleftrightarrow> find (\<lambda>m. m_name m = s) (ci_members (cs ! c)) = None"

definition class_up :: "class_info list \<Rightarrow> string \<Rightarrow> nat \<Rightarrow> nat \<Rightarrow> bool" where
  "class_up cs s c d \<longleftrightarrow> no_member cs s c \<and> ci_parent (cs ! c) = Some d"

definition classes_ok :: "class_info list \<Rightarrow> bool" where
  "classes_ok cs \<longleftrightarrow> (\<forall>c \<in> set cs. \<forall>p. ci_parent c = Some p \<longrightarrow> p < length cs)"

lemma find_member_step:
  "find_member_from (Suc n) cs c s = Inl e \<longleftrightarrow> (\<exists>b. class_up cs s c b \<and> find_member_from n cs b s = Inl e)"
  by (auto simp: class_up_def no_member_def split: option.split)

lemma find_member_fuel:
  "find_member_from n cs c s = Inl e \<longleftrightarrow> e = Fuel \<and> (\<exists>d. (class_up cs s ^^ n) c d)"
proof (induction n arbitrary: c)
  case (Suc n)
  have "(class_up cs s ^^ Suc n) c d \<longleftrightarrow> (\<exists>b. class_up cs s c b \<and> (class_up cs s ^^ n) b d)" for d
    using fun_cong [OF fun_cong [OF relpowp_commute [of "class_up cs s" n]]] by (simp add: relcompp_apply)
  then show ?case unfolding find_member_step Suc.IH by blast
qed auto

lemma class_up_fun: "class_up cs s c d \<Longrightarrow> class_up cs s c e \<Longrightarrow> d = e"
  by (simp add: class_up_def)

text \<open>A walk as long as there are classes meets a class twice, and can go on forever.\<close>

lemma class_cycle:
  assumes "classes_ok cs" "c < length cs" "(class_up cs s ^^ length cs) c d"
  shows "\<exists>e. (class_up cs s ^^ n) c e"
proof -
  let ?R = "class_up cs s"
  obtain f where f: "f 0 = c" "\<And>i. i < length cs \<Longrightarrow> ?R (f i) (f (Suc i))"
    using assms(3) by (auto simp: relpowp_fun_conv)
  have lt: "i \<le> length cs \<Longrightarrow> f i < length cs" for i
  proof (induction i)
    case (Suc i)
    then have "?R (f i) (f (Suc i))" "f i < length cs" using f(2) by simp_all
    then show ?case using assms(1) unfolding classes_ok_def class_up_def by (meson nth_mem)
  qed (use f assms in simp)
  have "\<not> inj_on f {..length cs}"
  proof
    assume "inj_on f {..length cs}"
    then have "card (f ` {..length cs}) = Suc (length cs)" by (simp add: card_image)
    moreover have "f ` {..length cs} \<subseteq> {..<length cs}" using lt by auto
    ultimately show False using card_mono [of "{..<length cs}" "f ` {..length cs}"] by simp
  qed
  then obtain i j where ij: "i < j" "j \<le> length cs" "f i = f j"
    unfolding inj_on_def by (metis atMost_iff nat_neq_iff)
  define g where "g k = (if k \<le> j then f k else f (i + (k - i) mod (j - i)))" for k
  have step: "?R (g k) (g (Suc k))" for k
  proof (cases "k < j")
    case True
    with ij f(2) [of k] show ?thesis by (simp add: g_def)
  next
    case False
    let ?m = "(k - i) mod (j - i)"
    have m: "?m < j - i" using ij by simp
    have gk: "g k = f (i + ?m)" using False ij by (cases "k = j") (simp_all add: g_def)
    have "(Suc k - i) mod (j - i) = (if Suc ?m = j - i then 0 else Suc ?m)"
      using False ij by (simp add: Suc_diff_le mod_Suc)
    moreover have "f (i + Suc ?m) = f i" if "Suc ?m = j - i"
      unfolding that using ij by simp
    ultimately have "g (Suc k) = f (i + Suc ?m)"
      using False ij by (cases "Suc ?m = j - i") (simp_all add: g_def)
    moreover have "i + ?m < length cs" using m ij(2) by linarith
    ultimately show ?thesis using gk f(2) [of "i + ?m"] by simp
  qed
  have "g 0 = c" using f(1) by (simp add: g_def)
  then have "(?R ^^ n) c (g n)" using step by (auto simp: relpowp_fun_conv intro!: exI [of _ g])
  then show ?thesis ..
qed

lemma find_member_diverges:
  assumes "classes_ok cs" "c < length cs" "find_member cs c s = Inl e"
  shows "find_member_from n cs c s = Inl Fuel"
proof -
  have "\<exists>e. find_member_from (length cs + 1) cs c s = Inl e"
    using assms(3) by (auto simp: find_member_def split: sum.splits)
  then obtain d where "(class_up cs s ^^ (Suc (length cs))) c d" by (auto simp: find_member_fuel simp del: relpowp.simps find_member_from.simps)
  then obtain b where "(class_up cs s ^^ length cs) c b" by auto
  from class_cycle [OF assms(1,2) this] show ?thesis by (simp add: find_member_fuel)
qed
lemma find_member_fuel_Inr:
  "find_member_from n cs c s = Inr r \<Longrightarrow>
     \<exists>k d. (class_up cs s ^^ k) c d \<and>
       (case r of Some m \<Rightarrow> find (\<lambda>m. m_name m = s) (ci_members (cs ! d)) = Some m
        | None \<Rightarrow> no_member cs s d \<and> ci_parent (cs ! d) = None)"
proof (induction n arbitrary: c)
  case (Suc n)
  show ?case
  proof (cases "\<exists>p. class_up cs s c p")
    case True
    then obtain p where p: "class_up cs s c p" by blast
    with Suc.prems have "find_member_from n cs p s = Inr r" by (simp add: class_up_def no_member_def)
    from Suc.IH [OF this] p show ?thesis by (blast intro: relpowp_Suc_I2)
  next
    case False
    with Suc.prems show ?thesis
      by (intro exI [of _ 0] exI [of _ c]) (auto simp: class_up_def no_member_def split: option.splits)
  qed
qed simp

text \<open>C21: Looking a member up finds the nearest class on the way up through the parents that has it, or
  none when the way ends without one; and it goes on forever exactly when the way never ends, which
  is possible only because a class may be its own ancestor.\<close>
theorem find_member_nearest:
  assumes "classes_ok cs" "c < length cs"
  shows "case find_member cs c s of
      Inl e \<Rightarrow> e = Diverge \<and> (\<forall>n. find_member_from n cs c s = Inl Fuel)
    | Inr r \<Rightarrow> (\<exists>k d. (class_up cs s ^^ k) c d \<and>
        (case r of Some m \<Rightarrow> find (\<lambda>m. m_name m = s) (ci_members (cs ! d)) = Some m
         | None \<Rightarrow> no_member cs s d \<and> ci_parent (cs ! d) = None))"
proof (cases "find_member cs c s")
  case (Inl e)
  then have "e = Diverge" by (auto simp: find_member_def split: sum.splits)
  with Inl find_member_diverges [OF assms Inl] show ?thesis by simp
next
  case (Inr r)
  then have "find_member_from (length cs + 1) cs c s = Inr r" by (auto simp: find_member_def split: sum.splits)
  from find_member_fuel_Inr [OF this] Inr show ?thesis by simp
qed

definition own_parent :: class_info where
  "own_parent = \<lparr>ci_name = ''A'', ci_union = False, ci_parent = Some 0, ci_members = [], ci_size = 0, ci_align = 1\<rparr>"

theorem find_member_nearest_witness:
  "find_member [own_parent] 0 ''x'' = Inl Diverge \<and> find_member_from 1000 [own_parent] 0 ''x'' = Inl Fuel"
proof -
  have e: "find_member [own_parent] 0 ''x'' = Inl Diverge"
    by (simp add: find_member_def own_parent_def)
  have "classes_ok [own_parent]" by (simp add: classes_ok_def own_parent_def)
  from find_member_nearest [OF this, of 0 "''x''"] e show ?thesis by simp
qed

end
