(* ===== verification/Ast.thy ===== *)
theory Ast
  imports Types Tokens
begin

text \<open>
  The syntax tree of \<open>src/src/aholyc.h\<close>: node kinds, the lowering mode of a try statement, and
  nodes. \<open>next\<close> chains are lists; a function is referred to by its position in \<open>Program.funcs\<close> and
  a variable by its \<open>uid\<close>. The fields of a node that hold no node are in a record of their own;
  \<open>fval\<close> is the sign and the text of a floating-point constant.
\<close>

datatype node_kind =
    ND_NUM | ND_FNUM | ND_STR | ND_VAR | ND_FUNCNAME
  | ND_ADD | ND_SUB | ND_MUL | ND_DIV | ND_MOD
  | ND_AND | ND_OR | ND_XOR | ND_SHL | ND_SHR | ND_POW
  | ND_EQ | ND_NE | ND_LT | ND_LE
  | ND_LOGAND | ND_LOGOR | ND_LOGXOR
  | ND_NOT | ND_BITNOT | ND_NEG
  | ND_ASSIGN | ND_COMMA | ND_MEMBER | ND_DEREF | ND_ADDR | ND_CALL | ND_CAST
  | ND_PREINC | ND_PREDEC | ND_POSTINC | ND_POSTDEC
  | ND_EXPR_STMT | ND_BLOCK | ND_IF | ND_WHILE | ND_DOWHILE | ND_FOR
  | ND_RETURN | ND_BREAK_ | ND_GOTO | ND_LABEL | ND_TRY | ND_ASM | ND_NOP

datatype try_mode = TRY_NONE | TRY_LOCAL | TRY_DYNAMIC

record asm_operand =
  ao_name :: string
  ao_tok :: token
  ao_local :: bool
  ao_var :: "nat option"
  ao_index :: nat

record asm_block =
  ab_tok :: token
  ab_text :: string
  ab_operands :: "asm_operand list"
  ab_noperands :: nat
  ab_id :: int

record ninfo =
  ni_ty :: ty
  ni_tok :: token
  ni_var :: nat
  ni_member :: member
  ni_label :: string
  ni_fval :: "bool \<times> string"
  ni_str :: string
  ni_str_id :: nat
  ni_nfixed :: nat
  ni_bit_cast :: bool
  ni_asm :: "asm_block option"

datatype node =
  Node (nkind: node_kind) (nlhs: "node option") (nrhs: "node option") (ncond: "node option")
    (nthen: "node option") (nels: "node option") (ninit: "node option") (ninc: "node option")
    (nbody: "node list") (nargs: "node list") (nfunc: "nat option") (nival: i64) (ntry: try_mode)
    (ninf: ninfo)

record fn =
  fn_name :: string
  fn_body :: "node option"
  fn_prelude :: bool
  fn_throws :: bool

text \<open>The direct sub-nodes.\<close>

definition opt_list :: "'a option \<Rightarrow> 'a list" where
  "opt_list x = (case x of None \<Rightarrow> [] | Some y \<Rightarrow> [y])"

lemma set_opt_list [simp]: "set (opt_list x) = set_option x"
  by (cases x) (simp_all add: opt_list_def)

definition children :: "node \<Rightarrow> node list" where
  "children n = opt_list (nlhs n) @ opt_list (nrhs n) @ opt_list (ncond n) @ opt_list (nthen n)
     @ opt_list (nels n) @ opt_list (ninit n) @ opt_list (ninc n) @ nbody n @ nargs n"

lemma size_option_mem: "x \<in> set_option y \<Longrightarrow> size x < size_option size y"
  by (cases y) auto

lemma size_list_mem: "x \<in> set xs \<Longrightarrow> size x < size_list size xs"
  by (induction xs) auto

lemma children_smaller: "c \<in> set (children n) \<Longrightarrow> size c < size n"
  by (cases n) (auto simp: children_def dest!: size_option_mem size_list_mem)

text \<open>A zeroed node, and what the type and the token of a node are.\<close>

definition ninfo0 :: "token \<Rightarrow> ninfo" where
  "ninfo0 t =
     \<lparr>ni_ty = TyVoid, ni_tok = t, ni_var = 0, ni_member = \<lparr>m_name = [], m_ty = TyVoid, m_offset = 0\<rparr>,
      ni_label = [], ni_fval = (False, []), ni_str = [], ni_str_id = 0, ni_nfixed = 0, ni_bit_cast = False,
      ni_asm = None\<rparr>"

definition new_node :: "node_kind \<Rightarrow> token \<Rightarrow> node" where
  "new_node k t = Node k None None None None None None None [] [] None 0 TRY_NONE (ninfo0 t)"

abbreviation nty :: "node \<Rightarrow> ty" where "nty n \<equiv> ni_ty (ninf n)"
abbreviation ntok :: "node \<Rightarrow> token" where "ntok n \<equiv> ni_tok (ninf n)"

end
