(* ===== verification/Effects.thy ===== *)
theory Effects
  imports Ast
begin

text \<open>
  \<open>src/src/effects.c\<close>: which functions may throw, and how each \<open>try\<close> is lowered. \<open>effect\<close>
  returns the effect bits of a tree and the tree with its \<open>try_mode\<close>s set;
  \<open>analyze_exceptions\<close> iterates it over all functions until no flag changes.
\<close>

section \<open>The analysis\<close>

definition E_LOCAL :: u32 where "E_LOCAL = 1"
definition E_CALL :: u32 where "E_CALL = 2"

text \<open>What a node's effect depends on: the name and the \<open>can_throw\<close> flag of every function.\<close>

type_synonym fenv = "(nat \<Rightarrow> string) \<times> (nat \<Rightarrow> bool)"

definition is_throw_call :: "fenv \<Rightarrow> node option \<Rightarrow> bool" where
  "is_throw_call c no =
     (case no of
        None \<Rightarrow> False
      | Some n \<Rightarrow> nkind n = ND_CALL \<and> (case nfunc n of None \<Rightarrow> False | Some g \<Rightarrow> fst c g = ''throw''))"

definition throwing_externs :: "string list" where
  "throwing_externs =
     [''throw'', ''MAlloc'', ''CAlloc'', ''StrNew'', ''MStrPrint'', ''StrPrintJoin'', ''GetStr'']"

definition extern_can_throw :: "fn \<Rightarrow> bool" where
  "extern_can_throw f = (if \<not> fn_prelude f then True else list_ex (\<lambda>s. fn_name f = s) throwing_externs)"

definition call_escapes :: "fenv \<Rightarrow> node \<Rightarrow> bool" where
  "call_escapes c n \<longleftrightarrow> nkind n = ND_CALL
     \<and> (is_throw_call c (Some n) \<or> (case nfunc n of None \<Rightarrow> True | Some g \<Rightarrow> snd c g))"

definition try_mode_of :: "u32 \<Rightarrow> try_mode" where
  "try_mode_of body = (if body = 0 then TRY_NONE else if body AND E_CALL \<noteq> 0 then TRY_DYNAMIC else TRY_LOCAL)"

text \<open>A throw statement's own call is not a crossing call: its effect is its arguments' and
  \<open>E_LOCAL\<close>. A try whose body has no effect is not looked into any further.\<close>

function (sequential)
  effect :: "fenv \<Rightarrow> node \<Rightarrow> u32 \<times> node" and
  effect_opt :: "fenv \<Rightarrow> node option \<Rightarrow> u32 \<times> node option" and
  list_effect :: "fenv \<Rightarrow> node list \<Rightarrow> u32 \<times> node list"
where
  "effect c (Node k l r cnd th el ini inc body args f iv tm nf) =
     (if k = ND_EXPR_STMT \<and> is_throw_call c l
      then
        (case l of
           Some (Node k' l' r' cnd' th' el' ini' inc' body' args' f' iv' tm' nf') \<Rightarrow>
             (let (e, as) = list_effect c args'
              in (e OR E_LOCAL,
                  Node k (Some (Node k' l' r' cnd' th' el' ini' inc' body' as f' iv' tm' nf'))
                    r cnd th el ini inc body args f iv tm nf))
         | None \<Rightarrow> (0, Node k l r cnd th el ini inc body args f iv tm nf))
      else if k = ND_TRY
      then
        (let (b, th1) = effect_opt c th
         in if b \<noteq> 0
            then (let (e, el1) = effect_opt c el
                  in (e OR E_LOCAL, Node k l r cnd th1 el1 ini inc body args f iv (try_mode_of b) nf))
            else (0, Node k l r cnd th1 el ini inc body args f iv (try_mode_of b) nf))
      else
        (let (e1, l1) = effect_opt c l; (e2, r1) = effect_opt c r; (e3, cnd1) = effect_opt c cnd;
             (e4, th1) = effect_opt c th; (e5, el1) = effect_opt c el; (e6, ini1) = effect_opt c ini;
             (e7, inc1) = effect_opt c inc; (e8, body1) = list_effect c body; (e9, args1) = list_effect c args;
             e = e1 OR e2 OR e3 OR e4 OR e5 OR e6 OR e7 OR e8 OR e9
         in (if call_escapes c (Node k l r cnd th el ini inc body args f iv tm nf) then e OR E_CALL else e,
             Node k l1 r1 cnd1 th1 el1 ini1 inc1 body1 args1 f iv tm nf)))"
| "effect_opt c None = (0, None)"
| "effect_opt c (Some n) = (let (e, n') = effect c n in (e, Some n'))"
| "list_effect c [] = (0, [])"
| "list_effect c (n # ns) =
     (let (e1, n') = effect c n; (e2, ns') = list_effect c ns in (e1 OR e2, n' # ns'))"
  by pat_completeness auto
termination
  by (relation "measure (\<lambda>x. case x of Inl (c, n) \<Rightarrow> size n
        | Inr (Inl (c, no)) \<Rightarrow> size_option size no | Inr (Inr (c, ns)) \<Rightarrow> size_list size ns)") auto

declare effect.simps [simp del]

text \<open>Flags and bodies of the program's functions.\<close>

definition env_of :: "fn list \<Rightarrow> fenv" where
  "env_of fs = ((\<lambda>g. if g < length fs then fn_name (fs ! g) else []),
                (\<lambda>g. g < length fs \<and> fn_throws (fs ! g)))"

definition init_flags :: "fn list \<Rightarrow> fn list" where
  "init_flags fs = map (\<lambda>f. f\<lparr>fn_throws := (if fn_body f \<noteq> None then False else extern_can_throw f)\<rparr>) fs"

text \<open>One visit of the inner loop at function \<open>i\<close>; the flag says whether something changed.\<close>

definition visit :: "nat \<Rightarrow> fn list \<times> bool \<Rightarrow> fn list \<times> bool" where
  "visit i s =
     (let (fs, changed) = s; f = fs ! i
      in case fn_body f of
           None \<Rightarrow> s
         | Some b \<Rightarrow>
             (if fn_throws f then s
              else
                (let (e, b') = effect (env_of fs) b
                 in if e \<noteq> 0 then (fs[i := f\<lparr>fn_body := Some b', fn_throws := True\<rparr>], True)
                    else (fs[i := f\<lparr>fn_body := Some b'\<rparr>], changed))))"

definition sweep :: "fn list \<Rightarrow> fn list \<times> bool" where
  "sweep fs = fold visit [0 ..< length fs] (fs, False)"

definition unflagged :: "fn list \<Rightarrow> nat" where
  "unflagged fs = length (filter (\<lambda>f. \<not> fn_throws f) fs)"

lemma visit_length: "length (fst (visit i s)) = length (fst s)"
  by (auto simp: visit_def Let_def case_prod_beta split: option.splits)

lemma unflagged_update:
  "i < length fs \<Longrightarrow> unflagged (fs[i := f]) + (if fn_throws (fs ! i) then 0 else 1)
     = unflagged fs + (if fn_throws f then 0 else 1)"
proof (induction fs arbitrary: i)
  case (Cons a fs)
  show ?case
  proof (cases i)
    case (Suc j)
    with Cons.IH [of j] Cons.prems show ?thesis by (auto simp: unflagged_def split: if_splits)
  qed (simp add: unflagged_def)
qed simp

lemma visit_unflagged:
  assumes "i < length (fst s)"
  shows "unflagged (fst (visit i s)) + (if snd (visit i s) \<and> \<not> snd s then 1 else 0) \<le> unflagged (fst s)"
proof (cases "fn_body (fst s ! i) = None \<or> fn_throws (fst s ! i)")
  case True
  then have "visit i s = s" by (cases s) (auto simp: visit_def Let_def split: option.splits)
  then show ?thesis by simp
next
  case False
  then obtain b where b: "fn_body (fst s ! i) = Some b" "\<not> fn_throws (fst s ! i)" by auto
  obtain e b' where e: "effect (env_of (fst s)) b = (e, b')" by fastforce
  let ?f = "(fst s ! i)\<lparr>fn_body := Some b'\<rparr>"
  have "visit i s = (if e \<noteq> 0 then ((fst s)[i := ?f\<lparr>fn_throws := True\<rparr>], True) else ((fst s)[i := ?f], snd s))"
    using b e by (cases s) (simp add: visit_def)
  then show ?thesis
    using unflagged_update [OF assms, of ?f] unflagged_update [OF assms, of "?f\<lparr>fn_throws := True\<rparr>"] b
    by simp
qed

lemma fold_visit_unflagged:
  "\<forall>i \<in> set is. i < length (fst s) \<Longrightarrow>
     unflagged (fst (fold visit is s)) + (if snd (fold visit is s) \<and> \<not> snd s then 1 else 0) \<le> unflagged (fst s)"
proof (induction "is" arbitrary: s)
  case (Cons i js)
  have "unflagged (fst (visit i s)) + (if snd (visit i s) \<and> \<not> snd s then 1 else 0) \<le> unflagged (fst s)"
    using Cons.prems by (intro visit_unflagged) simp
  moreover have "unflagged (fst (fold visit js (visit i s)))
      + (if snd (fold visit js (visit i s)) \<and> \<not> snd (visit i s) then 1 else 0) \<le> unflagged (fst (visit i s))"
    using Cons.prems by (intro Cons.IH) (simp add: visit_length)
  ultimately show ?case by (auto split: if_splits)
qed simp

function fix_flags :: "fn list \<Rightarrow> fn list" where
  "fix_flags fs = (let (fs', changed) = sweep fs in if changed then fix_flags fs' else fs')"
  by pat_completeness auto
termination
proof (relation "measure unflagged", goal_cases)
  case (2 fs p fs' changed)
  then have "fold visit [0 ..< length fs] (fs, False) = (fs', True)" by (simp add: sweep_def)
  then show ?case using fold_visit_unflagged [of "[0 ..< length fs]" "(fs, False)"] by simp
qed simp

declare fix_flags.simps [simp del]

text \<open>The last loop sets the modes of every body, and the start-up code comes last.\<close>

definition mark_bodies :: "fn list \<Rightarrow> fn list" where
  "mark_bodies fs = map (\<lambda>f. f\<lparr>fn_body := map_option (\<lambda>b. snd (effect (env_of fs) b)) (fn_body f)\<rparr>) fs"

definition analyze_exceptions :: "fn list \<Rightarrow> node option \<Rightarrow> fn list \<times> node option \<times> bool" where
  "analyze_exceptions fs startup =
     (let fs1 = mark_bodies (fix_flags (init_flags fs));
          (e, su) = effect_opt (env_of fs1) startup
      in (fs1, su, e \<noteq> 0))"

section \<open>What the effect bits mean\<close>

definition eff :: "fenv \<Rightarrow> node \<Rightarrow> u32" where
  "eff c n = fst (effect c n)"

lemma or_zero [simp]: "(x :: u32) OR y = 0 \<longleftrightarrow> x = 0 \<and> y = 0"
  by (auto simp: bit_eq_iff bit_or_iff)

lemma effect_opt_zero: "fst (effect_opt c x) = 0 \<longleftrightarrow> (\<forall>y \<in> set_option x. eff c y = 0)"
  by (cases x) (auto simp: eff_def case_prod_beta)

lemma list_effect_zero: "fst (list_effect c xs) = 0 \<longleftrightarrow> (\<forall>y \<in> set xs. eff c y = 0)"
  by (induction xs) (auto simp: eff_def case_prod_beta)

lemma or_nonzero [simp]: "E_LOCAL \<noteq> 0" "E_CALL \<noteq> 0"
  by (simp_all add: E_LOCAL_def E_CALL_def)

lemma throw_call_escapes: "is_throw_call c (Some n) \<Longrightarrow> call_escapes c n"
  by (simp add: call_escapes_def is_throw_call_def)

lemma eff_iff:
  "eff c n \<noteq> 0 \<longleftrightarrow>
     (if nkind n = ND_EXPR_STMT \<and> is_throw_call c (nlhs n) then True
      else if nkind n = ND_TRY then (\<exists>b. nthen n = Some b \<and> eff c b \<noteq> 0)
      else call_escapes c n \<or> (\<exists>x \<in> set (children n). eff c x \<noteq> 0))"
proof (cases n)
  case (Node k l r cnd th el ini inc body args f iv tm nf)
  consider (thr) "k = ND_EXPR_STMT" "is_throw_call c l"
    | (isTry) "k = ND_TRY" | (other) "\<not> (k = ND_EXPR_STMT \<and> is_throw_call c l)" "k \<noteq> ND_TRY"
    by blast
  then show ?thesis
  proof cases
    case thr
    then obtain m where "l = Some m" by (auto simp: is_throw_call_def split: option.splits)
    with thr Node show ?thesis
      by (cases m) (auto simp: eff_def effect.simps case_prod_beta or_nonzero)
  next
    case isTry
    with Node effect_opt_zero [of c th] show ?thesis
      by (auto simp: eff_def effect.simps case_prod_beta Let_def or_nonzero)
  next
    case other
    have "eff c n = 0 \<longleftrightarrow> \<not> call_escapes c n \<and> (\<forall>x \<in> set (children n). eff c x = 0)"
    proof (cases "call_escapes c n")
      case True
      then have "eff c n \<noteq> 0"
        using other Node
        by (cases "k = ND_EXPR_STMT") (simp_all add: eff_def effect.simps case_prod_beta Let_def)
      with True show ?thesis by simp
    next
      case False
      have "fst (effect c n) = 0 \<longleftrightarrow> (\<forall>x \<in> set (children n). eff c x = 0)"
        using other Node False
        by (cases "k = ND_EXPR_STMT")
           (auto simp: effect.simps case_prod_beta Let_def effect_opt_zero list_effect_zero
            children_def)
      with False show ?thesis by (simp add: eff_def [of c n])
    qed
    with other Node show ?thesis by auto
  qed
qed

text \<open>Independently of the traversal: an exception may come out of a tree when it contains a call
  that may let one escape, outside try statements or in the body of one.\<close>

inductive raises :: "fenv \<Rightarrow> node \<Rightarrow> bool" for c where
  raises_call: "call_escapes c n \<Longrightarrow> raises c n"
| raises_child: "nkind n \<noteq> ND_TRY \<Longrightarrow> x \<in> set (children n) \<Longrightarrow> raises c x \<Longrightarrow> raises c n"
| raises_try: "nkind n = ND_TRY \<Longrightarrow> nthen n = Some b \<Longrightarrow> raises c b \<Longrightarrow> raises c n"

lemma raises_throw_stmt: "nkind n = ND_EXPR_STMT \<Longrightarrow> is_throw_call c (nlhs n) \<Longrightarrow> raises c n"
proof -
  assume k: "nkind n = ND_EXPR_STMT" and t: "is_throw_call c (nlhs n)"
  then obtain m where m: "nlhs n = Some m" by (auto simp: is_throw_call_def split: option.splits)
  then have "raises c m" using t throw_call_escapes raises_call by simp
  with k m show ?thesis using raises_child [of n m c] by (simp add: children_def)
qed

theorem eff_raises: "eff c n \<noteq> 0 \<longleftrightarrow> raises c n"
proof
  show "eff c n \<noteq> 0 \<Longrightarrow> raises c n"
  proof (induction n rule: measure_induct_rule [of size])
    case (less n)
    show ?case
    proof (cases "nkind n = ND_EXPR_STMT \<and> is_throw_call c (nlhs n)")
      case False
      show ?thesis
      proof (cases "nkind n = ND_TRY")
        case True
        with less.prems False obtain b where b: "nthen n = Some b" "eff c b \<noteq> 0"
          by (auto simp: eff_iff [of c n])
        then have "b \<in> set (children n)" by (simp add: children_def)
        then have "raises c b" using less.IH b(2) children_smaller by blast
        with True b show ?thesis by (auto intro: raises_try)
      next
        case no_try: False
        with less.prems False consider "call_escapes c n"
          | x where "x \<in> set (children n)" "eff c x \<noteq> 0"
          by (auto simp: eff_iff [of c n])
        then show ?thesis
        proof cases
          case (2 x)
          with less.IH [OF children_smaller] have "raises c x" by simp
          with no_try 2(1) show ?thesis by (rule raises_child)
        qed (rule raises_call)
      qed
    qed (auto intro: raises_throw_stmt)
  qed
  show "raises c n \<Longrightarrow> eff c n \<noteq> 0"
  proof (induction rule: raises.induct)
    case (raises_call n)
    then show ?case by (subst eff_iff) (simp add: call_escapes_def)
  next
    case (raises_child n x)
    then show ?case by (subst eff_iff) auto
  next
    case (raises_try n b)
    then show ?case by (subst eff_iff) auto
  qed
qed

section \<open>Setting the modes does not change the effects\<close>

fun erase :: "node \<Rightarrow> node" where
  "erase (Node k l r cnd th el ini inc body args f iv tm nf) =
     Node k (map_option erase l) (map_option erase r) (map_option erase cnd) (map_option erase th)
       (map_option erase el) (map_option erase ini) (map_option erase inc) (map erase body) (map erase args)
       f iv TRY_NONE nf"

lemma erase_effect_opt:
  "(\<And>y. y \<in> set_option no \<Longrightarrow> erase (snd (effect c y)) = erase y) \<Longrightarrow>
     map_option erase (snd (effect_opt c no)) = map_option erase no"
  by (cases no) (auto simp: case_prod_beta)

lemma erase_list_effect:
  "(\<And>y. y \<in> set ns \<Longrightarrow> erase (snd (effect c y)) = erase y) \<Longrightarrow>
     map erase (snd (list_effect c ns)) = map erase ns"
  by (induction ns) (auto simp: case_prod_beta)

lemma erase_effect: "erase (snd (effect c n)) = erase n"
proof (induction n rule: measure_induct_rule [of size])
  case (less n)
  obtain k l r cnd th el ini inc body args f iv tm nf
    where n: "n = Node k l r cnd th el ini inc body args f iv tm nf" by (cases n)
  have IH: "erase (snd (effect c y)) = erase y" if "y \<in> set (children n)" for y
    using less children_smaller [OF that] .
  have opt: "map_option erase (snd (effect_opt c x)) = map_option erase x" if "set_option x \<subseteq> set (children n)" for x
    using IH that by (intro erase_effect_opt) auto
  have lst: "map erase (snd (list_effect c x)) = map erase x" if "set x \<subseteq> set (children n)" for x
    using IH that by (intro erase_list_effect) auto
  have ch: "set_option l \<subseteq> set (children n)" "set_option r \<subseteq> set (children n)" "set_option cnd \<subseteq> set (children n)"
    "set_option th \<subseteq> set (children n)" "set_option el \<subseteq> set (children n)" "set_option ini \<subseteq> set (children n)"
    "set_option inc \<subseteq> set (children n)" "set body \<subseteq> set (children n)" "set args \<subseteq> set (children n)"
    by (auto simp: n children_def)
  consider (thr) "k = ND_EXPR_STMT" "is_throw_call c l"
    | (isTry) "k = ND_TRY" | (expr) "k = ND_EXPR_STMT" "\<not> is_throw_call c l"
    | (other) "k \<noteq> ND_EXPR_STMT" "k \<noteq> ND_TRY"
    by blast
  then show ?case
  proof cases
    case thr
    then obtain m where l: "l = Some m" by (auto simp: is_throw_call_def split: option.splits)
    have m: "m \<in> set (children n)" using ch(1) l by simp
    have "map erase (snd (list_effect c (nargs m))) = map erase (nargs m)"
    proof (rule erase_list_effect)
      fix y assume "y \<in> set (nargs m)"
      then have "size y < size m" by (intro children_smaller) (simp add: children_def)
      with children_smaller [OF m] show "erase (snd (effect c y)) = erase y" by (intro less) simp
    qed
    with thr n l show ?thesis by (cases m) (simp add: effect.simps case_prod_beta)
  next
    case isTry
    then show ?thesis using opt [OF ch(4)] opt [OF ch(5)]
      by (simp add: n effect.simps case_prod_beta Let_def)
  next
    case expr
    then show ?thesis using ch(1-7) [THEN opt] ch(8,9) [THEN lst]
      by (simp add: n effect.simps case_prod_beta Let_def)
  next
    case other
    then show ?thesis using ch(1-7) [THEN opt] ch(8,9) [THEN lst]
      by (simp add: n effect.simps case_prod_beta Let_def)
  qed
qed

lemma erase_sel [simp]:
  "nkind (erase n) = nkind n" "nfunc (erase n) = nfunc n" "nlhs (erase n) = map_option erase (nlhs n)"
  "nthen (erase n) = map_option erase (nthen n)" "children (erase n) = map erase (children n)"
  by (cases n; auto simp: children_def opt_list_def split: option.splits)+

lemma call_escapes_erase [simp]: "call_escapes c (erase n) = call_escapes c n"
  by (simp add: call_escapes_def is_throw_call_def)

lemma raises_erase: "raises c (erase n) \<longleftrightarrow> raises c n"
proof
  show "raises c n \<Longrightarrow> raises c (erase n)"
  proof (induction rule: raises.induct)
    case (raises_child n x)
    then show ?case by (intro raises.raises_child [of "erase n" "erase x"]) simp_all
  next
    case (raises_try n b)
    then show ?case by (intro raises.raises_try [of "erase n" "erase b"]) simp_all
  qed (simp add: raises.raises_call)
  show "raises c (erase n) \<Longrightarrow> raises c n"
  proof (induction "erase n" arbitrary: n rule: raises.induct)
    case raises_call
    then show ?case by (simp add: raises.raises_call)
  next
    case (raises_child x)
    then obtain y where "y \<in> set (children n)" "x = erase y" by auto
    with raises_child show ?case using raises.raises_child [of n y c] by simp
  next
    case (raises_try b)
    then obtain y where "nthen n = Some y" "b = erase y" by auto
    with raises_try show ?case using raises.raises_try [of n y c] by simp
  qed
qed

lemma raises_same: "erase n = erase m \<Longrightarrow> raises c n \<longleftrightarrow> raises c m"
  by (metis raises_erase)

section \<open>The least solution\<close>

text \<open>The specification: the smallest set of functions that contains the throwing externs and
  every function whose body may raise, where a call raises when its target is unknown, is
  \<open>throw\<close>, or is in the set.\<close>

inductive may_throw :: "fn list \<Rightarrow> nat \<Rightarrow> bool" and may_raise :: "fn list \<Rightarrow> node \<Rightarrow> bool" for fs where
  mt_extern: "i < length fs \<Longrightarrow> fn_body (fs ! i) = None \<Longrightarrow> extern_can_throw (fs ! i) \<Longrightarrow> may_throw fs i"
| mt_body: "i < length fs \<Longrightarrow> fn_body (fs ! i) = Some b \<Longrightarrow> may_raise fs b \<Longrightarrow> may_throw fs i"
| mr_throw: "nkind n = ND_CALL \<Longrightarrow> nfunc n = Some g \<Longrightarrow> fst (env_of fs) g = ''throw'' \<Longrightarrow> may_raise fs n"
| mr_unknown: "nkind n = ND_CALL \<Longrightarrow> nfunc n = None \<Longrightarrow> may_raise fs n"
| mr_call: "nkind n = ND_CALL \<Longrightarrow> nfunc n = Some g \<Longrightarrow> may_throw fs g \<Longrightarrow> may_raise fs n"
| mr_child: "nkind n \<noteq> ND_TRY \<Longrightarrow> x \<in> set (children n) \<Longrightarrow> may_raise fs x \<Longrightarrow> may_raise fs n"
| mr_try: "nkind n = ND_TRY \<Longrightarrow> nthen n = Some b \<Longrightarrow> may_raise fs b \<Longrightarrow> may_raise fs n"

lemma raises_may_raise:
  "raises c n \<Longrightarrow> fst c = fst (env_of fs) \<Longrightarrow> (\<And>g. snd c g \<Longrightarrow> may_throw fs g) \<Longrightarrow> may_raise fs n"
proof (induction rule: raises.induct)
  case (raises_call n)
  then show ?case
    by (auto simp: call_escapes_def is_throw_call_def split: option.splits
        intro: mr_throw mr_unknown mr_call)
qed (auto intro: mr_child mr_try)

text \<open>The part of a program the analysis never changes.\<close>

definition core :: "fn \<Rightarrow> string \<times> node option \<times> bool" where
  "core f = (fn_name f, map_option erase (fn_body f), fn_prelude f)"

lemma core_env: "map core fs = map core fs' \<Longrightarrow> fst (env_of fs) = fst (env_of fs')"
proof -
  assume c: "map core fs = map core fs'"
  then have l: "length fs = length fs'" by (rule map_eq_imp_length_eq)
  have "fn_name (fs ! g) = fn_name (fs' ! g)" if "g < length fs" for g
    using c that l by (metis core_def nth_map prod.inject)
  with l show ?thesis by (auto simp: env_of_def)
qed

lemma core_body:
  "map core fs = map core fs' \<Longrightarrow> i < length fs \<Longrightarrow>
     map_option erase (fn_body (fs ! i)) = map_option erase (fn_body (fs' ! i))"
  by (metis core_def length_map nth_map prod.inject)

text \<open>Everything flagged may throw, and externs are flagged as they should be.\<close>

definition flags_ok :: "fn list \<Rightarrow> fn list \<Rightarrow> bool" where
  "flags_ok fs fs' \<longleftrightarrow> map core fs' = map core fs
     \<and> (\<forall>i < length fs. fn_throws (fs' ! i) \<longrightarrow> may_throw fs i)
     \<and> (\<forall>i < length fs. fn_body (fs ! i) = None \<longrightarrow> fn_throws (fs' ! i) = extern_can_throw (fs ! i))"

lemma flags_ok_length: "flags_ok fs fs' \<Longrightarrow> length fs' = length fs"
  unfolding flags_ok_def by (metis length_map)

lemma init_flags_ok: "flags_ok fs (init_flags fs)"
  by (auto simp: flags_ok_def init_flags_def core_def intro: mt_extern)

lemma body_erase:
  "flags_ok fs fs' \<Longrightarrow> i < length fs \<Longrightarrow> fn_body (fs' ! i) = Some b \<Longrightarrow>
     \<exists>a. fn_body (fs ! i) = Some a \<and> erase a = erase b"
  using core_body [of fs' fs i] flags_ok_length [of fs fs']
  by (cases "fn_body (fs ! i)") (auto simp: flags_ok_def)

lemma env_flags: "flags_ok fs fs' \<Longrightarrow> snd (env_of fs') g \<Longrightarrow> may_throw fs g"
  using flags_ok_length [of fs fs'] by (auto simp: env_of_def flags_ok_def)

lemma visit_cases:
  obtains "visit i (fs, ch) = (fs, ch)" "\<And>b. fn_body (fs ! i) = Some b \<Longrightarrow> fn_throws (fs ! i)"
  | b b' where "fn_body (fs ! i) = Some b" "\<not> fn_throws (fs ! i)" "erase b' = erase b" "eff (env_of fs) b \<noteq> 0"
      "visit i (fs, ch) = (fs[i := (fs ! i)\<lparr>fn_body := Some b', fn_throws := True\<rparr>], True)"
  | b b' where "fn_body (fs ! i) = Some b" "\<not> fn_throws (fs ! i)" "erase b' = erase b" "eff (env_of fs) b = 0"
      "visit i (fs, ch) = (fs[i := (fs ! i)\<lparr>fn_body := Some b'\<rparr>], ch)"
proof (cases "fn_body (fs ! i) = None \<or> fn_throws (fs ! i)")
  case True
  then show ?thesis by (intro that(1)) (auto simp: visit_def Let_def split: option.splits)
next
  case False
  then obtain b where b: "fn_body (fs ! i) = Some b" "\<not> fn_throws (fs ! i)" by auto
  obtain e b' where e: "effect (env_of fs) b = (e, b')" by fastforce
  then have er: "erase b' = erase b" "eff (env_of fs) b = e"
    using erase_effect [of "env_of fs" b] by (simp_all add: eff_def)
  show ?thesis
  proof (cases "e = 0")
    case True
    with b e er show ?thesis by (intro that(3) [of b b']) (simp_all add: visit_def)
  next
    case False
    with b e er show ?thesis by (intro that(2) [of b b']) (simp_all add: visit_def)
  qed
qed

lemma core_update:
  "i < length fs' \<Longrightarrow> core f = core (fs' ! i) \<Longrightarrow> map core (fs'[i := f]) = map core fs'"
  by (metis list_update_id map_update)

lemma visit_flags_ok:
  assumes ok: "flags_ok fs fs'" and i: "i < length fs"
  shows "flags_ok fs (fst (visit i (fs', ch)))"
proof (cases rule: visit_cases [of i fs' ch])
  case (2 b b')
  let ?f = "(fs' ! i)\<lparr>fn_body := Some b', fn_throws := True\<rparr>"
  have len: "length fs' = length fs" using flags_ok_length [OF ok] .
  have c: "map core (fs'[i := ?f]) = map core fs'"
    using i len 2(1,3) by (intro core_update) (simp_all add: core_def)
  obtain a where a: "fn_body (fs ! i) = Some a" "erase a = erase b" using body_erase [OF ok i 2(1)] by blast
  have "raises (env_of fs') a" using 2(4) a(2) raises_same eff_raises by blast
  then have "may_raise fs a"
    by (rule raises_may_raise) (use core_env [of fs' fs] ok env_flags [OF ok] in \<open>auto simp: flags_ok_def\<close>)
  then have "may_throw fs i" using a(1) i by (intro mt_body)
  with ok c a len i show ?thesis by (auto simp: flags_ok_def 2(5) nth_list_update)
next
  case (3 b b')
  let ?f = "(fs' ! i)\<lparr>fn_body := Some b'\<rparr>"
  have len: "length fs' = length fs" using flags_ok_length [OF ok] .
  have c: "map core (fs'[i := ?f]) = map core fs'"
    using i len 3(1,3) by (intro core_update) (simp_all add: core_def)
  with ok len i show ?thesis by (auto simp: flags_ok_def 3(5) nth_list_update)
qed (use ok in simp)

lemma fold_visit_ok:
  "flags_ok fs (fst s) \<Longrightarrow> \<forall>i \<in> set js. i < length fs \<Longrightarrow> flags_ok fs (fst (fold visit js s))"
proof (induction js arbitrary: s)
  case (Cons j js)
  then show ?case using visit_flags_ok [of fs "fst s" j "snd s"] by simp
qed simp

text \<open>A sweep that changes no flag leaves no body with an effect unflagged.\<close>

definition closed_at :: "fn list \<Rightarrow> nat \<Rightarrow> bool" where
  "closed_at fs i \<longleftrightarrow> (\<forall>b. fn_body (fs ! i) = Some b \<longrightarrow> raises (env_of fs) b \<longrightarrow> fn_throws (fs ! i))"

lemma visit_unchanged:
  assumes "snd (visit i (fs, ch)) = False" "i < length fs"
  shows "\<not> ch \<and> env_of (fst (visit i (fs, ch))) = env_of fs \<and> closed_at (fst (visit i (fs, ch))) i
    \<and> (\<forall>j. closed_at fs j \<longrightarrow> closed_at (fst (visit i (fs, ch))) j) \<and> length (fst (visit i (fs, ch))) = length fs"
proof (cases rule: visit_cases [of i fs ch])
  case 1
  with assms show ?thesis by (auto simp: closed_at_def)
next
  case (2 b b')
  with assms show ?thesis by simp
next
  case (3 b b')
  let ?fs = "fs[i := (fs ! i)\<lparr>fn_body := Some b'\<rparr>]"
  have env: "env_of ?fs = env_of fs"
    using assms(2) by (auto simp: env_of_def nth_list_update fun_eq_iff)
  have nr: "\<not> raises (env_of fs) b'" "\<not> raises (env_of fs) b"
    using 3(3,4) eff_raises raises_same by blast+
  have "closed_at ?fs j" if "closed_at fs j \<or> j = i" for j
    using that nr assms(2) env by (cases "j = i") (auto simp: closed_at_def)
  with 3(5) env assms show ?thesis by simp
qed

lemma fold_visit_unchanged:
  "snd (fold visit js s) = False \<Longrightarrow> \<forall>i \<in> set js. i < length (fst s) \<Longrightarrow>
     \<not> snd s \<and> env_of (fst (fold visit js s)) = env_of (fst s)
     \<and> (\<forall>i. i \<in> set js \<or> closed_at (fst s) i \<longrightarrow> closed_at (fst (fold visit js s)) i)"
proof (induction js arbitrary: s)
  case (Cons j js)
  obtain fs ch where s: "s = (fs, ch)" by fastforce
  have len: "length (fst (visit j s)) = length fs" using visit_length [of j s] s by simp
  from Cons.IH [of "visit j s"] Cons.prems len s
  have IH: "\<not> snd (visit j s)" "env_of (fst (fold visit js (visit j s))) = env_of (fst (visit j s))"
    "\<forall>i. i \<in> set js \<or> closed_at (fst (visit j s)) i \<longrightarrow> closed_at (fst (fold visit js (visit j s))) i"
    by auto
  from visit_unchanged [of j fs ch] IH(1) s Cons.prems(2)
  have "\<not> ch \<and> env_of (fst (visit j s)) = env_of fs \<and> closed_at (fst (visit j s)) j
      \<and> (\<forall>i. closed_at fs i \<longrightarrow> closed_at (fst (visit j s)) i)"
    by auto
  with IH(2,3) s show ?case by auto
qed simp

lemma fix_flags_ok:
  assumes "flags_ok fs fs'"
  shows "flags_ok fs (fix_flags fs') \<and> (\<forall>i < length fs. closed_at (fix_flags fs') i)"
  using assms
proof (induction fs' rule: fix_flags.induct)
  case (1 fs')
  have len: "length fs' = length fs" using flags_ok_length [OF 1(2)] .
  obtain fs1 ch where sw: "sweep fs' = (fs1, ch)" by fastforce
  have ok: "flags_ok fs fs1"
    using fold_visit_ok [of fs "(fs', False)" "[0 ..< length fs']"] 1(2) len sw by (simp add: sweep_def)
  show ?case
  proof (cases ch)
    case True
    have "fix_flags fs' = fix_flags fs1" using sw True by (simp add: fix_flags.simps [of fs'])
    with 1(1) [OF sw [symmetric] refl True ok] show ?thesis by simp
  next
    case False
    then have "fix_flags fs' = fs1" using sw by (simp add: fix_flags.simps [of fs'])
    moreover have "\<forall>i < length fs. closed_at fs1 i"
      using fold_visit_unchanged [of "[0 ..< length fs']" "(fs', False)"] sw False len
      by (auto simp: sweep_def)
    ultimately show ?thesis using ok by simp
  qed
qed

lemma closed_complete:
  assumes ok: "flags_ok fs fs'" and cl: "\<forall>i < length fs. closed_at fs' i"
  shows "may_throw fs i \<Longrightarrow> fn_throws (fs' ! i) \<and> i < length fs" "may_raise fs n \<Longrightarrow> raises (env_of fs') n"
proof (induction rule: may_throw_may_raise.inducts)
  case (mt_extern i)
  with ok show ?case by (simp add: flags_ok_def)
next
  case (mt_body i b)
  have len: "length fs' = length fs" using flags_ok_length [OF ok] .
  have "map_option erase (fn_body (fs' ! i)) = map_option erase (fn_body (fs ! i))"
    using ok core_body [of fs' fs i] mt_body(1) len by (simp add: flags_ok_def)
  then obtain b' where "fn_body (fs' ! i) = Some b'" "erase b' = erase b" using mt_body(2) by auto
  with cl mt_body show ?case using raises_same unfolding closed_at_def by blast
next
  case (mr_throw n g)
  have "fst (env_of fs') = fst (env_of fs)" using core_env [of fs' fs] ok by (simp add: flags_ok_def)
  with mr_throw show ?case by (intro raises_call) (simp add: call_escapes_def is_throw_call_def)
next
  case (mr_unknown n)
  then show ?case by (intro raises_call) (simp add: call_escapes_def)
next
  case (mr_call n g)
  then have "snd (env_of fs') g" using flags_ok_length [OF ok] by (simp add: env_of_def)
  with mr_call show ?case by (intro raises_call) (simp add: call_escapes_def)
next
  case (mr_child n x)
  then show ?case using raises_child by blast
next
  case (mr_try n b)
  then show ?case using raises_try by blast
qed

lemma mark_bodies_sel:
  "length (mark_bodies fs) = length fs"
  "i < length fs \<Longrightarrow> fn_throws (mark_bodies fs ! i) = fn_throws (fs ! i)"
  by (simp_all add: mark_bodies_def)

lemma fix_throws_iff:
  assumes "i < length fs"
  shows "fn_throws (fix_flags (init_flags fs) ! i) = may_throw fs i"
proof
  have ok: "flags_ok fs (fix_flags (init_flags fs))" "\<forall>i < length fs. closed_at (fix_flags (init_flags fs)) i"
    using fix_flags_ok [OF init_flags_ok] by blast+
  show "may_throw fs i \<Longrightarrow> fn_throws (fix_flags (init_flags fs) ! i)"
    using closed_complete(1) [OF ok] by blast
  show "fn_throws (fix_flags (init_flags fs) ! i) \<Longrightarrow> may_throw fs i"
    using ok(1) assms by (simp add: flags_ok_def)
qed

lemma raises_iff_may_raise:
  "raises (env_of (fix_flags (init_flags fs))) n \<longleftrightarrow> may_raise fs n"
proof -
  let ?fs = "fix_flags (init_flags fs)"
  have ok: "flags_ok fs ?fs" "\<forall>i < length fs. closed_at ?fs i"
    using fix_flags_ok [OF init_flags_ok] by blast+
  have "raises (env_of ?fs) n \<Longrightarrow> may_raise fs n"
    using raises_may_raise [of "env_of ?fs" n fs] core_env [of ?fs fs] ok(1) env_flags [OF ok(1)]
    by (simp add: flags_ok_def)
  with closed_complete(2) [OF ok] show ?thesis by blast
qed

lemma env_mark: "env_of (mark_bodies fs) = env_of fs"
  by (auto simp: env_of_def mark_bodies_def fun_eq_iff)

lemma mark_length: "length (fix_flags (init_flags fs)) = length fs"
  using fix_flags_ok [OF init_flags_ok] flags_ok_length by blast

section \<open>Properties\<close>

text \<open>C8: The exception analysis computes the least fixpoint. Its loop ends on every program, and
  afterwards a function is flagged exactly when it belongs to the smallest set that contains the
  externs that can throw and every function whose body may raise; the start-up code is flagged
  exactly when it may raise. So no function that can throw is missed, and none is flagged
  without a chain of calls that leads to a throw.\<close>

theorem analysis_is_least_fixpoint:
  "length (fst (analyze_exceptions fs su)) = length fs
   \<and> (\<forall>i. i < length fs \<longrightarrow> fn_throws (fst (analyze_exceptions fs su) ! i) = may_throw fs i)
   \<and> snd (snd (analyze_exceptions fs su)) = (\<exists>n. su = Some n \<and> may_raise fs n)"
proof -
  let ?fs = "mark_bodies (fix_flags (init_flags fs))"
  have "fst (effect_opt (env_of ?fs) su) \<noteq> 0 \<longleftrightarrow> (\<exists>n. su = Some n \<and> may_raise fs n)"
    by (cases su) (simp_all add: effect_opt_zero env_mark eff_raises raises_iff_may_raise
        del: effect_opt.simps)
  then show ?thesis
    using fix_throws_iff mark_length
    by (auto simp: analyze_exceptions_def Let_def case_prod_beta mark_bodies_sel)
qed

definition call_to :: "nat \<Rightarrow> node" where
  "call_to g = Node ND_CALL None None None None None None None [] [] (Some g) 0 TRY_NONE (ninfo0 (new_token [] 0 TK_EOF))"

theorem analysis_is_least_fixpoint_witness:
  "let fs = [\<lparr>fn_name = ''throw'', fn_body = None, fn_prelude = True, fn_throws = False\<rparr>,
             \<lparr>fn_name = ''F'', fn_body = Some (call_to 2), fn_prelude = False, fn_throws = False\<rparr>,
             \<lparr>fn_name = ''G'', fn_body = Some (call_to 0), fn_prelude = False, fn_throws = False\<rparr>,
             \<lparr>fn_name = ''H'', fn_body = Some (call_to 3), fn_prelude = False, fn_throws = True\<rparr>]
   in map fn_throws (fst (analyze_exceptions fs None)) = [True, True, True, False] \<and> may_throw fs 1"
proof -
  let ?fs = "[\<lparr>fn_name = ''throw'', fn_body = None, fn_prelude = True, fn_throws = False\<rparr>,
             \<lparr>fn_name = ''F'', fn_body = Some (call_to 2), fn_prelude = False, fn_throws = False\<rparr>,
             \<lparr>fn_name = ''G'', fn_body = Some (call_to 0), fn_prelude = False, fn_throws = False\<rparr>,
             \<lparr>fn_name = ''H'', fn_body = Some (call_to 3), fn_prelude = False, fn_throws = True\<rparr>]"
  have run: "map fn_throws (fst (analyze_exceptions ?fs None)) = [True, True, True, False]"
    by code_simp
  let ?r = "fst (analyze_exceptions ?fs None)"
  have "length ?r = 4" using analysis_is_least_fixpoint [of ?fs None] by simp
  then have "fn_throws (?r ! 1) = map fn_throws ?r ! 1" by (subst nth_map) simp_all
  then have "fn_throws (?r ! 1)" unfolding run by simp
  then have "may_throw ?fs 1" using analysis_is_least_fixpoint [of ?fs None] by simp
  with run show ?thesis by simp
qed

end
