(* ===== verification/Getopt.thy ===== *)
theory Getopt
  imports Prelude
begin

text \<open>
  \<open>src/src/getopt.c\<close>: the option scanner. \<open>place\<close> is the rest of the argument being read
  (empty for \<open>EMSG\<close> and for the initial null pointer); the returned codes are the C's: -1 at
  the end, 1 for a positional argument, \<open>?\<close> and \<open>:\<close> for errors, else the option letter.
\<close>

record ropt =
  go_done :: bool
  go_ind :: nat
  go_opt :: int
  go_arg :: "string option"
  go_place :: string
  go_argv :: "string list"
  go_ostr :: string

definition r_getopt_init :: "string list \<Rightarrow> string \<Rightarrow> ropt" where
  "r_getopt_init argv ostr =
     \<lparr>go_done = False, go_ind = 1, go_opt = 0, go_arg = None, go_place = [], go_argv = argv, go_ostr = ostr\<rparr>"

abbreviation BADCH :: int where "BADCH \<equiv> 63"
abbreviation BADARG :: int where "BADARG \<equiv> 58"

text \<open>A plain \<open>char\<close> is signed.\<close>

definition chr_code :: "char \<Rightarrow> int" where
  "chr_code c = (let n = int (of_char c) in if n < 128 then n else n - 256)"

text \<open>\<open>strchr (ostr, c)\<close>: what follows the first occurrence.\<close>

definition after_letter :: "string \<Rightarrow> char \<Rightarrow> string option" where
  "after_letter ostr c =
     (let r = dropWhile (\<lambda>x. x \<noteq> c) ostr in if r = [] then None else Some (tl r))"

definition if_end_next :: "ropt \<Rightarrow> ropt" where
  "if_end_next g = (if go_place g = [] then g\<lparr>go_ind := go_ind g + 1\<rparr> else g)"

text \<open>The part from \<open>option letter okay?\<close> on: \<open>place\<close> is not empty.\<close>

definition read_letter :: "ropt \<Rightarrow> int \<times> ropt" where
  "read_letter g =
     (let c = hd (go_place g); g1 = g\<lparr>go_opt := chr_code c, go_place := tl (go_place g)\<rparr>
      in if c = CHR '':'' then (BADCH, if_end_next g1)
         else
           (case after_letter (go_ostr g) c of
              None \<Rightarrow> (BADCH, if_end_next g1)
            | Some oli \<Rightarrow>
                (if oli \<noteq> [] \<and> hd oli = CHR '':''
                 then
                   (if go_place g1 \<noteq> []
                    then (chr_code c, g1\<lparr>go_arg := Some (go_place g1), go_place := [], go_ind := go_ind g1 + 1\<rparr>)
                    else if tl oli \<noteq> [] \<and> hd (tl oli) = CHR '':''
                    then (chr_code c, g1\<lparr>go_arg := None, go_place := [], go_ind := go_ind g1 + 1\<rparr>)
                    else if length (go_argv g) \<le> go_ind g1 + 1
                    then (BADARG, g1\<lparr>go_place := [], go_ind := go_ind g1 + 1\<rparr>)
                    else (chr_code c,
                          g1\<lparr>go_arg := Some (go_argv g ! (go_ind g1 + 1)), go_place := [], go_ind := go_ind g1 + 2\<rparr>))
                 else (chr_code c, if_end_next (g1\<lparr>go_arg := None\<rparr>)))))"

function r_getopt_next :: "ropt \<Rightarrow> int \<times> ropt" where
  "r_getopt_next g =
     (if go_place g \<noteq> [] then read_letter g
      else if go_ind g \<ge> length (go_argv g) then (-1, g)
      else
        (let w = go_argv g ! go_ind g
         in if go_done g \<or> w = [] \<or> hd w \<noteq> CHR ''-'' \<or> tl w = []
            then (1, g\<lparr>go_arg := Some w, go_place := [], go_ind := go_ind g + 1\<rparr>)
            else if tl w = ''-''
            then r_getopt_next (g\<lparr>go_ind := go_ind g + 1, go_place := [], go_done := True\<rparr>)
            else read_letter (g\<lparr>go_place := tl w\<rparr>)))"
  by pat_completeness auto
termination
  by (relation "measure (\<lambda>g. if go_done g then 0 else 1)") auto

declare r_getopt_next.simps [simp del]

text \<open>A number of calls in a row: what each returned, with the argument it left.\<close>

fun calls :: "nat \<Rightarrow> ropt \<Rightarrow> (int \<times> string option) list \<times> ropt" where
  "calls 0 g = ([], g)"
| "calls (Suc n) g =
     (let (r, g1) = r_getopt_next g; (evs, g2) = calls n g1 in ((r, go_arg g1) # evs, g2))"

lemma calls_add:
  "calls (m + n) g = (let (a, g1) = calls m g; (b, g2) = calls n g1 in (a @ b, g2))"
  by (induction m arbitrary: g) (auto simp: case_prod_beta Let_def)

section \<open>Staying inside the argument vector\<close>

definition ascii :: "string \<Rightarrow> bool" where
  "ascii s \<longleftrightarrow> list_all (\<lambda>c. (of_char c :: nat) < 128) s"

definition ropt_ok :: "ropt \<Rightarrow> bool" where
  "ropt_ok g \<longleftrightarrow> go_ind g \<le> length (go_argv g) \<and> (go_place g \<noteq> [] \<longrightarrow> go_ind g < length (go_argv g))
     \<and> ascii (go_ostr g)"

lemma after_letter_mem: "after_letter s c = Some r \<Longrightarrow> c \<in> set s"
proof (rule ccontr)
  assume a: "after_letter s c = Some r" "c \<notin> set s"
  then have "dropWhile (\<lambda>x. x \<noteq> c) s = []" by (simp add: dropWhile_eq_Nil_conv) blast
  with a(1) show False by (simp add: after_letter_def)
qed

lemma chr_code_ascii: "ascii s \<Longrightarrow> c \<in> set s \<Longrightarrow> chr_code c = int (of_char c)"
  by (auto simp: ascii_def chr_code_def list_all_iff Let_def)

text \<open>What is left to read: the rest of this argument, and the later ones.\<close>

definition left :: "ropt \<Rightarrow> nat" where
  "left g =
     (if go_place g \<noteq> []
      then length (go_place g) + sum_list (map (\<lambda>w. Suc (length w)) (drop (Suc (go_ind g)) (go_argv g)))
      else sum_list (map (\<lambda>w. Suc (length w)) (drop (go_ind g) (go_argv g))))"

lemma drop_sum_mono:
  "sum_list (map (\<lambda>w. Suc (length w)) (drop (k + m) xs)) \<le> sum_list (map (\<lambda>w. Suc (length w)) (drop k xs))"
  for xs :: "string list"
proof -
  have "sum_list (map f (drop m ys)) \<le> (sum_list (map f ys) :: nat)" for f and ys :: "string list"
    by (metis append_take_drop_id le_add2 map_append sum_list_append)
  from this [of "\<lambda>w. Suc (length w)" "drop k xs"] show ?thesis by (simp add: add.commute)
qed

lemma read_letter_progress:
  assumes "go_place g \<noteq> []" "go_ind g < length (go_argv g)" "ascii (go_ostr g)"
  shows "fst (read_letter g) \<noteq> -1 \<and> ropt_ok (snd (read_letter g)) \<and> left (snd (read_letter g)) < left g
    \<and> go_argv (snd (read_letter g)) = go_argv g"
proof -
  have code: "chr_code (hd (go_place g)) \<noteq> -1" if "after_letter (go_ostr g) (hd (go_place g)) = Some r" for r
    using chr_code_ascii [OF assms(3) after_letter_mem [OF that]] by simp
  have sub: "sum_list (map (\<lambda>w. Suc (length w)) (drop (Suc (Suc (go_ind g))) (go_argv g)))
      \<le> sum_list (map (\<lambda>w. Suc (length w)) (drop (Suc (go_ind g)) (go_argv g)))"
    using drop_sum_mono [of "Suc (go_ind g)" 1] by simp
  obtain p ps where pl: "go_place g = p # ps" using assms(1) by (cases "go_place g") auto
  show ?thesis
    using assms code sub pl
    by (auto simp: read_letter_def Let_def if_end_next_def ropt_ok_def left_def split: option.splits)
qed

lemma next_progress:
  assumes "ropt_ok g" "r_getopt_next g = (r, g')"
  shows "ropt_ok g' \<and> (r \<noteq> -1 \<longrightarrow> left g' < left g) \<and> (r = -1 \<longrightarrow> go_ind g' = length (go_argv g'))"
  using assms
proof (induction g arbitrary: r g' rule: r_getopt_next.induct)
  case (1 g)
  let ?w = "go_argv g ! go_ind g"
  show ?case
  proof (cases "go_place g \<noteq> []")
    case True
    with 1(2,3) have "read_letter g = (r, g')" "go_ind g < length (go_argv g)" "ascii (go_ostr g)"
      by (simp_all add: r_getopt_next.simps [of g] ropt_ok_def)
    with read_letter_progress [OF True this(2,3)] show ?thesis by simp
  next
    case np: False
    show ?thesis
    proof (cases "go_ind g \<ge> length (go_argv g)")
      case True
      with np 1(2,3) show ?thesis by (auto simp: r_getopt_next.simps [of g] ropt_ok_def)
    next
      case lt: False
      then have lw: "left g = Suc (length ?w) + sum_list (map (\<lambda>w. Suc (length w)) (drop (Suc (go_ind g)) (go_argv g)))"
        using np by (simp add: left_def Cons_nth_drop_Suc [symmetric] not_le)
      consider (pos) "go_done g \<or> ?w = [] \<or> hd ?w \<noteq> CHR ''-'' \<or> tl ?w = []"
        | (dd) "\<not> (go_done g \<or> ?w = [] \<or> hd ?w \<noteq> CHR ''-'' \<or> tl ?w = [])" "tl ?w = ''-''"
        | (opt) "\<not> (go_done g \<or> ?w = [] \<or> hd ?w \<noteq> CHR ''-'' \<or> tl ?w = [])" "tl ?w \<noteq> ''-''" by blast
      then show ?thesis
      proof cases
        case pos
        with np lt 1(2,3) lw show ?thesis
          by (auto simp: r_getopt_next.simps [of g] ropt_ok_def left_def Let_def)
      next
        case dd
        let ?g = "g\<lparr>go_ind := go_ind g + 1, go_place := [], go_done := True\<rparr>"
        have eq: "r_getopt_next ?g = (r, g')" using dd np lt 1(3) by (simp add: r_getopt_next.simps [of g] Let_def)
        have ok: "ropt_ok ?g" using lt 1(2) by (simp add: ropt_ok_def)
        have "left ?g < left g" using lw by (simp add: left_def)
        with 1(1) [OF _ _ refl _ dd(2) ok eq] np lt dd show ?thesis by auto
      next
        case opt
        let ?g = "g\<lparr>go_place := tl ?w\<rparr>"
        have eq: "read_letter ?g = (r, g')" using opt np lt 1(3) by (simp add: r_getopt_next.simps [of g] Let_def)
        have pl: "go_place ?g \<noteq> []" "go_ind ?g < length (go_argv ?g)" "ascii (go_ostr ?g)"
          using opt lt 1(2) by (auto simp: ropt_ok_def)
        have "left ?g < left g" using lw opt by (cases ?w) (auto simp: left_def)
        with read_letter_progress [OF pl] eq show ?thesis by auto
      qed
    qed
  qed
qed

section \<open>Command lines and what they mean\<close>

text \<open>A cluster of flags, a cluster that ends in an option with its argument attached or in the
  next word, and a positional word.\<close>

datatype item =
    IFlags string
  | IAttached string char string
  | ISeparate string char string
  | IWord string

fun show_item :: "item \<Rightarrow> string list" where
  "show_item (IFlags cs) = [CHR ''-'' # cs]"
| "show_item (IAttached cs c a) = [CHR ''-'' # cs @ c # a]"
| "show_item (ISeparate cs c a) = [CHR ''-'' # cs @ [c], a]"
| "show_item (IWord w) = [w]"

fun item_events :: "item \<Rightarrow> (int \<times> string option) list" where
  "item_events (IFlags cs) = map (\<lambda>c. (chr_code c, None)) cs"
| "item_events (IAttached cs c a) = map (\<lambda>c. (chr_code c, None)) cs @ [(chr_code c, Some a)]"
| "item_events (ISeparate cs c a) = map (\<lambda>c. (chr_code c, None)) cs @ [(chr_code c, Some a)]"
| "item_events (IWord w) = [(1, Some w)]"

definition is_flag :: "string \<Rightarrow> char \<Rightarrow> bool" where
  "is_flag ostr c \<longleftrightarrow> c \<noteq> CHR '':''
     \<and> (case after_letter ostr c of None \<Rightarrow> False | Some r \<Rightarrow> r = [] \<or> hd r \<noteq> CHR '':'')"

definition is_option :: "string \<Rightarrow> char \<Rightarrow> bool" where
  "is_option ostr c \<longleftrightarrow> c \<noteq> CHR '':''
     \<and> (case after_letter ostr c of None \<Rightarrow> False
          | Some r \<Rightarrow> r \<noteq> [] \<and> hd r = CHR '':'' \<and> (tl r = [] \<or> hd (tl r) \<noteq> CHR '':''))"

fun item_ok :: "string \<Rightarrow> item \<Rightarrow> bool" where
  "item_ok ostr (IFlags cs) \<longleftrightarrow> cs \<noteq> [] \<and> cs \<noteq> ''-'' \<and> list_all (is_flag ostr) cs"
| "item_ok ostr (IAttached cs c a) \<longleftrightarrow> list_all (is_flag ostr) cs \<and> is_option ostr c \<and> a \<noteq> []"
| "item_ok ostr (ISeparate cs c a) \<longleftrightarrow> list_all (is_flag ostr) cs \<and> is_option ostr c \<and> cs @ [c] \<noteq> ''-''"
| "item_ok ostr (IWord w) \<longleftrightarrow> w = [] \<or> hd w \<noteq> CHR ''-'' \<or> tl w = []"

text \<open>The scanner between two words.\<close>

definition between :: "string list \<Rightarrow> string \<Rightarrow> bool \<Rightarrow> nat \<Rightarrow> ropt \<Rightarrow> bool" where
  "between argv ostr d k g \<longleftrightarrow> go_argv g = argv \<and> go_ostr g = ostr \<and> go_done g = d \<and> go_ind g = k \<and> go_place g = []"

definition inside :: "string list \<Rightarrow> string \<Rightarrow> nat \<Rightarrow> string \<Rightarrow> ropt \<Rightarrow> bool" where
  "inside argv ostr k p g \<longleftrightarrow> go_argv g = argv \<and> go_ostr g = ostr \<and> \<not> go_done g \<and> go_ind g = k \<and> go_place g = p"

lemma flag_step:
  assumes "inside argv ostr k (c # p) g" "is_flag ostr c"
  shows "\<exists>g'. r_getopt_next g = (chr_code c, g') \<and> go_arg g' = None
    \<and> (if p = [] then between argv ostr False (Suc k) g' else inside argv ostr k p g')"
  using assms
  by (intro exI [of _ "snd (r_getopt_next g)"])
     (auto simp: r_getopt_next.simps [of g] inside_def between_def read_letter_def is_flag_def if_end_next_def
      Let_def prod_eq_iff split: option.splits)

lemma flags_run:
  assumes "inside argv ostr k (cs @ p) g" "list_all (is_flag ostr) cs" "cs = [] \<longrightarrow> p \<noteq> []"
  shows "\<exists>g'. calls (length cs) g = (map (\<lambda>c. (chr_code c, None)) cs, g')
    \<and> (if p = [] then between argv ostr False (Suc k) g' else inside argv ostr k p g')"
  using assms
proof (induction cs arbitrary: g)
  case (Cons c cs)
  obtain g1 where g1: "r_getopt_next g = (chr_code c, g1)" "go_arg g1 = None"
      "if cs @ p = [] then between argv ostr False (Suc k) g1 else inside argv ostr k (cs @ p) g1"
    using flag_step [of argv ostr k c "cs @ p" g] Cons.prems by auto
  show ?case
  proof (cases "cs @ p = []")
    case True
    with g1 show ?thesis by auto
  next
    case False
    with Cons.IH [of g1] Cons.prems g1(3) obtain g' where
      "calls (length cs) g1 = (map (\<lambda>c. (chr_code c, None)) cs, g')"
      "if p = [] then between argv ostr False (Suc k) g' else inside argv ostr k p g'"
      by auto
    with g1 show ?thesis by auto
  qed
qed auto

lemma attached_step:
  assumes "inside argv ostr k (c # a) g" "is_option ostr c" "a \<noteq> []"
  shows "\<exists>g'. r_getopt_next g = (chr_code c, g') \<and> go_arg g' = Some a \<and> between argv ostr False (Suc k) g'"
  using assms
  by (intro exI [of _ "snd (r_getopt_next g)"])
     (auto simp: r_getopt_next.simps [of g] inside_def between_def read_letter_def is_option_def
      Let_def prod_eq_iff split: option.splits)

lemma separate_step:
  assumes "inside argv ostr k [c] g" "is_option ostr c" "Suc k < length argv"
  shows "\<exists>g'. r_getopt_next g = (chr_code c, g') \<and> go_arg g' = Some (argv ! Suc k)
    \<and> between argv ostr False (Suc (Suc k)) g'"
  using assms
  by (intro exI [of _ "snd (r_getopt_next g)"])
     (auto simp: r_getopt_next.simps [of g] inside_def between_def read_letter_def is_option_def
      Let_def prod_eq_iff split: option.splits)

lemma open_word:
  assumes "between argv ostr False k g" "k < length argv" "argv ! k = CHR ''-'' # p" "p \<noteq> []" "p \<noteq> ''-''"
  shows "\<exists>g1. inside argv ostr k p g1 \<and> r_getopt_next g = r_getopt_next g1"
  using assms
  by (intro exI [of _ "g\<lparr>go_place := p\<rparr>"])
     (auto simp: r_getopt_next.simps [of g] r_getopt_next.simps [of "g\<lparr>go_place := p\<rparr>"] between_def inside_def)

lemma calls_next_eq: "r_getopt_next g = r_getopt_next g' \<Longrightarrow> calls (Suc n) g = calls (Suc n) g'"
  by simp

lemma calls_Suc: "calls (Suc n) g = ((fst (r_getopt_next g), go_arg (snd (r_getopt_next g)))
    # fst (calls n (snd (r_getopt_next g))), snd (calls n (snd (r_getopt_next g))))"
  by (simp add: case_prod_beta)

lemma calls_flags_then:
  assumes "inside argv ostr k (cs @ p) g" "list_all (is_flag ostr) cs" "p \<noteq> []"
    "\<And>g'. inside argv ostr k p g' \<Longrightarrow>
       \<exists>g2. r_getopt_next g' = (r, g2) \<and> go_arg g2 = a \<and> between argv ostr False m g2"
  shows "\<exists>g2. calls (length cs + 1) g = (map (\<lambda>c. (chr_code c, None)) cs @ [(r, a)], g2)
    \<and> between argv ostr False m g2"
proof -
  obtain g1 where g1: "calls (length cs) g = (map (\<lambda>c. (chr_code c, None)) cs, g1)" "inside argv ostr k p g1"
    using flags_run [OF assms(1,2)] assms(3) by auto
  obtain g2 where g2: "r_getopt_next g1 = (r, g2)" "go_arg g2 = a" "between argv ostr False m g2"
    using assms(4) [OF g1(2)] by blast
  have "calls (length cs + 1) g = (map (\<lambda>c. (chr_code c, None)) cs @ [(r, a)], g2)"
    by (subst calls_add) (simp add: g1(1) g2(1,2))
  with g2(3) show ?thesis by blast
qed

lemma drop_eq_ConsD: "drop k xs = y # ys \<Longrightarrow> k < length xs \<and> xs ! k = y \<and> drop (Suc k) xs = ys"
proof -
  assume d: "drop k xs = y # ys"
  then have k: "k < length xs" by (rule_tac ccontr) simp
  with Cons_nth_drop_Suc [OF this] d show ?thesis by simp
qed

lemma item_run:
  assumes "between argv ostr False k g" "drop k argv = show_item it @ rest" "item_ok ostr it"
  shows "\<exists>g'. calls (length (item_events it)) g = (item_events it, g')
    \<and> between argv ostr False (k + length (show_item it)) g'"
proof -
  obtain y ys where y: "show_item it = y # ys" by (cases it) auto
  then have k: "k < length argv" "argv ! k = hd (show_item it)" "drop (Suc k) argv = ys @ rest"
    using drop_eq_ConsD [of k argv y "ys @ rest"] assms(2) by simp_all
  show ?thesis
  proof (cases it)
    case (IWord w)
    with assms(1,3) k have "r_getopt_next g = (1, g\<lparr>go_arg := Some w, go_place := [], go_ind := Suc k\<rparr>)"
      by (auto simp: r_getopt_next.simps [of g] between_def)
    with IWord assms(1) show ?thesis by (auto simp: between_def)
  next
    case (IFlags cs)
    with assms(3) k obtain g1 where g1: "inside argv ostr k cs g1" "r_getopt_next g = r_getopt_next g1"
      using open_word [OF assms(1), of cs] by auto
    obtain n where "length cs = Suc n" using IFlags assms(3) by (cases cs) auto
    with g1(2) have "calls (length cs) g = calls (length cs) g1" using calls_next_eq by metis
    with flags_run [of argv ostr k cs "[]" g1] g1(1) IFlags assms(3) show ?thesis by auto
  next
    case (IAttached cs c a)
    with assms(3) k obtain g1 where g1: "inside argv ostr k (cs @ c # a) g1" "r_getopt_next g = r_getopt_next g1"
      using open_word [OF assms(1), of "cs @ c # a"] by (cases cs; cases a) auto
    have "calls (length cs + 1) g = calls (length cs + 1) g1" using calls_next_eq [OF g1(2)] by simp
    moreover have "\<exists>g2. calls (length cs + 1) g1 = (map (\<lambda>c. (chr_code c, None)) cs @ [(chr_code c, Some a)], g2)
        \<and> between argv ostr False (Suc k) g2"
      by (rule calls_flags_then [OF g1(1)]) (use IAttached assms(3) attached_step in auto)
    ultimately show ?thesis using IAttached by simp
  next
    case (ISeparate cs c a)
    with assms(3) k obtain g1 where g1: "inside argv ostr k (cs @ [c]) g1" "r_getopt_next g = r_getopt_next g1"
      using open_word [OF assms(1), of "cs @ [c]"] by auto
    have len: "Suc k < length argv" "argv ! Suc k = a"
    proof -
      have "drop (Suc k) argv = a # rest" using k(3) y ISeparate by simp
      then show "Suc k < length argv" "argv ! Suc k = a" using drop_eq_ConsD by metis+
    qed
    have "calls (length cs + 1) g = calls (length cs + 1) g1" using calls_next_eq [OF g1(2)] by simp
    moreover have "\<exists>g2. calls (length cs + 1) g1 = (map (\<lambda>c. (chr_code c, None)) cs @ [(chr_code c, Some a)], g2)
        \<and> between argv ostr False (Suc (Suc k)) g2"
      by (rule calls_flags_then [OF g1(1)]) (use ISeparate assms(3) separate_step len in auto)
    ultimately show ?thesis using ISeparate by simp
  qed
qed

lemma cmdline_items_run:
  assumes "between argv ostr False k g" "drop k argv = concat (map show_item its) @ rest"
    "list_all (item_ok ostr) its"
  shows "\<exists>g'. calls (length (concat (map item_events its))) g = (concat (map item_events its), g')
    \<and> between argv ostr False (k + length (concat (map show_item its))) g'"
  using assms
proof (induction its arbitrary: k g)
  case Nil
  then show ?case by auto
next
  case (Cons it its)
  obtain g1 where g1: "calls (length (item_events it)) g = (item_events it, g1)"
      "between argv ostr False (k + length (show_item it)) g1"
    using item_run [OF Cons.prems(1), of it "concat (map show_item its) @ rest"] Cons.prems(2,3) by auto
  have "drop (k + length (show_item it)) argv = concat (map show_item its) @ rest"
  proof -
    have "drop (k + length (show_item it)) argv = drop (length (show_item it)) (drop k argv)"
      by (simp add: add.commute)
    with Cons.prems(2) show ?thesis by simp
  qed
  from Cons.IH [OF g1(2) this] Cons.prems(3) obtain g2 where g2:
    "calls (length (concat (map item_events its))) g1 = (concat (map item_events its), g2)"
    "between argv ostr False (k + length (show_item it) + length (concat (map show_item its))) g2"
    by auto
  have "calls (length (item_events it) + length (concat (map item_events its))) g =
      (item_events it @ concat (map item_events its), g2)"
    by (subst calls_add) (simp add: g1(1) g2(1))
  with g2(2) show ?case by (auto simp: add.assoc)
qed

lemma words_run:
  assumes "between argv ostr True k g" "drop k argv = ws"
  shows "\<exists>g'. calls (length ws) g = (map (\<lambda>w. (1, Some w)) ws, g') \<and> between argv ostr True (k + length ws) g'"
  using assms
proof (induction ws arbitrary: k g)
  case (Cons w ws)
  then have k: "k < length argv" "argv ! k = w" "drop (Suc k) argv = ws"
    using drop_eq_ConsD [OF Cons.prems(2)] by simp_all
  let ?g = "g\<lparr>go_arg := Some w, go_place := [], go_ind := Suc k\<rparr>"
  have n: "r_getopt_next g = (1, ?g)" using Cons.prems(1) k by (simp add: r_getopt_next.simps [of g] between_def)
  have "between argv ostr True (Suc k) ?g" using Cons.prems(1) by (simp add: between_def)
  from Cons.IH [OF this k(3)] n show ?case by auto
qed auto

section \<open>Properties\<close>

text \<open>C19: The option scanner reads back every command line. For any list of flag clusters, options
  with attached or separate arguments and positional words, followed optionally by \<open>--\<close> and
  arbitrary further words, the successive calls return exactly the flags and options in order,
  each with its argument, and the words as positional arguments, then report the end.\<close>

theorem getopt_reads_back:
  assumes "list_all (item_ok ostr) its"
    "argv = prog # concat (map show_item its) @ (if dd then ''--'' # ws else [])"
    "evs = concat (map item_events its) @ (if dd then map (\<lambda>w. (1, Some w)) ws else [])"
  shows "fst (calls (length evs) (r_getopt_init argv ostr)) = evs
    \<and> fst (r_getopt_next (snd (calls (length evs) (r_getopt_init argv ostr)))) = -1"
proof -
  let ?e1 = "concat (map item_events its)" and ?s = "concat (map show_item its)"
  let ?tail = "if dd then ''--'' # ws else []"
  have "between argv ostr False 1 (r_getopt_init argv ostr)" by (simp add: between_def r_getopt_init_def)
  then obtain g1 where g1: "calls (length ?e1) (r_getopt_init argv ostr) = (?e1, g1)"
      "between argv ostr False (1 + length ?s) g1"
    using cmdline_items_run [of argv ostr 1 "r_getopt_init argv ostr" its ?tail] assms(1,2) by auto
  show ?thesis
  proof (cases dd)
    case False
    with g1(2) assms(2) have "fst (r_getopt_next g1) = -1" by (simp add: r_getopt_next.simps [of g1] between_def)
    with False g1(1) assms(3) show ?thesis by simp
  next
    case True
    let ?k = "1 + length ?s"
    let ?g2 = "g1\<lparr>go_ind := Suc ?k, go_place := [], go_done := True\<rparr>"
    have at: "?k < length argv" "argv ! ?k = ''--''" using assms(2) True by (simp_all add: nth_append)
    with g1(2) have nx: "r_getopt_next g1 = r_getopt_next ?g2"
      by (simp add: r_getopt_next.simps [of g1] between_def)
    have b2: "between argv ostr True (Suc ?k) ?g2" using g1(2) by (simp add: between_def)
    obtain g3 where g3: "calls (length ws) ?g2 = (map (\<lambda>w. (1, Some w)) ws, g3)"
        "between argv ostr True (Suc ?k + length ws) g3"
      using words_run [OF b2, of ws] assms(2) True by auto
    have fin: "fst (r_getopt_next g3) = -1"
      using g3(2) assms(2) True by (simp add: r_getopt_next.simps [of g3] between_def)
    show ?thesis
    proof (cases ws)
      case Nil
      with True g1(1) assms(3) nx g3 fin show ?thesis by simp
    next
      case (Cons w ws')
      then have c: "calls (length ws) g1 = (map (\<lambda>w. (1, Some w)) ws, g3)"
        using calls_next_eq [OF nx, of "length ws'"] g3(1) by (simp del: calls.simps)
      have "calls (length ?e1 + length ws) (r_getopt_init argv ostr) =
          (?e1 @ map (\<lambda>w. (1, Some w)) ws, g3)"
        by (subst calls_add) (simp add: g1(1) c)
      with True assms(3) fin show ?thesis by simp
    qed
  qed
qed

theorem getopt_reads_back_witness:
  "fst (calls 5 (r_getopt_init [''aholyc'', ''-vb'', ''c'', ''-ox'', ''f.HC'', ''--'', ''-n''] ''hb:o:v'')) =
     [(chr_code (CHR ''v''), None), (chr_code (CHR ''b''), Some ''c''), (chr_code (CHR ''o''), Some ''x''),
      (1, Some ''f.HC''), (1, Some ''-n'')]"
proof -
  let ?its = "[ISeparate ''v'' (CHR ''b'') ''c'', IAttached [] (CHR ''o'') ''x'', IWord ''f.HC'']"
  let ?argv = "[''aholyc'', ''-vb'', ''c'', ''-ox'', ''f.HC'', ''--'', ''-n'']"
  have ok: "list_all (item_ok ''hb:o:v'') ?its"
    by (simp add: is_flag_def is_option_def after_letter_def)
  have argv: "?argv = ''aholyc'' # concat (map show_item ?its) @ (if True then ''--'' # [''-n''] else [])" by simp
  from getopt_reads_back [OF ok argv refl] show ?thesis
    by (simp add: numeral_eq_Suc del: calls.simps)
qed

text \<open>Scanning ends and stays inside the vector. From any reachable state, each call keeps the
  index within \<open>argc\<close> and a pending argument within the vector, every call that does not report
  the end consumes at least one character, and the end is reported only when all arguments have
  been read.\<close>

theorem getopt_progress:
  assumes "ropt_ok g" "r_getopt_next g = (r, g')"
  shows "ropt_ok g' \<and> (r \<noteq> -1 \<longrightarrow> left g' < left g) \<and> (r = -1 \<longrightarrow> go_ind g' = length (go_argv g'))"
  by (rule next_progress [OF assms])

theorem getopt_progress_witness:
  "left (snd (r_getopt_next (r_getopt_init [''p'', ''-v'', ''x''] ''v''))) = 2
   \<and> left (r_getopt_init [''p'', ''-v'', ''x''] ''v'') = 5
   \<and> ropt_ok (snd (r_getopt_next (r_getopt_init [''p'', ''-v'', ''x''] ''v'')))"
proof -
  let ?g = "r_getopt_init [''p'', ''-v'', ''x''] ''v''"
  have ok: "ropt_ok ?g" by (simp add: ropt_ok_def r_getopt_init_def ascii_def)
  from getopt_progress [OF ok, of "fst (r_getopt_next ?g)" "snd (r_getopt_next ?g)"]
  have "ropt_ok (snd (r_getopt_next ?g))" by simp
  moreover have "left (snd (r_getopt_next ?g)) = 2 \<and> left ?g = 5" by code_simp
  ultimately show ?thesis by simp
qed

end
