(* ===== verification/RtMem.thy ===== *)
theory RtMem
  imports Prelude
begin

text \<open>
  Memory blocks, memory search and strings of \<open>src/runtime/rt.c\<close>. The heap maps the
  address \<open>malloc\<close> returned to the size in the block's header and the bytes after the
  header, \<open>None\<close> for a byte that was never written. The allocator of the C library is the
  parameter \<open>pick\<close>: the address it would give a request in a heap, if any.
\<close>

section \<open>Blocks\<close>

type_synonym block = "i64 \<times> char option list"
type_synonym heap = "int \<rightharpoonup> block"
type_synonym pickf = "heap \<Rightarrow> nat \<Rightarrow> int option"

text \<open>\<open>malloc\<close> never returns a null pointer as success nor memory that is in use.\<close>

definition malloc :: "pickf \<Rightarrow> heap \<Rightarrow> nat \<Rightarrow> int option" where
  "malloc pick h n =
     (case pick h n of None \<Rightarrow> None | Some p \<Rightarrow> if 0 < p \<and> h p = None then Some p else None)"

definition MAlloc :: "pickf \<Rightarrow> heap \<Rightarrow> i64 \<Rightarrow> (int \<times> heap) res" where
  "MAlloc pick h sz =
     (let n = (if sz <s 0 then 0 else sz)
      in case malloc pick h (unat n + 16) of
           None \<Rightarrow> Inl (Thrown 0x4D454D4F4E)
         | Some p \<Rightarrow> Inr (p + 16, h(p \<mapsto> (n, replicate (unat n) None))))"

text \<open>\<open>memset\<close> over \<open>(size_t)size\<close> bytes: out of the block for a negative size, which the
  allocation itself took for zero.\<close>

definition CAlloc :: "pickf \<Rightarrow> heap \<Rightarrow> i64 \<Rightarrow> (int \<times> heap) res" where
  "CAlloc pick h sz =
     rbind (MAlloc pick h sz) (\<lambda>(p, h').
       (case h' (p - 16) of
          None \<Rightarrow> Inl Overrun
        | Some (n, bs) \<Rightarrow>
            (if unat sz > length bs then Inl Overrun
             else Inr (p, h'(p - 16 \<mapsto> (n, replicate (unat sz) (Some chr_nul) @ drop (unat sz) bs))))))"

text \<open>Freeing or asking the size of a pointer that no block has is undefined.\<close>

definition Free :: "heap \<Rightarrow> int \<Rightarrow> heap res" where
  "Free h p =
     (if p = 0 then Inr h else if h (p - 16) = None then Inl Undefined else Inr (h(p - 16 := None)))"

definition MSize :: "heap \<Rightarrow> int \<Rightarrow> i64 res" where
  "MSize h p =
     (if p = 0 then Inr 0 else case h (p - 16) of None \<Rightarrow> Inl Undefined | Some (n, _) \<Rightarrow> Inr n)"

text \<open>The C string at a pointer: the bytes up to the first NUL, all of them written.\<close>

fun c_str :: "char option list \<Rightarrow> string option" where
  "c_str [] = None"
| "c_str (None # bs) = None"
| "c_str (Some c # bs) = (if c = chr_nul then Some [] else map_option (\<lambda>s. c # s) (c_str bs))"

definition str_at :: "heap \<Rightarrow> int \<Rightarrow> string option" where
  "str_at h p = (case h (p - 16) of None \<Rightarrow> None | Some (_, bs) \<Rightarrow> c_str bs)"

text \<open>String arguments are \<open>None\<close> for a null pointer, which most functions take for the empty
  string. A copy's block is one byte longer than the string.\<close>

definition or_empty :: "string option \<Rightarrow> string" where
  "or_empty s = (case s of None \<Rightarrow> [] | Some t \<Rightarrow> t)"

definition StrNew :: "pickf \<Rightarrow> heap \<Rightarrow> string option \<Rightarrow> (int \<times> heap) res" where
  "StrNew pick h s =
     (let t = or_empty s; n = word_of_nat (length t) + 1
      in rbind (MAlloc pick h n) (\<lambda>(p, h').
           (case h' (p - 16) of
              None \<Rightarrow> Inl Overrun
            | Some (k, bs) \<Rightarrow>
                (if unat n > length bs then Inl Overrun
                 else Inr (p, h'(p - 16 \<mapsto> (k, map Some (take (unat n) (t @ [chr_nul])) @ drop (unat n) bs)))))))"

definition StrLen :: "string option \<Rightarrow> i64" where
  "StrLen s = (case s of None \<Rightarrow> 0 | Some t \<Rightarrow> word_of_nat (length t))"

section \<open>The contract of the heap\<close>

text \<open>
  What a client of the heap relies on: an allocation returns a fresh pointer to a block of the
  size asked for and leaves every other block alone, a release removes its block only.
\<close>

locale block_heap =
  fixes alloc :: "heap \<Rightarrow> i64 \<Rightarrow> (int \<times> heap) res"
    and release :: "heap \<Rightarrow> int \<Rightarrow> heap res"
    and content :: "heap \<Rightarrow> int \<Rightarrow> block option"
  assumes alloc_fresh: "alloc h n = Inr (p, h') \<Longrightarrow> p \<noteq> 0 \<and> content h p = None"
    and alloc_size: "alloc h n = Inr (p, h') \<Longrightarrow> 0 \<le>s n \<Longrightarrow>
      \<exists>bs. content h' p = Some (n, bs) \<and> length bs = unat n"
    and alloc_frame: "alloc h n = Inr (p, h') \<Longrightarrow> q \<noteq> p \<Longrightarrow> content h' q = content h q"
    and release_ok: "p \<noteq> 0 \<Longrightarrow> content h p \<noteq> None \<Longrightarrow>
      \<exists>h'. release h p = Inr h' \<and> content h' p = None \<and> (\<forall>q. q \<noteq> p \<longrightarrow> content h' q = content h q)"
begin

lemma alloc_keeps: "alloc h n = Inr (p, h') \<Longrightarrow> content h q = Some b \<Longrightarrow> content h' q = Some b"
  using alloc_fresh [of h n p h'] alloc_frame [of h n p h' q] by (cases "q = p") auto

lemma alloc_distinct:
  "alloc h n = Inr (p, h') \<Longrightarrow> 0 \<le>s n \<Longrightarrow> alloc h' m = Inr (q, h'') \<Longrightarrow> p \<noteq> q"
  using alloc_fresh [of h' m q h''] alloc_size [of h n p h'] by auto

text \<open>Allocating and releasing again gives the heap back.\<close>

lemma alloc_release:
  assumes "alloc h n = Inr (p, h')" "0 \<le>s n"
  shows "\<exists>h''. release h' p = Inr h'' \<and> content h'' = content h"
proof -
  have "p \<noteq> 0" "content h p = None" using alloc_fresh [OF assms(1)] by auto
  moreover obtain h'' where "release h' p = Inr h''" "content h'' p = None"
      "\<And>q. q \<noteq> p \<Longrightarrow> content h'' q = content h' q"
    using release_ok [of p h'] alloc_size [OF assms] \<open>p \<noteq> 0\<close> by auto
  ultimately show ?thesis using alloc_frame [OF assms(1)] by (metis ext)
qed

end

definition block_at :: "heap \<Rightarrow> int \<Rightarrow> block option" where
  "block_at h p = h (p - 16)"

lemma MAlloc_Inr:
  "MAlloc pick h n = Inr (p, h') \<longleftrightarrow>
     (\<exists>a k. malloc pick h (unat k + 16) = Some a \<and> k = (if n <s 0 then 0 else n) \<and> p = a + 16
        \<and> h' = h(a \<mapsto> (k, replicate (unat k) None)))"
  by (auto simp: MAlloc_def Let_def split: option.splits)

interpretation rt: block_heap "MAlloc pick" Free block_at for pick
proof unfold_locales
  show "p \<noteq> 0 \<and> block_at h p = None" if "MAlloc pick h n = Inr (p, h')" for h n p h'
    using that by (auto simp: MAlloc_Inr malloc_def block_at_def split: option.splits if_splits)
  show "\<exists>bs. block_at h' p = Some (n, bs) \<and> length bs = unat n"
    if "MAlloc pick h n = Inr (p, h')" "0 \<le>s n" for h n p h'
    using that by (auto simp: MAlloc_Inr block_at_def word_sless_alt word_sle_eq)
  show "block_at h' q = block_at h q" if "MAlloc pick h n = Inr (p, h')" "q \<noteq> p" for h n p h' q
    using that by (auto simp: MAlloc_Inr block_at_def)
qed (auto simp: block_at_def Free_def)
section \<open>Properties of blocks\<close>

lemma MSize_block: "p \<noteq> 0 \<Longrightarrow> block_at h p = Some (n, bs) \<Longrightarrow> MSize h p = Inr n"
  by (simp add: MSize_def block_at_def)

lemma c_str_append: "chr_nul \<notin> set t \<Longrightarrow> c_str (map Some t @ Some chr_nul # bs) = Some t"
  by (induction t) auto

lemma c_str_no_nul: "c_str bs = Some t \<Longrightarrow> chr_nul \<notin> set t"
  by (induction bs arbitrary: t rule: c_str.induct) (auto split: if_splits)

lemma str_at_nonnull: "str_at h p = Some t \<Longrightarrow> block_at h p \<noteq> None"
  by (auto simp: str_at_def block_at_def split: option.splits)

lemma size_of_string:
  assumes "length t < 2 ^ 62"
  shows "unat (word_of_nat (length t) + 1 :: i64) = length t + 1" "\<not> (word_of_nat (length t) + 1 :: i64) <s 0"
proof -
  have "(word_of_nat (length t) + 1 :: i64) = word_of_int (int (length t + 1))" by simp
  then have "sint (word_of_nat (length t) + 1 :: i64) = int (length t + 1)"
    using assms by (simp only: sint_sbintrunc') (rule signed_take_bit_int_eq_self, auto)
  then show "\<not> (word_of_nat (length t) + 1 :: i64) <s 0" by (simp add: word_sless_alt)
  show "unat (word_of_nat (length t) + 1 :: i64) = length t + 1"
    using assms by (simp add: unat_word_ariths unat_of_nat)
qed

lemma StrNew_block:
  assumes "StrNew pick h s = Inr (p, h')" "length (or_empty s) < 2 ^ 62"
  shows "\<exists>h1. MAlloc pick h (word_of_nat (length (or_empty s)) + 1) = Inr (p, h1)
     \<and> h' = h1(p - 16 \<mapsto> (word_of_nat (length (or_empty s)) + 1, map Some (or_empty s) @ [Some chr_nul]))"
proof -
  let ?n = "word_of_nat (length (or_empty s)) + 1 :: i64"
  obtain h1 where m: "MAlloc pick h ?n = Inr (p, h1)"
    using assms(1) by (auto simp: StrNew_def Let_def rbind_eq_Inr split: option.splits if_splits)
  then have "h1 (p - 16) = Some (?n, replicate (unat ?n) None)"
    using size_of_string [OF assms(2)] by (auto simp: MAlloc_Inr)
  then show ?thesis
    using assms(1) m size_of_string [OF assms(2)] by (simp add: StrNew_def Let_def)
qed

lemma StrNew_Inr:
  assumes "StrNew pick h s = Inr (p, h')" "length (or_empty s) < 2 ^ 62" "chr_nul \<notin> set (or_empty s)"
  shows "p \<noteq> 0 \<and> block_at h p = None \<and> str_at h' p = Some (or_empty s)
     \<and> MSize h' p = Inr (word_of_nat (length (or_empty s)) + 1)
     \<and> (\<forall>q. q \<noteq> p \<longrightarrow> block_at h' q = block_at h q)"
proof -
  obtain h1 where m: "MAlloc pick h (word_of_nat (length (or_empty s)) + 1) = Inr (p, h1)"
    "h' = h1(p - 16 \<mapsto> (word_of_nat (length (or_empty s)) + 1, map Some (or_empty s) @ [Some chr_nul]))"
    using StrNew_block [OF assms(1,2)] by auto
  have nz: "p \<noteq> 0 \<and> block_at h p = None" by (rule rt.alloc_fresh [OF m(1)])
  have "block_at h' q = block_at h q" if "q \<noteq> p" for q
    using rt.alloc_frame [OF m(1) that] m(2) that by (simp add: block_at_def)
  with nz m(2) c_str_append [OF assms(3), of "[]"] show ?thesis by (simp add: str_at_def MSize_def)
qed

lemma StrNew_frame:
  assumes "StrNew pick h s = Inr (p, h')"
  shows "p \<noteq> 0 \<and> block_at h p = None \<and> (\<forall>q. q \<noteq> p \<longrightarrow> block_at h' q = block_at h q)"
proof -
  obtain x h1 where x: "MAlloc pick h (word_of_nat (length (or_empty s)) + 1) = Inr (x, h1)"
    using assms by (auto simp: StrNew_def Let_def rbind_eq_Inr)
  have "\<exists>b. x = p \<and> h' = h1(p - 16 \<mapsto> b)"
  proof (cases "h1 (x - 16)")
    case (Some b)
    with assms x show ?thesis by (cases b) (auto simp: StrNew_def Let_def split: if_split_asm)
  qed (use assms x in \<open>simp add: StrNew_def Let_def\<close>)
  with x have m: "MAlloc pick h (word_of_nat (length (or_empty s)) + 1) = Inr (p, h1)" "\<exists>b. h' = h1(p - 16 \<mapsto> b)"
    by auto
  have "block_at h' q = block_at h q" if "q \<noteq> p" for q
    using rt.alloc_frame [OF m(1) that] m(2) that by (auto simp: block_at_def)
  with rt.alloc_fresh [OF m(1)] show ?thesis by simp
qed

text \<open>A string copied by \<open>StrNew\<close> is a new block that holds exactly that string and knows its
  size, no other block changes, and releasing it gives the old heap back. A null pointer
  copies as the empty string.\<close>
theorem StrNew_copies:
  assumes "StrNew pick h s = Inr (p, h')" "length (or_empty s) < 2 ^ 62" "chr_nul \<notin> set (or_empty s)"
  shows "str_at h' p = Some (or_empty s) \<and> MSize h' p = Inr (StrLen s + 1)
     \<and> block_at h p = None \<and> (\<forall>q. q \<noteq> p \<longrightarrow> block_at h' q = block_at h q)
     \<and> (\<exists>h2. Free h' p = Inr h2 \<and> block_at h2 = block_at h)"
proof -
  note sp = StrNew_Inr [OF assms]
  then obtain h2 where "Free h' p = Inr h2" "block_at h2 p = None" "\<And>q. q \<noteq> p \<Longrightarrow> block_at h2 q = block_at h' q"
    using rt.release_ok [of p h'] str_at_nonnull [of h' p] by auto
  with sp have "block_at h2 = block_at h" by (intro ext) metis
  with sp \<open>Free h' p = Inr h2\<close> show ?thesis by (auto simp: StrLen_def or_empty_def split: option.splits)
qed

theorem StrNew_copies_witness:
  "\<exists>h'. StrNew (\<lambda>_ _. Some 4096) Map.empty (Some ''hi'') = Inr (4112, h') \<and> str_at h' 4112 = Some ''hi''"
proof -
  have "StrNew (\<lambda>_ _. Some 4096) Map.empty (Some ''hi'')
      = Inr (4112, [4096 \<mapsto> (3, [Some CHR ''h'', Some CHR ''i'', Some chr_nul])])"
    by (simp add: StrNew_def MAlloc_def malloc_def word_sless_alt or_empty_def)
  with StrNew_copies [OF this] show ?thesis by (auto simp: or_empty_def)
qed

text \<open>\<open>CAlloc\<close> of a negative size writes outside the block it allocated: the allocation
  takes the size for zero, the clearing takes it for a huge unsigned number. For every other
  size the block it returns is all zero and has that size.\<close>
theorem CAlloc_clears:
  assumes "MAlloc pick h n = Inr (p, h1)"
  shows "CAlloc pick h n =
     (if n <s 0 then Inl Overrun else Inr (p, h1(p - 16 \<mapsto> (n, replicate (unat n) (Some chr_nul)))))"
proof (cases "n <s 0")
  case True
  then have "0 < unat n" by (cases "n = 0") (auto simp: unat_gt_0)
  moreover have "h1 (p - 16) = Some (0, [])" using True assms by (auto simp: MAlloc_Inr)
  ultimately show ?thesis using True by (simp add: CAlloc_def assms)
next
  case False
  then have "h1 (p - 16) = Some (n, replicate (unat n) None)" using assms by (auto simp: MAlloc_Inr)
  with False show ?thesis by (simp add: CAlloc_def assms)
qed

theorem CAlloc_clears_witness: "CAlloc (\<lambda>_ _. Some 4096) Map.empty (-1) = Inl Overrun"
proof -
  have "MAlloc (\<lambda>_ _. Some 4096) Map.empty (-1) = Inr (4112, [4096 \<mapsto> (0, [])])"
    by (simp add: MAlloc_def malloc_def word_sless_alt)
  from CAlloc_clears [OF this] show ?thesis by (simp add: word_sless_alt)
qed
section \<open>Searching and comparing bytes\<close>

text \<open>A pointer argument is \<open>None\<close> or the bytes that may be read from it; a result pointer is an
  offset into them. The value of a C comparison function is given by its sign.\<close>

definition memchr :: "string \<Rightarrow> char \<Rightarrow> nat \<Rightarrow> nat option" where
  "memchr s c n = (let k = length (takeWhile (\<lambda>x. x \<noteq> c) (take n s)) in if k < length (take n s) then Some k else None)"

fun byte_cmp :: "string \<Rightarrow> string \<Rightarrow> int" where
  "byte_cmp (a # as) (b # bs) = (if a = b then byte_cmp as bs else if a < b then -1 else 1)"
| "byte_cmp _ _ = 0"

definition MemCmp :: "string \<Rightarrow> string \<Rightarrow> nat \<Rightarrow> int res" where
  "MemCmp a b n = (if length a < n \<or> length b < n then Inl Overrun else Inr (byte_cmp (take n a) (take n b)))"

definition MemChr :: "string option \<Rightarrow> char \<Rightarrow> int \<Rightarrow> nat option res" where
  "MemChr d c n =
     (case d of
        None \<Rightarrow> Inr None
      | Some s \<Rightarrow> (if n \<le> 0 then Inr None
                   else if nat n > length s then Inl Overrun else Inr (memchr s c (nat n))))"

text \<open>The loop of \<open>MemMem\<close> for a needle of at least two bytes: \<open>p\<close> is the offset reached, \<open>left\<close>
  the number of starts still to try.\<close>

function mm_loop :: "string \<Rightarrow> string \<Rightarrow> nat \<Rightarrow> nat \<Rightarrow> nat option" where
  "mm_loop hay f p left =
     (if left = 0 then None
      else
        (case memchr (drop p hay) (f ! 0) left of
           None \<Rightarrow> None
         | Some skipped \<Rightarrow>
             (let c = p + skipped; n = length f
              in if hay ! (c + n - 1) = f ! (n - 1)
                   \<and> (n = 2 \<or> byte_cmp (take (n - 2) (drop (c + 1) hay)) (take (n - 2) (drop 1 f)) = 0)
                 then Some c
                 else mm_loop hay f (c + 1) (left - skipped - 1))))"
  by pat_completeness auto
termination
  by (relation "measure (\<lambda>(hay, f, p, left). left)") auto

declare mm_loop.simps [simp del]

definition MemMem :: "string option \<Rightarrow> int \<Rightarrow> string option \<Rightarrow> int \<Rightarrow> nat option res" where
  "MemMem d len f n =
     (if n = 0 then Inr (map_option (\<lambda>_. 0) d)
      else
        (case (d, f) of
           (Some hay, Some fd) \<Rightarrow>
             (if len < n \<or> len < 0 \<or> n < 0 then Inr None
              else if nat len > length hay \<or> nat n > length fd then Inl Overrun
              else if n = 1 then Inr (memchr hay (fd ! 0) (nat len))
              else Inr (mm_loop hay (take (nat n) fd) 0 (nat (len - n + 1))))
         | _ \<Rightarrow> Inr None))"

text \<open>The specification: the least offset at which the needle stands in the first \<open>len\<close> bytes.\<close>

definition occurs_at :: "string \<Rightarrow> string \<Rightarrow> nat \<Rightarrow> bool" where
  "occurs_at hay f i \<longleftrightarrow> i + length f \<le> length hay \<and> take (length f) (drop i hay) = f"

definition first_at :: "(nat \<Rightarrow> bool) \<Rightarrow> nat option" where
  "first_at P = (if Ex P then Some (LEAST i. P i) else None)"

lemma first_at_eq: "P i \<Longrightarrow> (\<And>j. j < i \<Longrightarrow> \<not> P j) \<Longrightarrow> first_at P = Some i"
  by (auto simp: first_at_def intro!: Least_equality) (meson linorder_not_less)

lemma first_at_none: "(\<And>j. \<not> P j) \<Longrightarrow> first_at P = None"
  by (simp add: first_at_def)

lemma first_at_Some: "first_at P = Some i \<longleftrightarrow> P i \<and> (\<forall>j < i. \<not> P j)"
proof
  assume "first_at P = Some i"
  then have "Ex P" "i = (LEAST i. P i)" by (auto simp: first_at_def split: if_splits)
  then show "P i \<and> (\<forall>j < i. \<not> P j)" by (auto intro: LeastI_ex dest: not_less_Least)
qed (auto intro: first_at_eq)

lemma memchr_first: "memchr s c n = first_at (\<lambda>i. i < n \<and> i < length s \<and> s ! i = c)"
proof -
  let ?k = "length (takeWhile (\<lambda>x. x \<noteq> c) (take n s))"
  have before: "s ! j \<noteq> c" if "j < ?k" for j
  proof -
    have "takeWhile (\<lambda>x. x \<noteq> c) (take n s) ! j \<noteq> c"
      using set_takeWhileD [of _ "\<lambda>x. x \<noteq> c" "take n s"] nth_mem [OF that] by blast
    moreover have "takeWhile (\<lambda>x. x \<noteq> c) (take n s) ! j = s ! j"
      using that length_takeWhile_le [of "\<lambda>x. x \<noteq> c" "take n s"] by (simp add: takeWhile_nth)
    ultimately show ?thesis by simp
  qed
  let ?P = "\<lambda>i. i < n \<and> i < length s \<and> s ! i = c"
  show ?thesis
  proof (cases "?k < length (take n s)")
    case True
    then have "s ! ?k = c" using nth_length_takeWhile [OF True] by simp
    with True before have "first_at ?P = Some ?k" by (intro first_at_eq) auto
    with True show ?thesis by (simp add: memchr_def)
  next
    case False
    then have "length (take n s) \<le> ?k" by (simp only: not_less)
    then have "\<not> ?P j" for j using before [of j] by (cases "j < ?k") auto
    then have "first_at ?P = None" by (rule first_at_none)
    with False show ?thesis by (auto simp: memchr_def Let_def)
  qed
qed

lemma byte_cmp_eq_0: "length a = length b \<Longrightarrow> byte_cmp a b = 0 \<longleftrightarrow> a = b"
  by (induction a b rule: byte_cmp.induct) auto

lemma occurs_at_parts:
  assumes "2 \<le> length f" "i + length f \<le> length hay"
  shows "occurs_at hay f i \<longleftrightarrow> hay ! i = f ! 0 \<and> hay ! (i + length f - 1) = f ! (length f - 1)
     \<and> take (length f - 2) (drop (i + 1) hay) = take (length f - 2) (drop 1 f)"
proof -
  have "occurs_at hay f i \<longleftrightarrow> (\<forall>k < length f. hay ! (i + k) = f ! k)"
    using assms(2) by (auto simp: occurs_at_def list_eq_iff_nth_eq)
  also have "\<dots> \<longleftrightarrow> hay ! i = f ! 0 \<and> hay ! (i + length f - 1) = f ! (length f - 1)
      \<and> (\<forall>k < length f - 2. hay ! (i + 1 + k) = f ! (1 + k))" (is "?L \<longleftrightarrow> ?R")
  proof
    assume ?L
    then have L: "hay ! (i + k) = f ! k" if "k < length f" for k using that by simp
    from L [of 0] L [of "length f - 1"] L [of "1 + k" for k] assms(1) show ?R
      by (cases "f = []") (auto simp: add.assoc)
  next
    assume R: ?R
    show ?L
    proof (intro allI impI)
      fix k assume k: "k < length f"
      consider "k = 0" | "k = length f - 1" | m where "k = 1 + m" "m < length f - 2"
        using k by (cases k) (auto, linarith)
      then show "hay ! (i + k) = f ! k" using R assms(1) by cases (auto simp: add.assoc)
    qed
  qed
  also have "(\<forall>k < length f - 2. hay ! (i + 1 + k) = f ! (1 + k))
      \<longleftrightarrow> take (length f - 2) (drop (i + 1) hay) = take (length f - 2) (drop 1 f)"
    using assms by (auto simp: list_eq_iff_nth_eq)
  finally show ?thesis .
qed
lemma memchr_drop:
  "memchr (drop p s) c n = Some k \<longleftrightarrow>
     k < n \<and> p + k < length s \<and> s ! (p + k) = c \<and> (\<forall>j < k. s ! (p + j) \<noteq> c)"
  unfolding memchr_first first_at_Some by auto

lemma memchr_drop_None:
  "memchr (drop p s) c n = None \<longleftrightarrow> (\<forall>j < n. p + j < length s \<longrightarrow> s ! (p + j) \<noteq> c)"
  by (auto simp: memchr_first first_at_def)

lemma mm_loop_first:
  assumes "2 \<le> length f" "p + left + length f \<le> length hay + 1"
    "\<And>j. j < p \<Longrightarrow> \<not> occurs_at hay f j"
  shows "mm_loop hay f p left = first_at (\<lambda>i. i < p + left \<and> occurs_at hay f i)"
  using assms
proof (induction hay f p left rule: mm_loop.induct)
  case (1 hay f p left)
  have none: "mm_loop hay f p left = first_at (\<lambda>i. i < p + left \<and> occurs_at hay f i)"
    if "mm_loop hay f p left = None" "\<And>j. j < p + left \<Longrightarrow> \<not> occurs_at hay f j"
    using that by (simp add: first_at_none)
  have first: "hay ! j = f ! 0" if "occurs_at hay f j" for j
  proof -
    have "j + length f \<le> length hay" using that by (simp add: occurs_at_def)
    from occurs_at_parts [OF 1(2) this] that show ?thesis by simp
  qed
  show ?case
  proof (cases "memchr (drop p hay) (f ! 0) left")
    case None
    have "\<not> occurs_at hay f j" if "j < p + left" for j
    proof (cases "j < p")
      case False
      with that None have "p + (j - p) < length hay \<longrightarrow> hay ! (p + (j - p)) \<noteq> f ! 0"
        unfolding memchr_drop_None by (metis add.commute less_diff_conv2 linorder_not_less)
      with False first [of j] that 1(2,3) show ?thesis by auto
    qed (use 1(4) in simp)
    then show ?thesis by (intro none) (simp_all add: mm_loop.simps [of hay f p left] None)
  next
    case (Some k)
    then have k: "k < left" "p + k < length hay" "hay ! (p + k) = f ! 0" "\<And>j. j < k \<Longrightarrow> hay ! (p + j) \<noteq> f ! 0"
      by (auto simp: memchr_drop)
    have fit: "p + k + length f \<le> length hay" using k(1) 1(3) by simp
    have skip: "\<not> occurs_at hay f j" if "j < p + k" for j
    proof (cases "j < p")
      case False
      then have "hay ! (p + (j - p)) \<noteq> f ! 0" using that by (intro k(4)) simp
      with False first [of j] show ?thesis by auto
    qed (use 1(4) in simp)
    have eq: "byte_cmp (take (length f - 2) (drop (p + k + 1) hay)) (take (length f - 2) (drop 1 f)) = 0
        \<longleftrightarrow> take (length f - 2) (drop (p + k + 1) hay) = take (length f - 2) (drop 1 f)"
      using fit 1(2) by (intro byte_cmp_eq_0) simp
    have hit: "hay ! (p + k + length f - 1) = f ! (length f - 1)
        \<and> (length f = 2 \<or> byte_cmp (take (length f - 2) (drop (p + k + 1) hay)) (take (length f - 2) (drop 1 f)) = 0)
        \<longleftrightarrow> occurs_at hay f (p + k)"
      unfolding occurs_at_parts [OF 1(2) fit] eq using k(3) by auto
    have step: "mm_loop hay f p left = (if occurs_at hay f (p + k) then Some (p + k)
        else mm_loop hay f (p + k + 1) (left - k - 1))"
      using k(1) by (simp add: mm_loop.simps [of hay f p left] Some Let_def hit [symmetric])
    show ?thesis
    proof (cases "occurs_at hay f (p + k)")
      case True
      with skip k(1) have "first_at (\<lambda>i. i < p + left \<and> occurs_at hay f i) = Some (p + k)"
        by (intro first_at_eq) auto
      with True step show ?thesis by simp
    next
      case False
      have "mm_loop hay f (p + k + 1) (left - k - 1)
          = first_at (\<lambda>i. i < p + k + 1 + (left - k - 1) \<and> occurs_at hay f i)"
      proof (rule 1(1) [OF _ Some refl refl])
        show "\<not> (hay ! (p + k + length f - 1) = f ! (length f - 1) \<and> (length f = 2 \<or>
            byte_cmp (take (length f - 2) (drop (p + k + 1) hay)) (take (length f - 2) (drop 1 f)) = 0))"
          using False hit by simp
        show "\<not> occurs_at hay f j" if "j < p + k + 1" for j
          using that skip False by (cases "j = p + k") auto
      qed (use k(1) 1(2,3) in auto)
      moreover have "p + k + 1 + (left - k - 1) = p + left" using k(1) by simp
      ultimately show ?thesis using False step by simp
    qed
  qed
qed

text \<open>C32: The bounded byte search returns the first occurrence of the needle inside the bounded
  data, and nothing when there is none: skipping by \<open>memchr\<close> and testing the last byte first
  loses no match and reads no byte out of bounds.\<close>
theorem MemMem_first_occurrence:
  assumes "0 < n" "0 \<le> len" "nat len \<le> length hay" "nat n \<le> length f"
  shows "MemMem (Some hay) len (Some f) n = Inr (first_at (occurs_at (take (nat len) hay) (take (nat n) f)))"
proof (cases "len < n")
  case True
  then have "\<not> occurs_at (take (nat len) hay) (take (nat n) f) i" for i
    using assms by (auto simp: occurs_at_def)
  then have "first_at (occurs_at (take (nat len) hay) (take (nat n) f)) = None" by (rule first_at_none)
  with True assms show ?thesis by (simp add: MemMem_def)
next
  case False
  have cut: "occurs_at (take (nat len) hay) (take (nat n) f) i
      \<longleftrightarrow> i < nat (len - n + 1) \<and> occurs_at hay (take (nat n) f) i" for i
    proof (cases "i + nat n \<le> nat len")
    case True
    then have "take (nat n) (drop i (take (nat len) hay)) = take (nat n) (drop i hay)"
      by (simp add: drop_take)
    with True assms False show ?thesis by (auto simp: occurs_at_def)
  qed (use assms False in \<open>auto simp: occurs_at_def\<close>)
  show ?thesis
  proof (cases "n = 1")
    case True
    then obtain c g where f: "f = c # g" using assms(4) by (cases f) auto
    have "occurs_at hay (take (nat n) f) i \<longleftrightarrow> i < length hay \<and> hay ! i = c" for i
      using True f by (auto simp: occurs_at_def take_Suc_conv_app_nth)
    then have "occurs_at (take (nat len) hay) (take (nat n) f)
        = (\<lambda>i. i < nat len \<and> i < length hay \<and> hay ! i = c)"
      unfolding fun_eq_iff cut using True by auto
    with True f assms False show ?thesis by (simp add: MemMem_def memchr_first)
  next
    case n: False
    have "mm_loop hay (take (nat n) f) 0 (nat (len - n + 1))
        = first_at (\<lambda>i. i < 0 + nat (len - n + 1) \<and> occurs_at hay (take (nat n) f) i)"
      by (rule mm_loop_first) (use assms False n in auto)
    then show ?thesis using assms False n by (simp add: MemMem_def cut [abs_def])
  qed
qed

theorem MemMem_first_occurrence_witness:
  "MemMem (Some ''ananas'') 6 (Some ''nas'') 3 = Inr (Some 3)"
proof -
  have "first_at (occurs_at ''ananas'' ''nas'') = Some 3"
  proof (rule first_at_eq)
    show "\<not> occurs_at ''ananas'' ''nas'' j" if "j < 3" for j
      using that by (auto simp: occurs_at_def numeral_eq_Suc less_Suc_eq)
  qed (simp add: occurs_at_def numeral_eq_Suc)
  with MemMem_first_occurrence [of 3 6 "''ananas''" "''nas''"] show ?thesis by simp
qed
section \<open>Strings in buffers\<close>

text \<open>A destination is the list of bytes of the object it points into, from that point on; a
  write past its end is \<open>Overrun\<close>. The C string in it ends at the first NUL.\<close>

definition buf_str :: "string \<Rightarrow> string" where
  "buf_str b = takeWhile (\<lambda>c. c \<noteq> chr_nul) b"

definition put_at :: "nat \<Rightarrow> string \<Rightarrow> string \<Rightarrow> string res" where
  "put_at k s b = (if k + length s \<le> length b then Inr (take k b @ s @ drop (k + length s) b) else Inl Overrun)"

definition MemCpy :: "string \<Rightarrow> string \<Rightarrow> nat \<Rightarrow> string res" where
  "MemCpy dst src n = (if length src < n then Inl Overrun else put_at 0 (take n src) dst)"

definition MemSet :: "string \<Rightarrow> i64 \<Rightarrow> nat \<Rightarrow> string res" where
  "MemSet dst v n = put_at 0 (replicate n (char_of (unat v mod 256))) dst"

definition StrCpy :: "string \<Rightarrow> string option \<Rightarrow> string res" where
  "StrCpy dst src = put_at 0 (or_empty src @ [chr_nul]) dst"

definition StrCat :: "string \<Rightarrow> string option \<Rightarrow> string res" where
  "StrCat dst src =
     (if chr_nul \<notin> set dst then Inl Overrun else put_at (length (buf_str dst)) (or_empty src @ [chr_nul]) dst)"

definition StrCmp :: "string option \<Rightarrow> string option \<Rightarrow> int" where
  "StrCmp a b = byte_cmp (or_empty a @ [chr_nul]) (or_empty b @ [chr_nul])"

lemma put_at_length: "put_at k s b = Inr b' \<Longrightarrow> length b' = length b"
  by (auto simp: put_at_def split: if_splits)

lemma buf_str_at:
  "chr_nul \<notin> set u \<Longrightarrow> buf_str (u @ chr_nul # rest) = u"
  unfolding buf_str_def by (subst takeWhile_append2) (auto simp: in_set_conv_decomp)

lemma StrCpy_fits:
  assumes "chr_nul \<notin> set (or_empty s)" "length (or_empty s) < length b"
  obtains b' where "StrCpy b s = Inr b'" "buf_str b' = or_empty s" "chr_nul \<in> set b'" "length b' = length b"
proof -
  have "StrCpy b s = Inr (or_empty s @ chr_nul # drop (length (or_empty s) + 1) b)"
    using assms(2) by (simp add: StrCpy_def put_at_def)
  moreover have "buf_str (or_empty s @ chr_nul # drop (length (or_empty s) + 1) b) = or_empty s"
    by (rule buf_str_at [OF assms(1)])
  ultimately show ?thesis using that assms(2) by auto
qed

lemma StrCat_fits:
  assumes "chr_nul \<notin> set (or_empty s)" "chr_nul \<in> set b" "length (buf_str b) + length (or_empty s) < length b"
  obtains b' where "StrCat b s = Inr b'" "buf_str b' = buf_str b @ or_empty s" "chr_nul \<in> set b'" "length b' = length b"
proof -
  let ?k = "length (buf_str b)"
  have "take ?k b = buf_str b" by (metis buf_str_def takeWhile_eq_take)
  then have b': "StrCat b s = Inr ((buf_str b @ or_empty s) @ chr_nul # drop (?k + length (or_empty s) + 1) b)"
    using assms(2,3) by (simp add: StrCat_def put_at_def)
  have "chr_nul \<notin> set (buf_str b @ or_empty s)"
    using assms(1) by (auto simp: buf_str_def dest: set_takeWhileD)
  note buf_str_at [OF this, of "drop (?k + length (or_empty s) + 1) b"]
  with b' show ?thesis using that assms(3) by auto
qed

lemma StrCat_overrun:
  "chr_nul \<in> set b \<Longrightarrow> length b \<le> length (buf_str b) + length (or_empty s) \<Longrightarrow> StrCat b s = Inl Overrun"
  by (simp add: StrCat_def put_at_def)

text \<open>The usual build-up of a text: one copy, then appends.\<close>

definition build :: "string \<Rightarrow> string option \<Rightarrow> string option list \<Rightarrow> string res" where
  "build b s ss = fold (\<lambda>t m. rbind m (\<lambda>b. StrCat b t)) ss (StrCpy b s)"

lemma build_appends:
  assumes "m = Inr b \<and> chr_nul \<in> set b \<or> m = Inl Overrun \<and> length b0 \<le> length u"
    "m = Inr b \<Longrightarrow> buf_str b = u \<and> length b = length b0"
    "\<forall>t \<in> set ss. chr_nul \<notin> set (or_empty t)"
  shows "case fold (\<lambda>t m. rbind m (\<lambda>b. StrCat b t)) ss m of
       Inl e \<Rightarrow> e = Overrun \<and> length b0 \<le> length (u @ concat (map or_empty ss))
     | Inr b' \<Rightarrow> buf_str b' = u @ concat (map or_empty ss) \<and> length b' = length b0 \<and> chr_nul \<in> set b'"
  using assms
proof (induction ss arbitrary: m b u)
  case Nil
  then show ?case by auto
next
  case (Cons t ss)
  from Cons.prems(1) show ?case
  proof
    assume m: "m = Inr b \<and> chr_nul \<in> set b"
    with Cons.prems(2) have b: "buf_str b = u" "length b = length b0" by auto
    show ?thesis
    proof (cases "length u + length (or_empty t) < length b")
      case True
      with m b Cons.prems(3) obtain b1 where b1: "StrCat b t = Inr b1" "buf_str b1 = u @ or_empty t"
          "chr_nul \<in> set b1" "length b1 = length b"
        using StrCat_fits [of t b] by auto
      with m b Cons.IH [of "Inr b1" b1 "u @ or_empty t"] Cons.prems(3) show ?thesis
        by (simp split: sum.splits)
    next
      case False
      with m b have "StrCat b t = Inl Overrun" by (intro StrCat_overrun) auto
      with m b False Cons.IH [of "Inl Overrun" b "u @ or_empty t"] Cons.prems(3) show ?thesis
        by (simp split: sum.splits)
    qed
  next
    assume "m = Inl Overrun \<and> length b0 \<le> length u"
    with Cons.IH [of "Inl Overrun" b "u @ or_empty t"] Cons.prems(3) show ?thesis
        by (simp split: sum.splits)
  qed
qed

text \<open>Copying and appending strings into a buffer gives their concatenation and writes past the
  buffer exactly when text and terminator do not fit.\<close>
theorem build_concatenates:
  assumes "\<forall>t \<in> set (s # ss). chr_nul \<notin> set (or_empty t)"
  shows "case build b s ss of
       Inl e \<Rightarrow> e = Overrun \<and> length b \<le> length (concat (map or_empty (s # ss)))
     | Inr b' \<Rightarrow> buf_str b' = concat (map or_empty (s # ss)) \<and> length b' = length b"
proof (cases "length (or_empty s) < length b")
  case True
  then obtain b1 where "StrCpy b s = Inr b1" "buf_str b1 = or_empty s" "chr_nul \<in> set b1" "length b1 = length b"
    using StrCpy_fits [of s b] assms by auto
  with build_appends [of "Inr b1" b1 b "or_empty s" ss] assms show ?thesis
    by (simp add: build_def split: sum.splits)
next
  case False
  then have "StrCpy b s = Inl Overrun" by (simp add: StrCpy_def put_at_def)
  with build_appends [of "Inl Overrun" b b "or_empty s" ss] assms False show ?thesis
    by (simp add: build_def split: sum.splits)
qed

theorem build_concatenates_witness:
  "case build (replicate 6 chr_nul) (Some ''ab'') [None, Some ''cde''] of
     Inl e \<Rightarrow> False | Inr b' \<Rightarrow> buf_str b' = ''abcde''"
  using build_concatenates [of "Some ''ab''" "[None, Some ''cde'']" "replicate 6 chr_nul"]
  by (simp add: or_empty_def split: sum.splits)

lemma nul_less [simp]: "chr_nul < y \<longleftrightarrow> y \<noteq> chr_nul" "\<not> y < chr_nul"
proof -
  have "(of_char y :: nat) = 0 \<longleftrightarrow> y = chr_nul" using of_char_eq_iff [where 'a = nat, of y chr_nul] by simp
  then show "chr_nul < y \<longleftrightarrow> y \<noteq> chr_nul" by (auto simp: less_char_def)
qed (simp add: less_char_def)

lemma str_cmp_anti:
  "chr_nul \<notin> set a \<Longrightarrow> chr_nul \<notin> set b \<Longrightarrow>
     byte_cmp (a @ [chr_nul]) (b @ [chr_nul]) = - byte_cmp (b @ [chr_nul]) (a @ [chr_nul])"
  by (induction a b rule: list_induct2') (auto simp: not_less order.strict_iff_order)

lemma str_cmp_eq_0:
  "chr_nul \<notin> set a \<Longrightarrow> chr_nul \<notin> set b \<Longrightarrow> byte_cmp (a @ [chr_nul]) (b @ [chr_nul]) = 0 \<longleftrightarrow> a = b"
  by (induction a b rule: list_induct2') auto

lemma str_cmp_less:
  "chr_nul \<notin> set a \<Longrightarrow> chr_nul \<notin> set b \<Longrightarrow>
     byte_cmp (a @ [chr_nul]) (b @ [chr_nul]) < 0 \<longleftrightarrow> (a, b) \<in> lexord {(x, y). x < y}"
  by (induction a b rule: list_induct2') auto

text \<open>\<open>StrCmp\<close> orders strings lexicographically by their unsigned bytes, a null pointer being
  the empty string: negative, zero and positive results are less, equal and greater.\<close>
theorem StrCmp_lexicographic:
  assumes "chr_nul \<notin> set (or_empty a)" "chr_nul \<notin> set (or_empty b)"
  shows "(StrCmp a b = 0 \<longleftrightarrow> or_empty a = or_empty b)
    \<and> (StrCmp a b < 0 \<longleftrightarrow> (or_empty a, or_empty b) \<in> lexord {(x, y). x < y})
    \<and> (StrCmp a b > 0 \<longleftrightarrow> (or_empty b, or_empty a) \<in> lexord {(x, y). x < y})"
  unfolding StrCmp_def
  using str_cmp_eq_0 [OF assms] str_cmp_less [OF assms] str_cmp_less [OF assms(2,1)] str_cmp_anti [OF assms]
  by auto

theorem StrCmp_lexicographic_witness: "StrCmp None (Some ''a'') < 0"
  using StrCmp_lexicographic [of None "Some ''a''"] by (simp add: or_empty_def)

end
