(* ===== verification/RtPrint.thy ===== *)
theory RtPrint
  imports StrBuf RtMem Lexer
begin

text \<open>
  The print core of \<open>src/runtime/rt.c\<close>: \<open>HcOut\<close> and \<open>hc_emit\<close>, the format interpreter
  \<open>hc_format\<close> and the functions over it. What \<open>snprintf\<close> does with the conversions the
  interpreter hands it is written out from the C standard, except for floating-point
  conversions: \<open>ffmt spec a\<close> is the text of the number whose bits are \<open>a\<close>.
\<close>

section \<open>Output\<close>

text \<open>\<open>ho_buf\<close> is the text \<open>buf[0 .. len)\<close>, \<open>None\<close> when \<open>buf\<close> is null and text goes to the standard
  output \<open>ho_stdout\<close>. \<open>ho_obj\<close> is the size of the object \<open>buf\<close> points to: equal to \<open>cap\<close> for
  a buffer of the runtime's own, whatever the caller provided for \<open>StrPrint\<close>.\<close>

record hcout =
  ho_buf :: "string option"
  ho_cap :: nat
  ho_obj :: nat
  ho_stdout :: string

text \<open>Doubling until the text and its terminator fit. A \<open>realloc\<close> that fails leaves a null
  pointer behind, which the copy then goes through. No object has \<open>2 ^ 63\<close> bytes or more.\<close>

definition realloc_ok :: "(nat \<Rightarrow> bool) \<Rightarrow> nat \<Rightarrow> bool" where
  "realloc_ok can n \<longleftrightarrow> n < 2 ^ 63 \<and> can n"

function grow :: "(nat \<Rightarrow> bool) \<Rightarrow> nat \<Rightarrow> nat \<Rightarrow> nat res" where
  "grow can need cap =
     (if need \<le> cap then Inr cap
      else if cap = 0 then Inl Fuel
      else if \<not> realloc_ok can (2 * cap) then Inl NullDeref
      else grow can need (2 * cap))"
  by pat_completeness auto
termination
  by (relation "measure (\<lambda>(can, need, cap). need - cap)") auto

declare grow.simps [simp del]

definition hc_emit :: "(nat \<Rightarrow> bool) \<Rightarrow> string \<Rightarrow> hcout \<Rightarrow> hcout res" where
  "hc_emit can s h =
     (case ho_buf h of
        None \<Rightarrow> Inr (h\<lparr>ho_stdout := ho_stdout h @ s\<rparr>)
      | Some b \<Rightarrow>
          rbind (grow can (length b + length s + 1) (ho_cap h)) (\<lambda>cap.
          (let obj = (if cap = ho_cap h then ho_obj h else cap)
           in if obj < length b + length s + 1 then Inl Overrun
              else Inr (h\<lparr>ho_buf := Some (b @ s), ho_cap := cap, ho_obj := obj\<rparr>))))"

definition ho_text :: "hcout \<Rightarrow> string" where
  "ho_text h = (case ho_buf h of None \<Rightarrow> ho_stdout h | Some b \<Rightarrow> b)"

text \<open>What \<open>hc_emit\<close> keeps: the text and its terminator lie inside the object.\<close>

definition ho_inv :: "hcout \<Rightarrow> bool" where
  "ho_inv h \<longleftrightarrow> (case ho_buf h of None \<Rightarrow> True | Some b \<Rightarrow> length b < ho_obj h)"

interpretation hco: byte_sink ho_inv ho_text "hc_emit can" for can
  by unfold_locales
     (auto simp: hc_emit_def ho_inv_def ho_text_def rbind_eq_Inr Let_def split: option.splits if_splits)

section \<open>Conversions of the C library\<close>

text \<open>A conversion: flags, field width, precision.\<close>

record cspec =
  cs_flags :: string
  cs_width :: nat
  cs_prec :: "nat option"

definition is_flag :: "char \<Rightarrow> bool" where
  "is_flag c \<longleftrightarrow> c = CHR ''-'' \<or> c = CHR ''0'' \<or> c = CHR ''+'' \<or> c = CHR '' ''"

text \<open>How \<open>snprintf\<close> reads the text between the percent sign and the conversion.\<close>

definition read_spec :: "string \<Rightarrow> cspec" where
  "read_spec s =
     (let r = dropWhile is_flag s; r' = dropWhile is_digit r
      in \<lparr>cs_flags = takeWhile is_flag s, cs_width = dec_value (takeWhile is_digit r),
          cs_prec = (if hd_nul r' = CHR ''.'' then Some (dec_value (takeWhile is_digit (tl r'))) else None)\<rparr>)"

definition pad_to :: "cspec \<Rightarrow> string \<Rightarrow> string" where
  "pad_to cs s =
     (let fill = replicate (cs_width cs - length s) (CHR '' '')
      in if CHR ''-'' \<in> set (cs_flags cs) then s @ fill else fill @ s)"

text \<open>A number: at least \<open>prec\<close> digits, none for zero with precision zero; a zero flag pads
  between sign and digits unless there is a minus flag or a precision.\<close>

definition num_text :: "cspec \<Rightarrow> string \<Rightarrow> string \<Rightarrow> string" where
  "num_text cs sign ds =
     (let p = (case cs_prec cs of None \<Rightarrow> 1 | Some p \<Rightarrow> p);
          d0 = (if ds = ''0'' \<and> p = 0 then [] else ds);
          d = replicate (p - length d0) (CHR ''0'') @ d0
      in if CHR ''0'' \<in> set (cs_flags cs) \<and> CHR ''-'' \<notin> set (cs_flags cs) \<and> cs_prec cs = None
         then sign @ replicate (cs_width cs - length sign - length d) (CHR ''0'') @ d
         else pad_to cs (sign @ d))"

definition radix_digit :: "bool \<Rightarrow> nat \<Rightarrow> char" where
  "radix_digit up n = (if n < 10 then char_of (48 + n) else char_of ((if up then 55 else 87) + n))"

function radix_text :: "bool \<Rightarrow> nat \<Rightarrow> nat \<Rightarrow> string" where
  "radix_text up b n =
     (if n < b \<or> b < 2 then [radix_digit up n] else radix_text up b (n div b) @ [radix_digit up (n mod b)])"
  by pat_completeness auto
termination
  by (relation "measure (\<lambda>(up, b, n). n)") (auto simp: not_less)

declare radix_text.simps [simp del]

definition signed_text :: "cspec \<Rightarrow> i64 \<Rightarrow> string" where
  "signed_text cs a =
     num_text cs
       (if sint a < 0 then ''-'' else if CHR ''+'' \<in> set (cs_flags cs) then ''+''
        else if CHR '' '' \<in> set (cs_flags cs) then '' '' else [])
       (dec_nat (nat \<bar>sint a\<bar>))"

definition str_text :: "cspec \<Rightarrow> string \<Rightarrow> string" where
  "str_text cs s = pad_to cs (case cs_prec cs of None \<Rightarrow> s | Some p \<Rightarrow> take p s)"

text \<open>A width or precision beyond \<open>INT_MAX\<close> makes \<open>snprintf\<close> fail and leave the output buffer
  alone; a zero flag is undefined for strings.\<close>

definition spec_ok :: "cspec \<Rightarrow> bool" where
  "spec_ok cs \<longleftrightarrow> cs_width cs < 2 ^ 31 \<and> (case cs_prec cs of None \<Rightarrow> True | Some p \<Rightarrow> p < 2 ^ 31)"

text \<open>\<open>snprintf\<close> keeps what fits into \<open>out[512]\<close>.\<close>

definition out_size :: nat where "out_size = 512"

definition fits_out :: "string \<Rightarrow> string" where
  "fits_out s = take (out_size - 1) s"

section \<open>The format interpreter\<close>

text \<open>Flags, width and precision are stepped over; the first 19 characters of them are kept in
  \<open>spec\<close> after the percent sign.\<close>

definition spec_span :: "string \<Rightarrow> string \<times> string" where
  "spec_span p =
     (let f = takeWhile is_flag p; p1 = dropWhile is_flag p;
          w = takeWhile is_digit p1; p2 = dropWhile is_digit p1
      in if hd_nul p2 = CHR ''.''
         then (take 19 (f @ w @ CHR ''.'' # takeWhile is_digit (tl p2)), dropWhile is_digit (tl p2))
         else (take 19 (f @ w), p2))"

text \<open>The packed characters of a value, low byte first, until the rest of it is zero.\<close>

fun unpack :: "nat \<Rightarrow> i64 \<Rightarrow> string" where
  "unpack 0 v = []"
| "unpack (Suc n) v = (if v = 0 then [] else char_of (unat (v AND 0xff)) # unpack n (drop_bit 8 v))"

text \<open>What one conversion emits. \<open>spec\<close> is the kept text, \<open>c\<close> the conversion character and \<open>a\<close> the
  argument. The emitted length is \<open>strlen(out)\<close>, so a packed constant stops at a zero byte.\<close>

definition conv_emit ::
  "(i64 \<Rightarrow> string option) \<Rightarrow> (string \<Rightarrow> i64 \<Rightarrow> string option) \<Rightarrow> string \<Rightarrow> char \<Rightarrow> i64 \<Rightarrow> string res"
where
  "conv_emit strs ffmt spec c a =
     (let cs = read_spec spec
      in if c \<in> set ''diuxXo'' \<and> \<not> spec_ok cs then Inl Undefined
         else if c = CHR ''d'' \<or> c = CHR ''i'' then Inr (fits_out (signed_text cs a))
         else if c = CHR ''u'' then Inr (fits_out (num_text cs [] (dec_nat (unat a))))
         else if c = CHR ''o'' then Inr (fits_out (num_text cs [] (radix_text False 8 (unat a))))
         else if c = CHR ''x'' then Inr (fits_out (num_text cs [] (radix_text False 16 (unat a))))
         else if c = CHR ''X'' then Inr (fits_out (num_text cs [] (radix_text True 16 (unat a))))
         else if c = CHR ''p'' \<or> c = CHR ''P''
           then Inr (num_text \<lparr>cs_flags = ''0'', cs_width = 16, cs_prec = None\<rparr> [] (radix_text True 16 (unat a)))
         else if c = CHR ''c'' then Inr (buf_str (unpack 8 a))
         else if c = CHR ''s'' then
           (case (if a = 0 then Some ''(null)'' else strs a) of
              None \<Rightarrow> Inl Overrun
            | Some s \<Rightarrow>
                (if spec = [] then Inr s
                 else if \<not> spec_ok cs \<or> CHR ''0'' \<in> set (cs_flags cs) \<or> 2 ^ 31 \<le> length (str_text cs s) then Inl Undefined
                 else Inr (str_text cs s)))
         else if c = CHR ''f'' \<or> c = CHR ''e'' \<or> c = CHR ''g''
           then (case ffmt (spec @ [c]) a of None \<Rightarrow> Inl Undefined | Some t \<Rightarrow> Inr (fits_out t))
         else Inr [CHR ''%'', c])"

function hc_format ::
  "(nat \<Rightarrow> bool) \<Rightarrow> (i64 \<Rightarrow> string option) \<Rightarrow> (string \<Rightarrow> i64 \<Rightarrow> string option)
     \<Rightarrow> i64 list \<Rightarrow> string \<Rightarrow> hcout \<Rightarrow> hcout res"
where
  "hc_format can strs ffmt args [] h = Inr h"
| "hc_format can strs ffmt args (c # p) h =
     (if c \<noteq> CHR ''%''
      then rbind (hc_emit can (c # takeWhile (\<lambda>x. x \<noteq> CHR ''%'') p) h)
             (hc_format can strs ffmt args (dropWhile (\<lambda>x. x \<noteq> CHR ''%'') p))
      else if hd_nul p = CHR ''%''
      then rbind (hc_emit can ''%'' h) (hc_format can strs ffmt args (tl p))
      else
        (let (spec, q) = spec_span p;
             (a, rest) = (case args of [] \<Rightarrow> (0, []) | x # xs \<Rightarrow> (x, xs))
         in if q = [] then Inr h
            else rbind (conv_emit strs ffmt spec (hd q) a) (\<lambda>t.
                 rbind (hc_emit can t h) (hc_format can strs ffmt rest (tl q)))))"
  by pat_completeness auto

lemma length_dropWhile_tl: "length (dropWhile P (tl s)) \<le> length s"
  using length_dropWhile_le [of P "tl s"] by simp

lemma spec_span_length: "length (snd (spec_span p)) \<le> length p"
proof -
  let ?q = "dropWhile is_digit (dropWhile is_flag p)"
  have "length ?q \<le> length p" by (meson length_dropWhile_le order_trans)
  then show ?thesis
    using length_dropWhile_tl [of is_digit ?q] by (simp add: spec_span_def Let_def)
qed

termination hc_format
proof (relation "measure (\<lambda>(can, strs, ffmt, args, p, h). length p)", goal_cases)
  case (4 can strs ffmt args c p h x spec q)
  then show ?case using spec_span_length [of p] by (cases "spec_span p") (simp add: less_Suc_eq_le)
qed (auto simp: hd_nul_def less_Suc_eq_le length_dropWhile_le split: list.splits)

declare hc_format.simps(2) [simp del]
section \<open>The print functions\<close>

definition stdout_sink :: "string \<Rightarrow> hcout" where
  "stdout_sink out = \<lparr>ho_buf = None, ho_cap = 0, ho_obj = 0, ho_stdout = out\<rparr>"

text \<open>\<open>fmt\<close> is \<open>None\<close> for a null format, which prints nothing.\<close>

definition format_opt where
  "format_opt can strs ffmt args fmt h =
     (case fmt of None \<Rightarrow> Inr h | Some f \<Rightarrow> hc_format can strs ffmt args f h)"

definition Print where
  "Print can strs ffmt fmt args out =
     rbind (format_opt can strs ffmt args fmt (stdout_sink out)) (\<lambda>h. Inr (ho_stdout h))"

text \<open>\<open>dst\<close> is the size of the destination object, \<open>None\<close> for a null pointer: then the text goes
  to the standard output. The result is the text written to the destination and the output.\<close>

definition StrPrint where
  "StrPrint can strs ffmt dst fmt args out =
     (case dst of
        None \<Rightarrow> rbind (format_opt can strs ffmt args fmt (stdout_sink out)) (\<lambda>h. Inr (None, ho_stdout h))
      | Some n \<Rightarrow>
          (if n = 0 then Inl Overrun
           else rbind (format_opt can strs ffmt args fmt
                  \<lparr>ho_buf = Some [], ho_cap = size_max, ho_obj = n, ho_stdout = out\<rparr>)
                (\<lambda>h. Inr (ho_buf h, ho_stdout h))))"

text \<open>The growing buffer is plain \<open>malloc\<close> memory and released at the end; only the copy
  \<open>StrNew\<close> makes is a block of the program.\<close>

definition MStrPrint where
  "MStrPrint pick can strs ffmt fmt args h =
     (if \<not> can 64 then Inl NullDeref
      else rbind (format_opt can strs ffmt args fmt \<lparr>ho_buf = Some [], ho_cap = 64, ho_obj = 64, ho_stdout = []\<rparr>)
             (\<lambda>o1. StrNew pick h (Some (buf_str (ho_text o1)))))"

text \<open>\<open>dst\<close> is a block of the heap or 0; it and the formatted string are released once their
  texts are in the new block.\<close>

definition StrPrintJoin where
  "StrPrintJoin pick can strs ffmt dst fmt args h =
     rbind (MStrPrint pick can strs ffmt fmt args h) (\<lambda>(s, h1).
       (if dst = 0 then Inr (s, h1)
        else
          (case (str_at h1 dst, str_at h1 s) of
             (Some d, Some t) \<Rightarrow>
               rbind (MAlloc pick h1 (word_of_nat (length d) + word_of_nat (length t) + 1)) (\<lambda>(r, h2).
                 (case h2 (r - 16) of
                    None \<Rightarrow> Inl Overrun
                  | Some (k, bs) \<Rightarrow>
                      (if length d + length t + 1 > length bs then Inl Overrun
                       else
                         (let h3 = h2(r - 16 \<mapsto> (k, map Some (d @ t @ [chr_nul]) @ drop (length d + length t + 1) bs))
                          in rbind (Free h3 dst) (\<lambda>h4. rbind (Free h4 s) (\<lambda>h5. Inr (r, h5)))))))
           | _ \<Rightarrow> Inl Overrun)))"

definition PutChars :: "i64 \<Rightarrow> string \<Rightarrow> string" where
  "PutChars ch out = out @ unpack 8 ch"

definition PutS :: "string option \<Rightarrow> string \<Rightarrow> string" where
  "PutS s out = (case s of None \<Rightarrow> out | Some t \<Rightarrow> out @ t)"

section \<open>Input\<close>

definition GetChar :: "string \<Rightarrow> int \<times> string" where
  "GetChar inp = (case inp of [] \<Rightarrow> (-1, []) | c # r \<Rightarrow> (int (of_char c), r))"

text \<open>\<open>fgets\<close> with a buffer of \<open>n\<close> bytes: up to \<open>n - 1\<close> characters, through the first newline;
  \<open>None\<close> at the end of the input.\<close>

fun fgets_text :: "nat \<Rightarrow> string \<Rightarrow> string" where
  "fgets_text 0 s = []"
| "fgets_text (Suc n) [] = []"
| "fgets_text (Suc n) (c # s) = (if c = chr_nl then [c] else c # fgets_text n s)"

definition fgets :: "nat \<Rightarrow> string \<Rightarrow> (string \<times> string) option" where
  "fgets n s = (if s = [] then None else (let l = fgets_text (n - 1) s in Some (l, drop (length l) s)))"

text \<open>The line \<open>GetStr\<close> copies, and the input left.\<close>

definition get_line :: "string \<Rightarrow> string \<times> string" where
  "get_line inp =
     (case fgets 4096 inp of
        None \<Rightarrow> ([], inp)
      | Some (l, r) \<Rightarrow>
          (let b = buf_str l in (if b \<noteq> [] \<and> last b = chr_nl then butlast b else b, r)))"

definition GetStr where
  "GetStr pick can strs ffmt prompt inp out h =
     rbind (case prompt of None \<Rightarrow> Inr out | Some f \<Rightarrow> Print can strs ffmt (Some f) [] out) (\<lambda>out'.
       (let (l, r) = get_line inp in rbind (StrNew pick h (Some l)) (\<lambda>(p, h'). Inr (p, r, out', h'))))"

section \<open>What a format emits\<close>

text \<open>The emitted texts on their own, whatever they are written to.\<close>

function texts ::
  "(i64 \<Rightarrow> string option) \<Rightarrow> (string \<Rightarrow> i64 \<Rightarrow> string option) \<Rightarrow> i64 list \<Rightarrow> string \<Rightarrow> string list res"
where
  "texts strs ffmt args [] = Inr []"
| "texts strs ffmt args (c # p) =
     (if c \<noteq> CHR ''%''
      then rbind (texts strs ffmt args (dropWhile (\<lambda>x. x \<noteq> CHR ''%'') p))
             (\<lambda>ts. Inr ((c # takeWhile (\<lambda>x. x \<noteq> CHR ''%'') p) # ts))
      else if hd_nul p = CHR ''%''
      then rbind (texts strs ffmt args (tl p)) (\<lambda>ts. Inr (''%'' # ts))
      else
        (let (spec, q) = spec_span p;
             (a, rest) = (case args of [] \<Rightarrow> (0, []) | x # xs \<Rightarrow> (x, xs))
         in if q = [] then Inr []
            else rbind (conv_emit strs ffmt spec (hd q) a) (\<lambda>t.
                 rbind (texts strs ffmt rest (tl q)) (\<lambda>ts. Inr (t # ts)))))"
  by pat_completeness auto
termination texts
proof (relation "measure (\<lambda>(strs, ffmt, args, p). length p)", goal_cases)
  case (4 strs ffmt args c p x spec q)
  then show ?case using spec_span_length [of p] by (cases "spec_span p") (simp add: less_Suc_eq_le)
qed (auto simp: hd_nul_def less_Suc_eq_le length_dropWhile_le split: list.splits)

declare texts.simps(2) [simp del]

lemma hc_format_texts:
  "hc_format can strs ffmt args p h = Inr h' \<longleftrightarrow>
     (\<exists>ts. texts strs ffmt args p = Inr ts \<and> hco.puts can ts h = Inr h')"
proof (induction can strs ffmt args p h arbitrary: h' rule: hc_format.induct)
  case (1 can strs ffmt args h)
  then show ?case by simp
next
  case (2 can strs ffmt args c p h)
  consider (lit) "c \<noteq> CHR ''%''" | (pct) "c = CHR ''%''" "hd_nul p = CHR ''%''"
    | (conv) "c = CHR ''%''" "hd_nul p \<noteq> CHR ''%''" by blast
  then show ?case
  proof cases
    case lit
    with 2(1) [OF lit] show ?thesis
      by (auto simp: hc_format.simps(2) texts.simps(2) rbind_eq_Inr)
  next
    case pct
    with 2(2) show ?thesis
      by (auto simp: hc_format.simps(2) texts.simps(2) rbind_eq_Inr)
  next
    case conv
    obtain spec q where sq: "spec_span p = (spec, q)" by fastforce
    obtain a rest where ar: "(case args of [] \<Rightarrow> (0, []) | x # xs \<Rightarrow> (x, xs)) = (a, rest)" by fastforce
    from 2(3) [OF _ conv(2) sq [symmetric] refl ar [symmetric] refl] conv sq ar show ?thesis
      by (auto simp: hc_format.simps(2) texts.simps(2) rbind_eq_Inr)
  qed
qed

lemma puts_stdout:
  "ho_buf h = None \<Longrightarrow> hco.puts can ts h = Inr (h\<lparr>ho_stdout := ho_stdout h @ concat ts\<rparr>)"
  by (induction ts arbitrary: h) (auto simp: hc_emit_def)

lemma grow_le [simp]: "need \<le> cap \<Longrightarrow> grow can need cap = Inr cap"
  by (simp add: grow.simps)

text \<open>A destination that never grows takes the text exactly when it fits.\<close>

lemma emit_fixed:
  "ho_buf h = Some b \<Longrightarrow> length b + length t < ho_cap h \<Longrightarrow>
     hc_emit can t h = (if length b + length t < ho_obj h then Inr (h\<lparr>ho_buf := Some (b @ t)\<rparr>) else Inl Overrun)"
  by (simp add: hc_emit_def not_less less_Suc_eq_le)

lemma puts_fixed:
  "ho_buf h = Some b \<Longrightarrow> length b < ho_obj h \<Longrightarrow> length b + length (concat ts) < ho_cap h \<Longrightarrow>
     hco.puts can ts h =
       (if length b + length (concat ts) < ho_obj h then Inr (h\<lparr>ho_buf := Some (b @ concat ts)\<rparr>)
        else Inl Overrun)"
proof (induction ts arbitrary: h b)
  case (Cons t ts)
  then have e: "hc_emit can t h =
      (if length b + length t < ho_obj h then Inr (h\<lparr>ho_buf := Some (b @ t)\<rparr>) else Inl Overrun)"
    by (intro emit_fixed) simp_all
  show ?case
  proof (cases "length b + length t < ho_obj h")
    case True
    with e Cons.prems Cons.IH [of "h\<lparr>ho_buf := Some (b @ t)\<rparr>" "b @ t"] show ?thesis
      by (simp add: add.assoc)
  qed (use e in simp)
qed simp
section \<open>Agreement of the print functions\<close>

lemma is_digit_nul [simp]: "\<not> is_digit chr_nul" "\<not> is_flag chr_nul"
  by (simp_all add: is_digit_def is_flag_def)

lemma set_num_text: "set (num_text cs sign ds) \<subseteq> set sign \<union> set ds \<union> {CHR ''0'', CHR '' ''}"
  by (auto simp: num_text_def pad_to_def Let_def split: if_splits)

lemma dec_nat_no_nul [simp]: "chr_nul \<notin> set (dec_nat n)"
  using dec_nat_digits [of n] by (auto simp: list_all_iff)

lemma radix_digit_no_nul: "n < 16 \<Longrightarrow> radix_digit up n \<noteq> chr_nul"
  by (auto simp: radix_digit_def char_of_eq_iff take_bit_eq_mod)

lemma radix_text_no_nul: "2 \<le> b \<Longrightarrow> b \<le> 16 \<Longrightarrow> chr_nul \<notin> set (radix_text up b n)"
proof (induction up b n rule: radix_text.induct)
  case (1 up b n)
  have "radix_digit up (n mod b) \<noteq> chr_nul"
    using 1(2,3) by (intro radix_digit_no_nul) (auto intro: less_le_trans [OF mod_less_divisor])
  moreover have "n < b \<Longrightarrow> radix_digit up n \<noteq> chr_nul" using 1(3) by (intro radix_digit_no_nul) simp
  ultimately show ?case using 1 by (auto simp: radix_text.simps [of up b n])
qed

lemma num_text_no_nul: "chr_nul \<notin> set sign \<Longrightarrow> chr_nul \<notin> set ds \<Longrightarrow> chr_nul \<notin> set (num_text cs sign ds)"
  using set_num_text [of cs sign ds] by auto

lemma fits_out_no_nul: "chr_nul \<notin> set s \<Longrightarrow> chr_nul \<notin> set (fits_out s)"
  by (auto simp: fits_out_def dest: in_set_takeD)

lemma str_text_no_nul: "chr_nul \<notin> set s \<Longrightarrow> chr_nul \<notin> set (str_text cs s)"
  by (auto simp: str_text_def pad_to_def Let_def dest: in_set_takeD split: option.splits)

lemma buf_str_no_nul: "chr_nul \<notin> set (buf_str b)"
  by (auto simp: buf_str_def dest: set_takeWhileD)

lemma buf_str_id: "chr_nul \<notin> set t \<Longrightarrow> buf_str t = t"
  by (auto simp: buf_str_def takeWhile_eq_all_conv)

text \<open>Strings of the program and texts of numbers have no NUL inside.\<close>

definition strings_ok :: "(i64 \<Rightarrow> string option) \<Rightarrow> (string \<Rightarrow> i64 \<Rightarrow> string option) \<Rightarrow> bool" where
  "strings_ok strs ffmt \<longleftrightarrow>
     (\<forall>a s. strs a = Some s \<longrightarrow> chr_nul \<notin> set s) \<and> (\<forall>sp a s. ffmt sp a = Some s \<longrightarrow> chr_nul \<notin> set s)"

lemma signed_text_no_nul: "chr_nul \<notin> set (signed_text cs a)"
  unfolding signed_text_def by (rule num_text_no_nul) auto

lemmas no_nuls = signed_text_no_nul num_text_no_nul radix_text_no_nul str_text_no_nul fits_out_no_nul buf_str_no_nul

lemma conv_emit_cases:
  assumes "conv_emit strs ffmt spec c a = Inr t"
  obtains (num) "t \<in> fits_out ` {signed_text (read_spec spec) a, num_text (read_spec spec) [] (dec_nat (unat a)),
        num_text (read_spec spec) [] (radix_text False 8 (unat a)), num_text (read_spec spec) [] (radix_text False 16 (unat a)),
        num_text (read_spec spec) [] (radix_text True 16 (unat a))}"
    | (ptr) "t = num_text \<lparr>cs_flags = ''0'', cs_width = 16, cs_prec = None\<rparr> [] (radix_text True 16 (unat a))"
    | (chars) "t = buf_str (unpack 8 a)"
    | (str) s where "c = CHR ''s''" "(if a = 0 then Some ''(null)'' else strs a) = Some s" "t = s \<or> t = str_text (read_spec spec) s"
    | (float) s where "ffmt (spec @ [c]) a = Some s" "t = fits_out s"
    | (other) "t = [CHR ''%'', c]"
  using assms unfolding conv_emit_def Let_def by (simp split: if_split_asm option.split_asm)

lemma conv_emit_no_nul:
  assumes "conv_emit strs ffmt spec c a = Inr t" "strings_ok strs ffmt" "c \<noteq> chr_nul"
  shows "chr_nul \<notin> set t"
proof -
  have ok: "strs a = Some s \<Longrightarrow> chr_nul \<notin> set s" "ffmt sp a = Some s \<Longrightarrow> chr_nul \<notin> set s" for s sp
    using assms(2) by (auto simp: strings_ok_def)
  show ?thesis
    using assms(1) by (cases rule: conv_emit_cases)
      (use assms(3) in \<open>auto simp: no_nuls dest: ok split: if_split_asm\<close>)
qed

lemma spec_span_sub: "set (snd (spec_span p)) \<subseteq> set p"
proof -
  have "set (tl s) \<subseteq> set s" for s :: string by (cases s) auto
  from this [of "dropWhile is_digit (dropWhile is_flag p)"] show ?thesis
    by (auto simp: spec_span_def Let_def dest!: set_dropWhileD)
qed

lemma texts_no_nul:
  "texts strs ffmt args p = Inr ts \<Longrightarrow> strings_ok strs ffmt \<Longrightarrow> chr_nul \<notin> set p \<Longrightarrow> chr_nul \<notin> set (concat ts)"
proof (induction strs ffmt args p arbitrary: ts rule: texts.induct)
  case (2 strs ffmt args c p)
  consider (lit) "c \<noteq> CHR ''%''" | (pct) "c = CHR ''%''" "hd_nul p = CHR ''%''"
    | (conv) "c = CHR ''%''" "hd_nul p \<noteq> CHR ''%''" by blast
  then show ?case
  proof cases
    case lit
    then obtain us where u: "texts strs ffmt args (dropWhile (\<lambda>x. x \<noteq> CHR ''%'') p) = Inr us"
        "ts = (c # takeWhile (\<lambda>x. x \<noteq> CHR ''%'') p) # us"
      using 2(4) by (auto simp: texts.simps(2) rbind_eq_Inr)
    from 2(1) [OF lit u(1) 2(5)] u(2) 2(6) show ?thesis
      by (auto dest: set_takeWhileD set_dropWhileD)
  next
    case pct
    then obtain us where u: "texts strs ffmt args (tl p) = Inr us" "ts = ''%'' # us"
      using 2(4) by (auto simp: texts.simps(2) rbind_eq_Inr)
    with pct 2(2) [OF _ pct(2) u(1) 2(5)] 2(6) show ?thesis by (cases p) auto
  next
    case conv
    obtain spec q where sq: "spec_span p = (spec, q)" by fastforce
    obtain a rest where ar: "(case args of [] \<Rightarrow> (0, []) | x # xs \<Rightarrow> (x, xs)) = (a, rest)" by fastforce
    have q: "chr_nul \<notin> set q" using spec_span_sub [of p] sq 2(6) by auto
    show ?thesis
    proof (cases "q = []")
      case True
      with 2(4) conv sq ar show ?thesis by (simp add: texts.simps(2))
    next
      case False
      with 2(4) conv sq ar obtain t us where t: "conv_emit strs ffmt spec (hd q) a = Inr t"
          "texts strs ffmt rest (tl q) = Inr us" "ts = t # us"
        by (auto simp: texts.simps(2) rbind_eq_Inr)
      have "chr_nul \<notin> set (concat us)"
        using 2(3) [OF _ conv(2) sq [symmetric] refl ar [symmetric] refl False t(1) t(2) 2(5)] conv(1) q
        by (cases q) auto
      moreover have "chr_nul \<notin> set t"
        using conv_emit_no_nul [OF t(1) 2(5)] q False by (cases q) auto
      ultimately show ?thesis using t(3) by simp
    qed
  qed
qed simp

lemma hc_format_eq:
  "texts strs ffmt args p = Inr ts \<Longrightarrow> hc_format can strs ffmt args p h = hco.puts can ts h"
proof (induction can strs ffmt args p h arbitrary: ts rule: hc_format.induct)
  case (2 can strs ffmt args c p h)
  consider (lit) "c \<noteq> CHR ''%''" | (pct) "c = CHR ''%''" "hd_nul p = CHR ''%''"
    | (conv) "c = CHR ''%''" "hd_nul p \<noteq> CHR ''%''" by blast
  then show ?case
  proof cases
    case lit
    with 2(1) [OF lit] 2(4) show ?thesis
      by (auto simp: hc_format.simps(2) texts.simps(2) rbind_eq_Inr intro!: rbind_cong)
  next
    case pct
    with 2(2) 2(4) show ?thesis
      by (auto simp: hc_format.simps(2) texts.simps(2) rbind_eq_Inr intro!: rbind_cong)
  next
    case conv
    obtain spec q where sq: "spec_span p = (spec, q)" by fastforce
    obtain a rest where ar: "(case args of [] \<Rightarrow> (0, []) | x # xs \<Rightarrow> (x, xs)) = (a, rest)" by fastforce
    from 2(3) [OF _ conv(2) sq [symmetric] refl ar [symmetric] refl] 2(4) conv sq ar show ?thesis
      by (auto simp: hc_format.simps(2) texts.simps(2) rbind_eq_Inr intro!: rbind_cong split: if_split_asm)
  qed
qed simp


section \<open>Packed characters\<close>

fun pack :: "string \<Rightarrow> i64" where
  "pack [] = 0"
| "pack (c # cs) = of_char c OR push_bit 8 (pack cs)"

lemma char_code_less: "(of_char c :: nat) < 256"
  by (metis of_char_mod_256 mod_less_divisor zero_less_numeral)

lemma unat_char [simp]: "unat (of_char c :: i64) = of_char c"
proof -
  have "unat (of_nat (of_char c) :: i64) = of_char c"
    by (simp only: unat_of_nat) (rule mod_less, rule less_trans [OF char_code_less], simp)
  then show ?thesis by (simp only: of_nat_of_char)
qed

lemma char_word_bit: "bit (of_char c :: i64) n \<Longrightarrow> n < 8"
proof -
  assume "bit (of_char c :: i64) n"
  then have "bit (unat (of_char c :: i64)) n" by (simp only: bit_unsigned_iff) simp
  then have "bit (of_char c :: nat) n" by simp
  moreover have "take_bit 8 (of_char c :: nat) = of_char c"
    using char_code_less [of c] by (simp add: take_bit_nat_eq_self)
  ultimately show "n < 8" by (metis bit_take_bit_iff)
qed

lemma pack_bits: "bit (pack cs) n \<Longrightarrow> n < 8 * length cs"
proof (induction cs arbitrary: n)
  case (Cons c cs)
  then have "bit (of_char c :: i64) n \<or> 8 \<le> n \<and> bit (pack cs) (n - 8)" by (auto simp: bit_simps)
  then show ?case using Cons.IH [of "n - 8"] char_word_bit [of c n] by auto
qed simp

lemma pack_low: "pack (c # cs) AND 0xff = of_char c"
proof -
  have m: "(0xff :: i64) = mask 8" by (simp add: mask_eq_exp_minus_1)
  show ?thesis
    unfolding m by (rule bit_eqI) (auto simp: bit_simps dest: char_word_bit)
qed

lemma pack_high:
  assumes "length cs < 8"
  shows "drop_bit 8 (pack (c # cs)) = pack cs"
proof (rule bit_eqI)
  fix n
  have "\<not> bit (of_char c :: i64) (8 + n)" using char_word_bit [of c "8 + n"] by auto
  moreover have "bit (pack cs) n \<Longrightarrow> 8 + n < 64" using pack_bits [of cs n] assms by simp
  ultimately show "bit (drop_bit 8 (pack (c # cs))) n = bit (pack cs) n" by (auto simp: bit_simps)
qed

lemma pack_zero: "pack cs = 0 \<Longrightarrow> length cs \<le> 8 \<Longrightarrow> set cs \<subseteq> {chr_nul}"
proof (induction cs)
  case (Cons c cs)
  have "(of_char c :: i64) = 0" using pack_low [of c cs] Cons.prems by simp
  then have "unat (of_char c :: i64) = 0" by simp
  then have "(of_char c :: nat) = of_char chr_nul" by simp
  then have "c = chr_nul" by (simp only: of_char_eq_iff)
  then show ?case using Cons pack_high [of cs c] by auto
qed simp
lemma unpack_pack:
  "length cs \<le> n \<Longrightarrow> length cs \<le> 8 \<Longrightarrow> chr_nul \<notin> set cs \<Longrightarrow> unpack n (pack cs) = cs"
proof (induction cs arbitrary: n)
  case Nil
  then show ?case by (cases n) auto
next
  case (Cons c cs)
  then obtain m where m: "n = Suc m" "length cs \<le> m" by (cases n) auto
  have "pack (c # cs) \<noteq> 0" using pack_zero [of "c # cs"] Cons.prems by auto
  with m Cons pack_low [of c cs] pack_high [of cs c] show ?case
    by (simp del: pack.simps)
qed

lemma ucast_char: "ucast ((of_nat (of_char c) :: u32) AND 0xff) = (of_char c :: i64)"
proof -
  have "unat (of_nat (of_char c) :: u32) = of_char c"
    by (simp only: unat_of_nat) (rule mod_less, rule less_trans [OF char_code_less], simp)
  then have "unat ((of_nat (of_char c) :: u32) AND 0xff) = take_bit 8 (of_char c)"
    by (simp add: unsigned_and_eq take_bit_eq_mask mask_eq_exp_minus_1)
  then have "unat ((of_nat (of_char c) :: u32) AND 0xff) = of_char c"
    using char_code_less [of c] by (simp add: take_bit_nat_eq_self)
  then have "(of_nat (unat ((of_nat (of_char c) :: u32) AND 0xff)) :: i64) = of_nat (of_char c)" by simp
  then show ?thesis by (simp only: of_nat_of_char) simp
qed

text \<open>Characters that stand for themselves in a character constant.\<close>

definition chr_plain :: "char \<Rightarrow> bool" where
  "chr_plain c \<longleftrightarrow> c \<noteq> chr_sq \<and> c \<noteq> chr_bs \<and> c \<noteq> chr_nul"

lemma scan_chr_packs:
  "\<forall>c \<in> set cs. chr_plain c \<Longrightarrow> n + length cs \<le> 8 \<Longrightarrow>
     scan_chr f l v n (cs @ chr_sq # r) = Inr (v OR push_bit (8 * n) (pack cs), n + length cs, r)"
proof (induction cs arbitrary: n v)
  case (Cons c cs)
  have "(v OR push_bit (8 * n) (of_char c)) OR push_bit (8 * (n + 1)) (pack cs)
      = v OR push_bit (8 * n) (pack (c # cs))"
    by (simp add: push_bit_or add.commute or.assoc)
  with Cons show ?case by (simp add: chr_plain_def ucast_char del: pack.simps)
qed simp

text \<open>Character constants survive the trip from source text to output: what the tokenizer packs
  from a constant of up to eight characters, \<open>PutChars\<close> and the \<open>%c\<close> conversion print as the same
  characters.\<close>
theorem char_constant_prints_back:
  assumes "\<forall>c \<in> set cs. chr_plain c" "length cs \<le> 8"
  shows "\<exists>v. scan_chr f l 0 0 (cs @ chr_sq # r) = Inr (v, length cs, r)
    \<and> PutChars v out = out @ cs \<and> conv_emit strs ffmt spec CHR ''c'' v = Inr cs"
proof -
  have nul: "chr_nul \<notin> set cs" using assms(1) by (auto simp: chr_plain_def)
  have "unpack 8 (pack cs) = cs" using assms(2) nul by (intro unpack_pack) auto
  then show ?thesis
    using scan_chr_packs [OF assms(1), of 0 f l 0 r] assms(2) buf_str_id [OF nul]
    by (simp add: PutChars_def conv_emit_def Let_def)
qed

theorem char_constant_prints_back_witness:
  "\<exists>v. scan_chr ''f'' 1 0 0 (''Hi!'' @ chr_sq # '';'') = Inr (v, 3, '';'') \<and> PutChars v [] = ''Hi!''"
  using char_constant_prints_back [of "''Hi!''" "''f''" 1 "'';''" "[]"] by (auto simp: chr_plain_def)
section \<open>Formats as pieces\<close>

text \<open>
  A format read as text, percent signs and conversions, each with its argument and each with a
  meaning of its own; \<open>piece_fmt\<close> is how it is written.
\<close>

datatype piece =
    Lit string
  | Pct
  | PDec cspec i64
  | PUns cspec i64
  | PHex bool cspec i64
  | POct cspec i64
  | PPtr i64
  | PChars string
  | PStr i64 string
  | PPadStr cspec i64 string

definition spec_str :: "cspec \<Rightarrow> string" where
  "spec_str cs = cs_flags cs @ (if cs_width cs = 0 then [] else dec_nat (cs_width cs))
     @ (case cs_prec cs of None \<Rightarrow> [] | Some k \<Rightarrow> CHR ''.'' # dec_nat k)"

fun piece_fmt :: "piece \<Rightarrow> string" where
  "piece_fmt (Lit s) = s"
| "piece_fmt Pct = ''%%''"
| "piece_fmt (PDec cs a) = ''%'' @ spec_str cs @ ''d''"
| "piece_fmt (PUns cs a) = ''%'' @ spec_str cs @ ''u''"
| "piece_fmt (PHex up cs a) = ''%'' @ spec_str cs @ (if up then ''X'' else ''x'')"
| "piece_fmt (POct cs a) = ''%'' @ spec_str cs @ ''o''"
| "piece_fmt (PPtr a) = ''%p''"
| "piece_fmt (PChars s) = ''%c''"
| "piece_fmt (PStr a s) = ''%s''"
| "piece_fmt (PPadStr cs a s) = ''%'' @ spec_str cs @ ''s''"

fun piece_args :: "piece \<Rightarrow> i64 list" where
  "piece_args (Lit s) = []"
| "piece_args Pct = []"
| "piece_args (PDec cs a) = [a]"
| "piece_args (PUns cs a) = [a]"
| "piece_args (PHex up cs a) = [a]"
| "piece_args (POct cs a) = [a]"
| "piece_args (PPtr a) = [a]"
| "piece_args (PChars s) = [pack s]"
| "piece_args (PStr a s) = [a]"
| "piece_args (PPadStr cs a s) = [a]"

fun piece_text :: "piece \<Rightarrow> string" where
  "piece_text (Lit s) = s"
| "piece_text Pct = ''%''"
| "piece_text (PDec cs a) = signed_text cs a"
| "piece_text (PUns cs a) = num_text cs [] (dec_nat (unat a))"
| "piece_text (PHex up cs a) = num_text cs [] (radix_text up 16 (unat a))"
| "piece_text (POct cs a) = num_text cs [] (radix_text False 8 (unat a))"
| "piece_text (PPtr a) = (let d = radix_text True 16 (unat a) in replicate (16 - length d) (CHR ''0'') @ d)"
| "piece_text (PChars s) = s"
| "piece_text (PStr a s) = s"
| "piece_text (PPadStr cs a s) = str_text cs s"

text \<open>A conversion the interpreter keeps whole: at most 19 characters of flags, width and
  precision, and a field that fits its output buffer.\<close>

definition cspec_ok :: "cspec \<Rightarrow> bool" where
  "cspec_ok cs \<longleftrightarrow> list_all is_flag (cs_flags cs) \<and> length (spec_str cs) \<le> 19 \<and> spec_ok cs"

fun piece_ok :: "(i64 \<Rightarrow> string option) \<Rightarrow> piece \<Rightarrow> bool" where
  "piece_ok strs (Lit s) \<longleftrightarrow> CHR ''%'' \<notin> set s"
| "piece_ok strs Pct \<longleftrightarrow> True"
| "piece_ok strs (PDec cs a) \<longleftrightarrow> cspec_ok cs \<and> length (signed_text cs a) < 512"
| "piece_ok strs (PUns cs a) \<longleftrightarrow> cspec_ok cs \<and> length (piece_text (PUns cs a)) < 512"
| "piece_ok strs (PHex up cs a) \<longleftrightarrow> cspec_ok cs \<and> length (piece_text (PHex up cs a)) < 512"
| "piece_ok strs (POct cs a) \<longleftrightarrow> cspec_ok cs \<and> length (piece_text (POct cs a)) < 512"
| "piece_ok strs (PPtr a) \<longleftrightarrow> True"
| "piece_ok strs (PChars s) \<longleftrightarrow> chr_nul \<notin> set s \<and> length s \<le> 8"
| "piece_ok strs (PStr a s) \<longleftrightarrow> strs a = Some s \<and> a \<noteq> 0"
| "piece_ok strs (PPadStr cs a s) \<longleftrightarrow> cspec_ok cs \<and> spec_str cs \<noteq> [] \<and> CHR ''0'' \<notin> set (cs_flags cs)
     \<and> length (str_text cs s) < 2 ^ 31 \<and> strs a = Some s \<and> a \<noteq> 0"

lemma dec_nat_hd_nonzero: "0 < n \<Longrightarrow> hd (dec_nat n) \<noteq> CHR ''0''"
proof (induction n rule: dec_nat.induct)
  case (1 n)
  show ?case
  proof (cases "n < 10")
    case True
    with 1(2) show ?thesis by (simp add: dec_nat.simps [of n] digit_char_def char_of_eq_iff take_bit_eq_mod)
  next
    case False
    with 1(1) show ?thesis by (simp add: dec_nat.simps [of n] hd_append)
  qed
qed

lemma dec_nat_not_flag: "0 < n \<Longrightarrow> \<not> is_flag (hd (dec_nat n))"
  using dec_nat_hd_nonzero [of n] dec_nat_hd_digit [of n] by (auto simp: is_flag_def is_digit_def less_eq_char_def)

definition spec_tail :: "cspec \<Rightarrow> string" where
  "spec_tail cs = (if cs_width cs = 0 then [] else dec_nat (cs_width cs))
     @ (case cs_prec cs of None \<Rightarrow> [] | Some k \<Rightarrow> CHR ''.'' # dec_nat k)"

lemma spec_str_split: "spec_str cs = cs_flags cs @ spec_tail cs"
  by (simp add: spec_str_def spec_tail_def)

lemma tail_no_flag:
  assumes "r = [] \<or> \<not> is_flag (hd r)"
  shows "spec_tail cs @ r = [] \<or> \<not> is_flag (hd (spec_tail cs @ r))"
proof (cases "cs_width cs = 0")
  case True
  with assms show ?thesis by (cases "cs_prec cs") (auto simp: spec_tail_def is_flag_def)
next
  case False
  then have "spec_tail cs \<noteq> [] \<and> hd (spec_tail cs) = hd (dec_nat (cs_width cs))" by (simp add: spec_tail_def)
  with False dec_nat_not_flag [of "cs_width cs"] show ?thesis by (simp add: hd_append)
qed

lemma digits_dec: "list_all is_digit (dec_nat n)"
  by (rule dec_nat_digits)

lemma width_part:
  assumes "r = [] \<or> \<not> is_digit (hd r)"
  shows "takeWhile is_digit ((if w = 0 then [] else dec_nat w) @ r) = (if w = 0 then [] else dec_nat w)"
    "dropWhile is_digit ((if w = 0 then [] else dec_nat w) @ r) = r"
  using takeWhile_all_stop [of is_digit "if w = 0 then [] else dec_nat w" r]
    dropWhile_all_stop [of is_digit "if w = 0 then [] else dec_nat w" r] assms by (simp_all add: digits_dec)

text \<open>The two readings of a conversion, by the interpreter and by \<open>snprintf\<close>.\<close>

lemma spec_span_str:
  assumes "cspec_ok cs" "\<not> is_flag c" "\<not> is_digit c" "c \<noteq> CHR ''.''"
  shows "spec_span (spec_str cs @ c # r) = (spec_str cs, c # r)"
proof -
  have f: "takeWhile is_flag (spec_str cs @ c # r) = cs_flags cs" "dropWhile is_flag (spec_str cs @ c # r) = spec_tail cs @ c # r"
    using assms(1) tail_no_flag [of "c # r" cs] assms(2)
      takeWhile_all_stop [of is_flag "cs_flags cs" "spec_tail cs @ c # r"]
      dropWhile_all_stop [of is_flag "cs_flags cs" "spec_tail cs @ c # r"]
    by (auto simp: cspec_ok_def spec_str_split)
  have len: "length (spec_str cs) \<le> 19" using assms(1) by (simp add: cspec_ok_def)
  show ?thesis
  proof (cases "cs_prec cs")
    case None
    then show ?thesis
      using width_part [of "c # r" "cs_width cs"] f assms(3,4) len
      by (simp add: spec_span_def Let_def hd_nul_def spec_str_split) (simp add: spec_tail_def)
  next
    case (Some k)
    have d: "\<not> is_digit CHR ''.''" by (simp add: is_digit_def less_eq_char_def)
    have "takeWhile is_digit (dec_nat k @ c # r) = dec_nat k" "dropWhile is_digit (dec_nat k @ c # r) = c # r"
      using takeWhile_all_stop [OF digits_dec, of "c # r" k] dropWhile_all_stop [OF digits_dec, of "c # r" k] assms(3)
      by auto
    then show ?thesis
      using width_part [of "CHR ''.'' # dec_nat k @ c # r" "cs_width cs"] f len d Some
      by (simp add: spec_span_def Let_def hd_nul_def spec_str_split) (simp add: spec_tail_def)
  qed
qed

lemma spec_tail_parts:
  "takeWhile is_digit (spec_tail cs) = (if cs_width cs = 0 then [] else dec_nat (cs_width cs))"
  "dropWhile is_digit (spec_tail cs) = (case cs_prec cs of None \<Rightarrow> [] | Some k \<Rightarrow> CHR ''.'' # dec_nat k)"
proof -
  let ?r = "case cs_prec cs of None \<Rightarrow> [] | Some k \<Rightarrow> CHR ''.'' # dec_nat k"
  have "?r = [] \<or> \<not> is_digit (hd ?r)" by (simp add: is_digit_def less_eq_char_def split: option.splits)
  from width_part [OF this, of "cs_width cs"]
  show "takeWhile is_digit (spec_tail cs) = (if cs_width cs = 0 then [] else dec_nat (cs_width cs))"
    "dropWhile is_digit (spec_tail cs) = ?r"
    by (simp_all only: spec_tail_def)
qed

lemma read_spec_str:
  assumes "list_all is_flag (cs_flags cs)"
  shows "read_spec (spec_str cs) = cs"
proof -
  have f: "takeWhile is_flag (spec_str cs) = cs_flags cs" "dropWhile is_flag (spec_str cs) = spec_tail cs"
    using assms tail_no_flag [of "[]" cs]
      takeWhile_all_stop [of is_flag "cs_flags cs" "spec_tail cs"]
      dropWhile_all_stop [of is_flag "cs_flags cs" "spec_tail cs"]
    by (auto simp: spec_str_split)
  have w: "dec_value (if cs_width cs = 0 then [] else dec_nat (cs_width cs)) = cs_width cs"
    by (simp add: dec_value_def [of "[]"])
  have d: "takeWhile is_digit (dec_nat k) = dec_nat k" for k
    using digits_dec [of k] by (simp add: list_all_iff takeWhile_eq_all_conv)
  show ?thesis
    unfolding read_spec_def Let_def f spec_tail_parts w
    by (intro cspec.equality) (simp_all add: hd_nul_def d split: option.split)
qed
text \<open>The whole text of a format.\<close>

definition ftext where
  "ftext strs ffmt args p = rbind (texts strs ffmt args p) (\<lambda>ts. Inr (concat ts))"

lemma ftext_Nil [simp]: "ftext strs ffmt args [] = Inr []"
  by (simp add: ftext_def)

lemma ftext_char:
  assumes "c \<noteq> CHR ''%''"
  shows "ftext strs ffmt args (c # p) = rbind (ftext strs ffmt args p) (\<lambda>t. Inr (c # t))"
proof (cases p)
  case Nil
  with assms show ?thesis by (simp add: ftext_def texts.simps(2))
next
  case (Cons d p')
  show ?thesis
  proof (cases "d = CHR ''%''")
    case True
    with assms Cons show ?thesis by (simp add: ftext_def texts.simps(2) [of _ _ _ c] rbind_assoc)
  next
    case False
    with assms Cons show ?thesis by (simp add: ftext_def texts.simps(2) rbind_assoc)
  qed
qed

lemma ftext_lit:
  "CHR ''%'' \<notin> set s \<Longrightarrow> ftext strs ffmt args (s @ p) = rbind (ftext strs ffmt args p) (\<lambda>t. Inr (s @ t))"
  by (induction s) (auto simp: ftext_char rbind_assoc rbind_def split: sum.split)

lemma ftext_pct: "ftext strs ffmt args (''%%'' @ p) = rbind (ftext strs ffmt args p) (\<lambda>t. Inr (''%'' @ t))"
  by (simp add: ftext_def texts.simps(2) hd_nul_def rbind_assoc)

lemma ftext_conv:
  assumes "spec_span p = (spec, c # q)" "hd_nul p \<noteq> CHR ''%''" "conv_emit strs ffmt spec c a = Inr t"
  shows "ftext strs ffmt (a # args) (CHR ''%'' # p) = rbind (ftext strs ffmt args q) (\<lambda>u. Inr (t @ u))"
  using assms by (simp add: ftext_def texts.simps(2) rbind_assoc)

lemma spec_str_hd: "cspec_ok cs \<Longrightarrow> c \<noteq> CHR ''%'' \<Longrightarrow> hd_nul (spec_str cs @ c # q) \<noteq> CHR ''%''"
proof -
  assume a: "cspec_ok cs" "c \<noteq> CHR ''%''"
  have pct: "\<not> is_flag CHR ''%''" "\<not> is_digit CHR ''%''"
    by (simp_all add: is_flag_def is_digit_def less_eq_char_def)
  have "CHR ''%'' \<notin> set (dec_nat n)" for n using digits_dec [of n] pct(2) by (auto simp: list_all_iff)
  moreover have "CHR ''%'' \<notin> set (cs_flags cs)" using a(1) pct(1) by (auto simp: cspec_ok_def list_all_iff)
  ultimately have "CHR ''%'' \<notin> set (spec_str cs)" by (simp add: spec_str_def split: option.split)
  with a(2) show ?thesis by (cases "spec_str cs") (auto simp: hd_nul_def)
qed

lemma ftext_spec:
  assumes "cspec_ok cs" "c \<in> set ''duxXos''" "conv_emit strs ffmt (spec_str cs) c a = Inr t"
  shows "ftext strs ffmt (a # args) (CHR ''%'' # spec_str cs @ c # q) = rbind (ftext strs ffmt args q) (\<lambda>u. Inr (t @ u))"
proof (rule ftext_conv [OF spec_span_str spec_str_hd assms(3)])
  have "c \<noteq> CHR ''%'' \<and> \<not> is_flag c \<and> \<not> is_digit c \<and> c \<noteq> CHR ''.''"
    using assms(2) by (auto simp: is_flag_def is_digit_def less_eq_char_def)
  then show "c \<noteq> CHR ''%''" "\<not> is_flag c" "\<not> is_digit c" "c \<noteq> CHR ''.''" by auto
qed (rule assms)+

lemma ftext_plain:
  assumes "c \<in> set ''pcs''" "conv_emit strs ffmt [] c a = Inr t"
  shows "ftext strs ffmt (a # args) (CHR ''%'' # c # q) = rbind (ftext strs ffmt args q) (\<lambda>u. Inr (t @ u))"
proof (rule ftext_conv [OF _ _ assms(2)])
  show "spec_span (c # q) = ([], c # q)" "hd_nul (c # q) \<noteq> CHR ''%''"
    using assms(1) by (auto simp: spec_span_def hd_nul_def is_flag_def is_digit_def less_eq_char_def Let_def)
qed

lemma fits_out_id: "length s < 512 \<Longrightarrow> fits_out s = s"
  by (simp add: fits_out_def out_size_def)

lemma conv_num:
  assumes "cspec_ok cs"
  shows "length (signed_text cs a) < 512 \<Longrightarrow> conv_emit strs ffmt (spec_str cs) CHR ''d'' a = Inr (signed_text cs a)"
    "length (num_text cs [] (dec_nat (unat a))) < 512 \<Longrightarrow>
       conv_emit strs ffmt (spec_str cs) CHR ''u'' a = Inr (num_text cs [] (dec_nat (unat a)))"
    "length (num_text cs [] (radix_text False 8 (unat a))) < 512 \<Longrightarrow>
       conv_emit strs ffmt (spec_str cs) CHR ''o'' a = Inr (num_text cs [] (radix_text False 8 (unat a)))"
    "length (num_text cs [] (radix_text up 16 (unat a))) < 512 \<Longrightarrow>
       conv_emit strs ffmt (spec_str cs) (if up then CHR ''X'' else CHR ''x'') a
         = Inr (num_text cs [] (radix_text up 16 (unat a)))"
  using assms by (cases up; simp add: cspec_ok_def conv_emit_def Let_def read_spec_str fits_out_id)+

lemma radix_nonempty: "Suc 0 - length (radix_text up b n) = 0"
  by (subst radix_text.simps) simp

lemma piece_step:
  assumes "piece_ok strs x"
  shows "ftext strs ffmt (piece_args x @ args) (piece_fmt x @ p) = rbind (ftext strs ffmt args p) (\<lambda>t. Inr (piece_text x @ t))"
proof (cases x)
  case (PHex up cs a)
  with assms have ok: "cspec_ok cs" "length (num_text cs [] (radix_text up 16 (unat a))) < 512" by auto
  have "(if up then CHR ''X'' else CHR ''x'') \<in> set ''duxXos''" by simp
  from ftext_spec [OF ok(1) this conv_num(4) [OF ok]] PHex show ?thesis by (cases up) simp_all
next
  case (PPadStr cs a s)
  with assms have "conv_emit strs ffmt (spec_str cs) CHR ''s'' a = Inr (str_text cs s)"
    by (simp add: conv_emit_def cspec_ok_def Let_def read_spec_str not_le)
  with ftext_spec [of cs "CHR ''s''" strs ffmt a] PPadStr assms show ?thesis by simp
next
  case (PPtr a)
  have "conv_emit strs ffmt [] CHR ''p'' a = Inr (piece_text x)"
    by (simp add: PPtr conv_emit_def Let_def num_text_def radix_nonempty)
  with PPtr show ?thesis by (simp add: ftext_plain)
next
  case (PChars s)
  with assms have "conv_emit strs ffmt [] CHR ''c'' (pack s) = Inr s"
    by (simp add: conv_emit_def Let_def unpack_pack buf_str_id)
  with PChars show ?thesis by (simp add: ftext_plain)
next
  case (PStr a s)
  with assms have "conv_emit strs ffmt [] CHR ''s'' a = Inr s" by (simp add: conv_emit_def Let_def)
  with PStr show ?thesis by (simp add: ftext_plain)
qed (use assms ftext_pct [of strs ffmt args p] in \<open>simp_all add: ftext_lit ftext_spec conv_num\<close>)
lemma Print_ftext:
  "ftext strs ffmt args p = Inr t \<Longrightarrow> Print can strs ffmt (Some p) args out = Inr (out @ t)"
  by (auto simp: ftext_def rbind_eq_Inr Print_def format_opt_def hc_format_eq puts_stdout stdout_sink_def)



lemma unat_below: "unat (a :: i64) < 2 ^ 64"
  by (rule order_less_le_trans [OF unsigned_less]) simp

lemma unpack_length: "length (unpack n v) \<le> n"
  by (induction n v rule: unpack.induct) auto

lemma radix16_length: "n < 16 ^ k \<Longrightarrow> 0 < k \<Longrightarrow> length (radix_text up 16 n) \<le> k"
proof (induction k arbitrary: n)
  case (Suc k)
  show ?case
  proof (cases "n < 16")
    case False
    then have "0 < k" using Suc.prems by (cases k) auto
    moreover have "n div 16 < 16 ^ k" using Suc.prems by (simp add: less_mult_imp_div_less mult.commute)
    ultimately show ?thesis using Suc.IH False by (simp add: radix_text.simps [of up 16 n])
  qed (simp add: radix_text.simps)
qed simp

text \<open>The interpreter stays inside its buffers: it keeps at most 19 characters of a conversion, so
  the specification it completes, with percent sign, length modifier and terminator, fits in 32
  bytes, and every text it emits from \<open>out\<close> fits there with its terminator. Only a string
  conversion emits more.\<close>
theorem format_buffers_bounded:
  assumes "spec_span p = (spec, c # q)" "conv_emit strs ffmt spec c a = Inr t" "c \<noteq> CHR ''s''"
  shows "1 + length spec + length ''lld'' + 1 \<le> 32 \<and> length t < out_size \<and> length (c # q) \<le> length p"
proof -
  have "length spec \<le> 19" using assms(1) by (auto simp: spec_span_def Let_def split: if_split_asm)
  moreover have "length (c # q) \<le> length p" using spec_span_length [of p] assms(1) by simp
  moreover have fo: "length (fits_out s) < out_size" for s by (simp add: fits_out_def out_size_def)
  moreover have uo: "length (buf_str (unpack 8 a)) < out_size"
  proof -
    have "length (buf_str (unpack 8 a)) \<le> length (unpack 8 a)" unfolding buf_str_def by (rule length_takeWhile_le)
    with unpack_length [of 8 a] show ?thesis by (simp add: out_size_def)
  qed
  moreover have po: "length (num_text \<lparr>cs_flags = ''0'', cs_width = 16, cs_prec = None\<rparr> [] (radix_text True 16 (unat a))) < out_size"
    using radix16_length [of "unat a" 16 True] unat_below [of a] radix_nonempty [of True 16 "unat a"]
    by (simp add: num_text_def Let_def out_size_def)
  moreover from assms(2) have "length t < out_size"
    by (cases rule: conv_emit_cases) (use assms(3) fo uo po in \<open>auto simp: out_size_def\<close>)
  ultimately show ?thesis by simp
qed

theorem format_buffers_bounded_witness:
  "1 + length ''+'' + length ''lld'' + 1 \<le> 32 \<and> length ''+7'' < out_size \<and> length ''d;'' \<le> length ''+d;''"
proof (rule format_buffers_bounded [where strs = "\<lambda>_. None" and ffmt = "\<lambda>_ _. None" and a = 7 and q = "'';''"])
  show "spec_span ''+d;'' = (''+'', ''d;'')"
    by (simp add: spec_span_def is_flag_def is_digit_def less_eq_char_def hd_nul_def)
  have "dec_nat 7 = ''7''" by (simp add: dec_nat.simps digit_char_def char_of_eq_iff)
  then show "conv_emit (\<lambda>_. None) (\<lambda>_ _. None) ''+'' CHR ''d'' 7 = Inr ''+7''"
    by (simp add: conv_emit_def read_spec_def spec_ok_def is_flag_def hd_nul_def
        dec_value_def signed_text_def num_text_def pad_to_def Let_def fits_out_def out_size_def)
qed simp

section \<open>Reading lines\<close>

lemma fgets_text_line:
  "chr_nl \<notin> set l \<Longrightarrow> length l < n \<Longrightarrow> fgets_text n (l @ chr_nl # r) = l @ [chr_nl]"
proof (induction l arbitrary: n)
  case Nil
  then show ?case by (cases n) auto
next
  case (Cons c l)
  then show ?case by (cases n) auto
qed

lemma fgets_text_long:
  "chr_nl \<notin> set l \<Longrightarrow> fgets_text (length l) (l @ r) = l"
  by (induction l) auto

definition line_ok :: "string \<Rightarrow> bool" where
  "line_ok l \<longleftrightarrow> chr_nl \<notin> set l \<and> chr_nul \<notin> set l \<and> length l < 4095"

lemma get_line_line:
  assumes "line_ok l"
  shows "get_line (l @ chr_nl # r) = (l, r)"
proof -
  have "fgets 4096 (l @ chr_nl # r) = Some (l @ [chr_nl], r)"
    using assms fgets_text_line [of l 4095 r] by (simp add: fgets_def line_ok_def Let_def)
  moreover have "buf_str (l @ [chr_nl]) = l @ [chr_nl]"
    using assms by (intro buf_str_id) (auto simp: line_ok_def)
  ultimately show ?thesis by (simp add: get_line_def)
qed

lemma get_line_last:
  assumes "line_ok l"
  shows "get_line l = (l, [])"
proof (cases "l = []")
  case False
  have "fgets_text n l = l" if "chr_nl \<notin> set l" "length l \<le> n" for n and l :: string
    using that by (induction l arbitrary: n) (case_tac [!] n; auto)+
  then have "fgets 4096 l = Some (l, [])" using assms False by (simp add: fgets_def line_ok_def Let_def)
  moreover have "last l \<noteq> chr_nl" using assms False last_in_set [of l] by (metis line_ok_def)
  ultimately show ?thesis using assms by (simp add: get_line_def buf_str_id line_ok_def)
qed (simp add: get_line_def fgets_def)

text \<open>Successive calls.\<close>

fun get_lines :: "nat \<Rightarrow> string \<Rightarrow> string list" where
  "get_lines 0 inp = []"
| "get_lines (Suc n) inp = (let (l, r) = get_line inp in l # get_lines n r)"

text \<open>\<open>GetStr\<close> reads lines back: successive calls return the lines an input was written from, without
  their newlines and the last one with or without it, as long as each is shorter than the buffer.\<close>
theorem getstr_reads_lines:
  assumes "list_all line_ok ls" "line_ok l"
  shows "get_lines (length ls + 1) (concat (map (\<lambda>l. l @ [chr_nl]) ls) @ l) = ls @ [l]"
  using assms by (induction ls) (simp_all add: get_line_line get_line_last)

theorem getstr_reads_lines_witness:
  "get_lines 3 (''ab'' @ [chr_nl] @ [chr_nl] @ ''c'') = [''ab'', [], ''c'']"
  using getstr_reads_lines [of "[''ab'', []]" "''c''"] by (simp add: line_ok_def numeral_3_eq_3)
section \<open>Joining\<close>

lemma MStrPrint_block:
  assumes "MStrPrint pick can strs ffmt fmt args h = Inr (s, h1)" "str_at h1 s = Some t" "length t < 2 ^ 62"
  shows "s \<noteq> 0 \<and> block_at h s = None \<and> (\<forall>q. q \<noteq> s \<longrightarrow> block_at h1 q = block_at h q)"
proof -
  obtain u where u: "StrNew pick h (Some u) = Inr (s, h1)" "chr_nul \<notin> set u"
    using assms(1) by (auto simp: MStrPrint_def rbind_eq_Inr buf_str_no_nul split: if_splits)
  have fresh: "s \<noteq> 0" "block_at h s = None" and frame: "\<forall>q. q \<noteq> s \<longrightarrow> block_at h1 q = block_at h q"
    using StrNew_frame [OF u(1)] by auto
  then show ?thesis by simp
qed

text \<open>\<open>StrPrintJoin\<close> moves: the result is a block with the old text followed by the formatted one,
  the old block and the temporary one are released, and no other block changes.\<close>
theorem StrPrintJoin_moves:
  assumes "StrPrintJoin pick can strs ffmt dst fmt args h = Inr (r, h')" "dst \<noteq> 0" "str_at h dst = Some d"
    "MStrPrint pick can strs ffmt fmt args h = Inr (s, h1)" "str_at h1 s = Some t" "length d + length t < 2 ^ 62"
  shows "str_at h' r = Some (d @ t) \<and> block_at h' dst = None \<and> block_at h' s = block_at h s
    \<and> (\<forall>q. q \<noteq> r \<and> q \<noteq> dst \<longrightarrow> block_at h' q = block_at h q)"
proof -
  let ?n = "word_of_nat (length d) + word_of_nat (length t) + 1 :: i64"
  have n: "?n = word_of_nat (length (d @ t)) + 1" by simp
  have len: "unat ?n = length (d @ t) + 1" "\<not> ?n <s 0"
    using size_of_string [of "d @ t"] assms(6) unfolding n by simp_all
  have s: "s \<noteq> 0" "block_at h s = None" "\<And>q. q \<noteq> s \<Longrightarrow> block_at h1 q = block_at h q"
    using MStrPrint_block [OF assms(4,5)] assms(6) by auto
  have "dst \<noteq> s" using s(2) str_at_nonnull [OF assms(3)] by auto
  have d1: "str_at h1 dst = Some d" using s(3) [OF \<open>dst \<noteq> s\<close>] assms(3) by (simp add: str_at_def block_at_def)
  obtain h2 where m: "MAlloc pick h1 ?n = Inr (r, h2)"
    using assms(1,2,4,5) d1
    by (auto simp: StrPrintJoin_def rbind_eq_Inr Let_def split: option.splits if_split_asm)
  then have b: "h2 (r - 16) = Some (?n, replicate (unat ?n) None)"
    using len by (auto simp: MAlloc_Inr)
  have fr: "\<And>q. q \<noteq> r \<Longrightarrow> block_at h2 q = block_at h1 q" by (rule rt.alloc_frame [OF m])
  have "r \<noteq> 0" "block_at h1 r = None" using rt.alloc_fresh [OF m] by auto
  then have ne: "r \<noteq> dst" "r \<noteq> s"
    using str_at_nonnull [OF d1] str_at_nonnull [OF assms(5)] by auto
  let ?h3 = "h2(r - 16 \<mapsto> (?n, map Some (d @ t @ [chr_nul])))"
  have h': "h' = ?h3(dst - 16 := None, s - 16 := None)"
    using assms(1,2,4,5) d1 m b len s(1)
    by (auto simp: StrPrintJoin_def rbind_eq_Inr Let_def Free_def split: if_split_asm)
  have nul: "chr_nul \<notin> set (d @ t)"
    using assms(3,5) by (auto simp: str_at_def dest!: c_str_no_nul split: option.splits)
  have "str_at h' r = Some (d @ t)"
    using h' ne c_str_append [OF nul, of "[]"] by (simp add: str_at_def)
  moreover have "block_at h' q = block_at h q" if "q \<noteq> r" "q \<noteq> dst" for q
    using h' that fr [OF that(1)] s(2,3) by (cases "q = s") (auto simp: block_at_def)
  ultimately show ?thesis using h' ne \<open>dst \<noteq> s\<close> s(2) by (simp add: block_at_def)
qed
definition demo_pick :: pickf where
  "demo_pick h n = (if h 100 = None then Some 100 else if h 200 = None then Some 200 else Some 300)"

definition demo_heap :: heap where
  "demo_heap = [100 \<mapsto> (3, [Some CHR ''a'', Some CHR ''b'', Some chr_nul])]"

lemma demo_mstrprint:
  "MStrPrint demo_pick (\<lambda>_. True) (\<lambda>_. None) (\<lambda>_ _. None) (Some ''c'') [] demo_heap
     = Inr (216, demo_heap(200 \<mapsto> (2, [Some CHR ''c'', Some chr_nul])))"
  by (simp add: MStrPrint_def format_opt_def hc_format.simps(2) hc_emit_def ho_text_def buf_str_def StrNew_def
      or_empty_def Let_def MAlloc_def malloc_def demo_pick_def demo_heap_def word_sless_alt)

lemma demo_join:
  "StrPrintJoin demo_pick (\<lambda>_. True) (\<lambda>_. None) (\<lambda>_ _. None) 116 (Some ''c'') [] demo_heap
     = Inr (316, (demo_heap(200 \<mapsto> (2, [Some CHR ''c'', Some chr_nul]),
         300 \<mapsto> (4, [Some CHR ''a'', Some CHR ''b'', Some CHR ''c'', Some chr_nul])))(100 := None, 200 := None))"
  unfolding StrPrintJoin_def demo_mstrprint
  by (simp add: str_at_def MAlloc_def malloc_def demo_pick_def demo_heap_def word_sless_alt Free_def Let_def)

theorem StrPrintJoin_moves_witness:
  "str_at ((demo_heap(200 \<mapsto> (2, [Some CHR ''c'', Some chr_nul]),
         300 \<mapsto> (4, [Some CHR ''a'', Some CHR ''b'', Some CHR ''c'', Some chr_nul])))(100 := None, 200 := None)) 316
    = Some ''abc''"
  using StrPrintJoin_moves [OF demo_join _ _ demo_mstrprint, of "''ab''" "''c''"]
  by (simp add: str_at_def demo_heap_def)

end
