(* ===== verification/RtTask.thy ===== *)
theory RtTask
  imports RtPrint
begin

text \<open>
  Exceptions and program start-up of \<open>src/runtime/rt.c\<close> (the build with exceptions): the stack of
  \<open>try\<close> frames, \<open>throw\<close> and the text of an exception code, and the list of module start
  functions \<open>main\<close> runs. A saved \<open>jmp_buf\<close> is a value of the type \<open>'k\<close> of the places
  \<open>longjmp\<close> can resume at.
\<close>

section \<open>Try frames\<close>

text \<open>\<open>ts_frames\<close> is the array \<open>hc_frames\<close>; \<open>setjmp\<close> stores into the entry \<open>__hc_try_push\<close>
  returned.\<close>

record 'k task =
  ts_except :: i64
  ts_catch :: i64
  ts_ntry :: int
  ts_frames :: "int \<Rightarrow> 'k"

definition try_max :: int where "try_max = 256"

definition hc_try_push :: "'k task \<Rightarrow> (int \<times> 'k task) res" where
  "hc_try_push t =
     (if ts_ntry t \<ge> try_max then Inl (Err ''aholyc-rt: try nesting too deep'')
      else Inr (ts_ntry t, t\<lparr>ts_ntry := ts_ntry t + 1\<rparr>))"

definition setjmp_at :: "int \<Rightarrow> 'k \<Rightarrow> 'k task \<Rightarrow> 'k task" where
  "setjmp_at i k t = t\<lparr>ts_frames := (ts_frames t)(i := k)\<rparr>"

definition hc_try_pop :: "'k task \<Rightarrow> 'k task" where
  "hc_try_pop t = t\<lparr>ts_ntry := ts_ntry t - 1\<rparr>"

definition PutExcept :: "i64 \<Rightarrow> string \<Rightarrow> 'k task \<Rightarrow> string \<Rightarrow> string \<times> 'k task" where
  "PutExcept v text t out = (out @ ''Except:'' @ text @ [chr_nl], t\<lparr>ts_catch := v\<rparr>)"

text \<open>The text of a code: its characters when the first is there and all up to the first zero
  byte are printable ASCII, else its value. The bytes are those of the value in memory, low byte
  first.\<close>

fun i64_bytes :: "nat \<Rightarrow> i64 \<Rightarrow> string" where
  "i64_bytes 0 v = []"
| "i64_bytes (Suc n) v = char_of (unat (v AND 0xff)) # i64_bytes n (drop_bit 8 v)"

definition printable :: "char \<Rightarrow> bool" where
  "printable c \<longleftrightarrow> \<not> ((of_char c :: nat) < 0x20 \<or> 0x7f \<le> (of_char c :: nat))"

definition hc_except_str :: "i64 \<Rightarrow> string" where
  "hc_except_str ch =
     (let chars = i64_bytes 8 ch
      in if hd chars \<noteq> chr_nul \<and> list_all printable (buf_str chars) then buf_str chars
         else take 23 (''0x'' @ radix_text True 16 (unat ch)))"

text \<open>\<open>throw\<close> never returns: it resumes at the innermost frame, or ends the program with a
  message.\<close>

datatype 'k thrown = Resume 'k | Unhandled string

definition throw :: "i64 \<Rightarrow> 'k task \<Rightarrow> 'k thrown \<times> 'k task" where
  "throw ch t =
     (let t1 = t\<lparr>ts_except := ch, ts_catch := 0\<rparr>
      in if ts_ntry t1 > 0
         then (let t2 = t1\<lparr>ts_ntry := ts_ntry t1 - 1\<rparr> in (Resume (ts_frames t2 (ts_ntry t2)), t2))
         else (Unhandled (''Unhandled Exception '' @ sq (hc_except_str ch) @ [chr_nl]), t1))"

section \<open>The frames are a stack\<close>

definition frame_stack :: "'k task \<Rightarrow> 'k list" where
  "frame_stack t = map (\<lambda>i. ts_frames t (ts_ntry t - 1 - int i)) [0 ..< nat (ts_ntry t)]"

definition task_inv :: "'k task \<Rightarrow> bool" where
  "task_inv t \<longleftrightarrow> 0 \<le> ts_ntry t \<and> ts_ntry t \<le> try_max"

lemma frame_stack_Cons:
  "0 \<le> ts_ntry t \<Longrightarrow> frame_stack (t\<lparr>ts_ntry := ts_ntry t + 1, ts_frames := (ts_frames t)(ts_ntry t := k)\<rparr>) = k # frame_stack t"
proof -
  assume n: "0 \<le> ts_ntry t"
  then have "nat (ts_ntry t + 1) = Suc (nat (ts_ntry t))" by simp
  moreover have "[0 ..< Suc m] = 0 # map Suc [0 ..< m]" for m by (simp add: map_Suc_upt upt_conv_Cons)
  ultimately show ?thesis using n by (simp add: frame_stack_def del: upt_Suc) (auto simp: algebra_simps)
qed

lemma frame_stack_pop:
  "0 < ts_ntry t \<Longrightarrow> frame_stack t = ts_frames t (ts_ntry t - 1) # frame_stack (t\<lparr>ts_ntry := ts_ntry t - 1\<rparr>)"
  using frame_stack_Cons [of "t\<lparr>ts_ntry := ts_ntry t - 1\<rparr>" "ts_frames t (ts_ntry t - 1)"] by simp

text \<open>C33: The frame array is a stack of at most 256 handlers. Entering a \<open>try\<close> pushes its handler or
  ends the program when 256 are open, leaving it removes the innermost one, and \<open>throw\<close> takes the
  innermost handler off the stack, resumes there with the code in the task and the catch flag
  clear, and ends the program only when there is none.\<close>
theorem frames_are_a_stack:
  assumes "task_inv t"
  shows "(case hc_try_push t of
       Inl e \<Rightarrow> length (frame_stack t) = 256
     | Inr (i, t') \<Rightarrow> frame_stack (setjmp_at i k t') = k # frame_stack t \<and> task_inv (setjmp_at i k t'))
    \<and> (frame_stack t \<noteq> [] \<longrightarrow> frame_stack (hc_try_pop t) = tl (frame_stack t) \<and> task_inv (hc_try_pop t))
    \<and> (let (r, t') = throw c t in ts_except t' = c \<and> ts_catch t' = 0 \<and> task_inv t' \<and>
        (case frame_stack t of
           [] \<Rightarrow> (\<exists>m. r = Unhandled m) \<and> frame_stack t' = []
         | h # hs \<Rightarrow> r = Resume h \<and> frame_stack t' = hs))"
proof (intro conjI)
  show "case hc_try_push t of
       Inl e \<Rightarrow> length (frame_stack t) = 256
     | Inr (i, t') \<Rightarrow> frame_stack (setjmp_at i k t') = k # frame_stack t \<and> task_inv (setjmp_at i k t')"
  proof (cases "ts_ntry t \<ge> try_max")
    case True
    with assms show ?thesis by (simp add: hc_try_push_def task_inv_def try_max_def frame_stack_def)
  next
    case False
    with assms frame_stack_Cons [of t k] show ?thesis by (simp add: hc_try_push_def setjmp_at_def task_inv_def)
  qed
  have pos: "frame_stack t \<noteq> [] \<longleftrightarrow> 0 < ts_ntry t" by (auto simp: frame_stack_def)
  show "frame_stack t \<noteq> [] \<longrightarrow> frame_stack (hc_try_pop t) = tl (frame_stack t) \<and> task_inv (hc_try_pop t)"
    using assms frame_stack_pop [of t] by (auto simp: pos hc_try_pop_def task_inv_def)
  show "let (r, t') = throw c t in ts_except t' = c \<and> ts_catch t' = 0 \<and> task_inv t' \<and>
        (case frame_stack t of
           [] \<Rightarrow> (\<exists>m. r = Unhandled m) \<and> frame_stack t' = []
         | h # hs \<Rightarrow> r = Resume h \<and> frame_stack t' = hs)"
  proof (cases "0 < ts_ntry t")
    case True
    have same: "frame_stack (t\<lparr>ts_except := c, ts_catch := 0, ts_ntry := n\<rparr>) = frame_stack (t\<lparr>ts_ntry := n\<rparr>)" for n
      by (simp add: frame_stack_def)
    show ?thesis using True assms frame_stack_pop [OF True] same by (simp add: throw_def Let_def task_inv_def)
  next
    case False
    then have "frame_stack t = []" "ts_ntry t = 0" using assms pos by (auto simp: task_inv_def)
    then show ?thesis by (simp add: throw_def Let_def task_inv_def try_max_def frame_stack_def)
  qed
qed

definition demo_task :: "nat task" where
  "demo_task = \<lparr>ts_except = 0, ts_catch = 1, ts_ntry = 2, ts_frames = (\<lambda>i. nat i + 10)\<rparr>"

theorem frames_are_a_stack_witness:
  "fst (throw 5 demo_task) = Resume 11 \<and> frame_stack (snd (throw 5 demo_task)) = [10]"
proof -
  have "task_inv demo_task" "frame_stack demo_task = [11, 10]"
    by (simp_all add: task_inv_def demo_task_def try_max_def frame_stack_def numeral_2_eq_2)
  with frames_are_a_stack [of demo_task 7 5] show ?thesis by (auto simp: case_prod_beta)
qed
section \<open>Texts of codes\<close>

lemma i64_bytes_pack:
  assumes "length cs \<le> n" "n \<le> 8"
  shows "i64_bytes n (pack cs) = cs @ replicate (n - length cs) chr_nul"
  using assms
proof (induction n arbitrary: cs)
  case (Suc n)
  show ?case
  proof (cases cs)
    case Nil
    have "i64_bytes m 0 = replicate m chr_nul" for m by (induction m) (auto simp: char_of_eq_iff)
    with Nil show ?thesis by simp
  next
    case (Cons c ds)
    with Suc pack_low [of c ds] pack_high [of ds c] show ?thesis by (simp del: pack.simps)
  qed
qed simp

lemma buf_str_padded: "chr_nul \<notin> set cs \<Longrightarrow> buf_str (cs @ replicate k chr_nul) = cs"
  by (cases k) (simp_all add: buf_str_id buf_str_at)

lemma except_constant:
  assumes "cs \<noteq> []" "length cs \<le> 8" "list_all printable cs"
  shows "hc_except_str (pack cs) = cs"
proof -
  have nul: "chr_nul \<notin> set cs" using assms(3) by (auto simp: list_all_iff printable_def)
  have "i64_bytes 8 (pack cs) = cs @ replicate (8 - length cs) chr_nul"
    using assms(2) by (intro i64_bytes_pack) auto
  moreover have "hd (cs @ replicate (8 - length cs) chr_nul) \<noteq> chr_nul"
    using assms(1) nul by (cases cs) auto
  ultimately show ?thesis using assms(3) by (simp add: hc_except_str_def Let_def buf_str_padded nul)
qed

lemma radix16_printable: "list_all printable (radix_text up 16 n)"
proof -
  have d: "printable (radix_digit up m)" if "m < 16" for m up
    using that by (simp add: radix_digit_def printable_def)
  have "b = 16 \<Longrightarrow> list_all printable (radix_text up b n)" for b
  proof (induction up b n rule: radix_text.induct)
    case (1 up b n)
    then show ?case using d by (cases "n < 16") (simp_all add: radix_text.simps [of up 16 n])
  qed
  then show ?thesis by simp
qed

lemma i64_bytes_length: "length (i64_bytes n v) = n"
  by (induction n v rule: i64_bytes.induct) auto

text \<open>A program that throws a character constant dies with those characters in its message, and
  whatever is thrown, the text of a code is non-empty, printable and fits the 24-byte buffer with
  its terminator.\<close>
theorem except_text:
  assumes "cs \<noteq> []" "length cs \<le> 8" "list_all printable cs"
  shows "hc_except_str (pack cs) = cs
    \<and> hc_except_str ch \<noteq> [] \<and> list_all printable (hc_except_str ch) \<and> length (hc_except_str ch) < 24"
proof (intro conjI)
  show "hc_except_str (pack cs) = cs" by (rule except_constant [OF assms])
  let ?b = "i64_bytes 8 ch"
  have len: "length (buf_str ?b) \<le> 8" using length_takeWhile_le [of _ ?b] by (simp add: buf_str_def i64_bytes_length)
  have pr: "printable CHR ''0'' \<and> printable CHR ''x''" by (simp add: printable_def)
  show "length (hc_except_str ch) < 24" using len by (auto simp: hc_except_str_def Let_def min_def)
  show "hc_except_str ch \<noteq> []"
  proof (cases ?b)
    case (Cons x xs)
    then show ?thesis by (simp add: hc_except_str_def Let_def buf_str_def)
  qed (use i64_bytes_length [of 8 ch] in simp)
  have "list_all printable (''0x'' @ radix_text True 16 (unat ch))"
    using radix16_printable [of True "unat ch"] pr by simp
  then have "list_all printable (take k (''0x'' @ radix_text True 16 (unat ch)))" for k
    unfolding list_all_iff by (metis in_set_takeD)
  then show "list_all printable (hc_except_str ch)" unfolding hc_except_str_def Let_def by presburger
qed

theorem except_text_witness:
  "hc_except_str (pack ''Oops'') = ''Oops'' \<and> length (hc_except_str (-1)) < 24"
  using except_text [of "''Oops''" "-1"] by (simp add: printable_def)

section \<open>Start-up\<close>

text \<open>A start function maps the arguments, the vector's user part, and the state of the program to a
  status and a new state.\<close>

type_synonym 's starter = "string list \<Rightarrow> 's \<Rightarrow> i64 \<times> 's"

record 's starts =
  st_list :: "'s starter list"
  st_cap :: nat

text \<open>The build that is not a shared library. \<open>can\<close> says which block sizes \<open>realloc\<close> provides; a
  function pointer has 8 bytes.\<close>

definition hc_register_start :: "(nat \<Rightarrow> bool) \<Rightarrow> 's starter \<Rightarrow> 's starts \<Rightarrow> 's starts res" where
  "hc_register_start can f s =
     (if length (st_list s) \<ge> st_cap s
      then (let cap = (if st_cap s \<noteq> 0 then st_cap s * 2 else 16)
            in if \<not> realloc_ok can (cap * 8) then Inl (Err ''aholyc-rt: cannot register module startup'')
               else Inr \<lparr>st_list = st_list s @ [f], st_cap = cap\<rparr>)
      else Inr (s\<lparr>st_list := st_list s @ [f]\<rparr>))"

text \<open>\<open>argv\<close> is \<open>None\<close> for a null vector; the elements are taken up to \<open>argc\<close>. The loop keeps the
  status of the last start function; \<open>start\<close> is the program's own start symbol, if it has one.\<close>

fun run_starts :: "'s starter list \<Rightarrow> string list \<Rightarrow> i64 \<Rightarrow> 's \<Rightarrow> i64 \<times> 's" where
  "run_starts [] args status w = (status, w)"
| "run_starts (f # fs) args status w = (let (st, w') = f args w in run_starts fs args st w')"

definition rt_main :: "'s starts \<Rightarrow> 's starter option \<Rightarrow> string list option \<Rightarrow> 's \<Rightarrow> i64 \<times> 's" where
  "rt_main s start argv w =
     (let args = (case argv of None \<Rightarrow> [] | Some v \<Rightarrow> tl v);
          (status, w') = run_starts (st_list s) args 0 w
      in case start of
           Some f \<Rightarrow> (let (st, w'') = f args w' in (signed_take_bit 31 st, w''))
         | None \<Rightarrow> (signed_take_bit 31 status, w'))"

fun register_all :: "(nat \<Rightarrow> bool) \<Rightarrow> 's starter list \<Rightarrow> 's starts \<Rightarrow> 's starts res" where
  "register_all can [] s = Inr s"
| "register_all can (f # fs) s = rbind (hc_register_start can f s) (register_all can fs)"

definition starts0 :: "'s starts" where
  "starts0 = \<lparr>st_list = [], st_cap = 0\<rparr>"

lemma register_room:
  "hc_register_start can f s = Inr s' \<Longrightarrow> length (st_list s) \<le> st_cap s \<Longrightarrow>
     st_list s' = st_list s @ [f] \<and> length (st_list s') \<le> st_cap s'"
  by (auto simp: hc_register_start_def Let_def Suc_le_eq split: if_splits)

lemma register_all_list:
  "register_all can fs s = Inr s' \<Longrightarrow> length (st_list s) \<le> st_cap s \<Longrightarrow>
     st_list s' = st_list s @ fs \<and> length (st_list s') \<le> st_cap s'"
proof (induction fs arbitrary: s)
  case (Cons f fs)
  from Cons.prems(1) obtain s1 where s1: "hc_register_start can f s = Inr s1" "register_all can fs s1 = Inr s'"
    by (auto simp: rbind_eq_Inr)
  note r = register_room [OF s1(1) Cons.prems(2)]
  have "st_list s' = st_list s1 @ fs \<and> length (st_list s') \<le> st_cap s'"
    by (rule Cons.IH [OF s1(2) conjunct2 [OF r]])
  with r show ?case by (metis append.assoc append_Cons append_Nil)
qed simp

lemma run_starts_log:
  "run_starts (map (\<lambda>n args w. (g n, w @ [(n, args)])) ns) args st w
     = (if ns = [] then st else g (last ns), w @ map (\<lambda>n. (n, args)) ns)"
  by (induction ns arbitrary: st w) auto

text \<open>Start functions registered by a program's modules all fit the array, which grows as needed,
  and \<open>main\<close> runs each exactly once, in the order of registration and before the program's own
  start, with the arguments after the executable's name; the exit status is that of the last one
  run.\<close>
theorem modules_start_in_order:
  assumes "register_all can (map (\<lambda>n args w. (g n, w @ [(n, args)])) ns) starts0 = Inr s"
  shows "length (st_list s) \<le> st_cap s
    \<and> rt_main s (Some (\<lambda>args w. (v, w @ [(m, args)]))) (Some (exe # args)) []
        = (signed_take_bit 31 v, map (\<lambda>n. (n, args)) (ns @ [m]))
    \<and> rt_main s None (Some (exe # args)) []
        = (if ns = [] then 0 else signed_take_bit 31 (g (last ns)), map (\<lambda>n. (n, args)) ns)"
proof -
  have "st_list s = map (\<lambda>n args w. (g n, w @ [(n, args)])) ns" "length (st_list s) \<le> st_cap s"
    using conjunct1 [OF register_all_list [OF assms]] conjunct2 [OF register_all_list [OF assms]]
    by (simp_all add: starts0_def)
  then show ?thesis by (simp add: rt_main_def run_starts_log)
qed

theorem modules_start_in_order_witness:
  "\<exists>s. register_all (\<lambda>_. True) (map (\<lambda>n args w. (0, w @ [(n, args)])) [1, 2 :: nat]) starts0 = Inr s
     \<and> snd (rt_main s None (Some [''prog'', ''x'']) []) = [(1, [''x'']), (2, [''x''])]"
proof -
  obtain s where s: "register_all (\<lambda>_. True) (map (\<lambda>n args w. (0, w @ [(n, args)])) [1, 2 :: nat]) starts0 = Inr s"
    by (simp add: starts0_def hc_register_start_def realloc_ok_def)
  from modules_start_in_order [OF s, of 0 0 "''prog''" "[''x'']"] s show ?thesis by auto
qed

end
