(* ===== verification/RtBits.thy ===== *)
theory RtBits
  imports Prelude
begin

text \<open>
  The bit and integer functions of \<open>src/runtime/rt.c\<close>: bit fields addressed from a byte
  pointer by a signed bit offset, bit scans, population count, and the integer part of the
  math section. Memory is a function from byte addresses to bytes.
\<close>

section \<open>Bit fields\<close>

type_synonym memory = "int \<Rightarrow> u8"

text \<open>\<open>bit >> 3\<close> is an arithmetic shift of a signed value, \<open>bit & 7\<close> its low bits: the byte
  and the mask of the addressed bit.\<close>

definition hc_bitp :: "int \<Rightarrow> i64 \<Rightarrow> int \<times> u8" where
  "hc_bitp p b = (p + sint (signed_drop_bit 3 b), push_bit (unat (b AND 7)) 1)"

definition Bt :: "memory \<Rightarrow> int \<Rightarrow> i64 \<Rightarrow> i64" where
  "Bt M p b = (let (q, m) = hc_bitp p b in if M q AND m \<noteq> 0 then 1 else 0)"

definition Bts :: "memory \<Rightarrow> int \<Rightarrow> i64 \<Rightarrow> i64 \<times> memory" where
  "Bts M p b = (let (q, m) = hc_bitp p b; r = (if M q AND m \<noteq> 0 then 1 else 0) in (r, M(q := M q OR m)))"

definition Btr :: "memory \<Rightarrow> int \<Rightarrow> i64 \<Rightarrow> i64 \<times> memory" where
  "Btr M p b = (let (q, m) = hc_bitp p b; r = (if M q AND m \<noteq> 0 then 1 else 0) in (r, M(q := M q AND NOT m)))"

definition Btc :: "memory \<Rightarrow> int \<Rightarrow> i64 \<Rightarrow> i64 \<times> memory" where
  "Btc M p b = (let (q, m) = hc_bitp p b; r = (if M q AND m \<noteq> 0 then 1 else 0) in (r, M(q := M q XOR m)))"

definition BEqu :: "memory \<Rightarrow> int \<Rightarrow> i64 \<Rightarrow> i64 \<Rightarrow> i64 \<times> memory" where
  "BEqu M p b v = (if v \<noteq> 0 then Bts M p b else Btr M p b)"

text \<open>The \<open>L\<close> forms are one atomic read-modify-write each: \<open>fetch\<close> returns the old byte and
  stores the new one in a single step.\<close>

definition fetch :: "(u8 \<Rightarrow> u8) \<Rightarrow> memory \<Rightarrow> int \<Rightarrow> u8 \<times> memory" where
  "fetch f M q = (M q, M(q := f (M q)))"

definition LBts :: "memory \<Rightarrow> int \<Rightarrow> i64 \<Rightarrow> i64 \<times> memory" where
  "LBts M p b = (let (q, m) = hc_bitp p b; (old, M') = fetch (\<lambda>x. x OR m) M q
                 in (if old AND m \<noteq> 0 then 1 else 0, M'))"

definition LBtr :: "memory \<Rightarrow> int \<Rightarrow> i64 \<Rightarrow> i64 \<times> memory" where
  "LBtr M p b = (let (q, m) = hc_bitp p b; (old, M') = fetch (\<lambda>x. x AND NOT m) M q
                 in (if old AND m \<noteq> 0 then 1 else 0, M'))"

definition LBtc :: "memory \<Rightarrow> int \<Rightarrow> i64 \<Rightarrow> i64 \<times> memory" where
  "LBtc M p b = (let (q, m) = hc_bitp p b; (old, M') = fetch (\<lambda>x. x XOR m) M q
                 in (if old AND m \<noteq> 0 then 1 else 0, M'))"

definition LBEqu :: "memory \<Rightarrow> int \<Rightarrow> i64 \<Rightarrow> i64 \<Rightarrow> i64 \<times> memory" where
  "LBEqu M p b v = (if v \<noteq> 0 then LBts M p b else LBtr M p b)"

text \<open>The abstract view: an array of bits indexed by all integers, starting at \<open>p\<close>.\<close>

definition bits :: "memory \<Rightarrow> int \<Rightarrow> int \<Rightarrow> bool" where
  "bits M p i = bit (M (p + i div 8)) (nat (i mod 8))"

lemma sint_shift3: "sint (signed_drop_bit 3 (b :: i64)) = sint b div 8"
  by (simp add: sint_signed_drop_bit_eq drop_bit_eq_div)

lemma unat_and7: "unat (b AND 7 :: i64) = nat (sint b mod 8)"
proof -
  have m: "(7 :: i64) = mask 3" by (simp add: mask_eq_exp_minus_1)
  have "uint (b AND 7) = uint b mod 8"
    unfolding m by (simp only: take_bit_eq_mask [symmetric] unsigned_take_bit_eq) (simp add: take_bit_eq_mod)
  also have "\<dots> = sint b mod 8"
  proof -
    have "uint b = take_bit 64 (sint b)" using uint_word_of_int [where 'a = 64, of "sint b"] by (simp add: take_bit_eq_mod)
    then have "take_bit 3 (uint b) = take_bit 3 (sint b)" by simp
    then show ?thesis by (simp add: take_bit_eq_mod)
  qed
  finally show ?thesis by (simp add: unat_eq_nat_uint)
qed

lemma hc_bitp_view: "hc_bitp p b = (p + sint b div 8, push_bit (nat (sint b mod 8)) 1)"
  by (simp add: hc_bitp_def sint_shift3 unat_and7)

lemma bit_index8: "nat (i mod 8) < 8"
  by (simp add: nat_less_iff)

lemma and_mask_bit: "n < 8 \<Longrightarrow> (x :: u8) AND push_bit n 1 \<noteq> 0 \<longleftrightarrow> bit x n"
  proof -
  assume n: "n < 8"
  have "bit (x AND push_bit n 1) k \<longleftrightarrow> k = n \<and> bit x n" for k
    using n by (auto simp: bit_simps)
  then have "x AND push_bit n 1 = (if bit x n then push_bit n 1 else 0)"
    by (intro bit_eqI) (auto simp: bit_simps n)
  moreover have "bit (push_bit n (1 :: u8)) n" using n by (simp add: bit_simps)
  ultimately show ?thesis using n by auto
qed

lemma bit_slot:
  "i div 8 = j div 8 \<Longrightarrow> nat (i mod 8) = nat (j mod 8) \<longleftrightarrow> i = (j :: int)"
proof -
  assume d: "i div 8 = j div 8"
  have "nat (i mod 8) = nat (j mod 8) \<longleftrightarrow> i mod 8 = j mod 8" by (simp add: eq_nat_nat_iff)
  with d show ?thesis by (metis div_mult_mod_eq)
qed

text \<open>Writing one bit of one byte changes exactly one element of the array.\<close>

lemma bits_update:
  assumes "\<And>n. n < 8 \<Longrightarrow> bit x n = (if n = nat (i mod 8) then v else bit (M (p + i div 8)) n)"
  shows "bits (M(p + i div 8 := x)) p = (bits M p)(i := v)"
proof
  fix j
  show "bits (M(p + i div 8 := x)) p j = ((bits M p)(i := v)) j"
    using assms [OF bit_index8 [of j]] bit_slot [of j i] by (auto simp: bits_def)
qed

lemma set_bits:
  "bits (M(p + i div 8 := M (p + i div 8) OR push_bit (nat (i mod 8)) 1)) p = (bits M p)(i := True)"
  by (rule bits_update) (use bit_index8 [of i] in \<open>auto simp: bit_simps\<close>)

lemma reset_bits:
  "bits (M(p + i div 8 := M (p + i div 8) AND NOT (push_bit (nat (i mod 8)) 1))) p = (bits M p)(i := False)"
  by (rule bits_update) (use bit_index8 [of i] in \<open>auto simp: bit_simps\<close>)

lemma flip_bits:
  "bits (M(p + i div 8 := M (p + i div 8) XOR push_bit (nat (i mod 8)) 1)) p = (bits M p)(i := \<not> bits M p i)"
  by (rule bits_update) (use bit_index8 [of i] in \<open>auto simp: bit_simps bits_def\<close>)

lemma L_forms: "LBts = Bts" "LBtr = Btr" "LBtc = Btc" "LBEqu = BEqu"
  by (auto simp: fun_eq_iff LBts_def Bts_def LBtr_def Btr_def LBtc_def Btc_def LBEqu_def BEqu_def fetch_def Let_def)

lemma tested: "(M (p + i div 8) AND push_bit (nat (i mod 8)) 1 \<noteq> 0) = bits M p i"
  unfolding bits_def by (rule and_mask_bit [OF bit_index8])

lemma bit_ops:
  "Bt M p b = i64_of_bool (bits M p (sint b))"
  "fst (Bts M p b) = i64_of_bool (bits M p (sint b))" "bits (snd (Bts M p b)) p = (bits M p)(sint b := True)"
  "fst (Btr M p b) = i64_of_bool (bits M p (sint b))" "bits (snd (Btr M p b)) p = (bits M p)(sint b := False)"
  "fst (Btc M p b) = i64_of_bool (bits M p (sint b))" "bits (snd (Btc M p b)) p = (bits M p)(sint b := \<not> bits M p (sint b))"
  by (simp_all only: Bt_def Bts_def Btr_def Btc_def hc_bitp_view Let_def prod.case fst_conv snd_conv
      tested set_bits reset_bits flip_bits i64_of_bool_def)
section \<open>Bit arrays\<close>

text \<open>C34: Every bit operation of the runtime, atomic or not, reads and writes one element of
  the bit array that starts at \<open>p\<close> and extends in both directions: it returns the old
  element, and the array afterwards differs in that element only, which is set, cleared,
  flipped or assigned.\<close>
theorem bit_ops_refine_array:
  "Bt M p b = i64_of_bool (bits M p (sint b)) \<and>
   apsnd (\<lambda>M. bits M p) (Bts M p b) = (i64_of_bool (bits M p (sint b)), (bits M p)(sint b := True)) \<and>
   apsnd (\<lambda>M. bits M p) (Btr M p b) = (i64_of_bool (bits M p (sint b)), (bits M p)(sint b := False)) \<and>
   apsnd (\<lambda>M. bits M p) (Btc M p b) = (i64_of_bool (bits M p (sint b)), (bits M p)(sint b := \<not> bits M p (sint b))) \<and>
   apsnd (\<lambda>M. bits M p) (BEqu M p b v) = (i64_of_bool (bits M p (sint b)), (bits M p)(sint b := v \<noteq> 0)) \<and>
   LBts M p b = Bts M p b \<and> LBtr M p b = Btr M p b \<and> LBtc M p b = Btc M p b \<and> LBEqu M p b v = BEqu M p b v"
  by (auto simp: L_forms bit_ops BEqu_def prod_eq_iff)

section \<open>Test-and-set locks\<close>

text \<open>
  Threads share a lock bit. A thread that does not hold it may try \<open>LBts\<close>, and holds it
  when the old bit was 0; a holder releases with \<open>LBtr\<close>. Each step is one atomic
  operation, so a run is any interleaving of the threads' operations.
\<close>

record 't lockst =
  lk_mem :: memory
  lk_holders :: "'t set"

inductive lock_step :: "int \<Rightarrow> i64 \<Rightarrow> 't lockst \<Rightarrow> 't lockst \<Rightarrow> bool" for p b where
  acquire: "t \<notin> lk_holders s \<Longrightarrow> LBts (lk_mem s) p b = (0, M) \<Longrightarrow>
    lock_step p b s \<lparr>lk_mem = M, lk_holders = insert t (lk_holders s)\<rparr>"
| busy: "t \<notin> lk_holders s \<Longrightarrow> LBts (lk_mem s) p b = (r, M) \<Longrightarrow> r \<noteq> 0 \<Longrightarrow>
    lock_step p b s (s\<lparr>lk_mem := M\<rparr>)"
| release: "t \<in> lk_holders s \<Longrightarrow> LBtr (lk_mem s) p b = (r, M) \<Longrightarrow>
    lock_step p b s \<lparr>lk_mem = M, lk_holders = lk_holders s - {t}\<rparr>"

definition lock_inv :: "int \<Rightarrow> i64 \<Rightarrow> 't lockst \<Rightarrow> bool" where
  "lock_inv p b s \<longleftrightarrow> (if bits (lk_mem s) p (sint b) then \<exists>t. lk_holders s = {t} else lk_holders s = {})"

lemma lock_step_inv: "lock_step p b s s' \<Longrightarrow> lock_inv p b s \<Longrightarrow> lock_inv p b s'"
proof (induction rule: lock_step.induct)
  case (acquire t s M)
  then show ?case
    using bit_ops(2,3) [of "lk_mem s" p b] by (auto simp: L_forms lock_inv_def i64_of_bool_def split: if_splits)
next
  case (busy t s r M)
  then show ?case
    using bit_ops(2,3) [of "lk_mem s" p b] by (auto simp: L_forms lock_inv_def i64_of_bool_def split: if_splits)
next
  case (release t s r M)
  then show ?case
    using bit_ops(5) [of "lk_mem s" p b] by (auto simp: L_forms lock_inv_def split: if_splits)
qed

text \<open>C35: A lock built from \<open>LBts\<close> and \<open>LBtr\<close> excludes: however the threads' operations
  interleave after the bit was clear, at most one thread holds the lock, and the bit is set
  exactly while one does.\<close>
theorem lock_excludes:
  assumes "(lock_step p b)\<^sup>*\<^sup>* \<lparr>lk_mem = M, lk_holders = {}\<rparr> s" "Bt M p b = 0"
  shows "(\<forall>t u. t \<in> lk_holders s \<and> u \<in> lk_holders s \<longrightarrow> t = u) \<and> (Bt (lk_mem s) p b = 1 \<longleftrightarrow> lk_holders s \<noteq> {})"
proof -
  from assms(1) have "lock_inv p b s"
  proof (induction rule: rtranclp_induct)
    case base
    with assms(2) show ?case by (simp add: lock_inv_def bit_ops i64_of_bool_def split: if_splits)
  qed (rule lock_step_inv)
  then show ?thesis by (auto simp: lock_inv_def bit_ops i64_of_bool_def split: if_splits)
qed

lemma lock_run_example:
  "(lock_step 0 (-9))\<^sup>*\<^sup>* \<lparr>lk_mem = (\<lambda>_. 0), lk_holders = {}\<rparr>
     \<lparr>lk_mem = (\<lambda>_. 0)(-2 := 128), lk_holders = {''a''}\<rparr>"
proof -
  have "LBts (\<lambda>_. 0) 0 (-9) = (0, (\<lambda>_. 0)(-2 := 128))"
    by (simp add: L_forms Bts_def hc_bitp_view push_bit_eq_mult)
  from acquire [where t = "''a''" and s = "\<lparr>lk_mem = (\<lambda>_. 0), lk_holders = {}\<rparr>" and p = 0 and b = "-9"]
  have "lock_step 0 (-9) \<lparr>lk_mem = (\<lambda>_. 0), lk_holders = {}\<rparr>
     \<lparr>lk_mem = (\<lambda>_. 0)(-2 := 128), lk_holders = {''a''}\<rparr>"
    using \<open>LBts (\<lambda>_. 0) 0 (-9) = (0, (\<lambda>_. 0)(-2 := 128))\<close> by simp
  then show ?thesis by (rule r_into_rtranclp)
qed

theorem lock_excludes_witness: "Bt ((\<lambda>_. 0)(-2 := 128)) 0 (-9) = 1"
  using lock_excludes [OF lock_run_example] by (simp add: bit_ops bits_def i64_of_bool_def)

section \<open>Scans and counts\<close>

text \<open>The portable branches of \<open>Bsf\<close>, \<open>Bsr\<close> and \<open>BCnt\<close>; the compiler builtins of the other
  branches are documented to compute the same.\<close>

fun scan :: "i64 \<Rightarrow> nat list \<Rightarrow> i64" where
  "scan v [] = -1"
| "scan v (i # is) = (if drop_bit i v AND 1 \<noteq> 0 then of_nat i else scan v is)"

definition Bsf :: "i64 \<Rightarrow> i64" where
  "Bsf v = scan v [0 ..< 64]"

definition Bsr :: "i64 \<Rightarrow> i64" where
  "Bsr v = scan v (rev [0 ..< 64])"

function bcnt_loop :: "i64 \<Rightarrow> i64 \<Rightarrow> i64" where
  "bcnt_loop u n = (if u = 0 then n else bcnt_loop (drop_bit 1 u) (n + (u AND 1)))"
  by pat_completeness auto
termination
  by (relation "measure (\<lambda>(u, n). unat u)") (auto simp: drop_bit_Suc unat_div_distrib unat_gt_0)

declare bcnt_loop.simps [simp del]

definition BCnt :: "i64 \<Rightarrow> i64" where
  "BCnt v = bcnt_loop v 0"

lemma test_bit_shift: "drop_bit i (v :: i64) AND 1 \<noteq> 0 \<longleftrightarrow> bit v i"
  by (simp add: and_one_eq bit_iff_odd_drop_bit odd_iff_mod_2_eq_one)

lemma scan_find: "scan v is = (case find (bit v) is of None \<Rightarrow> -1 | Some i \<Rightarrow> of_nat i)"
  by (induction "is") (simp_all add: test_bit_shift)

lemma bcnt_loop_card: "bcnt_loop u n = n + of_nat (card {i. bit u i})"
proof (induction u n rule: bcnt_loop.induct)
  case (1 u n)
  show ?case
  proof (cases "u = 0")
    case False
    have fin: "finite {i. bit (w :: i64) i}" for w
      by (rule finite_subset [of _ "{..<64}"]) (auto dest: bit_imp_le_length simp: not_le)
    have split: "{i. bit u i} = (if bit u 0 then {0} else {}) \<union> Suc ` {i. bit (drop_bit 1 u) i}"
      by (auto simp: bit_drop_bit_eq image_iff) (metis not0_implies_Suc)+
    have "card {i. bit u i} = (if bit u 0 then 1 else 0) + card {i. bit (drop_bit 1 u) i}"
      by (subst split, subst card_Un_disjoint) (auto simp: card_image fin)
    moreover have "u AND 1 = (if bit u 0 then 1 else 0)"
      by (simp add: and_one_eq bit_0 odd_iff_mod_2_eq_one)
    ultimately show ?thesis using 1 False by (simp add: bcnt_loop.simps [of u])
  qed (simp add: bcnt_loop.simps)
qed
lemma find_upt:
  assumes "bit (v :: i64) k" "\<And>i. i < k \<Longrightarrow> \<not> bit v i"
  shows "find (bit v) [0 ..< 64] = Some k"
proof -
  have "k < 64" using assms(1) bit_imp_le_length by fastforce
  with assms show ?thesis by (auto simp: find_Some_iff intro!: exI [of _ k])
qed

lemma find_rev_upt:
  assumes "bit (v :: i64) k" "\<And>i. k < i \<Longrightarrow> \<not> bit v i"
  shows "find (bit v) (rev [0 ..< 64]) = Some k"
proof -
  have k: "k < 64" using assms(1) bit_imp_le_length by fastforce
  then have "rev [0 ..< 64] ! (63 - k) = k" by (subst rev_nth) auto
  moreover have "rev [0 ..< 64] ! j = 63 - j" if "j < 64" for j :: nat
    using that by (subst rev_nth) auto
  ultimately show ?thesis
    using assms k by (auto simp: find_Some_iff intro!: exI [of _ "63 - k"])
qed

text \<open>The bit scans are exact for every 64-bit value: \<open>Bsf\<close> is the index of the lowest
  set bit, \<open>Bsr\<close> of the highest, both -1 for zero, and \<open>BCnt\<close> is the number of set bits.\<close>
theorem bit_scans_exact:
  "Bsf v = (if v = 0 then -1 else of_nat (LEAST i. bit v i)) \<and>
   Bsr v = (if v = 0 then -1 else of_nat (Max {i. bit v i})) \<and>
   BCnt v = of_nat (card {i. bit v i})"
proof (cases "v = 0")
  case True
  have "find (bit (0 :: i64)) is = None" for "is" by (induction "is") auto
  with True show ?thesis by (simp add: Bsf_def Bsr_def scan_find BCnt_def bcnt_loop_card)
next
  case False
  then obtain k where k: "bit v k" by (auto simp: bit_eq_iff)
  have fin: "finite {i. bit v i}"
    by (rule finite_subset [of _ "{..<64}"]) (auto dest: bit_imp_le_length simp: not_le)
  have "Bsf v = of_nat (LEAST i. bit v i)"
    unfolding Bsf_def scan_find
    by (subst find_upt [of _ "LEAST i. bit v i"]) (use k in \<open>auto intro: LeastI dest: not_less_Least\<close>)
  moreover have "Bsr v = of_nat (Max {i. bit v i})"
    unfolding Bsr_def scan_find
  proof (subst find_rev_upt [of _ "Max {i. bit v i}"])
    show "bit v (Max {i. bit v i})" using Max_in [OF fin] k by auto
    show "\<not> bit v i" if "Max {i. bit v i} < i" for i using Max_ge [OF fin, of i] that by (metis leD mem_Collect_eq)
  qed simp
  ultimately show ?thesis using False by (simp add: BCnt_def bcnt_loop_card)
qed

section \<open>Integer functions\<close>

text \<open>\<open>-x\<close> of the least value overflows; the wrapped result is that value again.\<close>

definition AbsI64 :: "i64 \<Rightarrow> i64" where
  "AbsI64 x = (if x <s 0 then - x else x)"

definition ToBool :: "i64 \<Rightarrow> i64" where
  "ToBool x = i64_of_bool (x \<noteq> 0)"

definition MinI64 :: "i64 \<Rightarrow> i64 \<Rightarrow> i64" where
  "MinI64 a b = (if a <s b then a else b)"

definition MaxI64 :: "i64 \<Rightarrow> i64 \<Rightarrow> i64" where
  "MaxI64 a b = (if b <s a then a else b)"

text \<open>The generator: \<open>Seed\<close> replaces the state; \<open>RandI64\<close> steps it and drops the low bit,
  with a logical shift.\<close>

definition Seed :: "i64 \<Rightarrow> 64 word" where
  "Seed s = s"

definition RandI64 :: "64 word \<Rightarrow> i64 \<times> 64 word" where
  "RandI64 seed =
     (let s = seed * 6364136223846793005 + 1442695040888963407 in (drop_bit 1 s, s))"

fun rands :: "nat \<Rightarrow> 64 word \<Rightarrow> i64 list" where
  "rands 0 s = []"
| "rands (Suc n) s = (let (r, s') = RandI64 s in r # rands n s')"

lemma drop_bit1_nonneg: "0 \<le>s drop_bit 1 (w :: i64)"
proof -
  have "\<not> bit (drop_bit 1 w) 63"
    by (auto simp: bit_drop_bit_eq dest: bit_imp_le_length)
  then have "0 \<le> sint (drop_bit 1 w)" using bit_last_iff [of "drop_bit 1 w"] by auto
  then show ?thesis by (simp add: word_sle_eq)
qed

lemma RandI64_nonneg: "0 \<le>s fst (RandI64 s)"
  using drop_bit1_nonneg by (simp add: RandI64_def Let_def del: drop_bit_Suc)

text \<open>The integer functions are the mathematical ones wherever the result fits: minimum,
  maximum and truth value always, absolute value except at the least value, and every number
  the generator returns is non-negative.\<close>
theorem integer_functions:
  "sint (MinI64 a b) = min (sint a) (sint b) \<and> sint (MaxI64 a b) = max (sint a) (sint b) \<and>
   sint (ToBool a) = (if sint a = 0 then 0 else 1) \<and>
   sint (AbsI64 a) = (if sint a = - (2 ^ 63) then - (2 ^ 63) else \<bar>sint a\<bar>) \<and>
   list_all (\<lambda>r. 0 \<le> sint r) (rands n (Seed s))"
proof -
  have "list_all (\<lambda>r. 0 \<le> sint r) (rands n x)" for x
    using RandI64_nonneg by (induction n arbitrary: x) (auto simp: word_sle_eq case_prod_beta Let_def)
  moreover have "sint (AbsI64 a) = (if sint a = - (2 ^ 63) then - (2 ^ 63) else \<bar>sint a\<bar>)"
  proof -
    have r: "- (2 ^ 63) \<le> sint a" "sint a < 2 ^ 63" using sint_ge [of a] sint_lt [of a] by auto
    then have "sint (- a) = (if sint a = - (2 ^ 63) then - (2 ^ 63) else - sint a)"
      by (auto simp: sint_word_ariths signed_take_bit_int_eq_self signed_take_bit_eq_take_bit_shift take_bit_eq_mod)
    with r show ?thesis by (auto simp: AbsI64_def word_sless_alt)
  qed
  ultimately show ?thesis
    by (auto simp: MinI64_def MaxI64_def ToBool_def i64_of_bool_def word_sless_alt min_def max_def signed_eq_0_iff)
qed

end
