(* ===== verification/Fmt.thy ===== *)
theory Fmt
  imports Lexer
begin

text \<open>
  \<open>src/src/fmt.c\<close>: the source formatter. It re-indents lines and moves opening braces; its own
  scanner keeps track of strings, comments, brackets and blocks across lines.
\<close>

section \<open>State\<close>

record fblock =
  fb_outer :: int
  fb_switch :: bool
  fb_asm :: bool
  fb_init :: bool
  fb_in_sub :: bool

text \<open>\<open>fs_stk\<close> is the array of 256 blocks, \<open>fs_nstk\<close> how many of them are open; a character that
  is \<open>chr_nul\<close> is a C zero. \<open>fs_fw\<close> is \<open>fw_state\<close>.\<close>

record fstate =
  fs_stk :: "fblock list"
  fs_nstk :: nat
  fs_paren :: int
  fs_in_bc :: bool
  fs_in_str :: char
  fs_sw_pending :: bool
  fs_cur_indent :: int
  fs_hang :: int
  fs_ctrl_open :: bool
  fs_stmt_open :: bool
  fs_asm_stmt_open :: bool
  fs_first_word :: string
  fs_last_word :: string
  fs_last_code :: char
  fs_fw :: nat

definition fblock0 :: fblock where
  "fblock0 = \<lparr>fb_outer = 0, fb_switch = False, fb_asm = False, fb_init = False, fb_in_sub = False\<rparr>"

definition fstate0 :: fstate where
  "fstate0 = \<lparr>fs_stk = replicate 256 fblock0, fs_nstk = 0, fs_paren = 0, fs_in_bc = False, fs_in_str = chr_nul,
     fs_sw_pending = False, fs_cur_indent = 0, fs_hang = 0, fs_ctrl_open = False, fs_stmt_open = False,
     fs_asm_stmt_open = False, fs_first_word = [], fs_last_word = [], fs_last_code = chr_nul, fs_fw = 0\<rparr>"

record fmt_opts =
  fo_indent :: int
  fo_braces :: bool

definition fs_top :: "fstate \<Rightarrow> fblock option" where
  "fs_top st = (if fs_nstk st > 0 then Some (fs_stk st ! (fs_nstk st - 1)) else None)"

definition stmt_level :: "fstate \<Rightarrow> int" where
  "stmt_level st =
     (case fs_top st of None \<Rightarrow> 0 | Some b \<Rightarrow> fb_outer b + (if fb_switch b then 2 else 1))"

section \<open>Words and lines\<close>

definition fident_start :: "char \<Rightarrow> bool" where
  "fident_start c \<longleftrightarrow> is_alpha c \<or> c = CHR ''_''"

definition ident_char :: "char \<Rightarrow> bool" where
  "ident_char c \<longleftrightarrow> fident_start c \<or> is_digit c"

definition word_is :: "string \<Rightarrow> string \<Rightarrow> bool" where
  "word_is s w \<longleftrightarrow> prefix w s \<and> \<not> ident_char (hd_nul (drop (length w) s))"

definition space_char :: "char \<Rightarrow> bool" where
  "space_char c \<longleftrightarrow> c = CHR '' '' \<or> c = chr_tab \<or> c = chr_nl \<or> c = chr_cr"

definition skip_space :: "string \<Rightarrow> string" where
  "skip_space s = dropWhile space_char s"

definition blank_char :: "char \<Rightarrow> bool" where
  "blank_char c \<longleftrightarrow> c = CHR '' '' \<or> c = chr_tab"

text \<open>After the colon of a label: blanks, then nothing or a comment.\<close>

fun only_comment :: "string \<Rightarrow> bool" where
  "only_comment [] = True"
| "only_comment (c # s) =
     (if c = CHR ''/'' \<and> (hd_nul s = CHR ''/'' \<or> hd_nul s = CHR ''*'') then True
      else if \<not> blank_char c then False else only_comment s)"

definition is_label_line :: "string \<Rightarrow> bool" where
  "is_label_line s \<longleftrightarrow>
     fident_start (hd_nul s) \<and> hd_nul (dropWhile ident_char s) = CHR '':'' \<and>
     \<not> (word_is s ''case'' \<or> word_is s ''default'' \<or> word_is s ''start'' \<or> word_is s ''end'') \<and>
     only_comment (tl (dropWhile ident_char s))"

definition is_asm_label :: "string \<Rightarrow> bool" where
  "is_asm_label s \<longleftrightarrow>
     (if prefix ''@@'' s then ident_char (hd_nul (drop 2 s)) \<and> hd_nul (dropWhile ident_char (drop 2 s)) = CHR '':''
      else (fident_start (hd_nul s) \<or> is_digit (hd_nul s)) \<and> hd_nul (dropWhile ident_char s) = CHR '':'')"

definition note_word :: "string \<Rightarrow> fstate \<Rightarrow> fstate" where
  "note_word w st =
     (let lw = take 15 w; st1 = st\<lparr>fs_last_word := lw\<rparr>
      in if fs_fw st = 0 \<and> lw = ''else'' then st1\<lparr>fs_first_word := ''else'', fs_fw := 1\<rparr>
         else if fs_fw st \<le> 1 then st1\<lparr>fs_first_word := lw, fs_fw := 2\<rparr>
         else st1)"

section \<open>The line scanner\<close>

text \<open>A code character that is no blank becomes the last code character; the one before it decides
  whether a brace opens an initializer.\<close>

definition note_code :: "char \<Rightarrow> char \<times> fstate \<Rightarrow> char \<times> fstate" where
  "note_code c ps =
     (let (prev, st) = ps
      in if blank_char c then ps
         else (if fs_last_code st \<noteq> chr_nul then fs_last_code st else prev,
               st\<lparr>fs_last_code := c, fs_last_word := [],
                  fs_fw := (if fs_fw st \<le> 1 \<and> c \<noteq> CHR ''}'' then 2 else fs_fw st)\<rparr>))"

definition open_block :: "char \<Rightarrow> fstate \<Rightarrow> fstate" where
  "open_block prev st =
     (let st1 =
        (if fs_nstk st < 256
         then (let parent = fs_top st; old = fs_stk st ! fs_nstk st;
                   b = old\<lparr>fb_outer := fs_cur_indent st, fb_switch := fs_sw_pending st,
                        fb_asm := ((case parent of None \<Rightarrow> False | Some q \<Rightarrow> fb_asm q) \<or> fs_first_word st = ''asm''),
                        fb_init := (prev = CHR ''='' \<or> (case parent of None \<Rightarrow> False | Some q \<Rightarrow> fb_init q))\<rparr>
               in st\<lparr>fs_stk := (fs_stk st)[fs_nstk st := b], fs_nstk := fs_nstk st + 1\<rparr>)
         else st)
      in st1\<lparr>fs_sw_pending := False\<rparr>)"

definition bracket :: "char \<Rightarrow> char \<Rightarrow> fstate \<Rightarrow> fstate" where
  "bracket c prev st =
     (if c = CHR ''('' \<or> c = CHR ''['' then st\<lparr>fs_paren := fs_paren st + 1\<rparr>
      else if c = CHR '')'' \<or> c = CHR '']''
        then (if fs_paren st > 0 then st\<lparr>fs_paren := fs_paren st - 1\<rparr> else st)
      else if c = CHR ''{'' then open_block prev st
      else if c = CHR ''}''
        then st\<lparr>fs_nstk := (if fs_nstk st > 0 then fs_nstk st - 1 else fs_nstk st), fs_sw_pending := False\<rparr>
      else if c = CHR '';'' \<and> fs_paren st = 0 then st\<lparr>fs_sw_pending := False\<rparr>
      else st)"

text \<open>One turn of the loop at the character \<open>c\<close> with \<open>s\<close> after it; \<open>prev\<close> is \<open>prev_code\<close>. A line
  comment ends the scan.\<close>

definition scan_step :: "char \<Rightarrow> fstate \<Rightarrow> char \<Rightarrow> string \<Rightarrow> (char \<times> fstate \<times> string) option" where
  "scan_step prev st c s =
     (if fs_in_bc st
      then (if c = CHR ''*'' \<and> hd_nul s = CHR ''/'' then Some (prev, st\<lparr>fs_in_bc := False\<rparr>, tl s)
            else Some (prev, st, s))
      else if fs_in_str st \<noteq> chr_nul
      then (if c = chr_bs \<and> s \<noteq> [] then Some (prev, st, tl s)
            else if c = fs_in_str st
              then Some (prev, st\<lparr>fs_last_code := fs_in_str st, fs_in_str := chr_nul\<rparr>, s)
            else Some (prev, st, s))
      else if c = CHR ''/'' \<and> hd_nul s = CHR ''/'' then None
      else if c = CHR ''/'' \<and> hd_nul s = CHR ''*'' then Some (prev, st\<lparr>fs_in_bc := True\<rparr>, tl s)
      else if c = chr_dq \<or> c = chr_sq
      then Some (prev,
             st\<lparr>fs_in_str := c, fs_last_code := c, fs_last_word := [],
                fs_fw := (if fs_fw st \<le> 1 then 2 else fs_fw st)\<rparr>, s)
      else if fident_start c
      then (let st1 = (if fs_paren st = 0 \<and> word_is (c # s) ''switch'' then st\<lparr>fs_sw_pending := True\<rparr> else st);
                w = c # takeWhile ident_char s
            in Some (prev, (note_word w st1)\<lparr>fs_last_code := last w\<rparr>, dropWhile ident_char s))
      else (let (prev1, st1) = note_code c (prev, st) in Some (prev1, bracket c prev1 st1, s)))"

lemma scan_step_shorter: "scan_step prev st c s = Some (p, st', r) \<Longrightarrow> length r \<le> length s"
  by (simp add: scan_step_def Let_def case_prod_beta split: if_split_asm) (auto simp: length_dropWhile_le)

function scan_rest :: "char \<Rightarrow> fstate \<Rightarrow> string \<Rightarrow> fstate" where
  "scan_rest prev st [] = st"
| "scan_rest prev st (c # s) =
     (case scan_step prev st c s of None \<Rightarrow> st | Some (p, st', r) \<Rightarrow> scan_rest p st' r)"
  by pat_completeness simp_all
termination
  by (relation "measure (\<lambda>(prev, st, s). length s)") (auto simp: less_Suc_eq_le dest: scan_step_shorter)

definition scan_line :: "fstate \<Rightarrow> string \<Rightarrow> fstate" where
  "scan_line st s =
     scan_rest (fs_last_code st)
       (st\<lparr>fs_first_word := [], fs_last_word := [], fs_last_code := chr_nul, fs_fw := 0\<rparr>) s"
section \<open>Splitting a header from its brace\<close>

text \<open>\<open>sp_brace\<close> is the offset of the last brace seen, -1 for none; \<open>sp_prev\<close> the last code
  character before the first brace.\<close>

record split =
  sp_brace :: int
  sp_prev :: "char option"
  sp_after :: bool
  sp_bc :: bool
  sp_q :: char

definition split_code :: "int \<Rightarrow> char \<Rightarrow> split \<Rightarrow> split" where
  "split_code i c sp =
     (if blank_char c then sp
      else if c = CHR ''{'' then sp\<lparr>sp_brace := i, sp_after := False\<rparr>
      else if sp_brace sp \<ge> 0 then sp\<lparr>sp_after := True\<rparr>
      else sp\<lparr>sp_prev := Some c\<rparr>)"

definition split_step :: "int \<Rightarrow> split \<Rightarrow> char \<Rightarrow> string \<Rightarrow> (int \<times> split \<times> string) option" where
  "split_step i sp c s =
     (if sp_bc sp
      then (if c = CHR ''*'' \<and> hd_nul s = CHR ''/'' then Some (i + 2, sp\<lparr>sp_bc := False\<rparr>, tl s)
            else Some (i + 1, sp, s))
      else if sp_q sp \<noteq> chr_nul
      then (if c = chr_bs \<and> s \<noteq> [] then Some (i + 2, sp, tl s)
            else if c = sp_q sp then Some (i + 1, sp\<lparr>sp_q := chr_nul\<rparr>, s)
            else Some (i + 1, sp, s))
      else if c = CHR ''/'' \<and> hd_nul s = CHR ''/'' then None
      else if c = CHR ''/'' \<and> hd_nul s = CHR ''*''
      then Some (i + 2, sp\<lparr>sp_bc := True, sp_after := (sp_brace sp \<ge> 0 \<or> sp_after sp)\<rparr>, tl s)
      else Some (i + 1, split_code i c (if c = chr_dq \<or> c = chr_sq then sp\<lparr>sp_q := c\<rparr> else sp), s))"

lemma split_step_shorter: "split_step i sp c s = Some (j, sp', r) \<Longrightarrow> length r \<le> length s"
  by (simp add: split_step_def split: if_split_asm) auto

function split_scan :: "int \<Rightarrow> split \<Rightarrow> string \<Rightarrow> split" where
  "split_scan i sp [] = sp"
| "split_scan i sp (c # s) =
     (case split_step i sp c s of None \<Rightarrow> sp | Some (j, sp', r) \<Rightarrow> split_scan j sp' r)"
  by pat_completeness simp_all
termination
  by (relation "measure (\<lambda>(i, sp, s). length s)") (auto simp: less_Suc_eq_le dest: split_step_shorter)

definition ctrl_words :: "string list" where
  "ctrl_words = [''if'', ''else'', ''while'', ''for'', ''do'', ''switch'', ''try'', ''catch'', ''lock'']"

definition split_pos :: "fstate \<Rightarrow> string \<Rightarrow> fmt_opts \<Rightarrow> int" where
  "split_pos st s opt =
     (if \<not> fo_braces opt \<or> fs_nstk st > 0 \<or> fs_paren st > 0 \<or> fs_hang st > 0 \<or> fs_in_bc st
         \<or> fs_in_str st \<noteq> chr_nul \<or> hd_nul s = CHR ''#'' \<or> hd_nul s = CHR ''{'' then -1
      else if \<exists>w \<in> set ctrl_words. word_is s w then -1
      else
        (let is_class = word_is s ''class'' \<or> word_is s ''union''
               \<or> (word_is s ''public'' \<and> (sublist ''class'' s \<or> sublist ''union'' s));
             sp = split_scan 0 \<lparr>sp_brace = -1, sp_prev = None, sp_after = False, sp_bc = False, sp_q = chr_nul\<rparr> s
         in if sp_bc sp \<or> sp_q sp \<noteq> chr_nul \<or> sp_brace sp \<le> 0 \<or> sp_after sp then -1
            else if \<not> is_class \<and> sp_prev sp \<noteq> Some CHR '')'' then -1
            else sp_brace sp))"

section \<open>Formatting\<close>

definition indent_text :: "int \<Rightarrow> fmt_opts \<Rightarrow> string" where
  "indent_text level opt = replicate (nat (level * fo_indent opt)) (CHR '' '')"

text \<open>Text trimmed on the right of characters \<open>P\<close> accepts.\<close>

definition rtrim :: "(char \<Rightarrow> bool) \<Rightarrow> string \<Rightarrow> string" where
  "rtrim P s = rev (dropWhile P (rev s))"

text \<open>The indent level of a line \<open>b\<close>, and the state with the \<open>start:\<close>/\<open>end:\<close> mark of its block.\<close>

definition set_in_sub :: "bool \<Rightarrow> fstate \<Rightarrow> fstate" where
  "set_in_sub v st =
     st\<lparr>fs_stk := (fs_stk st)[fs_nstk st - 1 := (fs_stk st ! (fs_nstk st - 1))\<lparr>fb_in_sub := v\<rparr>]\<rparr>"

definition line_level :: "fstate \<Rightarrow> string \<Rightarrow> int \<times> fstate" where
  "line_level st b =
     (let tp = fs_top st;
          asm_line = (case tp of None \<Rightarrow> False | Some t \<Rightarrow> fb_asm t);
          outer = (case tp of None \<Rightarrow> 0 | Some t \<Rightarrow> fb_outer t);
          (level, st1) =
            (if hd_nul b = CHR ''}'' then (outer, st)
             else if asm_line \<and> (is_asm_label b \<or> hd_nul b = CHR ''#'') then (outer, st)
             else if (case tp of None \<Rightarrow> False | Some t \<Rightarrow> fb_switch t)
                 \<and> (word_is b ''case'' \<or> word_is b ''default'' \<or> word_is b ''start'' \<or> word_is b ''end'')
             then (outer + 1 + (if (word_is b ''case'' \<or> word_is b ''default'')
                                   \<and> (case tp of None \<Rightarrow> False | Some t \<Rightarrow> fb_in_sub t) then 1 else 0),
                   if word_is b ''start'' then set_in_sub True st
                   else if word_is b ''end'' then set_in_sub False st else st)
             else if is_label_line b then (0, st)
             else
               (let add = fs_hang st + (if fs_stmt_open st then 1 else 0)
                       + (if asm_line \<and> fs_asm_stmt_open st then 1 else 0)
                in (stmt_level st + (if hd_nul b = CHR ''{'' \<and> add > 0 then add - 1 else add), st)))
      in (if fs_paren st1 > 0
          then (let cont = fs_paren st1 - (if hd_nul b = CHR '')'' \<or> hd_nul b = CHR '']'' then 1 else 0)
                in level + (if cont > 4 then 4 else cont))
          else level, st1))"

text \<open>What a scanned line leaves pending for the next one.\<close>

definition asm_words :: "string list" where
  "asm_words = [''IMPORT'', ''DU8'', ''DU16'', ''DU32'', ''DU64'', ''BINFILE'']"

definition after_line :: "bool \<Rightarrow> string \<Rightarrow> fstate \<Rightarrow> fstate" where
  "after_line asm_line b st =
     (if asm_line
      then (let st1 = st\<lparr>fs_hang := 0, fs_ctrl_open := False, fs_stmt_open := False\<rparr>
            in if hd_nul b = CHR ''}'' \<or> fs_last_code st = CHR '';'' then st1\<lparr>fs_asm_stmt_open := False\<rparr>
               else if fs_first_word st \<in> set asm_words then st1\<lparr>fs_asm_stmt_open := True\<rparr>
               else st1)
      else if fs_in_str st = chr_nul \<and> \<not> fs_in_bc st \<and> hd_nul b \<noteq> CHR ''#''
      then (let ctrl = word_is (fs_first_word st) ''if'' \<or> word_is (fs_first_word st) ''while''
                    \<or> word_is (fs_first_word st) ''for'';
                lc = fs_last_code st;
                in_init = (case fs_top st of None \<Rightarrow> False | Some t \<Rightarrow> fb_init t)
            in if lc = CHR ''{'' \<or> lc = CHR '';'' \<or> lc = CHR ''}'' \<or> lc = CHR '':'' \<or> (lc = CHR '','' \<and> in_init)
               then st\<lparr>fs_hang := 0, fs_ctrl_open := False, fs_stmt_open := False\<rparr>
               else if fs_paren st > 0 then (if ctrl then st\<lparr>fs_ctrl_open := True\<rparr> else st)
               else if lc = CHR '')'' \<and> (ctrl \<or> fs_ctrl_open st)
               then st\<lparr>fs_hang := fs_hang st + 1, fs_ctrl_open := False\<rparr>
               else if fs_last_word st = ''else'' \<or> fs_last_word st = ''do''
               then st\<lparr>fs_hang := fs_hang st + 1\<rparr>
               else if lc \<noteq> chr_nul then st\<lparr>fs_stmt_open := True\<rparr>
               else st)
      else st)"

text \<open>The loop of \<open>fmt_run\<close>: its state, the output so far, the blank lines held back. The buffer's
  writes are those of \<open>StrBuf\<close>, which append.\<close>

record fmt_loop =
  fl_st :: fstate
  fl_out :: string
  fl_blank :: nat
  fl_wrote :: bool

text \<open>A header line is written without the blanks before its brace; the scanner then reads the line
  with spaces in their place.\<close>

definition emit_line :: "fstate \<Rightarrow> int \<Rightarrow> string \<Rightarrow> fmt_opts \<Rightarrow> string \<times> string" where
  "emit_line st level b opt =
     (let sp = split_pos st b opt
      in if sp > 0
         then (let h = take (nat sp) b; ht = rtrim blank_char h; tail = drop (nat sp) b
               in (indent_text level opt @ ht @ [chr_nl] @ indent_text level opt @ tail @ [chr_nl],
                   ht @ replicate (length h - length ht) (CHR '' '') @ tail))
         else (indent_text level opt @ b @ [chr_nl], b))"

definition fmt_verbatim :: "string \<Rightarrow> fmt_loop \<Rightarrow> fmt_loop" where
  "fmt_verbatim line l =
     l\<lparr>fl_out := fl_out l @ replicate (fl_blank l) chr_nl @ line @ [chr_nl], fl_blank := 0, fl_wrote := True,
       fl_st := scan_line ((fl_st l)\<lparr>fs_cur_indent := stmt_level (fl_st l)\<rparr>) line\<rparr>"

definition fmt_code :: "fmt_opts \<Rightarrow> string \<Rightarrow> fmt_loop \<Rightarrow> fmt_loop" where
  "fmt_code opt b l =
     (let st = fl_st l; asm_line = (case fs_top st of None \<Rightarrow> False | Some t \<Rightarrow> fb_asm t);
          (level, st1) = line_level st b;
          (text, b1) = emit_line st1 level b opt
      in l\<lparr>fl_out := fl_out l @ replicate (fl_blank l) chr_nl @ text, fl_blank := 0, fl_wrote := True,
           fl_st := after_line asm_line b1 (scan_line (st1\<lparr>fs_cur_indent := level\<rparr>) b1)\<rparr>)"

definition strip_line :: "string \<Rightarrow> string" where
  "strip_line line = rtrim (\<lambda>c. blank_char c \<or> c = chr_cr) (skip_space line)"

definition fmt_line :: "fmt_opts \<Rightarrow> string \<Rightarrow> fmt_loop \<Rightarrow> fmt_loop" where
  "fmt_line opt line l =
     (if fs_in_bc (fl_st l) \<or> fs_in_str (fl_st l) \<noteq> chr_nul then fmt_verbatim line l
      else if strip_line line = [] then (if fl_wrote l then l\<lparr>fl_blank := fl_blank l + 1\<rparr> else l)
      else fmt_code opt (strip_line line) l)"

text \<open>\<open>while (*p)\<close>: a newline at the end of the source starts no further line.\<close>

function source_lines :: "string \<Rightarrow> string list" where
  "source_lines s =
     (if s = [] then []
      else takeWhile (\<lambda>c. c \<noteq> chr_nl) s # source_lines (tl (dropWhile (\<lambda>c. c \<noteq> chr_nl) s)))"
  by pat_completeness auto
termination
proof (relation "measure length", goal_cases)
  case (2 s)
  then show ?case
    using length_dropWhile_le [of "\<lambda>c. c \<noteq> chr_nl" s] by (cases s) (auto simp: less_Suc_eq_le)
qed simp

declare source_lines.simps [simp del]

definition fmt_loop0 :: fmt_loop where
  "fmt_loop0 = \<lparr>fl_st = fstate0, fl_out = [], fl_blank = 0, fl_wrote = False\<rparr>"

definition fmt_run :: "fmt_opts \<Rightarrow> string \<Rightarrow> string" where
  "fmt_run opt src = fl_out (fold (fmt_line opt) (source_lines src) fmt_loop0)"

text \<open>The check that guards every output.\<close>

function ws_equal :: "string \<Rightarrow> string \<Rightarrow> bool" where
  "ws_equal a b =
     (let a1 = skip_space a; b1 = skip_space b
      in if hd_nul a1 \<noteq> hd_nul b1 then False
         else if hd_nul a1 = chr_nul then True
         else ws_equal (tl a1) (tl b1))"
  by pat_completeness auto
termination
proof (relation "measure (\<lambda>(a, b). length a)", goal_cases)
  case (2 a b x y)
  then have "skip_space a \<noteq> []" by (auto simp: hd_nul_def)
  then show ?case using length_dropWhile_le [of space_char a] 2(1)
    by (cases "skip_space a") (auto simp: skip_space_def)
qed simp

declare ws_equal.simps [simp del]
section \<open>Only whitespace changes\<close>

definition code_of :: "string \<Rightarrow> string" where
  "code_of s = filter (\<lambda>c. \<not> space_char c) s"

lemma code_of_simps [simp]:
  "code_of [] = []" "code_of (a @ b) = code_of a @ code_of b"
  "code_of (c # s) = (if space_char c then code_of s else c # code_of s)"
  by (simp_all add: code_of_def)

lemma space_blank: "blank_char c \<Longrightarrow> space_char c" "space_char chr_nl" "space_char chr_cr" "space_char CHR '' ''"
  by (auto simp: blank_char_def space_char_def)

lemma code_of_replicate [simp]: "space_char c \<Longrightarrow> code_of (replicate n c) = []"
  by (simp add: code_of_def)

lemma code_of_dropWhile: "(\<And>c. P c \<Longrightarrow> space_char c) \<Longrightarrow> code_of (dropWhile P s) = code_of s"
  by (induction s) auto

lemma code_of_rev: "code_of (rev s) = rev (code_of s)"
  by (simp add: code_of_def rev_filter)

lemma code_of_rtrim: "(\<And>c. P c \<Longrightarrow> space_char c) \<Longrightarrow> code_of (rtrim P s) = code_of s"
  by (simp add: rtrim_def code_of_rev code_of_dropWhile)

lemma code_of_indent [simp]: "code_of (indent_text level opt) = []"
  by (simp add: indent_text_def space_blank)

lemma code_of_trimmed: "code_of (strip_line line) = code_of line"
  unfolding strip_line_def by (subst code_of_rtrim) (auto simp: skip_space_def code_of_dropWhile space_blank)

lemma emit_line_code: "code_of (fst (emit_line st level b opt)) = code_of b"
proof -
  have "code_of (rtrim blank_char (take n b)) @ code_of (drop n b) = code_of b" for n
    by (subst code_of_rtrim) (auto simp: space_blank simp flip: code_of_simps(2))
  then show ?thesis by (simp add: emit_line_def Let_def space_blank)
qed

lemma fmt_code_out:
  "fl_out (fmt_code opt b l) = fl_out l @ replicate (fl_blank l) chr_nl
     @ fst (emit_line (snd (line_level (fl_st l) b)) (fst (line_level (fl_st l) b)) b opt)"
  by (simp add: fmt_code_def Let_def case_prod_beta)

lemma fmt_line_code: "code_of (fl_out (fmt_line opt line l)) = code_of (fl_out l) @ code_of line"
proof -
  have "strip_line line = [] \<Longrightarrow> code_of line = []" using code_of_trimmed [of line] by simp
  then show ?thesis
    by (simp add: fmt_line_def fmt_verbatim_def fmt_code_out emit_line_code code_of_trimmed space_blank)
qed

lemma source_lines_code: "code_of (concat (source_lines s)) = code_of s"
proof (induction s rule: source_lines.induct)
  case (1 s)
  show ?case
  proof (cases "s = []")
    case False
    let ?P = "\<lambda>c. c \<noteq> chr_nl"
    have "code_of (tl (dropWhile ?P s)) = code_of (dropWhile ?P s)"
    proof (cases "dropWhile ?P s")
      case (Cons c r)
      then have "c = chr_nl" using hd_dropWhile [of ?P s] by simp
      with Cons show ?thesis by (simp add: space_blank)
    qed (simp only: list.sel)
    then have "code_of (takeWhile ?P s) @ code_of (tl (dropWhile ?P s)) = code_of s"
      by (simp flip: code_of_simps(2))
    with 1 False show ?thesis by (simp add: source_lines.simps [of s])
  qed (simp add: source_lines.simps)
qed

lemma fold_fmt_code: "code_of (fl_out (fold (fmt_line opt) ls l)) = code_of (fl_out l) @ code_of (concat ls)"
  by (induction ls arbitrary: l) (simp_all add: fmt_line_code)

lemma fmt_run_code: "code_of (fmt_run opt src) = code_of src"
  by (simp add: fmt_run_def fold_fmt_code fmt_loop0_def source_lines_code)

lemma skip_space_code:
  "(skip_space a = [] \<longleftrightarrow> code_of a = []) \<and> (skip_space a = c # s \<longrightarrow> code_of a = c # code_of s)"
proof -
  have "skip_space a = c # s \<Longrightarrow> \<not> space_char c" for c s
    using hd_dropWhile [of space_char a] by (simp add: skip_space_def)
  moreover have "code_of a = code_of (skip_space a)" by (simp add: skip_space_def code_of_dropWhile)
  ultimately show ?thesis by (cases "skip_space a") auto
qed

lemma ws_equal_code:
  assumes "chr_nul \<notin> set a" "chr_nul \<notin> set b"
  shows "ws_equal a b \<longleftrightarrow> code_of a = code_of b"
  using assms
proof (induction a b rule: ws_equal.induct)
  case (1 a b)
  have nul: "chr_nul \<notin> set (skip_space a)" "chr_nul \<notin> set (skip_space b)"
    using 1(2,3) by (auto simp: skip_space_def dest: set_dropWhileD)
  show ?case
  proof (cases "skip_space a"; cases "skip_space b")
    fix c s d t assume c: "skip_space a = c # s" "skip_space b = d # t"
    have "chr_nul \<notin> set s" "chr_nul \<notin> set t" "c \<noteq> chr_nul" using nul c by auto
    with 1(1) [OF refl refl] c have "c = d \<Longrightarrow> ws_equal s t \<longleftrightarrow> code_of s = code_of t" by (simp add: hd_nul_def)
    with c \<open>c \<noteq> chr_nul\<close> skip_space_code [of a c s] skip_space_code [of b d t] show ?thesis
      by (simp add: ws_equal.simps [of a b] Let_def hd_nul_def)
  qed (use nul skip_space_code [of a] skip_space_code [of b] in
      \<open>auto simp: ws_equal.simps [of a b] Let_def hd_nul_def\<close>)
qed


lemma ws_equal_fmt:
  assumes "chr_nul \<notin> set src"
  shows "ws_equal src (fmt_run opt src)"
proof -
  have "\<not> space_char chr_nul" by (simp add: space_char_def)
  then have "chr_nul \<in> set s \<longleftrightarrow> chr_nul \<in> set (code_of s)" for s by (simp add: code_of_def)
  from this [of "fmt_run opt src"] this [of src] assms have "chr_nul \<notin> set (fmt_run opt src)"
    by (simp add: fmt_run_code)
  with assms show ?thesis by (simp add: fmt_run_code ws_equal_code)
qed

text \<open>C36: The formatter changes whitespace only, on every input whatsoever: without whitespace its
  output is the input, so the check it makes before writing a file always succeeds.\<close>
theorem fmt_changes_only_whitespace:
  assumes "chr_nul \<notin> set src"
  shows "code_of (fmt_run opt src) = code_of src \<and> ws_equal src (fmt_run opt src)"
  using assms by (simp add: fmt_run_code ws_equal_fmt)

theorem fmt_changes_only_whitespace_witness:
  "ws_equal ''if(x) {y;}'' (fmt_run \<lparr>fo_indent = 2, fo_braces = True\<rparr> ''if(x) {y;}'')"
  using fmt_changes_only_whitespace [of "''if(x) {y;}''" "\<lparr>fo_indent = 2, fo_braces = True\<rparr>"] by simp
section \<open>Literals that span lines\<close>

text \<open>Characters of a literal's text that neither end the literal nor the line.\<close>

definition lit_char :: "char \<Rightarrow> bool" where
  "lit_char c \<longleftrightarrow> c \<noteq> chr_dq \<and> c \<noteq> chr_bs \<and> c \<noteq> chr_nl \<and> c \<noteq> chr_nul"

definition trim_char :: "char \<Rightarrow> bool" where
  "trim_char c \<longleftrightarrow> blank_char c \<or> c = chr_cr"

lemma trim_lit: "trim_char c \<Longrightarrow> lit_char c"
  by (auto simp: trim_char_def blank_char_def lit_char_def)

lemma scan_in_literal:
  "fs_in_str st = chr_dq \<Longrightarrow> \<not> fs_in_bc st \<Longrightarrow> list_all lit_char s \<Longrightarrow> scan_rest prev st (s @ r) = scan_rest prev st r"
  by (induction s) (auto simp: lit_char_def scan_step_def)

lemma split_in_literal:
  "sp_q sp = chr_dq \<Longrightarrow> \<not> sp_bc sp \<Longrightarrow> list_all lit_char s \<Longrightarrow> split_scan i sp s = sp"
  by (induction s arbitrary: i) (auto simp: lit_char_def split_step_def)

lemma scan_literal_open:
  assumes "\<not> fs_in_bc st" "fs_in_str st = chr_nul" "list_all lit_char s"
  shows "fs_in_str (scan_line st (chr_dq # s)) = chr_dq"
  using assms scan_in_literal [of _ s _ "[]"] by (simp add: scan_line_def scan_step_def)

lemma split_pos_literal:
  assumes "list_all lit_char s"
  shows "split_pos st (chr_dq # s) opt = -1"
proof -
  have "split_scan 0 \<lparr>sp_brace = -1, sp_prev = None, sp_after = False, sp_bc = False, sp_q = chr_nul\<rparr> (chr_dq # s)
      = split_scan 1 \<lparr>sp_brace = -1, sp_prev = Some chr_dq, sp_after = False, sp_bc = False, sp_q = chr_dq\<rparr> s"
    by (simp add: split_step_def split_code_def blank_char_def)
  then show ?thesis using assms by (simp add: split_pos_def Let_def split_in_literal)
qed

lemma strip_literal:
  assumes "s = [] \<or> \<not> trim_char (last s)" "list_all trim_char bl"
  shows "strip_line (chr_dq # s @ bl) = chr_dq # s"
proof -
  have "dropWhile trim_char (rev s @ [chr_dq]) = rev s @ [chr_dq]"
    using assms(1) by (cases s rule: rev_cases) (auto simp: trim_char_def blank_char_def)
  moreover have "dropWhile trim_char (rev bl @ r) = dropWhile trim_char r" for r
    by (rule dropWhile_append2) (use assms(2) in \<open>auto simp: list_all_iff\<close>)
  ultimately show ?thesis
    by (simp add: strip_line_def skip_space_def space_char_def rtrim_def flip: trim_char_def)
qed

lemma lines_two:
  assumes "chr_nl \<notin> set a" "b \<noteq> []" "chr_nl \<notin> set b"
  shows "source_lines (a @ chr_nl # b) = [a, b]"
proof -
  have "takeWhile (\<lambda>c. c \<noteq> chr_nl) (a @ chr_nl # r) = a" "dropWhile (\<lambda>c. c \<noteq> chr_nl) (a @ chr_nl # r) = chr_nl # r" for r
    by (rule takeWhile_all_stop dropWhile_all_stop, use assms(1) in \<open>auto simp: list_all_iff\<close>)+
  then have "source_lines (a @ chr_nl # b) = a # source_lines b"
    by (simp add: source_lines.simps [of "a @ chr_nl # b"])
  moreover have tb: "takeWhile (\<lambda>c. c \<noteq> chr_nl) b = b" "dropWhile (\<lambda>c. c \<noteq> chr_nl) b = []"
    using assms(3) by auto
  have "source_lines b = [b]"
    unfolding source_lines.simps [of b] tb using assms(2) by (simp add: source_lines.simps)
  ultimately show ?thesis by simp
qed

lemma scan_str_literal:
  "list_all (\<lambda>c. c = chr_nl \<or> lit_char c) u \<Longrightarrow> \<exists>l'. scan_str f l (u @ chr_dq # r) = Inr (u, l', r)"
proof (induction u arbitrary: l)
  case (Cons c u)
  from Cons.IH [of "if c = chr_nl then l + 1 else l"] Cons.prems show ?case by (auto simp: lit_char_def)
qed simp

text \<open>The formatter alters programs whose string literals span lines: blanks that end the line a
  literal starts on belong to the literal, and are removed. The tokenizer then reads another string
  than before.\<close>
theorem fmt_trims_literals:
  assumes "list_all lit_char s" "list_all lit_char t" "s = [] \<or> \<not> trim_char (last s)"
    "list_all trim_char bl" "bl \<noteq> []"
  shows "fmt_run opt (chr_dq # s @ bl @ chr_nl # t @ [chr_dq]) = chr_dq # s @ chr_nl # t @ [chr_dq, chr_nl]
    \<and> (\<exists>l1 l2. scan_str f l (s @ bl @ chr_nl # t @ [chr_dq]) = Inr (s @ bl @ chr_nl # t, l1, [])
         \<and> scan_str f l (s @ chr_nl # t @ [chr_dq, chr_nl]) = Inr (s @ chr_nl # t, l2, [chr_nl]))"
proof -
  have bl: "list_all lit_char bl"
    using assms(4) trim_lit by (auto simp: list_all_iff)
  have "lit_char c \<Longrightarrow> c \<noteq> chr_nl" for c by (simp add: lit_char_def)
  then have nl: "chr_nl \<notin> set (chr_dq # s @ bl)" "chr_nl \<notin> set (t @ [chr_dq])"
    using assms(1,2) bl unfolding list_all_iff by auto
  have lines: "source_lines (chr_dq # s @ bl @ chr_nl # t @ [chr_dq]) = [chr_dq # s @ bl, t @ [chr_dq]]"
    using lines_two [OF nl(1) _ nl(2)] by simp
  have top0: "fs_top fstate0 = None" and sl: "stmt_level fstate0 = 0" by (simp_all add: fs_top_def stmt_level_def fstate0_def)
  have lab: "\<not> is_label_line (chr_dq # s)"
    by (simp add: is_label_line_def hd_nul_def fident_start_def is_alpha_def less_eq_char_def)
  have flags: "fs_paren fstate0 = 0" "fs_hang fstate0 = 0" "\<not> fs_stmt_open fstate0" by (simp_all add: fstate0_def)
  have lev: "line_level fstate0 (chr_dq # s) = (0, fstate0)"
    by (simp add: line_level_def top0 sl lab flags hd_nul_def)
  have emit: "emit_line fstate0 0 (chr_dq # s) opt = (chr_dq # s @ [chr_nl], chr_dq # s)"
    by (simp add: emit_line_def split_pos_literal assms(1) indent_text_def)
  let ?l1 = "fmt_code opt (chr_dq # s) fmt_loop0"
  have first: "fmt_line opt (chr_dq # s @ bl) fmt_loop0 = ?l1"
    by (simp add: fmt_line_def strip_literal assms fmt_loop0_def fstate0_def)
  have l1: "fl_out ?l1 = chr_dq # s @ [chr_nl]" "fl_blank ?l1 = 0"
    by (simp_all add: fmt_code_def lev emit fmt_loop0_def)
  have keep: "fs_in_str (after_line a b st) = fs_in_str st" for a b st
    by (simp add: after_line_def Let_def)
  have "fs_in_str (fl_st ?l1) = chr_dq"
    using scan_literal_open [of "fstate0\<lparr>fs_cur_indent := 0\<rparr>" s] assms(1)
    by (simp add: fmt_code_def lev emit fmt_loop0_def keep) (simp add: fstate0_def)
  then have "fmt_line opt (t @ [chr_dq]) ?l1 = fmt_verbatim (t @ [chr_dq]) ?l1" by (simp add: fmt_line_def)
  then have "fmt_run opt (chr_dq # s @ bl @ chr_nl # t @ [chr_dq]) = chr_dq # s @ chr_nl # t @ [chr_dq, chr_nl]"
    by (simp add: fmt_run_def lines first fmt_verbatim_def l1)
  moreover have "\<exists>l1. scan_str f l ((s @ bl @ chr_nl # t) @ chr_dq # []) = Inr (s @ bl @ chr_nl # t, l1, [])"
    using assms(1,2) bl by (intro scan_str_literal) (auto simp: list_all_iff)
  moreover have "\<exists>l2. scan_str f l ((s @ chr_nl # t) @ chr_dq # [chr_nl]) = Inr (s @ chr_nl # t, l2, [chr_nl])"
    using assms(1,2) by (intro scan_str_literal) (auto simp: list_all_iff)
  ultimately show ?thesis by simp
qed

theorem fmt_trims_literals_witness:
  "fmt_run \<lparr>fo_indent = 2, fo_braces = True\<rparr> (chr_dq # ''a '' @ chr_nl # ''b'' @ [chr_dq])
     = chr_dq # ''a'' @ chr_nl # ''b'' @ [chr_dq, chr_nl]"
  using fmt_trims_literals [of "''a''" "''b''" "'' ''" "\<lparr>fo_indent = 2, fo_braces = True\<rparr>"]
  by (simp add: lit_char_def trim_char_def blank_char_def)
section \<open>Bounds of the state\<close>

definition fstate_inv :: "fstate \<Rightarrow> bool" where
  "fstate_inv st \<longleftrightarrow> length (fs_stk st) = 256 \<and> fs_nstk st \<le> 256 \<and> 0 \<le> fs_paren st \<and> 0 \<le> fs_hang st
     \<and> length (fs_first_word st) \<le> 15 \<and> length (fs_last_word st) \<le> 15 \<and> fs_fw st \<le> 2"

lemma bracket_inv: "fstate_inv st \<Longrightarrow> fstate_inv (bracket c p st)"
  by (simp add: bracket_def open_block_def Let_def fstate_inv_def le_diff_conv)

lemma note_code_inv: "fstate_inv st \<Longrightarrow> fstate_inv (snd (note_code c (p, st)))"
  by (simp add: note_code_def fstate_inv_def)

lemma note_word_inv: "fstate_inv st \<Longrightarrow> fstate_inv (note_word w st)"
  by (simp add: note_word_def Let_def fstate_inv_def)

lemma fstate_inv_upd [simp]:
  "fstate_inv (st\<lparr>fs_in_bc := v\<rparr>) = fstate_inv st" "fstate_inv (st\<lparr>fs_in_str := c\<rparr>) = fstate_inv st"
  "fstate_inv (st\<lparr>fs_last_code := c\<rparr>) = fstate_inv st" "fstate_inv (st\<lparr>fs_sw_pending := v\<rparr>) = fstate_inv st"
  "fstate_inv (st\<lparr>fs_cur_indent := i\<rparr>) = fstate_inv st" "fstate_inv (st\<lparr>fs_ctrl_open := v\<rparr>) = fstate_inv st"
  "fstate_inv (st\<lparr>fs_stmt_open := v\<rparr>) = fstate_inv st" "fstate_inv (st\<lparr>fs_asm_stmt_open := v\<rparr>) = fstate_inv st"
  by (simp_all add: fstate_inv_def)

lemma scan_step_inv: "scan_step prev st c s = Some (p, st', r) \<Longrightarrow> fstate_inv st \<Longrightarrow> fstate_inv st'"
proof -
  assume a: "scan_step prev st c s = Some (p, st', r)" "fstate_inv st"
  have q: "fstate_inv (st\<lparr>fs_in_str := c, fs_last_code := c, fs_last_word := [], fs_fw := (if fs_fw st \<le> 1 then 2 else fs_fw st)\<rparr>)"
    using a(2) by (simp add: fstate_inv_def)
  have w: "fstate_inv (note_word w st)" "fstate_inv (note_word w (st\<lparr>fs_sw_pending := True\<rparr>))" for w
    using a(2) by (simp_all add: note_word_inv)
  have k: "fstate_inv (bracket c p (snd (note_code c (prev, st))))" for p
    using a(2) by (simp add: note_code_inv bracket_inv)
  show ?thesis using a(1) unfolding scan_step_def Let_def
    by (simp only: case_prod_beta split: if_split_asm) (use a(2) q w k in \<open>auto simp del: if_split\<close>)
qed

lemma scan_rest_inv: "fstate_inv st \<Longrightarrow> fstate_inv (scan_rest prev st s)"
proof (induction prev st s rule: scan_rest.induct)
  case (2 prev st c s)
  show ?case
  proof (cases "scan_step prev st c s")
    case (Some x)
    then obtain p st' r where x: "scan_step prev st c s = Some (p, st', r)" by (cases x) auto
    from 2(1) [OF x refl refl scan_step_inv [OF x 2(2)]] x show ?thesis by simp
  qed (use 2(2) in simp)
qed simp

lemma scan_line_inv: "fstate_inv st \<Longrightarrow> fstate_inv (scan_line st s)"
  unfolding scan_line_def by (rule scan_rest_inv) (simp add: fstate_inv_def)

lemma after_line_inv: "fstate_inv st \<Longrightarrow> fstate_inv (after_line a b st)"
  by (simp add: after_line_def Let_def fstate_inv_def)

lemma line_level_inv: "fstate_inv st \<Longrightarrow> fstate_inv (snd (line_level st b))"
  by (simp add: line_level_def Let_def case_prod_beta set_in_sub_def fstate_inv_def)

lemma fmt_line_inv: "fstate_inv (fl_st l) \<Longrightarrow> fstate_inv (fl_st (fmt_line opt line l))"
  by (simp add: fmt_line_def fmt_verbatim_def fmt_code_def Let_def case_prod_beta
      scan_line_inv after_line_inv line_level_inv)

lemma split_step_bound:
  "split_step i sp c s = Some (j, sp', r) \<Longrightarrow> sp_brace sp < i \<Longrightarrow> sp_brace sp' < j \<and> j + int (length r) = i + 1 + int (length s)"
  by (cases s) (auto simp: split_step_def split_code_def hd_nul_def split: if_split_asm)

lemma split_scan_bound: "sp_brace sp < i \<Longrightarrow> sp_brace (split_scan i sp s) < i + int (length s)"
proof (induction i sp s rule: split_scan.induct)
  case (2 i sp c s)
  show ?case
  proof (cases "split_step i sp c s")
    case (Some x)
    then obtain j sp' r where x: "split_step i sp c s = Some (j, sp', r)" by (cases x) auto
    from split_step_bound [OF x 2(2)] 2(1) [OF x refl refl] x show ?thesis by simp
  qed (use 2(2) in simp)
qed simp

text \<open>C38: The formatter's tables never overflow: after any lines, at most 256 blocks are open, the two
  word buffers hold at most 15 characters, the bracket and hanging counts are not negative; and a
  header is split inside its line.\<close>
theorem fmt_state_bounded:
  "fstate_inv (fl_st (fold (fmt_line opt) ls fmt_loop0)) \<and> split_pos st b opt < max 1 (int (length b))"
proof
  have "fstate_inv (fl_st l) \<Longrightarrow> fstate_inv (fl_st (fold (fmt_line opt) ls l))" for l
    by (induction ls arbitrary: l) (simp_all add: fmt_line_inv)
  then show "fstate_inv (fl_st (fold (fmt_line opt) ls fmt_loop0))"
    by (simp add: fmt_loop0_def fstate0_def fstate_inv_def)
  show "split_pos st b opt < max 1 (int (length b))"
    using split_scan_bound [of "\<lparr>sp_brace = -1, sp_prev = None, sp_after = False, sp_bc = False, sp_q = chr_nul\<rparr>" 0 b]
    unfolding split_pos_def Let_def by (simp del: max.bounded_iff split: if_split) linarith?
qed
section \<open>The command\<close>

text \<open>
  The files the command sees: contents by name, \<open>''-''\<close> for the standard input; and for every
  operation that writes, whether the system lets it succeed. \<open>fmt_main\<close> returns the exit status,
  the text printed and the files afterwards; an error leaves with a message and the files as they
  are then.
\<close>

type_synonym files = "string \<rightharpoonup> string"

record fmt_io =
  io_open :: "string \<Rightarrow> bool"
  io_write :: "string \<Rightarrow> bool"
  io_rename :: "string \<Rightarrow> bool"

text \<open>\<open>atoi\<close>: leading white space, an optional sign, then digits.\<close>

definition c_atoi :: "string \<Rightarrow> int" where
  "c_atoi s =
     (let t = dropWhile (\<lambda>c. space_char c \<or> c = CHR 0x0B \<or> c = CHR 0x0C) s;
          ds = (\<lambda>u. int (dec_value (takeWhile is_digit u)))
      in if hd_nul t = CHR ''-'' then - ds (tl t) else if hd_nul t = CHR ''+'' then ds (tl t) else ds t)"

definition fmt_options :: "string option \<Rightarrow> string option \<Rightarrow> fmt_opts" where
  "fmt_options indent braces =
     \<lparr>fo_indent = (case indent of None \<Rightarrow> 2 | Some s \<Rightarrow> if c_atoi s \<ge> 1 \<and> c_atoi s \<le> 16 then c_atoi s else 2),
      fo_braces = (case braces of None \<Rightarrow> True | Some s \<Rightarrow> s \<notin> {''0'', ''off'', ''no''})\<rparr>"

record fmt_args =
  fa_write :: bool
  fa_quiet :: bool
  fa_files :: "string list"

text \<open>\<open>Inr None\<close> is \<open>-h\<close>, which prints the usage and ends.\<close>

fun fmt_parse :: "string list \<Rightarrow> fmt_args \<Rightarrow> fmt_args option res" where
  "fmt_parse [] a = Inr (Some a)"
| "fmt_parse (w # ws) a =
     (if w = ''-w'' then fmt_parse ws (a\<lparr>fa_write := True\<rparr>)
      else if w = ''-q'' then fmt_parse ws (a\<lparr>fa_quiet := True\<rparr>)
      else if w = ''-h'' then Inr None
      else if length (fa_files a) < 256 then fmt_parse ws (a\<lparr>fa_files := fa_files a @ [w]\<rparr>)
      else Inl (Err ''fmt: too many files''))"

text \<open>Replacing a file: the new text goes to a temporary file beside it, which then takes its
  name. A failed step removes the temporary file.\<close>

definition replace_file :: "fmt_io \<Rightarrow> string \<Rightarrow> string \<Rightarrow> files \<Rightarrow> err option \<times> files" where
  "replace_file io f out fs =
     (let tmp = f @ ''.fmt.tmp''
      in if \<not> io_open io tmp then (Some (Err (''fmt: cannot write '' @ sq tmp)), fs)
         else if \<not> io_write io tmp then (Some (Err (''fmt: cannot write '' @ sq tmp)), fs(tmp := None))
         else if \<not> io_rename io f then (Some (Err (''fmt: cannot replace '' @ sq f)), fs(tmp := None))
         else (None, (fs(f := Some out))(tmp := None)))"

text \<open>The standard input can be read once only.\<close>

definition after_read :: "string \<Rightarrow> files \<Rightarrow> files" where
  "after_read f fs = (if f = ''-'' then fs(f := Some []) else fs)"

text \<open>One turn of the loop over the files, and the loop. The state is the status so far, the
  printed text and the files.\<close>

definition fmt_file ::
  "fmt_io \<Rightarrow> fmt_opts \<Rightarrow> fmt_args \<Rightarrow> string \<Rightarrow> int \<times> string \<times> files \<Rightarrow> err option \<times> int \<times> string \<times> files"
where
  "fmt_file io opt a f s =
     (let (rc, out, fs) = s
      in case fs f of
           None \<Rightarrow> (Some (Err (''fmt: cannot open '' @ sq f)), s)
         | Some src \<Rightarrow>
             (let text = fmt_run opt src; changed = (src \<noteq> text); fs = after_read f fs; s = (rc, out, fs)
              in if \<not> ws_equal src text
                 then (Some (Err (''fmt: internal error on '' @ sq (if f = ''-'' then ''(stdin)'' else f)
                        @ '', left untouched'')), s)
                 else if fa_quiet a
                 then (None, if changed then 1 else rc,
                       (if changed \<and> f \<noteq> ''-'' then out @ f @ [chr_nl] else out), fs)
                 else if fa_write a \<and> f \<noteq> ''-''
                 then (if changed then (let (e, fs') = replace_file io f text fs in (e, rc, out, fs')) else (None, s))
                 else (None, rc, out @ text, fs)))"

fun fmt_files ::
  "fmt_io \<Rightarrow> fmt_opts \<Rightarrow> fmt_args \<Rightarrow> string list \<Rightarrow> int \<times> string \<times> files \<Rightarrow> err option \<times> int \<times> string \<times> files"
where
  "fmt_files io opt a [] s = (None, s)"
| "fmt_files io opt a (f # fl) s =
     (let (e, s') = fmt_file io opt a f s in if e \<noteq> None then (e, s') else fmt_files io opt a fl s')"

definition fmt_usage :: string where
  "fmt_usage = ''usage: aholyc fmt [-w | -q] [file.HC ... | -]'' @ [chr_nl]
     @ ''  -w  rewrite files in place (only when they change)'' @ [chr_nl]
     @ ''  -q  no output; list files needing formatting, exit 1 if any'' @ [chr_nl]
     @ ''  -   read from stdin, write to stdout'' @ [chr_nl]
     @ ''env: AHOLYC_FMT_INDENT=n  AHOLYC_FMT_BRACES=0  (doc/format.md)'' @ [chr_nl]"

definition fmt_main ::
  "fmt_io \<Rightarrow> string option \<Rightarrow> string option \<Rightarrow> string list \<Rightarrow> files \<Rightarrow> err option \<times> int \<times> string \<times> files"
where
  "fmt_main io indent braces argv fs =
     (case fmt_parse argv \<lparr>fa_write = False, fa_quiet = False, fa_files = []\<rparr> of
        Inl e \<Rightarrow> (Some e, 0, [], fs)
      | Inr None \<Rightarrow> (None, 0, fmt_usage, fs)
      | Inr (Some a) \<Rightarrow>
          fmt_files io (fmt_options indent braces) a (if fa_files a = [] then [''-''] else fa_files a) (0, [], fs))"

section \<open>What the command does to files\<close>

definition tmp_of :: "string \<Rightarrow> string" where
  "tmp_of f = f @ ''.fmt.tmp''"

text \<open>What one file's turn does to a file \<open>g\<close> that is no temporary one.\<close>

lemma replace_file_files:
  "replace_file io f out fs = (e, fs') \<Longrightarrow> g \<noteq> tmp_of f \<Longrightarrow> f \<noteq> tmp_of f \<Longrightarrow>
     fs' g = (if g = f \<and> e = None then Some out else fs g)"
  by (auto simp: replace_file_def tmp_of_def Let_def split: if_splits)

lemma fmt_file_files:
  assumes "fmt_file io opt a f (rc, out, fs) = (e, rc', out', fs')" "g \<noteq> ''-''" "g \<noteq> tmp_of f"
  shows "fs' g = (if g = f \<and> fa_write a \<and> \<not> fa_quiet a \<and> e = None then map_option (fmt_run opt) (fs g) else fs g)"
proof (cases "fs f")
  case (Some src)
  have tmp: "f \<noteq> tmp_of f" by (simp add: tmp_of_def)
  show ?thesis
  proof (cases "ws_equal src (fmt_run opt src) \<and> \<not> fa_quiet a \<and> fa_write a \<and> f \<noteq> ''-'' \<and> src \<noteq> fmt_run opt src")
    case True
    obtain e1 fs1 where r: "replace_file io f (fmt_run opt src) fs = (e1, fs1)" by fastforce
    with True Some assms(1) have "e = e1" "fs' = fs1" by (auto simp: fmt_file_def Let_def after_read_def)
    with replace_file_files [OF r assms(3) tmp] True Some show ?thesis by auto
  next
    case False
    with Some assms show ?thesis
      by (auto simp: fmt_file_def Let_def after_read_def split: if_split_asm)
  qed
qed (use assms in \<open>auto simp: fmt_file_def\<close>)

lemma fmt_file_status:
  "fmt_file io opt a f (rc, out, fs) = (None, rc', out', fs') \<Longrightarrow>
     rc' = (if fa_quiet a \<and> fs f \<noteq> map_option (fmt_run opt) (fs f) then 1 else rc) \<and> fs f \<noteq> None"
  by (auto simp: fmt_file_def Let_def case_prod_beta split: option.split_asm if_split_asm)

lemma tmp_inject: "tmp_of f = tmp_of g \<longleftrightarrow> f = g"
  by (simp add: tmp_of_def)



end
