(* ===== verification/Driver.thy ===== *)
theory Driver
  imports PreprocProps Getopt Fmt
begin

text \<open>
  \<open>src/src/aholyc.c\<close>: the compiler driver. Reading the command line gives a configuration;
  what the driver then does to the outside world (files it writes and removes, tools it runs)
  is a list of actions. Lexing, parsing and code generation are one parameter, \<open>de_front\<close>, and
  so is the status of every tool, \<open>de_rc\<close>.
\<close>

section \<open>Configuration\<close>

text \<open>\<open>be_obj\<close> says that the backend has a \<open>build_obj\<close> function.\<close>

record backend =
  be_name :: string
  be_ext :: string
  be_asm :: bool
  be_obj :: bool

definition backend_ll :: backend where
  "backend_ll = \<lparr>be_name = ''llvm'', be_ext = ''.ll'', be_asm = True, be_obj = True\<rparr>"

definition backend_c :: backend where
  "backend_c = \<lparr>be_name = ''c'', be_ext = ''.c'', be_asm = True, be_obj = True\<rparr>"

definition backend_js :: backend where
  "backend_js = \<lparr>be_name = ''js'', be_ext = ''.js'', be_asm = False, be_obj = False\<rparr>"

text \<open>What \<open>parseargv\<close> collects: its locals, and the flags it sets in \<open>Aholyc\<close>. \<open>cf_pp\<close> is the
  part of \<open>Aholyc\<close> the lexer owns, with the include directories and the compiler flags.\<close>

record cfg =
  cf_out :: "string option"
  cf_bname :: "string option"
  cf_opt :: string
  cf_emit :: bool
  cf_objmode :: bool
  cf_inputs :: "string list"
  cf_defines :: "string list"
  cf_is_shared :: bool
  cf_archive :: bool
  cf_hints :: bool
  cf_asm :: bool
  cf_use_pic :: bool
  cf_exceptions :: bool
  cf_stack :: bool
  cf_strict :: bool
  cf_keep :: bool
  cf_verbose :: bool
  cf_pp :: pp

definition cfg_init :: "pp \<Rightarrow> cfg" where
  "cfg_init p =
     \<lparr>cf_out = None, cf_bname = None, cf_opt = ''-Os'', cf_emit = False, cf_objmode = False, cf_inputs = [],
      cf_defines = [], cf_is_shared = False, cf_archive = False, cf_hints = True, cf_asm = True, cf_use_pic = True,
      cf_exceptions = True, cf_stack = True, cf_strict = True, cf_keep = False, cf_verbose = False, cf_pp = p\<rparr>"

definition opt_string :: string where
  "opt_string = ''o:b:cSO::I:L:l:D:f:s::kVhv''"

definition push_flag :: "string \<Rightarrow> cfg \<Rightarrow> cfg" where
  "push_flag w c = c\<lparr>cf_pp := (cf_pp c)\<lparr>pp_flags := arg_push w (pp_flags (cf_pp c))\<rparr>\<rparr>"

definition no_flag :: "string \<Rightarrow> cfg \<Rightarrow> cfg res" where
  "no_flag a c =
     (if a = ''no-hints'' then Inr (c\<lparr>cf_hints := False\<rparr>)
      else if a = ''no-asm'' then Inr (c\<lparr>cf_asm := False\<rparr>)
      else if a = ''no-pic'' then Inr (c\<lparr>cf_use_pic := False\<rparr>)
      else if a = ''no-exceptions'' then Inr (c\<lparr>cf_exceptions := False\<rparr>)
      else if a = ''no-stack-protector'' then Inr (c\<lparr>cf_stack := False\<rparr>)
      else if a = ''no-strict-fnptr'' then Inr (c\<lparr>cf_strict := False\<rparr>)
      else Inl (Err (''unknown option '' @ sq (''-f'' @ a) @ '' (try -h)'')))"

text \<open>Usage and version end the run with a status.\<close>

datatype shown = Usage int | Version

datatype opt_result = Next cfg | Shown shown

text \<open>One option other than a positional argument. An option letter with an argument of its own
  has one; \<open>-s\<close> alone has none, and the message then prints a null pointer.\<close>

definition opt_step :: "int \<Rightarrow> ropt \<Rightarrow> cfg \<Rightarrow> opt_result res" where
  "opt_step c g k =
     (let arg = (case go_arg g of None \<Rightarrow> [] | Some a \<Rightarrow> a); ch = char_of c
      in if c = 58 then Inl (Err (''-'' @ [char_of (go_opt g)] @ '' needs an argument''))
         else if ch = CHR ''o'' then Inr (Next (k\<lparr>cf_out := Some arg\<rparr>))
         else if ch = CHR ''b'' then Inr (Next (k\<lparr>cf_bname := Some arg\<rparr>))
         else if ch = CHR ''c'' then Inr (Next (k\<lparr>cf_objmode := True\<rparr>))
         else if ch = CHR ''s'' then
           (if go_arg g = None then Inl NullDeref
            else if arg = ''hared'' then Inr (Next (k\<lparr>cf_is_shared := True\<rparr>))
            else if arg = ''archive'' then Inr (Next (k\<lparr>cf_archive := True\<rparr>))
            else Inl (Err (''unknown option '' @ sq (''-s'' @ arg) @ '' (try -h)'')))
         else if ch = CHR ''S'' then Inr (Next (k\<lparr>cf_emit := True\<rparr>))
         else if ch = CHR ''O'' then Inr (Next (k\<lparr>cf_opt := ''-O'' @ arg\<rparr>))
         else if ch = CHR ''I'' then
           Inr (Next (push_flag (''-I'' @ arg) (k\<lparr>cf_pp := lex_add_include_dir arg (cf_pp k)\<rparr>)))
         else if ch = CHR ''L'' \<or> ch = CHR ''l'' then Inr (Next (push_flag (CHR ''-'' # ch # arg) k))
         else if ch = CHR ''D'' then Inr (Next (k\<lparr>cf_defines := cf_defines k @ [arg]\<rparr>))
         else if ch = CHR ''f'' then rbind (no_flag arg k) (\<lambda>k'. Inr (Next k'))
         else if ch = CHR ''k'' then Inr (Next (k\<lparr>cf_keep := True\<rparr>))
         else if ch = CHR ''V'' then Inr (Next (k\<lparr>cf_verbose := True\<rparr>))
         else if ch = CHR ''h'' then Inr (Shown (Usage 0))
         else if ch = CHR ''v'' then Inr (Shown Version)
         else Inl (Err (''unknown option '' @ sq (CHR ''-'' # [char_of (go_opt g)]) @ '' (try -h)'')))"

text \<open>The option loop. In \<open>run\<close> mode the first input ends it, and the words after it belong to
  the program. \<open>fuel\<close> bounds the calls of \<open>r_getopt_next\<close>; each consumes a word or a letter.\<close>

datatype parsed = Parsed cfg "string list" | ShownP shown

fun opt_loop :: "nat \<Rightarrow> bool \<Rightarrow> ropt \<Rightarrow> cfg \<Rightarrow> parsed res" where
  "opt_loop 0 run g k = Inl Fuel"
| "opt_loop (Suc n) run g k =
     (let (c, g') = r_getopt_next g
      in if c < 0 then Inr (Parsed k [])
         else if c = 1 then
           (let k' = k\<lparr>cf_inputs := cf_inputs k @ [case go_arg g' of None \<Rightarrow> [] | Some a \<Rightarrow> a]\<rparr>
            in if run then Inr (Parsed k' (drop (go_ind g') (go_argv g'))) else opt_loop n run g' k')
         else
           rbind (opt_step c g' k) (\<lambda>r.
             (case r of Next k' \<Rightarrow> opt_loop n run g' k' | Shown s \<Rightarrow> Inr (ShownP s))))"

definition start_opts :: "bool \<Rightarrow> string list \<Rightarrow> ropt" where
  "start_opts run argv = (r_getopt_init argv opt_string)\<lparr>go_ind := (if run then 2 else 1)\<rparr>"

definition read_opts :: "bool \<Rightarrow> string list \<Rightarrow> pp \<Rightarrow> parsed res" where
  "read_opts run argv p = (let g = start_opts run argv in opt_loop (left g + 1) run g (cfg_init p))"

section \<open>Checks\<close>

definition is_object :: "string \<Rightarrow> bool" where
  "is_object s \<longleftrightarrow> length s > 2 \<and> (suffix ''.o'' s \<or> suffix ''.a'' s \<or> (length s > 4 \<and> suffix ''.lib'' s))"

definition cfg_objects :: "cfg \<Rightarrow> string list" where "cfg_objects k = filter is_object (cf_inputs k)"
definition cfg_sources :: "cfg \<Rightarrow> string list" where "cfg_sources k = filter (\<lambda>s. \<not> is_object s) (cf_inputs k)"

definition check_modes :: "bool \<Rightarrow> cfg \<Rightarrow> unit res" where
  "check_modes run k =
     (if run \<and> (cf_objmode k \<or> cf_emit k \<or> cf_is_shared k \<or> cf_archive k)
      then Inl (Err (''run cannot be combined with ''
             @ (if cf_objmode k then ''-c'' else if cf_emit k then ''-S'' else if cf_is_shared k then ''-shared'' else ''-sarchive'')))
      else if cf_objmode k \<and> (cf_is_shared k \<or> cf_archive k)
      then Inl (Err (''-c cannot be combined with '' @ (if cf_is_shared k then ''-shared'' else ''-sarchive'')))
      else if cf_is_shared k \<and> cf_archive k then Inl (Err ''-shared cannot be combined with -sarchive'')
      else Inr ())"

definition find_backend :: "backend list \<Rightarrow> string \<Rightarrow> backend option" where
  "find_backend bs name =
     (case find (\<lambda>b. be_name b = name) bs of
        Some b \<Rightarrow> Some b
      | None \<Rightarrow>
          (if backend_ll \<in> set bs \<and> name \<in> {''llvm'', ''ll'', ''llvm-ir''} then Some backend_ll
           else if backend_js \<in> set bs \<and> name = ''javascript'' then Some backend_js
           else None))"

definition default_backend :: "backend list \<Rightarrow> (string \<Rightarrow> bool) \<Rightarrow> backend option" where
  "default_backend bs have_tool =
     (if backend_ll \<in> set bs \<and> (have_tool ''clang'' \<or> have_tool ''llc'') then Some backend_ll
      else if backend_c \<in> set bs then Some backend_c
      else if backend_ll \<in> set bs then Some backend_ll
      else if backend_js \<in> set bs then Some backend_js
      else None)"

definition check_build :: "cfg \<Rightarrow> backend \<Rightarrow> unit res" where
  "check_build k be =
     (if cf_objmode k \<and> cfg_objects k \<noteq> [] then Inl (Err ''cannot mix object files with -c'')
      else if cf_is_shared k \<and> \<not> be_obj be \<and> \<not> cf_emit k
      then Inl (Err (''backend '' @ sq (be_name be) @ '' cannot build shared libraries''))
      else if (cf_objmode k \<or> cf_archive k \<or> cfg_objects k \<noteq> []) \<and> \<not> be_obj be \<and> \<not> cf_emit k
      then Inl (Err (''backend '' @ sq (be_name be) @ '' cannot produce object files''))
      else if cfg_sources k = [] \<and> (cf_objmode k \<or> cf_emit k) then Inl (Err ''no source files'')
      else if cf_out k = Some ''-'' \<and> \<not> cf_emit k then Inl (Err (''-o '' @ sq ''-'' @ '' (stdout) requires -S''))
      else Inr ())"
section \<open>Definitions from the command line\<close>

text \<open>\<open>-D\<close>: the name up to the first \<open>=\<close>, and the value after it, \<open>1\<close> without one.\<close>

definition def_name :: "string \<Rightarrow> string" where
  "def_name a = takeWhile (\<lambda>c. c \<noteq> CHR ''='') a"

definition def_value :: "string \<Rightarrow> string" where
  "def_value a = (let r = dropWhile (\<lambda>c. c \<noteq> CHR ''='') a in if r = [] then ''1'' else tl r)"

definition add_define :: "hint_env \<Rightarrow> string \<Rightarrow> pp \<Rightarrow> pp res" where
  "add_define he arg p =
     (if \<not> lex_is_identifier (Some (def_name arg))
      then Inl (Err ''-D needs a non-reserved identifier as its macro name'')
      else lex_define he (def_name arg) (Some (def_value arg)) p)"

text \<open>\<open>strncmp\<close> over the length of a name, and the character after it: a later definition of the
  same name.\<close>

definition redefines :: "string \<Rightarrow> string \<Rightarrow> bool" where
  "redefines d e =
     (let n = length (def_name d)
      in take n d = take n e \<and> (hd_nul (drop n e) = chr_nul \<or> hd_nul (drop n e) = CHR ''=''))"

fun add_defines :: "hint_env \<Rightarrow> string list \<Rightarrow> pp \<Rightarrow> pp res" where
  "add_defines he [] p = Inr p"
| "add_defines he (d # ds) p =
     (if list_ex (redefines d) ds then add_defines he ds p
      else rbind (add_define he d p) (add_defines he ds))"

definition cmdline_macros :: "hint_env \<Rightarrow> cfg \<Rightarrow> backend \<Rightarrow> pp res" where
  "cmdline_macros he k be =
     rbind (if cf_asm k \<and> be_asm be then lex_define he ''HAS_ASM'' (Some ''1'') (cf_pp k) else Inr (cf_pp k)) (\<lambda>p1.
     rbind (if cf_exceptions k then lex_define he ''HAS_EXCEPTIONS'' (Some ''1'') p1 else Inr p1) (\<lambda>p2.
       add_defines he (cf_defines k) p2))"

section \<open>Actions\<close>

text \<open>\<open>AEmit\<close> writes the emitted program to a file, \<open>''-''\<close> for the standard output.\<close>

datatype action =
    AEmit string bool bool
  | ABuildObj string string string
  | ABuildExe string string string
  | AUnlink string
  | AWriteRt string string
  | ALink string "string list" string bool
  | AAr "string list"
  | ARun "string list"

record env =
  de_backends :: "backend list"
  de_have :: "string \<Rightarrow> bool"
  de_hints :: hint_env
  de_front :: "cfg \<Rightarrow> backend \<Rightarrow> pp \<Rightarrow> string list \<Rightarrow> unit res"
  de_rc :: "action \<Rightarrow> int"
  de_ar :: "string option"
  de_fmt_io :: fmt_io
  de_fmt_indent :: "string option"
  de_fmt_braces :: "string option"
  de_files :: files

text \<open>A computation has done some actions, and ended in an error or with a value.\<close>

type_synonym 'a drv = "action list \<times> (err + 'a)"

definition dbind :: "'a drv \<Rightarrow> ('a \<Rightarrow> 'b drv) \<Rightarrow> 'b drv" where
  "dbind m f = (case snd m of Inl e \<Rightarrow> (fst m, Inl e) | Inr x \<Rightarrow> (fst m @ fst (f x), snd (f x)))"

definition dret :: "'a \<Rightarrow> 'a drv" where "dret x = ([], Inr x)"
definition dfail :: "err \<Rightarrow> 'a drv" where "dfail e = ([], Inl e)"
definition act :: "env \<Rightarrow> action \<Rightarrow> int drv" where "act env a = ([a], Inr (de_rc env a))"
definition acts :: "env \<Rightarrow> action list \<Rightarrow> unit drv" where "acts env as = (as, Inr ())"

definition fail_if :: "bool \<Rightarrow> err \<Rightarrow> unit drv" where
  "fail_if b e = (if b then dfail e else dret ())"

definition build_source :: "env \<Rightarrow> cfg \<Rightarrow> backend \<Rightarrow> string \<Rightarrow> string \<Rightarrow> bool \<Rightarrow> bool \<Rightarrow> unit drv" where
  "build_source env k be artifact out objmode ctor =
     dbind (act env (AEmit artifact objmode ctor)) (\<lambda>_.
     dbind (if objmode
            then (if be_obj be then act env (ABuildObj artifact out (cf_opt k)) else dfail NullDeref)
            else act env (ABuildExe artifact out (cf_opt k))) (\<lambda>rc.
     dbind (acts env (if cf_keep k then [] else [AUnlink artifact])) (\<lambda>_.
       fail_if (rc \<noteq> 0) (Err (''backend '' @ sq (be_name be) @ '' failed to build '' @ out)))))"

text \<open>The name of the first source without directory and extension.\<close>

definition after_slash :: "string \<Rightarrow> string" where
  "after_slash s = rev (takeWhile (\<lambda>c. c \<noteq> CHR ''/'') (rev s))"

definition stem_of :: "string \<Rightarrow> string" where
  "stem_of s =
     (let base = (if after_slash s = ''-'' then ''stdin'' else after_slash s);
          r = dropWhile (\<lambda>c. c \<noteq> CHR ''.'') (rev base)
      in if r \<noteq> [] \<and> tl r \<noteq> [] then rev (tl r) else base)"

definition cfg_stem :: "cfg \<Rightarrow> string option" where
  "cfg_stem k = (case cfg_sources k of [] \<Rightarrow> None | s # _ \<Rightarrow> Some (stem_of s))"

section \<open>The four ways to build\<close>

definition do_emit :: "env \<Rightarrow> cfg \<Rightarrow> backend \<Rightarrow> int drv" where
  "do_emit env k be =
     (let ctor = cf_objmode k \<or> cf_is_shared k \<or> cf_archive k; objmode = ctor \<or> cfg_objects k \<noteq> [];
          path = (case cf_out k of Some p \<Rightarrow> Some p | None \<Rightarrow> map_option (\<lambda>s. s @ be_ext be) (cfg_stem k))
      in case path of
           None \<Rightarrow> dfail NullDeref
         | Some p \<Rightarrow> dbind (act env (AEmit p objmode ctor)) (\<lambda>_. dret 0))"

text \<open>The build that is not for Windows.\<close>

definition do_archive :: "env \<Rightarrow> cfg \<Rightarrow> backend \<Rightarrow> int drv" where
  "do_archive env k be =
     (let out = (case cf_out k of Some p \<Rightarrow> p | None \<Rightarrow> ''a.a'');
          bad = find (\<lambda>s. (length s > 2 \<and> suffix ''.a'' s) \<or> (length s > 4 \<and> suffix ''.lib'' s)) (cfg_objects k)
      in case bad of
           Some s \<Rightarrow> dfail (Err (''-sarchive cannot include archive '' @ sq s))
         | None \<Rightarrow>
             (let tmp = (if cfg_sources k \<noteq> [] then [out @ ''.aholyc.o''] else [])
              in dbind (if cfg_sources k \<noteq> []
                        then build_source env k be (out @ ''.aholyc'' @ be_ext be) (out @ ''.aholyc.o'') True True
                        else dret ()) (\<lambda>_.
                 dbind (fail_if (tmp @ cfg_objects k = []) (Err ''-sarchive needs a source or object file'')) (\<lambda>_.
                 dbind (acts env [AUnlink out]) (\<lambda>_.
                 dbind (act env (AAr ([if de_ar env = None \<or> de_ar env = Some [] then ''ar'' else the (de_ar env),
                          ''rcs'', out] @ tmp @ cfg_objects k))) (\<lambda>rc.
                 dbind (fail_if (rc \<noteq> 0) (Err (''failed to build '' @ out))) (\<lambda>_.
                 dbind (acts env (if cf_keep k then [] else map AUnlink tmp)) (\<lambda>_. dret 0))))))))"

definition do_object :: "env \<Rightarrow> cfg \<Rightarrow> backend \<Rightarrow> int drv" where
  "do_object env k be =
     (case (case cf_out k of Some p \<Rightarrow> Some p | None \<Rightarrow> map_option (\<lambda>s. s @ ''.o'') (cfg_stem k)) of
        None \<Rightarrow> dfail NullDeref
      | Some out \<Rightarrow> dbind (build_source env k be (out @ ''.aholyc'' @ be_ext be) out True True) (\<lambda>_. dret 0))"

definition rt_defines :: "cfg \<Rightarrow> string" where
  "rt_defines k =
     ''#define HC_OBJECT_RUNTIME 1'' @ [chr_nl]
     @ (if \<not> cf_exceptions k then ''#define HC_NO_EXCEPTIONS 1'' @ [chr_nl] else [])
     @ (if cf_is_shared k then ''#define HC_SHARED_RUNTIME 1'' @ [chr_nl]
        else if cfg_sources k \<noteq> [] then ''#define HC_EXTERNAL_START 1'' @ [chr_nl] else [])"

definition link_out :: "bool \<Rightarrow> cfg \<Rightarrow> string" where
  "link_out run k = (case cf_out k of Some p \<Rightarrow> p | None \<Rightarrow> if run then ''.a.out'' else ''a.out'')"

text \<open>The whole-program build, or the link of a temporary object, the given objects and the runtime;
  the value is the linker's status.\<close>

definition link_build :: "env \<Rightarrow> cfg \<Rightarrow> backend \<Rightarrow> string \<Rightarrow> int drv" where
  "link_build env k be out =
     (let artifact = out @ ''.aholyc'' @ be_ext be; rtpath = out @ ''.aholycrt.c'';
          tmp = (if cfg_sources k \<noteq> [] then [out @ ''.aholyc.o''] else [])
      in if cfg_objects k = [] \<and> \<not> cf_is_shared k
         then dbind (build_source env k be artifact out False False) (\<lambda>_. dret 0)
         else
           dbind (if cfg_sources k \<noteq> [] then build_source env k be artifact (out @ ''.aholyc.o'') True (cf_is_shared k)
                  else dret ()) (\<lambda>_.
           dbind (acts env [AWriteRt rtpath (rt_defines k)]) (\<lambda>_.
           dbind (act env (ALink out (tmp @ cfg_objects k @ [rtpath]) (cf_opt k) (cf_is_shared k))) (\<lambda>r.
           dbind (acts env (if cf_keep k then [] else AUnlink rtpath # map AUnlink tmp)) (\<lambda>_. dret r)))))"

definition run_program :: "env \<Rightarrow> cfg \<Rightarrow> string \<Rightarrow> string list \<Rightarrow> int drv" where
  "run_program env k out run_args =
     dbind (act env (ARun ((if CHR ''/'' \<in> set out then out else ''./'' @ out) # run_args))) (\<lambda>rc.
     dbind (acts env (if cf_out k = None \<and> \<not> cf_keep k then [AUnlink out] else [])) (\<lambda>_. dret rc))"

definition do_link :: "env \<Rightarrow> bool \<Rightarrow> string list \<Rightarrow> cfg \<Rightarrow> backend \<Rightarrow> int drv" where
  "do_link env run run_args k be =
     dbind (link_build env k be (link_out run k)) (\<lambda>r.
     dbind (fail_if (r \<noteq> 0) (Err (''failed to build '' @ link_out run k))) (\<lambda>_.
       (if run then run_program env k (link_out run k) run_args else dret 0)))"

section \<open>The command\<close>

definition lift_res :: "'a res \<Rightarrow> 'a drv" where "lift_res r = ([], r)"

definition pick_backend :: "env \<Rightarrow> cfg \<Rightarrow> backend res" where
  "pick_backend env k =
     (case cf_bname k of
        Some b \<Rightarrow> (case find_backend (de_backends env) b of
            None \<Rightarrow> Inl (Err (''unknown backend '' @ sq b @ '' (try -h)'')) | Some be \<Rightarrow> Inr be)
      | None \<Rightarrow> (case default_backend (de_backends env) (de_have env) of
            None \<Rightarrow> Inl (Err ''no compiler backends enabled; rebuild with AHOLYC_BACKEND_*=1'') | Some be \<Rightarrow> Inr be))"

definition produce :: "env \<Rightarrow> bool \<Rightarrow> string list \<Rightarrow> cfg \<Rightarrow> backend \<Rightarrow> int drv" where
  "produce env run run_args k be =
     (if cf_emit k then do_emit env k be
      else if cf_archive k then do_archive env k be
      else if cf_objmode k then do_object env k be
      else do_link env run run_args k be)"

definition compile :: "env \<Rightarrow> bool \<Rightarrow> string list \<Rightarrow> cfg \<Rightarrow> int drv" where
  "compile env run run_args k =
     dbind (lift_res (check_modes run k)) (\<lambda>_.
     dbind (lift_res (pick_backend env k)) (\<lambda>be.
     dbind (lift_res (cmdline_macros (de_hints env) k be)) (\<lambda>p.
     dbind (lift_res (check_build k be)) (\<lambda>_.
     dbind (lift_res (if cfg_sources k \<noteq> [] then de_front env k be p (cfg_sources k) else Inr ())) (\<lambda>_.
       produce env run run_args k be)))))"

text \<open>\<open>aholyc fmt\<close> hands the rest of the command line to the formatter.\<close>

datatype outcome = Formatted "err option \<times> int \<times> string \<times> files" | Printed shown int | Ran "int drv" | Refused err

definition parseargv :: "env \<Rightarrow> string list \<Rightarrow> pp \<Rightarrow> outcome" where
  "parseargv env argv p =
     (if length argv \<ge> 2 \<and> argv ! 1 = ''fmt''
      then Formatted (fmt_main (de_fmt_io env) (de_fmt_indent env) (de_fmt_braces env) (drop 2 argv) (de_files env))
      else
        (let run = (length argv \<ge> 2 \<and> argv ! 1 = ''run'')
         in case read_opts run argv p of
              Inl e \<Rightarrow> Refused e
            | Inr (ShownP s) \<Rightarrow> Printed s 0
            | Inr (Parsed k run_args) \<Rightarrow>
                (if cf_inputs k = [] then Printed (Usage 1) 1 else Ran (compile env run run_args k))))"

text \<open>The exit status: 1 after an error.\<close>

definition status_of :: "outcome \<Rightarrow> int" where
  "status_of r =
     (case r of Formatted (e, rc, _) \<Rightarrow> (if e = None then rc else 1) | Printed s c \<Rightarrow> c | Refused e \<Rightarrow> 1
      | Ran d \<Rightarrow> (case snd d of Inl e \<Rightarrow> 1 | Inr rc \<Rightarrow> rc))"

definition aholyc_parseargv :: "env \<Rightarrow> (string \<Rightarrow> bool) \<Rightarrow> string option \<Rightarrow> string list \<Rightarrow> int" where
  "aholyc_parseargv env platform cwd argv =
     (case lex_reset platform cwd of Inl e \<Rightarrow> 1 | Inr p \<Rightarrow> status_of (parseargv env argv p))"

lemma drv_run:
  "dbind (as, Inr x) f = (as @ fst (f x), snd (f x))" "dbind (as, Inl e) f = (as, Inl e)"
  "dbind (dret x) f = f x" "dbind (dfail e) f = dfail e"
  "dbind (act env a) g = (a # fst (g (de_rc env a)), snd (g (de_rc env a)))"
  "dbind (acts env bs) h = (bs @ fst (h ()), snd (h ()))"
  "fail_if False e = dret ()" "fail_if True e = dfail e" "lift_res (Inr y) = dret y" "lift_res (Inl e) = dfail e"
  by (simp_all add: dbind_def dret_def dfail_def act_def acts_def fail_if_def lift_res_def)

section \<open>Files left behind\<close>

text \<open>The effect of an action on the set of existing files, when the tools write what they are asked
  to.\<close>

fun on_disk :: "action \<Rightarrow> string set \<Rightarrow> string set" where
  "on_disk (AEmit p objmode ctor) S = (if p = ''-'' then S else insert p S)"
| "on_disk (ABuildObj a out opt) S = insert out S"
| "on_disk (ABuildExe a out opt) S = insert out S"
| "on_disk (AUnlink p) S = S - {p}"
| "on_disk (AWriteRt p t) S = insert p S"
| "on_disk (ALink out ws opt sh) S = insert out S"
| "on_disk (AAr ws) S = insert (ws ! 2) S"
| "on_disk (ARun ws) S = S"

definition output_of :: "bool \<Rightarrow> cfg \<Rightarrow> string" where
  "output_of run k =
     (case cf_out k of Some p \<Rightarrow> p
      | None \<Rightarrow> if cf_archive k then ''a.a''
               else if cf_objmode k then (case cfg_stem k of None \<Rightarrow> [] | Some s \<Rightarrow> s @ ''.o'')
               else if run then ''.a.out'' else ''a.out'')"

definition temporaries :: "string \<Rightarrow> string set" where
  "temporaries out = {out @ ''.aholyc.ll'', out @ ''.aholyc.c'', out @ ''.aholyc.js'', out @ ''.aholyc.o'', out @ ''.aholycrt.c''}"

lemma dbind_Inr:
  "dbind m f = (as, Inr y) \<longleftrightarrow>
     (\<exists>a1 x a2. m = (a1, Inr x) \<and> f x = (a2, Inr y) \<and> as = a1 @ a2)"
  by (cases m; cases "snd m") (auto simp: dbind_def prod_eq_iff)

lemmas drv_Inr = dbind_Inr dret_def dfail_def act_def acts_def fail_if_def lift_res_def

lemma temp_neq [simp]: "s \<noteq> [] \<Longrightarrow> out @ s \<noteq> out" "s \<noteq> [] \<Longrightarrow> out \<noteq> out @ s"
  by auto

definition known_ext :: "backend \<Rightarrow> bool" where
  "known_ext be \<longleftrightarrow> be_ext be \<in> {''.ll'', ''.c'', ''.js''}"

lemma artifact_temp: "known_ext be \<Longrightarrow> out @ ''.aholyc'' @ be_ext be \<in> temporaries out"
  by (auto simp: known_ext_def temporaries_def)

lemma artifact_not_obj: "known_ext be \<Longrightarrow> out @ ''.aholyc'' @ be_ext be \<noteq> out @ ''.aholyc.o''"
  by (auto simp: known_ext_def)

lemma ends_in_temp: "out @ ''.aholyc'' @ e \<noteq> ''-''" "out @ ''.aholycrt.c'' \<noteq> ''-''"
  by (cases out; auto)+

text \<open>A source build leaves its result and nothing else.\<close>

lemma build_source_disk:
  assumes "build_source env k be a out objmode ctor = (as, Inr ())" "\<not> cf_keep k" "a \<noteq> out" "a \<noteq> ''-''"
  shows "fold on_disk as S = insert out (S - {a})"
  using assms by (auto simp: build_source_def drv_Inr split: if_split_asm)

lemma do_object_disk:
  assumes "do_object env k be = (as, Inr rc)" "\<not> cf_keep k" "known_ext be" "S \<inter> temporaries (output_of run k) = {}"
    "\<not> cf_archive k" "cf_objmode k"
  shows "fold on_disk as S = insert (output_of run k) S"
proof -
  obtain out where o: "(case cf_out k of Some p \<Rightarrow> Some p | None \<Rightarrow> map_option (\<lambda>s. s @ ''.o'') (cfg_stem k)) = Some out"
    using assms(1) by (cases "case cf_out k of Some p \<Rightarrow> Some p | None \<Rightarrow> map_option (\<lambda>s. s @ ''.o'') (cfg_stem k)")
      (auto simp: do_object_def dfail_def)
  then have out: "output_of run k = out"
    using assms(5,6) by (auto simp: output_of_def split: option.splits)
  from assms(1) o have b: "build_source env k be (out @ ''.aholyc'' @ be_ext be) out True True = (as, Inr ())"
    by (auto simp: do_object_def drv_Inr)
  have "out @ ''.aholyc'' @ be_ext be \<notin> S" using assms(3,4) artifact_temp out by blast
  with build_source_disk [OF b assms(2)] out ends_in_temp show ?thesis by simp
qed
lemma insert_temps_gone:
  assumes "S \<inter> temporaries out = {}" "T \<subseteq> temporaries out"
  shows "S - T = S"
  using assms by blast

lemma temps [simp]:
  "out @ ''.aholyc.o'' \<in> temporaries out" "out @ ''.aholycrt.c'' \<in> temporaries out" "out \<notin> temporaries out"
  by (auto simp: temporaries_def)

lemma do_archive_disk:
  assumes "do_archive env k be = (as, Inr rc)" "\<not> cf_keep k" "known_ext be" "S \<inter> temporaries (output_of run k) = {}"
    "cf_archive k"
  shows "fold on_disk as S = insert (output_of run k) S"
proof -
  let ?out = "output_of run k" and ?o = "output_of run k @ ''.aholyc.o''"
  have out: "(case cf_out k of Some p \<Rightarrow> p | None \<Rightarrow> ''a.a'') = ?out"
    using assms(5) by (simp add: output_of_def split: option.split)
  note unf = do_archive_def Let_def out
  have fresh: "?o \<notin> S" "?out @ ''.aholyc'' @ be_ext be \<notin> S"
    using assms(3,4) artifact_temp temps(1) by blast+
  show ?thesis
  proof (cases "cfg_sources k = []")
    case True
    with assms(1,2) show ?thesis
      by (auto simp: unf drv_Inr split: option.split_asm if_split_asm)
  next
    case False
    with assms(1,2) obtain a1 tool where
      b: "build_source env k be (?out @ ''.aholyc'' @ be_ext be) ?o True True = (a1, Inr ())"
      and as: "as = a1 @ [AUnlink ?out, AAr ([tool, ''rcs'', ?out] @ [?o] @ cfg_objects k), AUnlink ?o]"
      by (auto simp: unf drv_Inr split: option.split_asm if_split_asm)
    have "fold on_disk a1 S = insert ?o (S - {?out @ ''.aholyc'' @ be_ext be})"
      using artifact_not_obj [OF assms(3), of ?out] ends_in_temp by (intro build_source_disk [OF b assms(2)]) simp_all
    with as fresh show ?thesis by auto
  qed
qed

lemma link_build_disk:
  assumes "link_build env k be out = (as, Inr rc)" "\<not> cf_keep k" "known_ext be" "S \<inter> temporaries out = {}"
  shows "fold on_disk as S = insert out S"
proof -
  let ?o = "out @ ''.aholyc.o''" and ?rt = "out @ ''.aholycrt.c''" and ?a = "out @ ''.aholyc'' @ be_ext be"
  have fresh: "?o \<notin> S" "?rt \<notin> S" "?a \<notin> S"
    using assms(3,4) artifact_temp temps by blast+
  have ao: "?a \<noteq> ?o" "?a \<noteq> out" "?a \<noteq> ''-''" using artifact_not_obj [OF assms(3)] ends_in_temp by simp_all
  show ?thesis
  proof (cases "cfg_objects k = [] \<and> \<not> cf_is_shared k")
    case True
    with assms(1) have b: "build_source env k be ?a out False False = (as, Inr ())"
      by (auto simp: link_build_def Let_def drv_Inr)
    have "fold on_disk as S = insert out (S - {?a})" by (rule build_source_disk [OF b assms(2) ao(2,3)])
    with fresh show ?thesis by simp
  next
    case False
    show ?thesis
    proof (cases "cfg_sources k = []")
      case True
      with False assms(1,2) have
        as: "as = [AWriteRt ?rt (rt_defines k), ALink out (cfg_objects k @ [?rt]) (cf_opt k) (cf_is_shared k), AUnlink ?rt]"
        by (auto simp: link_build_def Let_def drv_Inr)
      with fresh show ?thesis by auto
    next
      case src: False
      with False assms(1,2) obtain a1 where
        b: "build_source env k be ?a ?o True (cf_is_shared k) = (a1, Inr ())" and
        as: "as = a1 @ [AWriteRt ?rt (rt_defines k), ALink out (?o # cfg_objects k @ [?rt]) (cf_opt k) (cf_is_shared k),
          AUnlink ?rt, AUnlink ?o]"
        by (auto simp: link_build_def Let_def drv_Inr)
      have "fold on_disk a1 S = insert ?o (S - {?a})" by (rule build_source_disk [OF b assms(2) ao(1,3)])
      with as fresh show ?thesis by auto
    qed
  qed
qed

lemma do_link_disk:
  assumes "do_link env run args k be = (as, Inr rc)" "\<not> cf_keep k" "known_ext be" "S \<inter> temporaries (link_out run k) = {}"
  shows "fold on_disk as S =
    (if run \<and> cf_out k = None then S - {link_out run k} else insert (link_out run k) S)"
proof -
  obtain a1 r a2 where b: "link_build env k be (link_out run k) = (a1, Inr r)"
    and t: "(if run then run_program env k (link_out run k) args else dret 0) = (a2, Inr rc)" and as: "as = a1 @ a2"
    using assms(1) by (auto simp: do_link_def dbind_Inr dret_def dfail_def fail_if_def split: if_split_asm)
  have "fold on_disk a1 S = insert (link_out run k) S" by (rule link_build_disk [OF b assms(2-4)])
  with t as assms(2) show ?thesis by (auto simp: run_program_def drv_Inr split: if_split_asm)
qed

lemma pick_backend_known:
  "pick_backend env k = Inr be \<Longrightarrow> be \<in> set (de_backends env)"
  by (auto simp: pick_backend_def find_backend_def default_backend_def find_Some_iff
      split: option.split_asm if_split_asm)

lemma compile_Inr:
  "compile env run args k = (as, Inr rc) \<Longrightarrow>
     \<exists>be p. check_modes run k = Inr () \<and> pick_backend env k = Inr be \<and> cmdline_macros (de_hints env) k be = Inr p
       \<and> check_build k be = Inr () \<and> produce env run args k be = (as, Inr rc)"
  unfolding compile_def lift_res_def by (fastforce simp: dbind_Inr)

definition demo_env :: env where
  "demo_env = \<lparr>de_backends = [backend_ll, backend_c, backend_js], de_have = (\<lambda>_. False),
     de_hints = pv_hints quiet_env, de_front = (\<lambda>_ _ _ _. Inr ()), de_rc = (\<lambda>_. 0), de_ar = None,
     de_fmt_io = \<lparr>io_open = (\<lambda>_. True), io_write = (\<lambda>_. True), io_rename = (\<lambda>_. True)\<rparr>,
     de_fmt_indent = None, de_fmt_braces = None, de_files = (\<lambda>_. None)\<rparr>"

definition demo_cfg :: "pp \<Rightarrow> string list \<Rightarrow> cfg" where
  "demo_cfg p ins = (cfg_init p)\<lparr>cf_asm := False, cf_exceptions := False, cf_inputs := ins\<rparr>"

lemmas demo_simps = drv_run Let_def demo_env_def demo_cfg_def cfg_init_def compile_def check_modes_def pick_backend_def
  default_backend_def cmdline_macros_def check_build_def cfg_sources_def cfg_objects_def is_object_def
  produce_def build_source_def backend_c_def backend_ll_def suffix_def

lemma demo_compile:
  "compile demo_env True [''x''] (demo_cfg p [''a.HC'']) =
     ([AEmit ''.a.out.aholyc.c'' False False, ABuildExe ''.a.out.aholyc.c'' ''.a.out'' ''-Os'', AUnlink ''.a.out.aholyc.c'',
       ARun [''./.a.out'', ''x''], AUnlink ''.a.out''], Inr 0)"
  by (simp add: demo_simps do_link_def link_out_def link_build_def run_program_def dret_def)


section \<open>Modes\<close>

lemma inputs_split: "cf_inputs k \<noteq> [] \<Longrightarrow> cfg_sources k \<noteq> [] \<or> cfg_objects k \<noteq> []"
  by (cases "cf_inputs k") (auto simp: cfg_sources_def cfg_objects_def)

text \<open>No step of a computation goes through a null pointer.\<close>

definition sound :: "'a drv \<Rightarrow> bool" where
  "sound m \<longleftrightarrow> snd m \<noteq> Inl NullDeref"

lemma sound_dbind: "sound m \<Longrightarrow> (\<And>x. sound (f x)) \<Longrightarrow> sound (dbind m f)"
  by (auto simp: sound_def dbind_def split: sum.split)

lemma sound_basic:
  "sound (dret x)" "sound (act env a)" "sound (acts env as)" "sound (fail_if b (Err m))" "sound (dfail (Err m))"
  by (simp_all add: sound_def dret_def act_def acts_def fail_if_def dfail_def)

lemma sound_if: "(b \<Longrightarrow> sound x) \<Longrightarrow> (\<not> b \<Longrightarrow> sound y) \<Longrightarrow> sound (if b then x else y)"
  by simp

lemmas sound_rules = sound_basic sound_if sound_dbind

lemma sound_build_source: "(objmode \<Longrightarrow> be_obj be) \<Longrightarrow> sound (build_source env k be a out objmode ctor)"
  unfolding build_source_def by (intro sound_rules) simp

text \<open>C40: The checks are complete: with a configuration they accept, no way of building calls a backend
  function the backend does not have or uses the name of a source when there is none.\<close>
theorem accepted_configurations_build:
  assumes "check_modes run k = Inr ()" "check_build k be = Inr ()" "cf_inputs k \<noteq> []"
  shows "snd (produce env run args k be) \<noteq> Inl NullDeref"
proof -
  have src: "cf_objmode k \<or> cf_emit k \<Longrightarrow> cfg_stem k \<noteq> None"
    using assms(2) by (auto simp: check_build_def cfg_stem_def split: if_split_asm list.splits)
  have obj: "\<not> cf_emit k \<Longrightarrow> cf_objmode k \<or> cf_archive k \<or> cf_is_shared k \<or> cfg_objects k \<noteq> [] \<Longrightarrow> be_obj be"
    using assms(2) by (auto simp: check_build_def split: if_split_asm)
  have "sound (do_emit env k be)" if em: "cf_emit k"
  proof -
    obtain s where "cfg_stem k = Some s" using src [OF disjI2 [OF em]] by auto
    then show ?thesis unfolding do_emit_def Let_def
      by (cases "cf_out k") (auto intro!: sound_rules)
  qed
  moreover have "sound (do_archive env k be)" if "be_obj be"
    unfolding do_archive_def Let_def
    by (auto split: option.split intro!: sound_rules sound_build_source that)
  moreover have "sound (do_object env k be)" if bo: "be_obj be" "cf_objmode k"
  proof -
    obtain s where "cfg_stem k = Some s" using src [OF disjI1 [OF bo(2)]] by auto
    then show ?thesis unfolding do_object_def
      by (cases "cf_out k") (auto intro!: sound_rules sound_build_source bo)
  qed
  moreover have "sound (do_link env run args k be)" if "(cfg_objects k \<noteq> [] \<or> cf_is_shared k) \<longrightarrow> be_obj be"
    unfolding do_link_def link_build_def run_program_def Let_def
    by (intro sound_rules sound_build_source) (use that in auto)
  ultimately have "sound (produce env run args k be)"
    unfolding produce_def by (intro sound_if) (use obj in blast)+
  then show ?thesis by (simp add: sound_def)
qed

theorem accepted_configurations_build_witness:
  "snd (produce demo_env False [] ((demo_cfg empty_pp [''a.HC''])\<lparr>cf_objmode := True\<rparr>) backend_c) \<noteq> Inl NullDeref"
  by (rule accepted_configurations_build) (simp_all add: demo_simps)

text \<open>When the archiver fails, the temporary object it was to pack stays behind, also without
  \<open>-k\<close>: the error leaves before the object is removed.\<close>
theorem failed_archive_leaves_object:
  assumes "cf_out k = Some out" "cfg_sources k \<noteq> []" "list_all (suffix ''.o'') (cfg_objects k)" "be_obj be" "known_ext be"
    "\<And>a p opt. de_rc env (ABuildObj a p opt) = 0" "\<And>ws. de_rc env (AAr ws) \<noteq> 0"
  shows "snd (do_archive env k be) = Inl (Err (''failed to build '' @ out))
    \<and> out @ ''.aholyc.o'' \<in> fold on_disk (fst (do_archive env k be)) S"
proof -
  have "find (\<lambda>s. (length s > 2 \<and> suffix ''.a'' s) \<or> (length s > 4 \<and> suffix ''.lib'' s)) (cfg_objects k) = None"
    using assms(3) by (auto simp: find_None_iff list_all_iff suffix_def)
  moreover have "build_source env k be (out @ ''.aholyc'' @ be_ext be) (out @ ''.aholyc.o'') True True
      = ([AEmit (out @ ''.aholyc'' @ be_ext be) True True,
          ABuildObj (out @ ''.aholyc'' @ be_ext be) (out @ ''.aholyc.o'') (cf_opt k)]
         @ (if cf_keep k then [] else [AUnlink (out @ ''.aholyc'' @ be_ext be)]), Inr ())"
    using assms(4,6) by (simp add: build_source_def drv_run dret_def)
  ultimately have d: "do_archive env k be = ([AEmit (out @ ''.aholyc'' @ be_ext be) True True,
          ABuildObj (out @ ''.aholyc'' @ be_ext be) (out @ ''.aholyc.o'') (cf_opt k)]
         @ (if cf_keep k then [] else [AUnlink (out @ ''.aholyc'' @ be_ext be)])
         @ [AUnlink out, AAr ([if de_ar env = None \<or> de_ar env = Some [] then ''ar'' else the (de_ar env), ''rcs'', out]
              @ [out @ ''.aholyc.o''] @ cfg_objects k)], Inl (Err (''failed to build '' @ out)))"
    using assms(1,2,7) by (simp add: do_archive_def Let_def drv_run dfail_def)
  show ?thesis
    unfolding d using artifact_not_obj [OF assms(5), of out] by (cases "cf_keep k") auto
qed

theorem failed_archive_leaves_object_witness:
  "''x.a.aholyc.o'' \<in> fold on_disk (fst (do_archive (demo_env\<lparr>de_rc := (\<lambda>a. case a of AAr _ \<Rightarrow> 1 | _ \<Rightarrow> 0)\<rparr>)
     ((demo_cfg empty_pp [''a.HC''])\<lparr>cf_out := Some ''x.a'', cf_archive := True\<rparr>) backend_c)) {}"
proof -
  let ?k = "(demo_cfg empty_pp [''a.HC''])\<lparr>cf_out := Some ''x.a'', cf_archive := True\<rparr>"
  let ?e = "demo_env\<lparr>de_rc := (\<lambda>a. case a of AAr _ \<Rightarrow> 1 | _ \<Rightarrow> 0)\<rparr>"
  have "cf_out ?k = Some ''x.a''" "cfg_sources ?k \<noteq> []" "list_all (suffix ''.o'') (cfg_objects ?k)" "be_obj backend_c" "known_ext backend_c"
    by (simp_all add: demo_simps known_ext_def)
  from failed_archive_leaves_object [OF this, of ?e] show ?thesis by simp
qed
section \<open>Reading the command line\<close>

text \<open>What \<open>r_getopt_next\<close> returns for a positional argument.\<close>

lemma chr_code_not_1: "chr_code c = 1 \<longleftrightarrow> c = CHR 0x01"
proof -
  have "(of_char c :: nat) = 1 \<longleftrightarrow> c = CHR 0x01"
    using of_char_eq_iff [where 'a = nat, of c "CHR 0x01"] by simp
  moreover have "(of_char c :: nat) < 256" by (metis of_char_mod_256 mod_less_divisor zero_less_numeral)
  moreover have "chr_code c = 1 \<longleftrightarrow> n = 1" if "n = of_char c" "n < 256" for n :: nat
    unfolding chr_code_def that(1) [symmetric] Let_def using that(2) by auto
  ultimately show ?thesis by blast
qed

definition ostr_ok :: "string \<Rightarrow> bool" where
  "ostr_ok s \<longleftrightarrow> CHR 0x01 \<notin> set s"

lemma read_letter_not_1: "ostr_ok (go_ostr g) \<Longrightarrow> fst (read_letter g) \<noteq> 1"
proof -
  assume o: "ostr_ok (go_ostr g)"
  have "after_letter (go_ostr g) c = Some r \<Longrightarrow> chr_code c \<noteq> 1" for c r
    using o by (auto simp: after_letter_def Let_def ostr_ok_def chr_code_not_1 dropWhile_eq_Nil_conv split: if_split_asm)
  then show ?thesis by (auto simp: read_letter_def Let_def split: option.split)
qed

lemma next_frame: "r_getopt_next g = (r, g') \<Longrightarrow> go_argv g' = go_argv g \<and> go_ostr g' = go_ostr g"
proof (induction g arbitrary: r g' rule: r_getopt_next.induct)
  case (1 g)
  have rl: "read_letter h = (r, h') \<Longrightarrow> go_argv h' = go_argv h \<and> go_ostr h' = go_ostr h" for h h' r
    by (auto simp: read_letter_def Let_def if_end_next_def split: option.split_asm if_split_asm)
  let ?w = "go_argv g ! go_ind g" and ?h = "g\<lparr>go_ind := go_ind g + 1, go_place := [], go_done := True\<rparr>"
  show ?case
  proof (cases "go_place g = [] \<and> go_ind g < length (go_argv g) \<and>
      \<not> (go_done g \<or> ?w = [] \<or> hd ?w \<noteq> CHR ''-'' \<or> tl ?w = []) \<and> tl ?w = ''-''")
    case True
    then have "r_getopt_next g = r_getopt_next ?h" by (simp add: r_getopt_next.simps [of g] Let_def)
    with True 1(1) [of ?w r g'] 1(2) show ?thesis by auto
  next
    case False
    with 1(2) show ?thesis
      by (subst (asm) r_getopt_next.simps) (auto simp: Let_def dest: rl split: if_split_asm)
  qed
qed

lemma next_positional:
  "r_getopt_next g = (1, g') \<Longrightarrow> ostr_ok (go_ostr g) \<Longrightarrow>
     \<exists>w. go_arg g' = Some w \<and> 0 < go_ind g' \<and> go_ind g' \<le> length (go_argv g') \<and> go_argv g' ! (go_ind g' - 1) = w"
proof (induction g arbitrary: g' rule: r_getopt_next.induct)
  case (1 g)
  have rl: "read_letter h \<noteq> (1, g')" if "go_ostr h = go_ostr g" for h
    using read_letter_not_1 [of h] 1(3) that by auto
  consider (place) "go_place g \<noteq> []" | (stop) "go_place g = []" "go_ind g \<ge> length (go_argv g)"
    | (word) "go_place g = []" "go_ind g < length (go_argv g)" by linarith
  then show ?case
  proof cases
    case place
    with 1(2) rl [of g] show ?thesis by (simp add: r_getopt_next.simps [of g])
  next
    case stop
    with 1(2) show ?thesis by (simp add: r_getopt_next.simps [of g])
  next
    case False: word
    let ?w = "go_argv g ! go_ind g"
    consider "go_done g \<or> ?w = [] \<or> hd ?w \<noteq> CHR ''-'' \<or> tl ?w = []"
      | "\<not> (go_done g \<or> ?w = [] \<or> hd ?w \<noteq> CHR ''-'' \<or> tl ?w = [])" "tl ?w = ''-''"
      | "\<not> (go_done g \<or> ?w = [] \<or> hd ?w \<noteq> CHR ''-'' \<or> tl ?w = [])" "tl ?w \<noteq> ''-''" by blast
    then show ?thesis
    proof cases
      case 1
      with False "1.prems"(1) show ?thesis by (auto simp: r_getopt_next.simps [of g] Let_def)
    next
      case 2
      with False "1.prems" show ?thesis
        by (intro "1.IH" [OF _ _ refl]) (auto simp: r_getopt_next.simps [of g] Let_def)
    next
      case 3
      with False "1.prems"(1) rl [of "g\<lparr>go_place := tl ?w\<rparr>"] show ?thesis
        by (auto simp: r_getopt_next.simps [of g] Let_def)
    qed
  qed
qed

definition loop_ok :: "ropt \<Rightarrow> bool" where
  "loop_ok g \<longleftrightarrow> ropt_ok g \<and> ostr_ok (go_ostr g)"

text \<open>Enough fuel is one call more than what is left to read.\<close>

lemma opt_step_not_fuel: "opt_step c g k \<noteq> Inl Fuel"
  by (auto simp: opt_step_def no_flag_def Let_def rbind_def split: sum.splits)

lemma opt_loop_total: "left g < n \<Longrightarrow> loop_ok g \<Longrightarrow> opt_loop n run g k \<noteq> Inl Fuel"
proof (induction n arbitrary: g k)
  case (Suc n)
  obtain c g' where c: "r_getopt_next g = (c, g')" by fastforce
  from next_progress [OF _ c] Suc.prems next_frame [OF c]
  have g': "c \<noteq> -1 \<Longrightarrow> left g' < n" "loop_ok g'" by (auto simp: loop_ok_def)
  show ?case
  proof (cases "c < 0 \<or> c = 1")
    case True
    with c g' Suc.IH [OF g'(1) g'(2)] show ?thesis by (auto simp: Let_def)
  next
    case False
    with c g' Suc.IH opt_step_not_fuel [of c g' k] show ?thesis
      by (auto simp: Let_def rbind_def split: sum.split opt_result.split)
  qed
qed simp
text \<open>What the loop collects: the inputs are words of the command line, and only \<open>run\<close> leaves words
  to the program, those after its source.\<close>

lemma opt_step_inputs: "opt_step c g k = Inr (Next k') \<Longrightarrow> cf_inputs k' = cf_inputs k"
  by (auto simp: opt_step_def no_flag_def push_flag_def Let_def rbind_eq_Inr split: if_split_asm)

lemma loop_step:
  "rbind (opt_step c g' k) (\<lambda>r. case r of Next k1 \<Rightarrow> opt_loop n run g' k1 | Shown s \<Rightarrow> Inr (ShownP s)) = Inr (Parsed k' args)
   \<longleftrightarrow> (\<exists>k1. opt_step c g' k = Inr (Next k1) \<and> opt_loop n run g' k1 = Inr (Parsed k' args))"
proof -
  have "(case r of Next k1 \<Rightarrow> opt_loop n run g' k1 | Shown s \<Rightarrow> Inr (ShownP s)) = Inr (Parsed k' args)
     \<longleftrightarrow> (\<exists>k1. r = Next k1 \<and> opt_loop n run g' k1 = Inr (Parsed k' args))" for r
    by (cases r) auto
  then show ?thesis by (auto simp: rbind_eq_Inr)
qed

lemma opt_loop_run:
  "opt_loop n True g k = Inr (Parsed k' args) \<Longrightarrow> ostr_ok (go_ostr g) \<Longrightarrow> cf_inputs k = [] \<Longrightarrow>
     (if cf_inputs k' = [] then args = []
      else \<exists>pre src. go_argv g = pre @ src # args \<and> cf_inputs k' = [src])"
proof (induction n arbitrary: g k)
  case (Suc n)
  obtain c g' where c: "r_getopt_next g = (c, g')" by fastforce
  note fr = next_frame [OF c]
  consider "c < 0" | "c = 1" | "\<not> c < 0" "c \<noteq> 1" by blast
  then show ?case
  proof cases
    case 1
    with c Suc.prems show ?thesis by auto
  next
    case 2
    obtain w where w: "go_arg g' = Some w" "0 < go_ind g'" "go_ind g' \<le> length (go_argv g')" "go_argv g' ! (go_ind g' - 1) = w"
      using next_positional [of g g'] c 2 Suc.prems(2) by auto
    have k': "cf_inputs k' = [w]" "args = drop (go_ind g') (go_argv g')"
      using Suc.prems(1,3) c 2 w(1) by (auto simp: Let_def)
    have "go_argv g' = take (go_ind g' - 1) (go_argv g') @ w # args"
      using id_take_nth_drop [of "go_ind g' - 1" "go_argv g'"] w(2-4) k'(2) by simp
    with fr k'(1) show ?thesis by (metis list.distinct(1))
  next
    case 3
    with c Suc.prems(1) obtain k1 where
      k1: "opt_step c g' k = Inr (Next k1)" "opt_loop n True g' k1 = Inr (Parsed k' args)"
      using loop_step by auto
    from Suc.IH [OF k1(2)] Suc.prems(2,3) fr opt_step_inputs [OF k1(1)] show ?thesis
      by (cases "cf_inputs k' = []") auto
  qed
qed simp

lemma opt_loop_plain: "opt_loop n False g k = Inr (Parsed k' args) \<Longrightarrow> args = []"
proof (induction n arbitrary: g k)
  case (Suc n)
  obtain c g' where c: "r_getopt_next g = (c, g')" by fastforce
  consider "c < 0" | "c = 1" | "\<not> c < 0" "c \<noteq> 1" by blast
  then show ?case
  proof cases
    case 3
    with c Suc.prems loop_step obtain k1 where "opt_loop n False g' k1 = Inr (Parsed k' args)" by auto
    then show ?thesis by (rule Suc.IH)
  qed (use c Suc in \<open>auto simp: Let_def\<close>)
qed simp

lemma start_ok:
  "length argv \<ge> (if run then 2 else 1) \<Longrightarrow> loop_ok (start_opts run argv) \<and> go_argv (start_opts run argv) = argv"
  by (auto simp: start_opts_def loop_ok_def ropt_ok_def r_getopt_init_def ostr_ok_def opt_string_def ascii_def)

text \<open>Reading the command line always ends, and \<open>run\<close> hands the program exactly the words that
  follow its source file: the compiler takes none of them, and there is one source. Without \<open>run\<close>
  no word is left over.\<close>
theorem run_passes_arguments:
  assumes "length argv \<ge> (if run then 2 else 1)"
  shows "read_opts run argv p \<noteq> Inl Fuel \<and>
    (\<forall>k args. read_opts run argv p = Inr (Parsed k args) \<longrightarrow>
       (if run \<and> cf_inputs k \<noteq> [] then \<exists>pre src. argv = pre @ src # args \<and> cf_inputs k = [src] else args = []))"
proof (intro conjI allI impI)
  note s = start_ok [OF assms]
  show "read_opts run argv p \<noteq> Inl Fuel"
    unfolding read_opts_def Let_def by (rule opt_loop_total) (use s in simp_all)
  fix k args assume r: "read_opts run argv p = Inr (Parsed k args)"
  show "if run \<and> cf_inputs k \<noteq> [] then \<exists>pre src. argv = pre @ src # args \<and> cf_inputs k = [src] else args = []"
  proof (cases run)
    case True
    with r s opt_loop_run [of "left (start_opts run argv) + 1" "start_opts run argv" "cfg_init p" k args]
    show ?thesis by (simp add: read_opts_def Let_def loop_ok_def cfg_init_def del: opt_loop.simps split: if_split_asm)
  next
    case False
    with r have "args = []" unfolding read_opts_def Let_def by (intro opt_loop_plain) (simp del: opt_loop.simps)
    with False show ?thesis by simp
  qed
qed

definition demo_words :: "string list" where
  "demo_words = [''aholyc'', ''run'', ''-V'', ''a.HC'', ''-o'', ''b'']"

lemma demo_read:
  "(case read_opts True demo_words empty_pp of
      Inr (Parsed k args) \<Rightarrow> (cf_inputs k, args) | _ \<Rightarrow> ([], [])) = ([''a.HC''], [''-o'', ''b''])"
  by code_simp

theorem run_passes_arguments_witness:
  "\<exists>k args. read_opts True demo_words empty_pp = Inr (Parsed k args) \<and> args = [''-o'', ''b''] \<and>
     (\<exists>pre src. demo_words = pre @ src # args \<and> cf_inputs k = [src])"
proof -
  have len: "length demo_words \<ge> (if True then 2 else 1)" by (simp add: demo_words_def)
  obtain k args where r: "read_opts True demo_words empty_pp = Inr (Parsed k args)"
    using demo_read by (auto split: sum.split_asm parsed.split_asm)
  with demo_read have a: "args = [''-o'', ''b'']" "cf_inputs k \<noteq> []" by auto
  have "if True \<and> cf_inputs k \<noteq> [] then \<exists>pre src. demo_words = pre @ src # args \<and> cf_inputs k = [src] else args = []"
    using run_passes_arguments [OF len, of empty_pp] r by blast
  with r a show ?thesis by auto
qed

end
