(* ===== verification/ParserState.thy ===== *)
theory ParserState
  imports Ast
begin

text \<open>
  The state of the parser of \<open>src/src/parse.c\<close> and the helpers of its first part: token cursor,
  scopes, objects, labels and declaration hints. A parsing function takes the state and returns an
  error or its result with the next state. Variables are named by their \<open>uid\<close>, functions by their
  position in \<open>Program.funcs\<close>.
\<close>

section \<open>State\<close>

record obj =
  o_name :: string
  o_ty :: ty
  o_global :: bool
  o_extern :: bool
  o_param :: bool
  o_public :: bool
  o_prelude :: bool
  o_addr :: bool
  o_align :: int

text \<open>The default of a parameter: none, the previous argument's class name, or an expression.\<close>

datatype dflt = NoDefault | LastClass | DefExpr node

record func = fn +
  f_ty :: ty
  f_uid :: nat
  f_extern :: bool
  f_variadic :: bool
  f_public :: bool
  f_link :: "string option"
  f_hints :: u32
  f_params :: "nat list"
  f_nparams :: nat
  f_defaults :: "dflt list"
  f_locals :: "nat list"

record label_ref =
  lr_name :: string
  lr_tok :: token
  lr_defined :: bool

text \<open>\<open>cur_fn\<close>: none, the start-up function, or a function with its result type.\<close>

datatype cur_fn = NoFn | StartFn | InFn ty

record parser =
  ps_tk :: "token list"
  ps_scope :: "(string \<times> nat) list list"
  ps_vars :: "nat \<Rightarrow> obj option"
  ps_funcs :: "func list"
  ps_globals :: "nat list"
  ps_su_params :: "nat list"
  ps_su_locals :: "nat list"
  ps_strings :: "string list"
  ps_cur :: cur_fn
  ps_locals :: "nat list"
  ps_break :: "string option"
  ps_classes :: "class_info list"
  ps_labels :: "label_ref list"
  ps_asms :: "asm_block list"
  ps_asm_tok :: "token option"
  ps_uid :: nat
  ps_label :: nat
  ps_asm :: int
  ps_dol :: int
  ps_in_class :: bool
  ps_align_hints :: bool
  ps_use_asm :: bool
  ps_strict :: bool
  ps_warns :: "(string \<times> int \<times> string) list"

section \<open>The monad\<close>

type_synonym 'a pm = "parser \<Rightarrow> err + ('a \<times> parser)"

definition pret :: "'a \<Rightarrow> 'a pm" where "pret x = (\<lambda>s. Inr (x, s))"
definition pfail :: "err \<Rightarrow> 'a pm" where "pfail e = (\<lambda>s. Inl e)"
definition pbind :: "'a pm \<Rightarrow> ('a \<Rightarrow> 'b pm) \<Rightarrow> 'b pm" where
  "pbind m f = (\<lambda>s. case m s of Inl e \<Rightarrow> Inl e | Inr (x, s') \<Rightarrow> f x s')"
definition pget :: "(parser \<Rightarrow> 'a) \<Rightarrow> 'a pm" where "pget f = (\<lambda>s. Inr (f s, s))"
definition pmod :: "(parser \<Rightarrow> parser) \<Rightarrow> unit pm" where "pmod g = (\<lambda>s. Inr ((), g s))"
definition plift :: "'a res \<Rightarrow> 'a pm" where
  "plift r = (\<lambda>s. case r of Inl e \<Rightarrow> Inl e | Inr x \<Rightarrow> Inr (x, s))"
definition perr :: "token \<Rightarrow> string \<Rightarrow> 'a pm" where "perr t msg = pfail (err_tok t msg)"
definition pwhen :: "bool \<Rightarrow> unit pm \<Rightarrow> unit pm" where "pwhen b m = (if b then m else pret ())"

text \<open>A loop: the body returns \<open>Inl\<close> to go on and \<open>Inr\<close> to leave. The loops of the parser consume
  at least one token a turn.\<close>

fun ploop :: "nat \<Rightarrow> ('a \<Rightarrow> ('a + 'b) pm) \<Rightarrow> 'a \<Rightarrow> 'b pm" where
  "ploop 0 f a = pfail Fuel"
| "ploop (Suc n) f a = pbind (f a) (\<lambda>r. case r of Inl a' \<Rightarrow> ploop n f a' | Inr b \<Rightarrow> pret b)"

definition pwhile :: "('a \<Rightarrow> ('a + 'b) pm) \<Rightarrow> 'a \<Rightarrow> 'b pm" where
  "pwhile f a = (\<lambda>s. ploop (length (ps_tk s) + 1) f a s)"

section \<open>The token cursor\<close>

definition cur_tok :: "token pm" where
  "cur_tok = (\<lambda>s. case ps_tk s of [] \<Rightarrow> Inl NullDeref | t # ts \<Rightarrow> Inr (t, s))"

definition advance :: "unit pm" where
  "advance = (\<lambda>s. case ps_tk s of [] \<Rightarrow> Inl NullDeref | t # ts \<Rightarrow> Inr ((), s\<lparr>ps_tk := ts\<rparr>))"

text \<open>\<open>tk->next\<close> where the code follows it, and where it first tests it.\<close>

definition next_tok :: "token pm" where
  "next_tok = (\<lambda>s. case ps_tk s of t # u # ts \<Rightarrow> Inr (u, s) | _ \<Rightarrow> Inl NullDeref)"

definition peek_tok :: "token option pm" where
  "peek_tok = (\<lambda>s. case ps_tk s of [] \<Rightarrow> Inl NullDeref | [t] \<Rightarrow> Inr (None, s) | t # u # ts \<Rightarrow> Inr (Some u, s))"

definition tok_punct :: "token \<Rightarrow> string \<Rightarrow> bool" where
  "tok_punct t w \<longleftrightarrow> kind t = TK_PUNCT \<and> str t = w"

definition tok_kw :: "token \<Rightarrow> string \<Rightarrow> bool" where
  "tok_kw t w \<longleftrightarrow> (kind t = TK_ID \<or> kind t = TK_KEYWORD) \<and> str t = w"

definition is_punct :: "string \<Rightarrow> bool pm" where
  "is_punct w = pbind cur_tok (\<lambda>t. pret (tok_punct t w))"

definition is_kw :: "string \<Rightarrow> bool pm" where
  "is_kw w = pbind cur_tok (\<lambda>t. pret (tok_kw t w))"

definition eat :: "string \<Rightarrow> bool pm" where
  "eat w = pbind cur_tok (\<lambda>t.
     if tok_punct t w \<or> tok_kw t w then pbind advance (\<lambda>_. pret True) else pret False)"

definition expect :: "string \<Rightarrow> unit pm" where
  "expect w = pbind (eat w) (\<lambda>b.
     if b then pret () else pbind cur_tok (\<lambda>t. perr t (''expected '' @ sq w)))"

section \<open>Scopes and objects\<close>

definition enter_scope :: "unit pm" where
  "enter_scope = pmod (\<lambda>s. s\<lparr>ps_scope := [] # ps_scope s\<rparr>)"

definition leave_scope :: "unit pm" where
  "leave_scope = (\<lambda>s. case ps_scope s of [] \<Rightarrow> Inl NullDeref | sc # scs \<Rightarrow> Inr ((), s\<lparr>ps_scope := scs\<rparr>))"

text \<open>\<open>find_var\<close>: the innermost binding; the start-up function's parameters are visible in
  top-level code only.\<close>

fun lookup_scopes :: "(string \<times> nat) list list \<Rightarrow> string \<Rightarrow> nat option" where
  "lookup_scopes [] x = None"
| "lookup_scopes (sc # scs) x = (case map_of sc x of Some v \<Rightarrow> Some v | None \<Rightarrow> lookup_scopes scs x)"

definition obj_at :: "parser \<Rightarrow> nat \<Rightarrow> obj" where
  "obj_at s v = the (ps_vars s v)"

definition find_var :: "parser \<Rightarrow> string \<Rightarrow> nat option" where
  "find_var s x =
     (case lookup_scopes (ps_scope s) x of
        Some v \<Rightarrow> Some v
      | None \<Rightarrow> (if ps_cur s = StartFn then find (\<lambda>p. o_name (obj_at s p) = x) (ps_su_params s) else None))"

definition find_func :: "parser \<Rightarrow> string \<Rightarrow> nat option" where
  "find_func s x = map_option fst (find (\<lambda>(i, f). fn_name f = x) (enumerate 0 (ps_funcs s)))"

definition new_obj_uid :: "nat pm" where
  "new_obj_uid = (\<lambda>s. Inr (ps_uid s, s\<lparr>ps_uid := ps_uid s + 1\<rparr>))"

definition obj0 :: "string \<Rightarrow> ty \<Rightarrow> obj" where
  "obj0 x t = \<lparr>o_name = x, o_ty = t, o_global = False, o_extern = False, o_param = False, o_public = False,
     o_prelude = False, o_addr = False, o_align = 0\<rparr>"

definition new_obj :: "string \<Rightarrow> ty \<Rightarrow> nat pm" where
  "new_obj x t = pbind new_obj_uid (\<lambda>u.
     pbind (pmod (\<lambda>s. s\<lparr>ps_vars := (ps_vars s)(u \<mapsto> obj0 x t)\<rparr>)) (\<lambda>_. pret u))"

definition upd_obj :: "nat \<Rightarrow> (obj \<Rightarrow> obj) \<Rightarrow> unit pm" where
  "upd_obj v g = pmod (\<lambda>s. s\<lparr>ps_vars := (ps_vars s)(v \<mapsto> g (obj_at s v))\<rparr>)"

definition scope_push :: "string \<Rightarrow> nat \<Rightarrow> unit pm" where
  "scope_push x v = (\<lambda>s. case ps_scope s of [] \<Rightarrow> Inl NullDeref
     | sc # scs \<Rightarrow> Inr ((), s\<lparr>ps_scope := ((x, v) # sc) # scs\<rparr>))"

definition new_temp :: "ty \<Rightarrow> nat pm" where
  "new_temp t = pbind (pget ps_uid) (\<lambda>u. pbind (new_obj (''tmp'' @ dec_nat u) t) (\<lambda>v.
     pbind (pmod (\<lambda>s. s\<lparr>ps_locals := v # ps_locals s\<rparr>)) (\<lambda>_. pret v)))"

definition new_local :: "string \<Rightarrow> ty \<Rightarrow> nat pm" where
  "new_local x t = pbind (new_obj x t) (\<lambda>v.
     pbind (pmod (\<lambda>s. s\<lparr>ps_locals := v # ps_locals s\<rparr>)) (\<lambda>_. pbind (scope_push x v) (\<lambda>_. pret v)))"

definition new_global :: "string \<Rightarrow> ty \<Rightarrow> nat pm" where
  "new_global x t = pbind (new_obj x t) (\<lambda>v.
     pbind (upd_obj v (\<lambda>o1. o1\<lparr>o_global := True\<rparr>)) (\<lambda>_.
     pbind (pmod (\<lambda>s. s\<lparr>ps_globals := ps_globals s @ [v]\<rparr>)) (\<lambda>_. pbind (scope_push x v) (\<lambda>_. pret v))))"

definition new_label :: "string \<Rightarrow> string pm" where
  "new_label hint = (\<lambda>s. Inr (CHR ''.'' # hint @ dec_nat (ps_label s), s\<lparr>ps_label := ps_label s + 1\<rparr>))"

section \<open>Names\<close>

definition reject_reserved_name :: "token \<Rightarrow> string \<Rightarrow> bool \<Rightarrow> unit pm" where
  "reject_reserved_name t what reject_class =
     (if kind t = TK_KEYWORD \<or> kind t = TK_TYPE
      then perr t (sq (str t) @ '' is reserved and cannot be used as '' @ what)
      else pbind (pget ps_classes) (\<lambda>cs.
        if reject_class \<and> kind t = TK_ID \<and> find_class cs (str t) \<noteq> None
        then perr t (sq (str t) @ '' is a type name and cannot be used as '' @ what) else pret ()))"

definition take_name :: "string \<Rightarrow> bool \<Rightarrow> string pm" where
  "take_name what reject_class = pbind cur_tok (\<lambda>t.
     pbind (reject_reserved_name t what reject_class) (\<lambda>_.
       if kind t \<noteq> TK_ID then perr t (''expected '' @ what)
       else pbind advance (\<lambda>_. pret (str t))))"

text \<open>The first reference to a label makes its entry; a definition marks it.\<close>

definition label_use :: "string \<Rightarrow> token \<Rightarrow> bool \<Rightarrow> unit pm" where
  "label_use x t def = pmod (\<lambda>s.
     (if \<exists>l \<in> set (ps_labels s). lr_name l = x
      then s\<lparr>ps_labels := (if def then map (\<lambda>l. if lr_name l = x then l\<lparr>lr_defined := True\<rparr> else l) (ps_labels s)
                           else ps_labels s)\<rparr>
      else s\<lparr>ps_labels := \<lparr>lr_name = x, lr_tok = t, lr_defined = def\<rparr> # ps_labels s\<rparr>))"

definition check_labels :: "unit pm" where
  "check_labels = (\<lambda>s. case find (\<lambda>l. \<not> lr_defined l) (ps_labels s) of
       Some l \<Rightarrow> Inl (err_tok (lr_tok l) (''goto to undefined label '' @ sq (lr_name l)))
     | None \<Rightarrow> Inr ((), s\<lparr>ps_labels := []\<rparr>))"

definition warn_tok_p :: "token \<Rightarrow> string \<Rightarrow> unit pm" where
  "warn_tok_p t msg = pmod (\<lambda>s. s\<lparr>ps_warns := ps_warns s @ [(tfile t, tline t, msg)]\<rparr>)"
section \<open>Declaration hints\<close>

record hint_set =
  h_bits :: "token option"
  h_func :: "token option"
  h_align :: "token option"
  h_nonnull :: "token option"

definition no_hint_set :: hint_set where
  "no_hint_set = \<lparr>h_bits = None, h_func = None, h_align = None, h_nonnull = None\<rparr>"

definition has_func_hint :: "token \<Rightarrow> bool" where
  "has_func_hint t \<longleftrightarrow> hints t AND (HINT_INLINE OR HINT_NOINLINE) \<noteq> 0"

definition collect_hints :: "token \<Rightarrow> hint_set \<Rightarrow> hint_set pm" where
  "collect_hints t h =
     pbind (if hint_bits t \<noteq> 0
            then if h_bits h \<noteq> None then perr t ''duplicate @bits hint on declaration'' else pret (h\<lparr>h_bits := Some t\<rparr>)
            else pret h) (\<lambda>h1.
     pbind (if has_func_hint t
            then if h_func h1 \<noteq> None then perr t ''duplicate inline hint on declaration'' else pret (h1\<lparr>h_func := Some t\<rparr>)
            else pret h1) (\<lambda>h2.
     pbind (if hint_align t \<noteq> 0
            then if h_align h2 \<noteq> None then perr t ''duplicate @align hint on declaration'' else pret (h2\<lparr>h_align := Some t\<rparr>)
            else pret h2) (\<lambda>h3.
       if hints t AND HINT_NONNULL \<noteq> 0
       then if h_nonnull h3 \<noteq> None then perr t ''duplicate @nonnull hint on declaration'' else pret (h3\<lparr>h_nonnull := Some t\<rparr>)
       else pret h3)))"

definition reject_func_hint :: "token option \<Rightarrow> unit pm" where
  "reject_func_hint h =
     (case h of None \<Rightarrow> pret () | Some t \<Rightarrow> perr t ''inline hints apply only to function declarations'')"

definition reject_asm_hints :: "token \<Rightarrow> unit pm" where
  "reject_asm_hints t =
     (if has_func_hint t then perr t ''inline hints apply to the enclosing function declaration, not an asm block''
      else if hint_bits t \<noteq> 0 then perr t ''@bits applies only to integer object declarations''
      else if hint_align t \<noteq> 0 then perr t ''@align applies only to classes, fields, and local variables''
      else pret ())"

definition require_asm_enabled :: "token \<Rightarrow> unit pm" where
  "require_asm_enabled t = pbind (pget ps_use_asm) (\<lambda>b.
     if b then pret () else perr t ''asm blocks are disabled by -fno-asm'')"

definition hinted_nonnull_type :: "ty \<Rightarrow> token option \<Rightarrow> ty pm" where
  "hinted_nonnull_type t h =
     (case h of None \<Rightarrow> pret t
      | Some ht \<Rightarrow> (case t of TyPtr b nn \<Rightarrow> pret (TyPtr b True)
                   | _ \<Rightarrow> perr ht ''@nonnull requires a pointer declaration''))"

definition hint_alignment :: "ty \<Rightarrow> token option \<Rightarrow> int pm" where
  "hint_alignment t h = pget (\<lambda>s.
     (case h of None \<Rightarrow> 0
      | Some ht \<Rightarrow> if \<not> ps_align_hints s then 0
                   else if hint_align ht < 0 then ty_align (ps_classes s) t else hint_align ht))"

definition hinted_type :: "ty \<Rightarrow> token option \<Rightarrow> ty pm" where
  "hinted_type t h =
     (case h of None \<Rightarrow> pret t
      | Some ht \<Rightarrow>
          (case t of
             TyInt n u b \<Rightarrow>
               if hint_bits ht > n * 8
               then perr ht (''@bits='' @ dec_int (hint_bits ht) @ '' exceeds the declared '' @ dec_int (n * 8)
                      @ ''-bit integer width'')
               else pret (TyInt n u (hint_bits ht))
           | _ \<Rightarrow> perr ht ''@bits requires an integer declaration''))"

text \<open>\<open>(n + a - 1) & -a\<close>.\<close>

definition align_up :: "int \<Rightarrow> int \<Rightarrow> int res" where
  "align_up n a = rbind (c_int (n + a)) (\<lambda>m. rbind (c_int (m - 1)) (\<lambda>k. Inr (k AND (- a))))"

text \<open>The operands of an asm block that name local variables.\<close>

definition bind_asm_operand :: "asm_operand \<Rightarrow> asm_block \<Rightarrow> (asm_operand \<times> asm_block) pm" where
  "bind_asm_operand q a = pbind (pget (\<lambda>s. (ps_cur s, find_var s (ao_name q),
        case find_var s (ao_name q) of None \<Rightarrow> False | Some v \<Rightarrow> o_global (obj_at s v)))) (\<lambda>(cur, v, glob).
     if ao_local q \<and> (cur = NoFn \<or> v = None \<or> glob)
     then perr (ao_tok q) (''asm local reference '' @ sq (''&'' @ ao_name q @ ''[RBP]'')
            @ '' does not name a visible local or parameter'')
     else if cur \<noteq> NoFn \<and> v \<noteq> None \<and> \<not> glob
     then pbind (upd_obj (the v) (\<lambda>o1. o1\<lparr>o_addr := True\<rparr>)) (\<lambda>_.
       pret (q\<lparr>ao_var := v, ao_index := ab_noperands a\<rparr>, a\<lparr>ab_noperands := ab_noperands a + 1\<rparr>))
     else pret (q, a))"

fun bind_asm_operands :: "asm_operand list \<Rightarrow> asm_block \<Rightarrow> (asm_operand list \<times> asm_block) pm" where
  "bind_asm_operands [] a = pret ([], a)"
| "bind_asm_operands (q # qs) a = pbind (bind_asm_operand q a) (\<lambda>(q', a').
     pbind (bind_asm_operands qs a') (\<lambda>(qs', a''). pret (q' # qs', a'')))"

end
