(* ===== verification/NodeBuild.thy ===== *)
theory NodeBuild
  imports ParserState
begin

text \<open>
  The node constructors of \<open>src/src/parse.c\<close>: each builds an expression node with its type and
  the implicit conversions of its operands. What an optional warning says goes to \<open>ps_warns\<close>.
\<close>

section \<open>Nodes with their type\<close>

definition nd0 :: "node_kind \<Rightarrow> token \<Rightarrow> ty \<Rightarrow> node" where
  "nd0 k t y = Node k None None None None None None None [] [] None 0 TRY_NONE ((ninfo0 t)\<lparr>ni_ty := y\<rparr>)"

definition nd1 :: "node_kind \<Rightarrow> node \<Rightarrow> token \<Rightarrow> ty \<Rightarrow> node" where
  "nd1 k l t y = Node k (Some l) None None None None None None [] [] None 0 TRY_NONE ((ninfo0 t)\<lparr>ni_ty := y\<rparr>)"

definition nd2 :: "node_kind \<Rightarrow> node \<Rightarrow> node \<Rightarrow> token \<Rightarrow> ty \<Rightarrow> node" where
  "nd2 k l r t y = Node k (Some l) (Some r) None None None None None [] [] None 0 TRY_NONE ((ninfo0 t)\<lparr>ni_ty := y\<rparr>)"

fun upd_info :: "(ninfo \<Rightarrow> ninfo) \<Rightarrow> node \<Rightarrow> node" where
  "upd_info g (Node k l r cnd th el ini inc body args f iv tm nf) = Node k l r cnd th el ini inc body args f iv tm (g nf)"

fun upd_ival :: "(i64 \<Rightarrow> i64) \<Rightarrow> node \<Rightarrow> node" where
  "upd_ival g (Node k l r cnd th el ini inc body args f iv tm nf) = Node k l r cnd th el ini inc body args f (g iv) tm nf"

definition set_ty :: "ty \<Rightarrow> node \<Rightarrow> node" where
  "set_ty y n = upd_info (\<lambda>i. i\<lparr>ni_ty := y\<rparr>) n"

lemma nd_simps [simp]:
  "nkind (nd0 k t y) = k" "nkind (nd1 k l t y) = k" "nkind (nd2 k l r t y) = k"
  "ninf (nd0 k t y) = (ninfo0 t)\<lparr>ni_ty := y\<rparr>" "ninf (nd1 k l t y) = (ninfo0 t)\<lparr>ni_ty := y\<rparr>"
  "ninf (nd2 k l r t y) = (ninfo0 t)\<lparr>ni_ty := y\<rparr>"
  "nlhs (nd0 k t y) = None" "nlhs (nd1 k l t y) = Some l" "nlhs (nd2 k l r t y) = Some l"
  "nrhs (nd0 k t y) = None" "nrhs (nd1 k l t y) = None" "nrhs (nd2 k l r t y) = Some r"
  "nival (nd0 k t y) = 0" "nival (nd1 k l t y) = 0" "nival (nd2 k l r t y) = 0"
  "nargs (nd0 k t y) = []" "nargs (nd1 k l t y) = []" "nargs (nd2 k l r t y) = []"
  by (simp_all add: nd0_def nd1_def nd2_def)

lemma upd_simps [simp]:
  "nkind (upd_info g n) = nkind n" "nlhs (upd_info g n) = nlhs n" "nrhs (upd_info g n) = nrhs n"
  "ninf (upd_info g n) = g (ninf n)" "nival (upd_info g n) = nival n" "nargs (upd_info g n) = nargs n"
  "nkind (upd_ival h n) = nkind n" "ninf (upd_ival h n) = ninf n" "nival (upd_ival h n) = h (nival n)"
  "nlhs (upd_ival h n) = nlhs n" "nrhs (upd_ival h n) = nrhs n" "nargs (upd_ival h n) = nargs n"
  by (cases n; simp)+

lemma ninfo0_simps [simp]:
  "ni_ty (ninfo0 t) = TyVoid" "ni_tok (ninfo0 t) = t" "ni_bit_cast (ninfo0 t) = False"
  by (simp_all add: ninfo0_def)

definition new_num :: "i64 \<Rightarrow> token \<Rightarrow> node" where
  "new_num v t = upd_ival (\<lambda>_. v) (nd0 ND_NUM t ty_i64)"

definition new_fnum :: "bool \<times> string \<Rightarrow> token \<Rightarrow> node" where
  "new_fnum v t = upd_info (\<lambda>i. i\<lparr>ni_fval := v\<rparr>) (nd0 ND_FNUM t ty_f64)"

definition new_var_node :: "nat \<Rightarrow> token \<Rightarrow> node pm" where
  "new_var_node v t = pget (\<lambda>s. upd_info (\<lambda>i. i\<lparr>ni_var := v\<rparr>) (nd0 ND_VAR t (o_ty (obj_at s v))))"

text \<open>A cast to the very type object the expression has is left out. The types that are one object
  are the built-in ones and the classes; every pointer type is an object of its own.\<close>

definition same_object :: "ty \<Rightarrow> ty \<Rightarrow> bool" where
  "same_object a b \<longleftrightarrow> a = b \<and> \<not> is_ptrish a \<and> \<not> is_func_ty a"

definition new_cast :: "node \<Rightarrow> ty \<Rightarrow> node" where
  "new_cast e y = (if same_object (nty e) y then e else nd1 ND_CAST e (ntok e) y)"

section \<open>Null checks\<close>

text \<open>\<open>is_null_constant\<close> looks through casts.\<close>

function is_null_constant :: "node \<Rightarrow> bool" where
  "is_null_constant n =
     (if nkind n = ND_CAST then (case nlhs n of None \<Rightarrow> False | Some l \<Rightarrow> is_null_constant l)
      else nkind n = ND_NUM \<and> nival n = 0)"
  by pat_completeness simp
termination
  by (relation "measure size") (auto intro!: children_smaller simp: children_def)

declare is_null_constant.simps [simp del]

definition is_nullable_pointer :: "node \<Rightarrow> bool" where
  "is_nullable_pointer n \<longleftrightarrow> is_ptr_ty (nty n) \<and> \<not> nonnull (nty n)"

definition require_nonnull :: "ty \<Rightarrow> node \<Rightarrow> token \<Rightarrow> string \<Rightarrow> unit pm" where
  "require_nonnull dst src t what =
     (if \<not> nonnull dst then pret ()
      else if is_null_constant src then perr t (''null passed to @nonnull '' @ what)
      else if is_nullable_pointer src then perr t (''nullable pointer passed to @nonnull '' @ what)
      else pret ())"

section \<open>Conversions\<close>

text \<open>An array decays to a non-null pointer to its elements.\<close>

definition rvalize :: "node \<Rightarrow> node" where
  "rvalize n = (case nty n of TyArray b k s a \<Rightarrow> nd1 ND_ADDR n (ntok n) (TyPtr b True) | _ \<Rightarrow> n)"

definition to_f64 :: "node \<Rightarrow> node" where
  "to_f64 n = (if nty n = TyF64 then n else new_cast n ty_f64)"

definition to_int :: "node \<Rightarrow> node" where
  "to_int n = (if nty n = TyF64 then new_cast n ty_i64 else n)"

text \<open>\<open>U64\<close> as soon as one operand is unsigned.\<close>

definition int_result :: "node \<Rightarrow> node \<Rightarrow> ty" where
  "int_result l r =
     (if ty_unsigned (value_type (nty l)) \<or> ty_unsigned (value_type (nty r)) then ty_u64 else ty_i64)"

definition any_f64 :: "node \<Rightarrow> node \<Rightarrow> bool" where
  "any_f64 l r \<longleftrightarrow> nty l = TyF64 \<or> nty r = TyF64"

text \<open>\<open>ADD\<close> and \<open>SUB\<close> on pointers: an integer on the left changes places with the pointer.\<close>

definition new_ptr_arith :: "node_kind \<Rightarrow> node \<Rightarrow> node \<Rightarrow> token \<Rightarrow> node" where
  "new_ptr_arith k l r t =
     (if is_ptrish (nty l) \<and> is_ptrish (nty r) then nd2 k l r t ty_i64
      else if is_ptrish (nty r) then nd2 k r (to_int l) t (nty r)
      else nd2 k l (to_int r) t (nty l))"

definition new_arith :: "node_kind \<Rightarrow> node \<Rightarrow> node \<Rightarrow> token \<Rightarrow> node" where
  "new_arith k l r t =
     (if any_f64 l r then nd2 k (to_f64 l) (to_f64 r) t ty_f64 else nd2 k l r t (int_result l r))"

definition new_compare :: "node_kind \<Rightarrow> node \<Rightarrow> node \<Rightarrow> token \<Rightarrow> node" where
  "new_compare k l r t =
     (if any_f64 l r then nd2 k (to_f64 l) (to_f64 r) t ty_i64 else nd2 k l r t ty_i64)"

definition null_compare :: "node \<Rightarrow> node \<Rightarrow> bool" where
  "null_compare l r \<longleftrightarrow> (nonnull (nty l) \<and> is_null_constant r) \<or> (nonnull (nty r) \<and> is_null_constant l)"

text \<open>A truth value: a float is compared with zero.\<close>

definition to_bool :: "node \<Rightarrow> node pm" where
  "to_bool n =
     pbind (pwhen (nonnull (nty n)) (warn_tok_p (ntok n) ''null check on @nonnull pointer is always true'')) (\<lambda>_.
       pret (if nty n = TyF64 then new_compare ND_NE n (new_fnum (False, ''0'') (ntok n)) (ntok n) else n))"

definition new_binary :: "node_kind \<Rightarrow> node \<Rightarrow> node \<Rightarrow> token \<Rightarrow> node pm" where
  "new_binary k lhs rhs t =
     (let l = rvalize lhs; r = rvalize rhs
      in if (k = ND_ADD \<or> k = ND_SUB) \<and> (is_ptrish (nty l) \<or> is_ptrish (nty r)) then pret (new_ptr_arith k l r t)
         else if k \<in> {ND_ADD, ND_SUB, ND_MUL, ND_DIV} then pret (new_arith k l r t)
         else if k \<in> {ND_MOD, ND_AND, ND_OR, ND_XOR, ND_SHL, ND_SHR}
         then pret (nd2 k (to_int l) (to_int r) t (int_result (to_int l) (to_int r)))
         else if k = ND_POW then pret (nd2 k (to_f64 l) (to_f64 r) t ty_f64)
         else if k \<in> {ND_EQ, ND_NE, ND_LT, ND_LE}
         then pbind (pwhen ((k = ND_EQ \<or> k = ND_NE) \<and> null_compare l r)
                (warn_tok_p t (''comparison with null on @nonnull pointer is always ''
                   @ (if k = ND_EQ then ''false'' else ''true'')))) (\<lambda>_. pret (new_compare k l r t))
         else if k \<in> {ND_LOGAND, ND_LOGOR, ND_LOGXOR}
         then pbind (to_bool l) (\<lambda>l1. pbind (to_bool r) (\<lambda>r1. pret (nd2 k l1 r1 t ty_i64)))
         else if k = ND_COMMA then pret (nd2 k l r t (nty r))
         else pret (nd2 k l r t ty_i64))"

definition new_unary :: "node_kind \<Rightarrow> node \<Rightarrow> token \<Rightarrow> node pm" where
  "new_unary k l t =
     pbind (pwhen (k = ND_ADDR \<and> nkind l = ND_VAR) (upd_obj (ni_var (ninf l)) (\<lambda>o1. o1\<lparr>o_addr := True\<rparr>))) (\<lambda>_.
       if k = ND_NEG then pret (nd1 k l t (if nty l = TyF64 then ty_f64 else ty_i64))
       else if k = ND_NOT then pbind (to_bool (rvalize l)) (\<lambda>b. pret (nd1 k b t ty_i64))
       else if k = ND_BITNOT then pret (nd1 k (to_int (rvalize l)) t ty_i64)
       else pret (nd1 k l t ty_i64))"

text \<open>Unary nodes whose type the caller sets next.\<close>

definition new_addr :: "node \<Rightarrow> ty \<Rightarrow> token \<Rightarrow> node pm" where
  "new_addr l y t = pbind (new_unary ND_ADDR l t) (\<lambda>n. pret (set_ty y n))"

definition new_deref :: "node \<Rightarrow> ty \<Rightarrow> token \<Rightarrow> node pm" where
  "new_deref l y t = pbind (new_unary ND_DEREF l t) (\<lambda>n. pret (set_ty y n))"

section \<open>Assignment\<close>

definition is_lvalue :: "node \<Rightarrow> bool" where
  "is_lvalue n \<longleftrightarrow> nkind n = ND_VAR \<or> nkind n = ND_DEREF \<or> nkind n = ND_MEMBER"

definition require_fnptr_compat :: "ty \<Rightarrow> node \<Rightarrow> token \<Rightarrow> unit pm" where
  "require_fnptr_compat dst v t = pbind (pget ps_strict) (\<lambda>strict.
     if \<not> strict \<or> (\<not> is_fnptr dst \<and> \<not> is_fnptr (nty v)) then pret ()
     else if is_fnptr dst \<and> is_fnptr (nty v)
     then (if \<not> same_type (the (base_of dst)) (the (base_of (nty v)))
           then perr t ''incompatible function-pointer signature'' else pret ())
     else if is_ptr_ty dst \<and> is_ptr_ty (nty v)
     then perr t ''implicit conversion between function and data pointer'' else pret ())"

definition stored_conv :: "ty \<Rightarrow> node \<Rightarrow> node" where
  "stored_conv y r =
     (if y = TyF64 \<and> nty r \<noteq> TyF64 then new_cast r ty_f64
      else if is_int_ty y \<and> nty r = TyF64 then new_cast r ty_i64 else r)"

definition new_assign :: "node \<Rightarrow> node \<Rightarrow> token \<Rightarrow> node pm" where
  "new_assign lhs rhs t =
     (if \<not> is_lvalue lhs then perr t ''not an assignable expression''
      else if is_array_ty (nty lhs) then perr t ''cannot assign to an array''
      else pbind (require_nonnull (nty lhs) (rvalize rhs) t ''assignment'') (\<lambda>_.
           pbind (require_fnptr_compat (nty lhs) (rvalize rhs) t) (\<lambda>_.
             pret (nd2 ND_ASSIGN lhs (stored_conv (nty lhs) (rvalize rhs)) t (value_type (nty lhs))))))"

text \<open>The conversion of an argument to its parameter's type.\<close>

definition param_conv :: "ty \<Rightarrow> node \<Rightarrow> node" where
  "param_conv y a =
     (if y = TyF64 \<and> nty a \<noteq> TyF64 then new_cast a ty_f64
      else if y \<noteq> TyF64 \<and> \<not> is_class_ty y \<and> nty a = TyF64 then new_cast a ty_i64 else a)"

end
