(* ===== verification/ConstEval.thy ===== *)
theory ConstEval
  imports NodeBuild PPExpr
begin

text \<open>
  \<open>eval_const\<close> of \<open>src/src/parse.c\<close>: the value of a constant expression, for array bounds, case
  labels and class offsets. Every operation is one on signed 64-bit integers; \<open>f2i\<close> is the C
  conversion of a floating-point constant to an integer.
\<close>

section \<open>The evaluator\<close>

definition shift_count :: "i64 \<Rightarrow> nat" where
  "shift_count b = unat (b AND 63)"

text \<open>The operators on two values; \<open>unsig\<close> says that the left operand is unsigned.\<close>

definition const_binop :: "node_kind \<Rightarrow> bool \<Rightarrow> i64 \<Rightarrow> i64 \<Rightarrow> i64 option" where
  "const_binop k unsig a b =
     (if k = ND_ADD then Some (a + b)
      else if k = ND_SUB then Some (a - b)
      else if k = ND_MUL then Some (a * b)
      else if k = ND_AND then Some (a AND b)
      else if k = ND_OR then Some (a OR b)
      else if k = ND_XOR then Some (a XOR b)
      else if k = ND_SHL then Some (push_bit (shift_count b) a)
      else if k = ND_SHR then Some (if unsig then drop_bit (shift_count b) a else signed_drop_bit (shift_count b) a)
      else if k = ND_EQ then Some (i64_of_bool (a = b))
      else if k = ND_NE then Some (i64_of_bool (a \<noteq> b))
      else if k = ND_LT then Some (i64_of_bool (a <s b))
      else if k = ND_LE then Some (i64_of_bool (a \<le>s b))
      else None)"

definition const_unop :: "node_kind \<Rightarrow> i64 \<Rightarrow> i64 option" where
  "const_unop k a =
     (if k = ND_NEG then Some (- a)
      else if k = ND_BITNOT then Some (NOT a)
      else if k = ND_NOT then Some (i64_of_bool (a = 0))
      else if k = ND_CAST then Some a
      else None)"

definition not_constant :: "node \<Rightarrow> 'a res" where
  "not_constant n = Inl (err_tok (ntok n) ''not a constant expression'')"

definition div_zero :: "node \<Rightarrow> 'a res" where
  "div_zero n = Inl (err_tok (ntok n) ''division by zero in constant'')"

definition from_opt :: "'a res \<Rightarrow> 'a option \<Rightarrow> 'a res" where
  "from_opt e x = (case x of None \<Rightarrow> e | Some y \<Rightarrow> Inr y)"

definition unary_kinds :: "node_kind list" where
  "unary_kinds = [ND_NEG, ND_BITNOT, ND_NOT, ND_CAST]"

definition binary_kinds :: "node_kind list" where
  "binary_kinds = [ND_ADD, ND_SUB, ND_MUL, ND_AND, ND_OR, ND_XOR, ND_SHL, ND_SHR, ND_EQ, ND_NE, ND_LT, ND_LE]"

text \<open>A division looks at its right operand first.\<close>

function eval_const :: "(bool \<times> string \<Rightarrow> i64) \<Rightarrow> node \<Rightarrow> i64 res" where
  "eval_const f2i n =
     (if nkind n = ND_NUM then Inr (nival n)
      else if nkind n = ND_FNUM then Inr (f2i (ni_fval (ninf n)))
      else if nkind n \<in> set unary_kinds
      then (case nlhs n of None \<Rightarrow> Inl NullDeref
            | Some l \<Rightarrow> rbind (eval_const f2i l) (\<lambda>a. from_opt (not_constant n) (const_unop (nkind n) a)))
      else if nkind n = ND_DIV \<or> nkind n = ND_MOD
      then (case (nlhs n, nrhs n) of (Some l, Some r) \<Rightarrow>
              rbind (eval_const f2i r) (\<lambda>d.
                if d = 0 then div_zero n
                else rbind (eval_const f2i l) (\<lambda>a. if nkind n = ND_DIV then c_div a d else c_mod a d))
            | _ \<Rightarrow> Inl NullDeref)
      else if nkind n \<in> set binary_kinds
      then (case (nlhs n, nrhs n) of (Some l, Some r) \<Rightarrow>
              rbind (eval_const f2i l) (\<lambda>a. rbind (eval_const f2i r) (\<lambda>b.
                from_opt (not_constant n) (const_binop (nkind n) (ty_unsigned (value_type (nty l))) a b)))
            | _ \<Rightarrow> Inl NullDeref)
      else not_constant n)"
  by pat_completeness auto
termination
  by (relation "measure (\<lambda>(f, n). size n)") (auto intro!: children_smaller simp: children_def opt_list_def)

declare eval_const.simps [simp del]

section \<open>The value at run time\<close>

text \<open>What the C backend's code computes for the same tree (\<open>emit_val\<close> of \<open>back_c.c\<close>): division,
  remainder, right shift and ordering are unsigned where the types say so, and a cast to a narrow
  integer keeps the low bits. \<open>None\<close> where the tree is no integer expression, as in address
  arithmetic, or where C leaves the result undefined.\<close>

definition narrow :: "ty \<Rightarrow> i64 \<Rightarrow> i64" where
  "narrow t v =
     (case t of
        TyInt n u b \<Rightarrow>
          (if n = 1 then (if u then ucast (ucast v :: 8 word) else scast (ucast v :: 8 word))
           else if n = 2 then (if u then ucast (ucast v :: 16 word) else scast (ucast v :: 16 word))
           else if n = 4 then (if u then ucast (ucast v :: 32 word) else scast (ucast v :: 32 word))
           else v)
      | _ \<Rightarrow> v)"

text \<open>A signed result of the emitted code that does not fit 64 bits is undefined in C.\<close>

definition c_i64 :: "int \<Rightarrow> i64 option" where
  "c_i64 x = (if - (2 ^ 63) \<le> x \<and> x < 2 ^ 63 then Some (word_of_int x) else None)"

definition rt_unop :: "node \<Rightarrow> i64 \<Rightarrow> i64 option" where
  "rt_unop n a =
     (case nkind n of
        ND_CAST \<Rightarrow> Some (narrow (nty n) a)
      | ND_NEG \<Rightarrow> c_i64 (- sint a)
      | ND_BITNOT \<Rightarrow> c_i64 (- sint a - 1)
      | ND_NOT \<Rightarrow> Some (if unat a = 0 then 1 else 0)
      | _ \<Rightarrow> None)"

text \<open>The operators of C on \<open>hc_i64\<close> operands. A shift by a count outside the width, and a left shift of
  a negative value or into the sign, are undefined; a right shift of a signed value keeps the sign.\<close>

definition rt_arith :: "node_kind \<Rightarrow> bool \<Rightarrow> i64 \<Rightarrow> i64 \<Rightarrow> i64 option" where
  "rt_arith k unsig a b =
     (case k of
        ND_ADD \<Rightarrow> c_i64 (sint a + sint b)
      | ND_SUB \<Rightarrow> c_i64 (sint a - sint b)
      | ND_MUL \<Rightarrow> c_i64 (sint a * sint b)
      | ND_AND \<Rightarrow> c_i64 (sint a AND sint b)
      | ND_OR \<Rightarrow> c_i64 (sint a OR sint b)
      | ND_XOR \<Rightarrow> c_i64 (sint a XOR sint b)
      | ND_SHL \<Rightarrow> (if sint a < 0 \<or> 64 \<le> uint b then None else c_i64 (sint a * 2 ^ unat b))
      | ND_SHR \<Rightarrow> (if 64 \<le> uint b then None
                   else Some (word_of_int ((if unsig then uint a else sint a) div 2 ^ unat b)))
      | ND_EQ \<Rightarrow> Some (if sint a = sint b then 1 else 0)
      | ND_NE \<Rightarrow> Some (if sint a = sint b then 0 else 1)
      | ND_LT \<Rightarrow> Some (if sint a < sint b then 1 else 0)
      | ND_LE \<Rightarrow> Some (if sint a \<le> sint b then 1 else 0)
      | _ \<Rightarrow> None)"

definition rt_binop :: "node \<Rightarrow> node \<Rightarrow> node \<Rightarrow> i64 \<Rightarrow> i64 \<Rightarrow> i64 option" where
  "rt_binop n l r a b =
     (if is_ptrish (nty l) \<or> is_ptrish (nty r) then None
      else if nkind n = ND_DIV \<or> nkind n = ND_MOD
      then (if b = 0 then None
            else if ty_unsigned (nty n) then Some (if nkind n = ND_DIV then a div b else a mod b)
            else (case (if nkind n = ND_DIV then c_div a b else c_mod a b) of Inl _ \<Rightarrow> None | Inr v \<Rightarrow> Some v))
      else if (nkind n = ND_LT \<or> nkind n = ND_LE) \<and> is_int_ty (nty l) \<and> (ty_unsigned (nty l) \<or> ty_unsigned (nty r))
      then Some (if (if nkind n = ND_LT then uint a < uint b else uint a \<le> uint b) then 1 else 0)
      else rt_arith (nkind n) (ty_unsigned (nty n)) a b)"

text \<open>The variables have the values of an environment.\<close>

function rt_value :: "(nat \<Rightarrow> i64 option) \<Rightarrow> node \<Rightarrow> i64 option" where
  "rt_value env n =
     (if nty n = TyF64 then None
      else if nkind n = ND_NUM then Some (nival n)
      else if nkind n = ND_VAR then env (ni_var (ninf n))
      else if nkind n \<in> set unary_kinds
      then (case nlhs n of None \<Rightarrow> None
            | Some l \<Rightarrow> (case rt_value env l of None \<Rightarrow> None | Some a \<Rightarrow> rt_unop n a))
      else if nkind n \<in> set binary_kinds \<or> nkind n = ND_DIV \<or> nkind n = ND_MOD
      then (case (nlhs n, nrhs n) of (Some l, Some r) \<Rightarrow>
              (case (rt_value env l, rt_value env r) of (Some a, Some b) \<Rightarrow> rt_binop n l r a b | _ \<Rightarrow> None)
            | _ \<Rightarrow> None)
      else None)"
  by pat_completeness auto
termination
  by (relation "measure (\<lambda>(env, n). size n)") (auto intro!: children_smaller simp: children_def opt_list_def)

declare rt_value.simps [simp del]

text \<open>Trees on which the two agree: no cast narrows, and no operation whose result depends on
  signedness has an unsigned operand, except a shift whose type is that of its left operand.\<close>

definition plain_node :: "node \<Rightarrow> bool" where
  "plain_node n \<longleftrightarrow>
     (nkind n = ND_CAST \<longrightarrow> (case nty n of TyInt k u b \<Rightarrow> k = 8 | TyF64 \<Rightarrow> False | _ \<Rightarrow> True))
     \<and> (nkind n \<in> {ND_DIV, ND_MOD} \<longrightarrow> \<not> ty_unsigned (nty n))
     \<and> (nkind n = ND_SHR \<longrightarrow> (case nlhs n of None \<Rightarrow> True | Some l \<Rightarrow> ty_unsigned (nty n) = ty_unsigned (value_type (nty l))))
     \<and> (nkind n \<in> {ND_LT, ND_LE} \<longrightarrow>
          (case (nlhs n, nrhs n) of (Some l, Some r) \<Rightarrow> \<not> ty_unsigned (nty l) \<and> \<not> ty_unsigned (nty r) | _ \<Rightarrow> True))"


function plain_tree :: "node \<Rightarrow> bool" where
  "plain_tree n \<longleftrightarrow> plain_node n
     \<and> (case nlhs n of None \<Rightarrow> True | Some l \<Rightarrow> plain_tree l) \<and> (case nrhs n of None \<Rightarrow> True | Some r \<Rightarrow> plain_tree r)"
  by pat_completeness auto
termination
  by (relation "measure size") (auto intro!: children_smaller simp: children_def opt_list_def)

declare plain_tree.simps [simp del]

lemma narrow_plain: "plain_node n \<Longrightarrow> nkind n = ND_CAST \<Longrightarrow> nty n \<noteq> TyF64 \<Longrightarrow> narrow (nty n) v = v"
  by (auto simp: plain_node_def narrow_def split: ty.splits)

lemma shift_count_small: "unat b < 64 \<Longrightarrow> shift_count b = unat b"
proof -
  assume "unat b < 64"
  moreover have "b AND 63 = take_bit 6 b" by (simp add: take_bit_eq_mask mask_eq_exp_minus_1)
  ultimately show ?thesis by (simp add: shift_count_def unsigned_take_bit_eq take_bit_nat_eq_self)
qed

lemma c_i64_wraps: "c_i64 x = Some v \<Longrightarrow> v = word_of_int x"
  by (simp add: c_i64_def split: if_split_asm)

lemma word_bitops:
  "(word_of_int (sint a AND sint b) :: i64) = a AND b" "(word_of_int (sint a OR sint b) :: i64) = a OR b"
  "(word_of_int (sint a XOR sint b) :: i64) = a XOR b"
  unfolding of_int_and_eq of_int_or_eq of_int_xor_eq by simp_all

lemma word_shifts:
  "(word_of_int (uint a div 2 ^ n) :: i64) = drop_bit n a"
  "(word_of_int (sint a div 2 ^ n) :: i64) = signed_drop_bit n a"
proof -
  have "uint (drop_bit n a) = drop_bit n (uint a)"
    using uint_lt2p [of a] by (simp add: unsigned_drop_bit_eq take_bit_int_eq_self)
  then have "uint (drop_bit n a) = uint a div 2 ^ n" by (simp only: drop_bit_eq_div [where 'a = int])
  then show "(word_of_int (uint a div 2 ^ n) :: i64) = drop_bit n a" by (metis word_of_int_uint)
  have "sint (signed_drop_bit n a) = sint a div 2 ^ n" by (simp add: sint_signed_drop_bit_eq drop_bit_eq_div)
  then show "(word_of_int (sint a div 2 ^ n) :: i64) = signed_drop_bit n a" by (simp flip: \<open>sint (signed_drop_bit n a) = _\<close>)
qed

lemma word_orders: "(a::i64) <s b \<longleftrightarrow> sint a < sint b" "(a::i64) \<le>s b \<longleftrightarrow> sint a \<le> sint b"
  by (simp_all add: word_sless_alt word_sle_eq)

lemma sint_inject: "sint (a::i64) = sint b \<longleftrightarrow> a = b"
  by (auto intro: signed_word_eqI)

lemma unat_of_uint: "uint b < 64 \<Longrightarrow> unat b < 64"
  by (simp add: nat_less_iff flip: nat_uint_eq)

lemma const_binop_unsig: "k \<noteq> ND_SHR \<Longrightarrow> const_binop k u a b = const_binop k w a b"
  by (simp add: const_binop_def)

lemma rt_arith_wraps:
  assumes "rt_arith k u a b = Some v"
  shows "const_binop k u a b = Some v"
proof -
  note rt = assms [unfolded rt_arith_def]
  have small: "shift_count b = unat b" if "uint b < 64" using that by (simp add: shift_count_small unat_of_uint)
  show ?thesis
  proof (cases k)
    case ND_SHL
    with rt have "uint b < 64" "v = word_of_int (sint a * 2 ^ unat b)" by (auto split: if_split_asm dest: c_i64_wraps)
    then show ?thesis using ND_SHL by (simp add: const_binop_def small push_bit_eq_mult)
  next
    case ND_SHR
    with rt have "uint b < 64" "v = word_of_int ((if u then uint a else sint a) div 2 ^ unat b)"
      by (auto split: if_split_asm)
    then show ?thesis using ND_SHR by (simp add: const_binop_def small word_shifts)
  qed (use rt in \<open>auto simp: const_binop_def i64_of_bool_def word_orders sint_inject word_bitops dest!: c_i64_wraps\<close>)
qed

lemma unop_agree:
  "plain_node n \<Longrightarrow> nty n \<noteq> TyF64 \<Longrightarrow> rt_unop n a = Some v \<Longrightarrow> const_unop (nkind n) a = Some v"
  by (cases "nkind n")
    (auto simp: rt_unop_def narrow_plain const_unop_def i64_of_bool_def unat_eq_zero not_eq_complement dest!: c_i64_wraps)

lemma div_agree:
  "plain_node n \<Longrightarrow> nkind n = ND_DIV \<or> nkind n = ND_MOD \<Longrightarrow> rt_binop n l r a b = Some v \<Longrightarrow>
     b \<noteq> 0 \<and> (if nkind n = ND_DIV then c_div a b else c_mod a b) = Inr v"
  by (auto simp: rt_binop_def plain_node_def split: if_split_asm sum.split_asm)

lemma binop_agree:
  assumes "plain_node n" "nkind n \<in> set binary_kinds" "nlhs n = Some l" "nrhs n = Some r"
    "rt_binop n l r a b = Some v"
  shows "const_binop (nkind n) (ty_unsigned (value_type (nty l))) a b = Some v"
proof -
  have nodiv: "nkind n \<noteq> ND_DIV" "nkind n \<noteq> ND_MOD" using assms(2) by (auto simp: binary_kinds_def)
  consider "nkind n = ND_SHR" | "nkind n = ND_LT \<or> nkind n = ND_LE" | "nkind n \<notin> {ND_SHR, ND_LT, ND_LE}" by blast
  then show ?thesis
  proof cases
    case 1
    with assms show ?thesis
      by (simp add: rt_binop_def plain_node_def nodiv rt_arith_wraps split: if_split_asm)
  next
    case 2
    with assms show ?thesis
      by (auto simp: rt_binop_def plain_node_def nodiv split: if_split_asm
          dest!: rt_arith_wraps intro: trans [OF const_binop_unsig])
  next
    case 3
    with assms(5) nodiv have "rt_arith (nkind n) (ty_unsigned (nty n)) a b = Some v"
      by (auto simp: rt_binop_def split: if_split_asm)
    from rt_arith_wraps [OF this] 3 show ?thesis by (simp add: const_binop_unsig [of _ "ty_unsigned (nty n)" _ _ "ty_unsigned (value_type (nty l))"])
  qed
qed

lemma consts_agree_aux:
  "plain_tree n \<Longrightarrow> rt_value Map.empty n = Some v \<Longrightarrow> eval_const f n = Inr v"
proof (induction n arbitrary: v rule: measure_induct_rule [of size])
  case (less n)
  note rt = less.prems(2) [unfolded rt_value.simps [of _ n]]
  have nv: "nkind n \<noteq> ND_VAR" using rt by (auto split: if_splits)
  have nf: "nty n \<noteq> TyF64" and pl: "plain_node n" using rt less.prems(1) plain_tree.simps [of n] by (auto split: if_splits)
  have sub: "eval_const f m = Inr w" if "nlhs n = Some m \<or> nrhs n = Some m" "rt_value Map.empty m = Some w" for m w
  proof (rule less.IH [OF _ _ that(2)])
    show "size m < size n" using that(1) by (auto intro!: children_smaller simp: children_def opt_list_def)
    show "plain_tree m" using that(1) less.prems(1) plain_tree.simps [of n] by auto
  qed
  consider "nkind n = ND_NUM" | "nkind n \<noteq> ND_NUM" "nkind n \<in> set unary_kinds"
    | "nkind n \<noteq> ND_NUM" "nkind n \<notin> set unary_kinds" "nkind n = ND_DIV \<or> nkind n = ND_MOD"
    | "nkind n \<noteq> ND_NUM" "nkind n \<notin> set unary_kinds" "nkind n \<noteq> ND_DIV" "nkind n \<noteq> ND_MOD" "nkind n \<in> set binary_kinds"
    using rt by (auto split: if_split_asm)
  then show ?case
  proof cases
    case 1
    with rt nf show ?thesis by (simp add: eval_const.simps)
  next
    case 2
    with rt nf nv obtain l a where l: "nlhs n = Some l" "rt_value Map.empty l = Some a" "rt_unop n a = Some v"
      by (auto split: option.split_asm)
    from 2 have "nkind n \<noteq> ND_FNUM" by (auto simp: unary_kinds_def)
    with 2 l sub [of l a] unop_agree [OF pl nf l(3)] show ?thesis
      by (simp add: eval_const.simps [of f n] from_opt_def)
  next
    case 3
    with rt nf nv obtain l r a b where lr: "nlhs n = Some l" "nrhs n = Some r" "rt_value Map.empty l = Some a"
      "rt_value Map.empty r = Some b" "rt_binop n l r a b = Some v"
      by (auto split: option.split_asm)
    from 3 have "nkind n \<noteq> ND_FNUM" by auto
    with 3 lr sub [of l a] sub [of r b] div_agree [OF pl 3(3) lr(5)] show ?thesis
      by (simp add: eval_const.simps [of f n])
  next
    case 4
    with rt nf nv obtain l r a b where lr: "nlhs n = Some l" "nrhs n = Some r" "rt_value Map.empty l = Some a"
      "rt_value Map.empty r = Some b" "rt_binop n l r a b = Some v"
      by (auto split: option.split_asm)
    from 4 have "nkind n \<noteq> ND_FNUM" by (auto simp: binary_kinds_def)
    with 4 lr sub [of l a] sub [of r b] binop_agree [OF pl 4(5) lr(1,2,5)] show ?thesis
      by (simp add: eval_const.simps [of f n] from_opt_def)
  qed
qed

text \<open>C5: Constant folding agrees with the compiled program: on a tree without narrowing casts and
  without operations that depend on an unsigned type, the folded value is the one the emitted code
  computes. A cast to a narrow type is where they differ: the folder ignores it.\<close>
theorem constants_agree:
  "(plain_tree n \<and> rt_value Map.empty n = Some v \<longrightarrow> eval_const f n = Inr v)
   \<and> eval_const f (new_cast (new_num 300 t) ty_u8) = Inr 300 \<and> rt_value Map.empty (new_cast (new_num 300 t) ty_u8) = Some 44"
proof -
  have "eval_const f (new_cast (new_num 300 t) ty_u8) = Inr 300"
    by (simp add: new_cast_def same_object_def new_num_def builtin_tys eval_const.simps unary_kinds_def from_opt_def const_unop_def)
  moreover have "rt_value Map.empty (new_cast (new_num 300 t) ty_u8) = Some 44"
    by (simp add: new_cast_def same_object_def new_num_def builtin_tys rt_value.simps unary_kinds_def rt_unop_def narrow_def)
  ultimately show ?thesis using consts_agree_aux by blast
qed

theorem constants_agree_witness:
  "eval_const (\<lambda>_. 0) (nd2 ND_ADD (new_num 2 (new_token [] 1 TK_NUM)) (nd2 ND_MUL (new_num 3 (new_token [] 1 TK_NUM))
      (new_num 4 (new_token [] 1 TK_NUM)) (new_token [] 1 TK_NUM) ty_i64) (new_token [] 1 TK_NUM) ty_i64) = Inr 14"
proof -
  let ?t = "new_token [] 1 TK_NUM"
  let ?n = "nd2 ND_ADD (new_num 2 ?t) (nd2 ND_MUL (new_num 3 ?t) (new_num 4 ?t) ?t ty_i64) ?t ty_i64"
  have "plain_tree ?n" by (simp add: plain_tree.simps plain_node_def new_num_def)
  moreover have "rt_value Map.empty ?n = Some 14"
    by (simp add: rt_value.simps new_num_def builtin_tys unary_kinds_def binary_kinds_def rt_binop_def is_ptrish_def rt_arith_def c_i64_def)
  ultimately show ?thesis using constants_agree [of ?n 14 "\<lambda>_. 0" ?t] by simp
qed

end
