(* ===== verification/ParseTypes.thy ===== *)
theory ParseTypes
  imports ConstEval
begin

text \<open>
  Type names and function-pointer declarators of \<open>src/src/parse.c\<close>. The parsing functions that
  call each other in a circle take the ones they call from a record; \<open>Parse\<close> ties the knot.
\<close>

record calls =
  c_expr :: "node pm"
  c_unary :: "node pm"
  c_stmt :: "node pm"
  c_fptr :: "ty \<Rightarrow> bool \<Rightarrow> string \<Rightarrow> (ty \<times> string option) pm"

text \<open>What the parser uses and does not define: the conversion of a floating-point constant, and the
  inline assembler.\<close>

record penv =
  pe_f2i :: "bool \<times> string \<Rightarrow> i64"
  pe_asm :: "token list \<Rightarrow> int \<Rightarrow> bool \<Rightarrow> (asm_block \<times> token list) res"

section \<open>Type names\<close>

text \<open>A declared function's name before a star names its type.\<close>

definition find_func_type :: "parser \<Rightarrow> token list \<Rightarrow> ty option" where
  "find_func_type s ts =
     (case ts of
        t # u # _ \<Rightarrow>
          (if kind t \<noteq> TK_ID \<or> \<not> tok_punct u ''*'' \<or> find_var s (str t) \<noteq> None then None
           else map_option (\<lambda>i. f_ty (ps_funcs s ! i)) (find_func s (str t)))
      | _ \<Rightarrow> None)"

definition type_at :: "parser \<Rightarrow> token list \<Rightarrow> ty option" where
  "type_at s ts =
     (case ts of
        [] \<Rightarrow> None
      | t # _ \<Rightarrow>
          (case builtin_type (str t) of
             Some y \<Rightarrow> Some y
           | None \<Rightarrow> (case find_class (ps_classes s) (str t) of
                       Some c \<Rightarrow> Some (TyClass c) | None \<Rightarrow> find_func_type s ts)))"

definition is_type_start :: "token list \<Rightarrow> bool pm" where
  "is_type_start ts = (\<lambda>s.
     case ts of
       [] \<Rightarrow> Inl NullDeref
     | t # _ \<Rightarrow> Inr (if kind t = TK_TYPE then builtin_type (str t) \<noteq> None
                    else kind t = TK_ID \<and> type_at s ts \<noteq> None, s))"

definition type_start :: "bool pm" where
  "type_start = pbind (pget ps_tk) is_type_start"

text \<open>The type at the cursor, without its stars.\<close>

definition base_type :: "ty pm" where
  "base_type = pbind cur_tok (\<lambda>t. pbind (pget (\<lambda>s. type_at s (ps_tk s))) (\<lambda>y.
     case y of None \<Rightarrow> perr t (''unknown type '' @ sq (str t)) | Some b \<Rightarrow> pbind advance (\<lambda>_. pret b)))"

definition stars :: "ty \<Rightarrow> ty pm" where
  "stars y = pwhile (\<lambda>y. pbind (is_punct ''*'') (\<lambda>b.
     if b then pbind advance (\<lambda>_. pret (Inl (TyPtr y False))) else pret (Inr y))) y"

definition parse_typespec :: "ty pm" where
  "parse_typespec = pbind base_type stars"

text \<open>The stars of a declarator are eaten, which also accepts them as words.\<close>

definition eat_stars :: "ty \<Rightarrow> ty pm" where
  "eat_stars y = pwhile (\<lambda>y. pbind (eat ''*'') (\<lambda>b. pret (if b then Inl (TyPtr y False) else Inr y))) y"

definition const_expr :: "calls \<Rightarrow> penv \<Rightarrow> i64 pm" where
  "const_expr rc env = pbind (c_expr rc) (\<lambda>n. plift (eval_const (pe_f2i env) n))"

text \<open>Array suffixes of a parameter: each makes it a pointer, and its bound is only evaluated.\<close>

definition param_arrays :: "calls \<Rightarrow> penv \<Rightarrow> ty \<Rightarrow> ty pm" where
  "param_arrays rc env y = pwhile (\<lambda>y. pbind (eat ''['') (\<lambda>b.
     if \<not> b then pret (Inr y)
     else pbind (is_punct '']'') (\<lambda>e.
          pbind (if e then pret () else pbind (const_expr rc env) (\<lambda>_. pret ())) (\<lambda>_.
          pbind (expect '']'') (\<lambda>_. pret (Inl (TyPtr y False))))))) y"

section \<open>Function pointers\<close>

text \<open>The optional name of a parameter.\<close>

definition param_name :: "calls \<Rightarrow> ty \<Rightarrow> string \<Rightarrow> (ty \<times> string option) pm" where
  "param_name rc y what = pbind (is_punct ''('') (\<lambda>b. pbind cur_tok (\<lambda>t.
     if b then c_fptr rc y False ''function-pointer parameter name''
     else if kind t = TK_ID then pbind (take_name what True) (\<lambda>x. pret (y, Some x))
     else if kind t = TK_KEYWORD \<or> kind t = TK_TYPE
     then pbind (reject_reserved_name t what True) (\<lambda>_. pret (y, None))
     else pret (y, None)))"

text \<open>One parameter of a function-pointer type; \<open>Inr\<close> ends the list.\<close>

definition fptr_param :: "calls \<Rightarrow> penv \<Rightarrow> nat \<Rightarrow> (ty + bool) pm" where
  "fptr_param rc env n =
     pbind (eat ''...'') (\<lambda>dots.
     if dots
     then pbind (is_punct '')'') (\<lambda>e. if e then pret (Inr True)
            else pbind cur_tok (\<lambda>t. perr t (sq ''...'' @ '' must be the last parameter'')))
     else
       pbind type_start (\<lambda>ts. pbind cur_tok (\<lambda>t.
       if \<not> ts then perr t ''expected function-pointer parameter type''
       else pbind (collect_hints t no_hint_set) (\<lambda>h.
            pbind (reject_func_hint (h_func h)) (\<lambda>_.
            case h_align h of
              Some ht \<Rightarrow> perr ht ''@align applies only to classes, fields, and local variables''
            | None \<Rightarrow>
                pbind parse_typespec (\<lambda>y. pbind (is_punct '')'') (\<lambda>e.
                if y = TyVoid \<and> e \<and> n = 0 then pbind (hinted_type y (h_bits h)) (\<lambda>_. pret (Inr False))
                else
                  pbind (param_name rc y ''function-pointer parameter name'') (\<lambda>(y1, _).
                  pbind (param_arrays rc env y1) (\<lambda>y2.
                  pbind (hinted_nonnull_type y2 (h_nonnull h)) (\<lambda>y3. pbind cur_tok (\<lambda>u.
                  if y3 = TyVoid then perr u ''U0 must be the only function-pointer parameter''
                  else if is_class_ty y3 then perr u ''class values cannot be parameters; pass a pointer''
                  else if n \<ge> 250 then perr u ''too many function-pointer parameters''
                  else pbind (hinted_type y3 (h_bits h)) (\<lambda>y4. pret (Inl y4)))))))))))))"

definition parse_funcptr_params :: "calls \<Rightarrow> penv \<Rightarrow> ty \<Rightarrow> ty pm" where
  "parse_funcptr_params rc env ret =
     pbind (pwhile (\<lambda>(ps, first). pbind (is_punct '')'') (\<lambda>e.
        if e then pret (Inr (ps, False))
        else pbind (if first then pret () else expect '','') (\<lambda>_.
             pbind (fptr_param rc env (length ps)) (\<lambda>r.
             pret (case r of Inl y \<Rightarrow> Inl (ps @ [y], False) | Inr dots \<Rightarrow> Inr (ps, dots))))))
       (if is_class_ty ret then [TyPtr ret False] else [], True)) (\<lambda>(ps, dots).
     pbind (expect '')'') (\<lambda>_. pret (TyFunc ret ps dots dots)))"

definition parse_funcptr_declarator :: "calls \<Rightarrow> penv \<Rightarrow> ty \<Rightarrow> bool \<Rightarrow> string \<Rightarrow> (ty \<times> string option) pm" where
  "parse_funcptr_declarator rc env ret require_name what =
     pbind (expect ''('') (\<lambda>_. pbind (expect ''*'') (\<lambda>_. pbind cur_tok (\<lambda>t.
     pbind (if kind t = TK_ID \<or> require_name then pbind (take_name what True) (\<lambda>x. pret (Some x)) else pret None) (\<lambda>x.
     pbind (expect '')'') (\<lambda>_. pbind (expect ''('') (\<lambda>_.
     pbind (parse_funcptr_params rc env ret) (\<lambda>fnty. pret (TyPtr fnty False, x))))))))"

end
