(* ===== verification/ParseExpr.thy ===== *)
theory ParseExpr
  imports ParseTypes
begin

text \<open>
  Expressions of \<open>src/src/parse.c\<close>: calls with default arguments, postfix and prefix operators, the
  precedence levels, chained comparisons and the lowering of compound assignment.
\<close>

section \<open>Calls\<close>

definition new_str_node :: "string \<Rightarrow> token \<Rightarrow> node pm" where
  "new_str_node d t = pbind (pget (\<lambda>s. length (ps_strings s))) (\<lambda>i.
     pbind (pmod (\<lambda>s. s\<lparr>ps_strings := d # ps_strings s\<rparr>)) (\<lambda>_.
       pret (upd_info (\<lambda>f. f\<lparr>ni_str := d, ni_str_id := i\<rparr>) (nd0 ND_STR t (TyPtr ty_u8 True)))))"

definition nd_call :: "nat option \<Rightarrow> node option \<Rightarrow> node list \<Rightarrow> nat \<Rightarrow> token \<Rightarrow> ty \<Rightarrow> node" where
  "nd_call f l args nfixed t y =
     Node ND_CALL l None None None None None None [] args f 0 TRY_NONE ((ninfo0 t)\<lparr>ni_ty := y, ni_nfixed := nfixed\<rparr>)"

text \<open>A call that returns a class gets the address of a fresh temporary as its first argument, and
  its value is the class at the address it returns.\<close>

definition sret_args :: "ty \<Rightarrow> node list \<Rightarrow> token \<Rightarrow> node list pm" where
  "sret_args cls args t = pbind (new_temp cls) (\<lambda>v. pbind (new_var_node v t) (\<lambda>n.
     pbind (new_addr n (TyPtr cls True) t) (\<lambda>a. pret (a # args))))"

definition sret_result :: "node \<Rightarrow> ty \<Rightarrow> node pm" where
  "sret_result call cls = new_deref (set_ty (TyPtr cls False) call) cls (ntok call)"

text \<open>The node for a parameter: the argument given, or the default for a hole.\<close>

definition pick_arg :: "string \<Rightarrow> token \<Rightarrow> nat \<Rightarrow> dflt \<Rightarrow> node option \<Rightarrow> ty option \<Rightarrow> node pm" where
  "pick_arg fname t i d a prev =
     (case (if (case a of None \<Rightarrow> True | Some n \<Rightarrow> nkind n = ND_NOP) then None else a) of
        Some n \<Rightarrow> pret n
      | None \<Rightarrow>
          (case d of
             NoDefault \<Rightarrow> perr t (''missing argument '' @ dec_nat (i + 1) @ '' in call to '' @ fname @ ''() and no default'')
           | DefExpr n \<Rightarrow> pret n
           | LastClass \<Rightarrow>
               (case prev of
                  None \<Rightarrow> perr t (''lastclass argument '' @ dec_nat (i + 1) @ '' in call to '' @ fname
                            @ ''() has no previous argument'')
                | Some y \<Rightarrow> pbind (pget ps_classes) (\<lambda>cs. new_str_node (holyc_type_name cs y) t))))"

definition bind_arg :: "ty \<Rightarrow> node \<Rightarrow> token \<Rightarrow> node pm" where
  "bind_arg y a t = pbind (require_nonnull y a t ''parameter'') (\<lambda>_.
     pbind (require_fnptr_compat y a t) (\<lambda>_. pret (param_conv y a)))"

fun bind_params :: "string \<Rightarrow> token \<Rightarrow> nat \<Rightarrow> nat list \<Rightarrow> dflt list \<Rightarrow> node list \<Rightarrow> ty option \<Rightarrow> node list pm" where
  "bind_params fname t i [] ds args prev = pret []"
| "bind_params fname t i (p # ps) ds args prev =
     pbind (pick_arg fname t i (if ds = [] then NoDefault else hd ds) (if args = [] then None else Some (hd args)) prev)
       (\<lambda>a0. let a = rvalize a0 in
     pbind (pget (\<lambda>s. o_ty (obj_at s p))) (\<lambda>y.
     pbind (bind_arg y a t) (\<lambda>a1.
     pbind (bind_params fname t (i + 1) ps (tl ds) (tl args) (Some (nty a))) (\<lambda>as. pret (a1 # as)))))"

fun extra_args :: "token \<Rightarrow> node list \<Rightarrow> node list pm" where
  "extra_args t [] = pret []"
| "extra_args t (a # as) =
     (if nkind a = ND_NOP then perr t ''empty variadic argument''
      else pbind (extra_args t as) (\<lambda>bs. pret (rvalize a # bs)))"

definition make_call :: "nat \<Rightarrow> node list \<Rightarrow> token \<Rightarrow> node pm" where
  "make_call i args0 t = pbind (pget (\<lambda>s. ps_funcs s ! i)) (\<lambda>f.
     let ret = (case base_of (f_ty f) of None \<Rightarrow> ty_i64 | Some b \<Rightarrow> b)
     in pbind (if returns_class (f_ty f) then sret_args ret args0 t else pret args0) (\<lambda>args.
        if length args > 256 then perr t ''too many arguments''
        else if \<not> f_variadic f \<and> length args > f_nparams f
        then perr t (''too many arguments to '' @ fn_name f @ ''() (takes '' @ dec_nat (f_nparams f) @ '')'')
        else pbind (bind_params (fn_name f) t 0 (take (f_nparams f) (f_params f)) (f_defaults f) args None) (\<lambda>fixed.
             pbind (extra_args t (drop (f_nparams f) args)) (\<lambda>extra.
             let n = nd_call (Some i) None (fixed @ (if f_variadic f then extra else [])) (f_nparams f) t (value_type ret)
             in if returns_class (f_ty f) then sret_result n ret else pret n))))"

definition call_named :: "string \<Rightarrow> node list \<Rightarrow> token \<Rightarrow> node pm" where
  "call_named x args t = pbind (pget (\<lambda>s. find_func s x)) (\<lambda>f.
     case f of
       None \<Rightarrow> perr t (''runtime function '' @ sq x @ '' is not declared (missing prelude?)'')
     | Some i \<Rightarrow> make_call i args t)"

text \<open>A call through a pointer. Without a signature every argument is passed as it is.\<close>

fun check_indirect :: "nat \<Rightarrow> node list \<Rightarrow> token \<Rightarrow> unit pm" where
  "check_indirect argc [] t = pret ()"
| "check_indirect argc (a # as) t =
     (if argc \<ge> 256 then perr t ''too many arguments''
      else if nkind a = ND_NOP then perr t ''default arguments require a direct call''
      else check_indirect (argc + 1) as t)"

fun bind_indirect :: "ty list \<Rightarrow> node list \<Rightarrow> token \<Rightarrow> node list pm" where
  "bind_indirect (y # ys) (a # as) t =
     pbind (bind_arg y (rvalize a) t) (\<lambda>a1. pbind (bind_indirect ys as t) (\<lambda>bs. pret (a1 # bs)))"
| "bind_indirect _ as t = pret (map rvalize as)"

definition make_indirect_call :: "node \<Rightarrow> node list \<Rightarrow> token \<Rightarrow> node pm" where
  "make_indirect_call callee args0 t =
     (case nty callee of
        TyPtr (TyFunc ret ps v h) nn \<Rightarrow>
          pbind (if is_class_ty ret then sret_args ret args0 t else pret args0) (\<lambda>args.
          pbind (check_indirect 0 args t) (\<lambda>_.
          if \<not> v \<and> length args > length ps
          then perr t (''too many arguments to function pointer (takes '' @ dec_nat (length ps) @ '')'')
          else if length args < length ps
          then perr t (''too few arguments to function pointer (takes '' @ dec_nat (length ps) @ '')'')
          else pbind (bind_indirect ps args t) (\<lambda>as.
               let n = nd_call None (Some callee) as (length ps) t (value_type ret)
               in if is_class_ty ret then sret_result n ret else pret n)))
      | _ \<Rightarrow> pbind (check_indirect 0 args0 t) (\<lambda>_. pret (nd_call None (Some callee) args0 (length args0) t ty_i64)))"

text \<open>Arguments up to the closing parenthesis; one left out is a \<open>ND_NOP\<close> node.\<close>

definition parse_args :: "calls \<Rightarrow> node list pm" where
  "parse_args rc =
     pbind (pwhile (\<lambda>(as, first). pbind (is_punct '')'') (\<lambda>e.
        if e then pret (Inr as)
        else pbind (if first then pret () else expect '','') (\<lambda>_.
             pbind (is_punct '','') (\<lambda>c. pbind (is_punct '')'') (\<lambda>e2. pbind cur_tok (\<lambda>t.
             if c \<or> e2 then pret (Inl (as @ [nd0 ND_NOP t ty_i64], False))
             else pbind (c_expr rc) (\<lambda>a. pret (Inl (as @ [rvalize a], False))))))))) ([], True)) (\<lambda>as.
     pbind (expect '')'') (\<lambda>_. pret as))"

section \<open>Primary expressions\<close>

definition comma_expr :: "calls \<Rightarrow> node pm" where
  "comma_expr rc = pbind (c_expr rc) (pwhile (\<lambda>n. pbind (is_punct '','') (\<lambda>b. pbind cur_tok (\<lambda>t.
     if b then pbind advance (\<lambda>_. pbind (c_expr rc) (\<lambda>r. pbind (new_binary ND_COMMA n r t) (\<lambda>m. pret (Inl m))))
     else pret (Inr n)))))"

text \<open>Adjacent string literals are one.\<close>

definition parse_string :: "token \<Rightarrow> node pm" where
  "parse_string t = pbind (pget (\<lambda>s. takeWhile (\<lambda>u. kind u = TK_STR) (ps_tk s))) (\<lambda>ss.
     pbind (\<lambda>s. case dropWhile (\<lambda>u. kind u = TK_STR) (ps_tk s) of [] \<Rightarrow> Inl NullDeref
              | ts \<Rightarrow> Inr ((), s\<lparr>ps_tk := ts\<rparr>)) (\<lambda>_.
     new_str_node (concat (map str ss)) t))"

definition size_num :: "ty \<Rightarrow> token \<Rightarrow> node pm" where
  "size_num y t = pget (\<lambda>s. new_num (word_of_int (ty_size (ps_classes s) y)) t)"

definition parse_sizeof :: "calls \<Rightarrow> token \<Rightarrow> node pm" where
  "parse_sizeof rc t = pbind advance (\<lambda>_. pbind (eat ''('') (\<lambda>paren.
     pbind (if paren then type_start else pret False) (\<lambda>ts.
     pbind (if ts then pbind parse_typespec (\<lambda>y. size_num y t)
            else pbind (if paren then comma_expr rc else c_unary rc) (\<lambda>e. size_num (nty e) t)) (\<lambda>n.
     pbind (if paren then expect '')'' else pret ()) (\<lambda>_. pret n)))))"

definition parse_offset :: "token \<Rightarrow> node pm" where
  "parse_offset t = pbind advance (\<lambda>_. pbind (expect ''('') (\<lambda>_. pbind type_start (\<lambda>ts.
     pbind (if ts then pbind parse_typespec (\<lambda>y. pret (Some y)) else pret None) (\<lambda>cls.
     case cls of
       Some (TyClass c) \<Rightarrow>
         pbind (expect ''.'') (\<lambda>_. pbind cur_tok (\<lambda>mt. pbind (take_name ''member name'' True) (\<lambda>x.
         pbind (pget ps_classes) (\<lambda>cs. pbind (plift (find_member cs c x)) (\<lambda>m.
         case m of
           None \<Rightarrow> perr mt (''no member '' @ sq x @ '' in class '' @ ci_name (cs ! c))
         | Some mb \<Rightarrow> pbind (expect '')'') (\<lambda>_. pret (new_num (word_of_int (m_offset mb)) t)))))))
     | _ \<Rightarrow> perr t ''offset(Class.member) expects a class name''))))"

definition parse_dollar :: "token \<Rightarrow> node pm" where
  "parse_dollar t = pbind advance (\<lambda>_. pbind (pget (\<lambda>s. (ps_in_class s, ps_dol s, find_func s ''__hc_rip''))) (\<lambda>(inc, d, f).
     if inc then pret (new_num (word_of_int d) t)
     else case f of None \<Rightarrow> perr t (sq ''$$'' @ '' needs the runtime prelude'') | Some i \<Rightarrow> make_call i [] t))"

definition parse_name :: "calls \<Rightarrow> token \<Rightarrow> node pm" where
  "parse_name rc t = pbind (pget (\<lambda>s. (find_var s (str t), find_func s (str t)))) (\<lambda>(v, f).
     case v of
       Some u \<Rightarrow> pbind advance (\<lambda>_. new_var_node u t)
     | None \<Rightarrow>
         (case f of
            Some i \<Rightarrow> pbind advance (\<lambda>_. pbind (eat ''('') (\<lambda>b.
                        if b then pbind (parse_args rc) (\<lambda>as. make_call i as t) else make_call i [] t))
          | None \<Rightarrow> perr t (''undefined symbol '' @ sq (str t))))"

definition primary :: "calls \<Rightarrow> node pm" where
  "primary rc = pbind cur_tok (\<lambda>t. pbind (eat ''('') (\<lambda>b.
     if b then pbind (comma_expr rc) (\<lambda>n. pbind (expect '')'') (\<lambda>_. pret n))
     else if kind t = TK_NUM \<or> kind t = TK_CHR then pbind advance (\<lambda>_. pret (new_num (ival t) t))
     else if kind t = TK_FNUM then pbind advance (\<lambda>_. pret (new_fnum (False, fval t) t))
     else if kind t = TK_STR then parse_string t
     else if tok_kw t ''sizeof'' then parse_sizeof rc t
     else if tok_kw t ''offset'' then parse_offset t
     else if tok_punct t ''$$'' then parse_dollar t
     else if kind t = TK_ID then parse_name rc t
     else perr t ''expected an expression''))"

section \<open>Increment and views\<close>

text \<open>A place that is no plain variable is used through a temporary that holds its address.\<close>

definition lval_addr_temp :: "node \<Rightarrow> token \<Rightarrow> (node option \<times> node) pm" where
  "lval_addr_temp lv t =
     (if nkind lv = ND_VAR then pret (None, lv)
      else pbind (new_temp (TyPtr (nty lv) False)) (\<lambda>v. pbind (new_addr lv (TyPtr (nty lv) False) t) (\<lambda>a.
           pbind (new_var_node v t) (\<lambda>n. pbind (new_assign n a t) (\<lambda>setup.
           pbind (new_var_node v t) (\<lambda>n2. pbind (new_deref n2 (nty lv) t) (\<lambda>d. pret (Some setup, d))))))))"

definition with_setup :: "node option \<Rightarrow> node \<Rightarrow> token \<Rightarrow> node pm" where
  "with_setup setup v t = (case setup of None \<Rightarrow> pret v | Some s \<Rightarrow> new_binary ND_COMMA s v t)"

definition incdec :: "node \<Rightarrow> i64 \<Rightarrow> bool \<Rightarrow> token \<Rightarrow> node pm" where
  "incdec lv delta post t =
     (if \<not> is_lvalue lv then perr t ''++/-- needs an lvalue''
      else pbind (lval_addr_temp lv t) (\<lambda>(setup, place).
        let one = new_num delta t
        in if post
           then pbind (new_temp (value_type (nty place))) (\<lambda>old. pbind (new_var_node old t) (\<lambda>ov.
                pbind (new_assign ov place t) (\<lambda>save. pbind (new_binary ND_ADD ov one t) (\<lambda>sum.
                pbind (new_assign place sum t) (\<lambda>upd. pbind (new_binary ND_COMMA upd ov t) (\<lambda>rest.
                pbind (new_binary ND_COMMA save rest t) (\<lambda>v. with_setup setup v t)))))))
           else pbind (new_binary ND_ADD place one t) (\<lambda>sum. pbind (new_assign place sum t) (\<lambda>v. with_setup setup v t))))"

definition subint_access :: "node \<Rightarrow> token \<Rightarrow> node pm" where
  "subint_access base t = pbind cur_tok (\<lambda>mt. pbind (pget (\<lambda>s. (ps_classes s, o_param (obj_at s (ni_var (ninf base)))))) (\<lambda>(cs, par).
     let bsize = ty_size cs (nty base)
     in case subint_view_type (str mt) of
          None \<Rightarrow> perr mt (''no member '' @ sq (str mt) @ '' in an integer'')
        | Some view \<Rightarrow>
            (if ty_size cs view \<ge> bsize
             then perr mt (''sub-int view '' @ sq (str mt) @ '' needs a wider int than ''
                    @ (if bsize = 1 then ''a byte'' else if bsize = 2 then ''U16'' else ''U32''))
             else if \<not> is_lvalue base then perr t ''sub-int access needs an addressable value''
             else if nkind base = ND_VAR \<and> par \<and> bsize < 8
             then perr t ''sub-int access on a narrow parameter; copy it to a local''
             else pbind (plift (array_of cs view (bsize div ty_size cs view))) (\<lambda>arr.
                  pbind (new_addr base (TyPtr (nty base) False) t) (\<lambda>a.
                  pbind (new_deref (new_cast a (TyPtr arr False)) arr t) (\<lambda>d. pbind advance (\<lambda>_. pret d)))))))"

section \<open>Postfix and prefix operators\<close>

definition parse_cast :: "calls \<Rightarrow> node \<Rightarrow> token \<Rightarrow> node pm" where
  "parse_cast rc n t = pbind parse_typespec (\<lambda>y0. pbind (is_punct ''('') (\<lambda>fp.
     pbind (if fp then pbind (c_fptr rc y0 False ''cast'') (\<lambda>(y, x).
              if x \<noteq> None then perr t ''function-pointer cast takes no name'' else pret y)
            else pret y0) (\<lambda>y.
     pbind (expect '')'') (\<lambda>_.
     let m = new_cast (rvalize n) y
     in pret (if nkind m = ND_CAST \<and> (y = TyF64) \<noteq> (case nlhs m of None \<Rightarrow> False | Some l \<Rightarrow> nty l = TyF64)
              then upd_info (\<lambda>i. i\<lparr>ni_bit_cast := True\<rparr>) m else m)))))"

definition parse_index :: "calls \<Rightarrow> node \<Rightarrow> token \<Rightarrow> node pm" where
  "parse_index rc n t = pbind (comma_expr rc) (\<lambda>idx. pbind (expect '']'') (\<lambda>_.
     pbind (new_binary ND_ADD n idx t) (\<lambda>sum.
     if \<not> is_ptrish (nty sum) then perr t ''subscript on a non-pointer''
     else case nty sum of
            TyPtr b nn \<Rightarrow> new_deref sum b t
          | _ \<Rightarrow> perr t ''cannot index this expression'')))"

definition parse_member :: "bool \<Rightarrow> node \<Rightarrow> token \<Rightarrow> node pm" where
  "parse_member arrow n t = pbind advance (\<lambda>_. pbind cur_tok (\<lambda>mt.
     pbind (reject_reserved_name mt ''member name'' True) (\<lambda>_.
     if kind mt \<noteq> TK_ID then perr mt ''expected member name''
     else pbind (if arrow
                 then (case nty (rvalize n) of
                         TyPtr b nn \<Rightarrow> new_deref (rvalize n) b t
                       | _ \<Rightarrow> perr t (sq ''->'' @ '' on a non-pointer''))
                 else pret n) (\<lambda>base.
          if is_int_ty (nty base) then subint_access base t
          else pbind (take_name ''member name'' True) (\<lambda>x. pbind (pget ps_classes) (\<lambda>cs.
               case nty base of
                 TyClass c \<Rightarrow>
                   pbind (plift (find_member cs c x)) (\<lambda>m.
                   case m of
                     None \<Rightarrow> perr mt (''no member '' @ sq x @ '' in class '' @ ci_name (cs ! c))
                   | Some mb \<Rightarrow> pret (upd_info (\<lambda>i. i\<lparr>ni_member := mb\<rparr>) (nd1 ND_MEMBER base t (m_ty mb))))
               | _ \<Rightarrow> perr t ''member access on a non-class value''))))))"

definition postfix_step :: "calls \<Rightarrow> node \<Rightarrow> (node + node) pm" where
  "postfix_step rc n = pbind cur_tok (\<lambda>t.
     if tok_punct t ''(''
     then pbind (pget (\<lambda>s. tl (ps_tk s))) (\<lambda>nx. pbind (is_type_start nx) (\<lambda>ts. pbind advance (\<lambda>_.
          if ts then pbind (parse_cast rc n t) (\<lambda>m. pret (Inl m))
          else pbind (parse_args rc) (\<lambda>as. pbind (make_indirect_call (rvalize n) as t) (\<lambda>m. pret (Inl m))))))
     else pbind (eat ''['') (\<lambda>b.
          if b then pbind (parse_index rc n t) (\<lambda>m. pret (Inl m))
          else if tok_punct t ''.'' \<or> tok_punct t ''->''
          then pbind (parse_member (tok_punct t ''->'') n t) (\<lambda>m. pret (Inl m))
          else if tok_punct t ''++'' \<or> tok_punct t ''--''
          then pbind advance (\<lambda>_. pbind (incdec n (if tok_punct t ''++'' then 1 else -1) True t) (\<lambda>m. pret (Inl m)))
          else pret (Inr n)))"

definition postfix :: "calls \<Rightarrow> node pm" where
  "postfix rc = pbind (primary rc) (pwhile (postfix_step rc))"

definition neg_node :: "node \<Rightarrow> token \<Rightarrow> node pm" where
  "neg_node n t =
     (if nkind n = ND_NUM then pret (upd_ival uminus n)
      else if nkind n = ND_FNUM then pret (upd_info (\<lambda>i. i\<lparr>ni_fval := (\<not> fst (ni_fval i), snd (ni_fval i))\<rparr>) n)
      else new_unary ND_NEG n t)"

text \<open>The address of a function, or of an lvalue.\<close>

definition parse_addr :: "calls \<Rightarrow> token \<Rightarrow> node pm" where
  "parse_addr rc t = pbind cur_tok (\<lambda>u. pbind (pget (\<lambda>s. (find_var s (str u), find_func s (str u), ps_funcs s))) (\<lambda>(v, f, fs).
     case (if kind u = TK_ID \<and> v = None then f else None) of
       Some i \<Rightarrow> pbind advance (\<lambda>_. pret (Node ND_FUNCNAME None None None None None None None [] [] (Some i) 0 TRY_NONE
                   ((ninfo0 t)\<lparr>ni_ty := TyPtr (f_ty (fs ! i)) True\<rparr>)))
     | None \<Rightarrow> pbind (c_unary rc) (\<lambda>n.
         if \<not> is_lvalue n then perr t (sq ''&'' @ '' needs an lvalue'') else new_addr n (TyPtr (nty n) True) t)))"

definition unary_body :: "calls \<Rightarrow> node pm" where
  "unary_body rc = pbind cur_tok (\<lambda>t.
     pbind (eat ''+'') (\<lambda>b. if b then c_unary rc else
     pbind (eat ''-'') (\<lambda>b. if b then pbind (c_unary rc) (\<lambda>n. neg_node (rvalize n) t) else
     pbind (eat ''!'') (\<lambda>b. if b then pbind (c_unary rc) (\<lambda>n. new_unary ND_NOT n t) else
     pbind (eat ''~'') (\<lambda>b. if b then pbind (c_unary rc) (\<lambda>n. new_unary ND_BITNOT n t) else
     pbind (eat ''*'') (\<lambda>b.
       if b then pbind (c_unary rc) (\<lambda>n.
         case nty (rvalize n) of
           TyPtr y nn \<Rightarrow> new_deref (rvalize n) y t
         | _ \<Rightarrow> perr t ''dereference of a non-pointer'')
       else pbind (eat ''&'') (\<lambda>b.
         if b then parse_addr rc t
         else if tok_punct t ''++'' \<or> tok_punct t ''--''
         then pbind advance (\<lambda>_. pbind (c_unary rc) (\<lambda>n. incdec n (if tok_punct t ''++'' then 1 else -1) False t))
         else postfix rc)))))))"

section \<open>Precedence levels\<close>

text \<open>A level of left-associative operators over the next tighter one.\<close>

definition find_op :: "(string \<times> node_kind) list \<Rightarrow> token \<Rightarrow> node_kind option" where
  "find_op ops t = (if kind t = TK_PUNCT then map_of ops (str t) else None)"

definition level :: "(string \<times> node_kind) list \<Rightarrow> node pm \<Rightarrow> node pm" where
  "level ops nxt = pbind nxt (pwhile (\<lambda>n. pbind cur_tok (\<lambda>t.
     case find_op ops t of
       None \<Rightarrow> pret (Inr n)
     | Some k \<Rightarrow> pbind advance (\<lambda>_. pbind nxt (\<lambda>r. pbind (new_binary k n r t) (\<lambda>m. pret (Inl m)))))))"

definition powshift :: "calls \<Rightarrow> node pm" where
  "powshift rc = level [(''`'', ND_POW), (''<<'', ND_SHL), (''>>'', ND_SHR)] (c_unary rc)"
definition mul :: "calls \<Rightarrow> node pm" where
  "mul rc = level [(''*'', ND_MUL), (''/'', ND_DIV), (''%'', ND_MOD)] (powshift rc)"
definition bitand_lv :: "calls \<Rightarrow> node pm" where "bitand_lv rc = level [(''&'', ND_AND)] (mul rc)"
definition bitxor_lv :: "calls \<Rightarrow> node pm" where "bitxor_lv rc = level [(''^'', ND_XOR)] (bitand_lv rc)"
definition bitor_lv :: "calls \<Rightarrow> node pm" where "bitor_lv rc = level [(''|'', ND_OR)] (bitxor_lv rc)"
definition addsub :: "calls \<Rightarrow> node pm" where
  "addsub rc = level [(''+'', ND_ADD), (''-'', ND_SUB)] (bitor_lv rc)"

text \<open>Comparisons chain: \<open>a < b < c\<close> is \<open>(a < (t = b)) && (t < c)\<close>; \<open>>\<close> and \<open>>=\<close> swap their operands.\<close>

definition rel_op :: "token \<Rightarrow> (node_kind \<times> bool) option" where
  "rel_op t = (if kind t = TK_PUNCT
     then map_of [(''<'', (ND_LT, False)), (''<='', (ND_LE, False)), (''>'', (ND_LT, True)), (''>='', (ND_LE, True))] (str t)
     else None)"

definition rel_step :: "calls \<Rightarrow> node \<times> node option \<Rightarrow> (node \<times> node option + node) pm" where
  "rel_step rc st = (case st of (n, chain) \<Rightarrow> pbind cur_tok (\<lambda>t.
     case rel_op t of
       None \<Rightarrow> pret (Inr (case chain of None \<Rightarrow> n | Some c \<Rightarrow> c))
     | Some (k, swap) \<Rightarrow>
         pbind advance (\<lambda>_. pbind (addsub rc) (\<lambda>r0. pbind cur_tok (\<lambda>u.
         let more = rel_op u \<noteq> None
         in pbind (if more
                   then pbind (new_temp (value_type (nty (rvalize r0)))) (\<lambda>v. pbind (new_var_node v t) (\<lambda>vn.
                        pbind (new_assign vn (rvalize r0) t) (\<lambda>a. pret (a, vn))))
                   else pret (rvalize r0, rvalize r0)) (\<lambda>(rhs, rhs_val).
            pbind (if swap then new_binary k rhs (rvalize n) t else new_binary k (rvalize n) rhs t) (\<lambda>cmp.
            pbind (case chain of None \<Rightarrow> pret cmp | Some c \<Rightarrow> new_binary ND_LOGAND c cmp t) (\<lambda>chain1.
              pret (if more then Inl (rhs_val, Some chain1) else Inr chain1)))))))))"

definition relational :: "calls \<Rightarrow> node pm" where
  "relational rc = pbind (addsub rc) (\<lambda>n. pwhile (rel_step rc) (n, None))"

definition equality :: "calls \<Rightarrow> node pm" where
  "equality rc = level [(''=='', ND_EQ), (''!='', ND_NE)] (relational rc)"
definition logand :: "calls \<Rightarrow> node pm" where "logand rc = level [(''&&'', ND_LOGAND)] (equality rc)"
definition logxor :: "calls \<Rightarrow> node pm" where "logxor rc = level [(''^^'', ND_LOGXOR)] (logand rc)"
definition logor :: "calls \<Rightarrow> node pm" where "logor rc = level [(''||'', ND_LOGOR)] (logxor rc)"

section \<open>Assignment\<close>

definition compound_ops :: "(string \<times> node_kind) list" where
  "compound_ops = [(''+='', ND_ADD), (''-='', ND_SUB), (''*='', ND_MUL), (''/='', ND_DIV), (''%='', ND_MOD),
     (''&='', ND_AND), (''|='', ND_OR), (''^='', ND_XOR), (''<<='', ND_SHL), (''>>='', ND_SHR)]"

definition assign_body :: "calls \<Rightarrow> node pm" where
  "assign_body rc = pbind (logor rc) (\<lambda>n. pbind cur_tok (\<lambda>t. pbind (eat ''='') (\<lambda>b.
     if b then pbind (c_expr rc) (\<lambda>r. new_assign n r t)
     else case find_op compound_ops t of
            None \<Rightarrow> pret n
          | Some k \<Rightarrow> pbind advance (\<lambda>_.
              if \<not> is_lvalue n then perr t ''not an assignable expression''
              else pbind (c_expr rc) (\<lambda>r. pbind (lval_addr_temp n t) (\<lambda>(setup, place).
                   pbind (new_binary k place r t) (\<lambda>v. pbind (new_assign place v t) (\<lambda>a. with_setup setup a t))))))))"

end
