(* ===== verification/ParseSwitch.thy ===== *)
theory ParseSwitch
  imports ParseExpr
begin

text \<open>
  Statement nodes and the lowering of \<open>switch\<close> (\<open>src/src/parse.c\<close>). The body of a switch is parsed
  into a list of statements with a label per case; the dispatch in front of it compares the value
  with every case in turn. A sub-switch group has a porch that runs before its cases: the dispatch
  stores the case's index and enters the porch, and the porch ends in a second dispatch.
\<close>

section \<open>Statement nodes\<close>

definition new_expr_stmt :: "node \<Rightarrow> token \<Rightarrow> node" where
  "new_expr_stmt e t = nd1 ND_EXPR_STMT e t TyVoid"

definition nd_jump :: "node_kind \<Rightarrow> string \<Rightarrow> token \<Rightarrow> node" where
  "nd_jump k l t = upd_info (\<lambda>i. i\<lparr>ni_label := l\<rparr>) (nd0 k t TyVoid)"

definition new_goto :: "string \<Rightarrow> token \<Rightarrow> node" where "new_goto l t = nd_jump ND_GOTO l t"
definition new_labelstmt :: "string \<Rightarrow> token \<Rightarrow> node" where "new_labelstmt l t = nd_jump ND_LABEL l t"

definition nd_block :: "node list \<Rightarrow> token \<Rightarrow> node" where
  "nd_block body t = Node ND_BLOCK None None None None None None None body [] None 0 TRY_NONE (ninfo0 t)"

definition nd_ctl :: "node_kind \<Rightarrow> node option \<Rightarrow> node option \<Rightarrow> node option \<Rightarrow> token \<Rightarrow> node" where
  "nd_ctl k c th el t = Node k None None c th el None None [] [] None 0 TRY_NONE (ninfo0 t)"

definition nd_for :: "node option \<Rightarrow> node option \<Rightarrow> node option \<Rightarrow> node \<Rightarrow> token \<Rightarrow> node" where
  "nd_for ini c inc body t = Node ND_FOR None None c (Some body) None ini inc [] [] None 0 TRY_NONE (ninfo0 t)"

section \<open>State of a switch\<close>

record sw_case =
  sc_lo :: i64
  sc_hi :: i64
  sc_default :: bool
  sc_label :: string
  sc_group :: "nat option"

record sw_ctx =
  sw_cases :: "sw_case list"
  sw_next :: i64
  sw_exit :: string
  sw_ngroups :: nat
  sw_group :: "nat option"
  sw_porch :: "string list"
  sw_end :: "string list"
  sw_var :: "nat option"
  sw_body :: "node list"
  sw_in_porch :: bool

definition sw_init :: "string \<Rightarrow> sw_ctx" where
  "sw_init exit = \<lparr>sw_cases = [], sw_next = 0, sw_exit = exit, sw_ngroups = 0, sw_group = None, sw_porch = [],
     sw_end = [], sw_var = None, sw_body = [], sw_in_porch = False\<rparr>"

definition sw_append :: "node \<Rightarrow> sw_ctx \<Rightarrow> sw_ctx" where
  "sw_append n sw = sw\<lparr>sw_body := sw_body sw @ [n]\<rparr>"

text \<open>The anchor that marks where the porch's dispatch goes.\<close>

definition porch_anchor :: "nat \<Rightarrow> token \<Rightarrow> node" where
  "porch_anchor g t = nd_jump ND_NOP (''porch'' @ dec_nat g) t"

section \<open>The first pass\<close>

definition sw_add_case :: "i64 \<Rightarrow> i64 \<Rightarrow> string \<Rightarrow> token \<Rightarrow> sw_ctx \<Rightarrow> sw_ctx" where
  "sw_add_case lo hi l t sw =
     (let c = \<lparr>sc_lo = lo, sc_hi = hi, sc_default = False, sc_label = l, sc_group = sw_group sw\<rparr>;
          sw1 = sw\<lparr>sw_next := hi + 1, sw_cases := sw_cases sw @ [c]\<rparr>;
          sw2 = (case sw_group sw1 of
                   Some g \<Rightarrow> (if sw_in_porch sw1 then sw_append (porch_anchor g t) (sw1\<lparr>sw_in_porch := False\<rparr>) else sw1)
                 | None \<Rightarrow> sw1)
      in sw_append (new_labelstmt l t) sw2)"

definition sw_add_default :: "string \<Rightarrow> token \<Rightarrow> sw_ctx \<Rightarrow> sw_ctx" where
  "sw_add_default l t sw =
     sw_append (new_labelstmt l t)
       (sw\<lparr>sw_cases := sw_cases sw @ [\<lparr>sc_lo = 0, sc_hi = 0, sc_default = True, sc_label = l, sc_group = sw_group sw\<rparr>]\<rparr>)"

definition parse_case :: "calls \<Rightarrow> penv \<Rightarrow> token \<Rightarrow> sw_ctx \<Rightarrow> sw_ctx pm" where
  "parse_case rc env t sw = pbind advance (\<lambda>_. pbind (is_punct '':'') (\<lambda>colon.
     pbind (if colon then pret (sw_next sw, sw_next sw)
            else pbind (const_expr rc env) (\<lambda>lo. pbind (eat ''...'') (\<lambda>range.
                 if range then pbind (const_expr rc env) (\<lambda>hi. pret (lo, hi)) else pret (lo, lo)))) (\<lambda>(lo, hi).
     pbind (expect '':'') (\<lambda>_. pbind (new_label ''case'') (\<lambda>l. pret (sw_add_case lo hi l t sw))))))"

definition set_break :: "string option \<Rightarrow> unit pm" where
  "set_break b = pmod (\<lambda>s. s\<lparr>ps_break := b\<rparr>)"

definition parse_start :: "token \<Rightarrow> sw_ctx \<Rightarrow> sw_ctx pm" where
  "parse_start t sw = pbind advance (\<lambda>_. pbind advance (\<lambda>_.
     if sw_group sw \<noteq> None then perr t ''nested start:/end: groups are not supported''
     else if sw_ngroups sw \<ge> 64 then perr t ''too many sub_switch groups''
     else pbind (case sw_var sw of Some v \<Rightarrow> pret v | None \<Rightarrow> new_temp ty_i64) (\<lambda>v.
          pbind (new_label ''porch'') (\<lambda>pl. pbind (new_label ''gend'') (\<lambda>gl.
          pbind (new_var_node v t) (\<lambda>vn. pbind (new_assign vn (new_num (-1) t) t) (\<lambda>a.
          pbind (set_break (Some gl)) (\<lambda>_.
            pret (sw_append (new_labelstmt pl t) (sw_append (new_expr_stmt a t)
              (sw\<lparr>sw_group := Some (sw_ngroups sw), sw_ngroups := sw_ngroups sw + 1, sw_var := Some v,
                  sw_porch := sw_porch sw @ [pl], sw_end := sw_end sw @ [gl], sw_in_porch := True\<rparr>)))))))))))"

definition parse_end :: "token \<Rightarrow> sw_ctx \<Rightarrow> sw_ctx pm" where
  "parse_end t sw = pbind advance (\<lambda>_. pbind advance (\<lambda>_.
     case sw_group sw of
       None \<Rightarrow> perr t ''end: without start:''
     | Some g \<Rightarrow> pbind (set_break (Some (sw_exit sw))) (\<lambda>_.
         pret ((sw_append (new_labelstmt (sw_end sw ! g) t) sw)\<lparr>sw_group := None\<rparr>))))"

text \<open>\<open>kw :\<close> at the cursor.\<close>

definition kw_colon :: "string \<Rightarrow> bool pm" where
  "kw_colon w = pbind (is_kw w) (\<lambda>b.
     if b then pbind next_tok (\<lambda>u. pret (tok_punct u '':'')) else pret False)"

definition sw_step :: "calls \<Rightarrow> penv \<Rightarrow> sw_ctx \<Rightarrow> (sw_ctx + sw_ctx) pm" where
  "sw_step rc env sw = pbind (is_punct ''}'') (\<lambda>close. pbind cur_tok (\<lambda>t.
     if close then pret (Inr sw)
     else if tok_kw t ''case'' then pbind (parse_case rc env t sw) (\<lambda>sw1. pret (Inl sw1))
     else if tok_kw t ''default''
     then pbind advance (\<lambda>_. pbind (expect '':'') (\<lambda>_. pbind (new_label ''default'') (\<lambda>l. pret (Inl (sw_add_default l t sw)))))
     else pbind (kw_colon ''start'') (\<lambda>st.
          if st then pbind (parse_start t sw) (\<lambda>sw1. pret (Inl sw1))
          else pbind (kw_colon ''end'') (\<lambda>en.
               if en then pbind (parse_end t sw) (\<lambda>sw1. pret (Inl sw1))
               else pbind (c_stmt rc) (\<lambda>n. pret (Inl (sw_append n sw)))))))"

section \<open>The second pass\<close>

definition case_test :: "nat \<Rightarrow> sw_case \<Rightarrow> token \<Rightarrow> node pm" where
  "case_test v c t =
     (if sc_lo c = sc_hi c
      then pbind (new_var_node v t) (\<lambda>n. new_binary ND_EQ n (new_num (sc_lo c) t) t)
      else pbind (new_var_node v t) (\<lambda>n. pbind (new_binary ND_LE (new_num (sc_lo c) t) n t) (\<lambda>ge.
           pbind (new_var_node v t) (\<lambda>n2. pbind (new_binary ND_LE n2 (new_num (sc_hi c) t) t) (\<lambda>le.
             new_binary ND_LOGAND ge le t)))))"

text \<open>The dispatch over the cases, which also numbers the cases of each group.\<close>

definition case_target :: "sw_ctx \<Rightarrow> sw_case \<Rightarrow> nat \<Rightarrow> token \<Rightarrow> node pm" where
  "case_target sw c idx t =
     (case sc_group c of
        None \<Rightarrow> pret (new_goto (sc_label c) t)
      | Some g \<Rightarrow> pbind (new_var_node (case sw_var sw of None \<Rightarrow> 0 | Some v \<Rightarrow> v) t) (\<lambda>vn.
          pbind (new_assign vn (new_num (word_of_nat idx) t) t) (\<lambda>a.
            pret (nd_block [new_expr_stmt a t, new_goto (sw_porch sw ! g) t] t))))"

fun build_dispatch :: "sw_ctx \<Rightarrow> nat \<Rightarrow> token \<Rightarrow> (nat \<Rightarrow> nat) \<Rightarrow> sw_case list \<Rightarrow> (node list \<times> sw_case list) pm" where
  "build_dispatch sw v t cnt [] = pret ([], [])"
| "build_dispatch sw v t cnt (c # cs) =
     (if sc_default c
      then pbind (build_dispatch sw v t cnt cs) (\<lambda>(ns, cs1). pret (ns, c # cs1))
      else pbind (case_test v c t) (\<lambda>test.
           let idx = (case sc_group c of None \<Rightarrow> 0 | Some g \<Rightarrow> cnt g)
           in pbind (case_target sw c idx t) (\<lambda>br.
              pbind (build_dispatch sw v t (case sc_group c of None \<Rightarrow> cnt | Some g \<Rightarrow> cnt(g := cnt g + 1)) cs) (\<lambda>(ns, cs1).
                pret (nd_ctl ND_IF (Some test) (Some br) None t # ns,
                      (if sc_group c = None then c else c\<lparr>sc_hi := word_of_nat idx\<rparr>) # cs1)))))"

text \<open>In the porch: compare the stored index with that of each case of the group.\<close>

fun porch_dispatch :: "sw_ctx \<Rightarrow> nat \<Rightarrow> token \<Rightarrow> sw_case list \<Rightarrow> node list pm" where
  "porch_dispatch sw g t [] = pret []"
| "porch_dispatch sw g t (c # cs) =
     (if sc_group c \<noteq> Some g \<or> sc_default c then porch_dispatch sw g t cs
      else pbind (new_var_node (case sw_var sw of None \<Rightarrow> 0 | Some v \<Rightarrow> v) t) (\<lambda>vn.
           pbind (new_binary ND_EQ vn (new_num (sc_hi c) t) t) (\<lambda>test.
           pbind (porch_dispatch sw g t cs) (\<lambda>ns.
             pret (nd_ctl ND_IF (Some test) (Some (new_goto (sc_label c) t)) None t # ns)))))"

definition anchor_group :: "node \<Rightarrow> nat option" where
  "anchor_group n =
     (if nkind n = ND_NOP \<and> prefix ''porch'' (ni_label (ninf n))
      then Some (dec_value (takeWhile is_digit (drop 5 (ni_label (ninf n))))) else None)"

fun splice_porches :: "sw_ctx \<Rightarrow> token \<Rightarrow> sw_case list \<Rightarrow> node list \<Rightarrow> node list pm" where
  "splice_porches sw t cs [] = pret []"
| "splice_porches sw t cs (n # ns) =
     pbind (case anchor_group n of
              None \<Rightarrow> pret [n]
            | Some g \<Rightarrow> pbind (porch_dispatch sw g t cs) (\<lambda>d. pret (if d = [] then [n] else d))) (\<lambda>d.
     pbind (splice_porches sw t cs ns) (\<lambda>rest. pret (d @ rest)))"

text \<open>The default is the last one given.\<close>

definition default_label :: "sw_ctx \<Rightarrow> string" where
  "default_label sw =
     (case filter sc_default (sw_cases sw) of [] \<Rightarrow> sw_exit sw | ds \<Rightarrow> sc_label (last ds))"

definition sw_build :: "sw_ctx \<Rightarrow> node \<Rightarrow> nat \<Rightarrow> token \<Rightarrow> node pm" where
  "sw_build sw setup v t =
     pbind (build_dispatch sw v t (\<lambda>_. 0) (sw_cases sw)) (\<lambda>(brs, cs).
     pbind (splice_porches sw t cs (sw_body sw)) (\<lambda>body.
       pret (nd_block ([setup] @ brs @ [new_goto (default_label sw) t] @ body @ [new_labelstmt (sw_exit sw) t]) t)))"

definition switch_stmt :: "calls \<Rightarrow> penv \<Rightarrow> token \<Rightarrow> node pm" where
  "switch_stmt rc env t = pbind (is_punct ''['') (\<lambda>nobound.
     pbind (expect (if nobound then ''['' else ''('')) (\<lambda>_. pbind (comma_expr rc) (\<lambda>cond.
     pbind (expect (if nobound then '']'' else '')'')) (\<lambda>_. pbind (expect ''{'') (\<lambda>_.
     pbind (new_label ''swend'') (\<lambda>exit. pbind (new_temp ty_i64) (\<lambda>v. pbind (new_var_node v t) (\<lambda>vn.
     pbind (new_assign vn (rvalize cond) t) (\<lambda>a. pbind (pget ps_break) (\<lambda>save.
     pbind (set_break (Some exit)) (\<lambda>_. pbind enter_scope (\<lambda>_.
     pbind (pwhile (sw_step rc env) (sw_init exit)) (\<lambda>sw.
     pbind (expect ''}'') (\<lambda>_. pbind leave_scope (\<lambda>_. pbind (set_break save) (\<lambda>_.
     if sw_group sw \<noteq> None then perr t ''start: without end: in switch''
     else sw_build sw (new_expr_stmt a t) v t))))))))))))))))"

end
