(* ===== verification/ParseStmt.thy ===== *)
theory ParseStmt
  imports ParseSwitch
begin

text \<open>
  Statements of \<open>src/src/parse.c\<close>: implicit prints, local declarations, control flow, labels and
  \<open>return\<close>. The node of a statement that has no type keeps \<open>TyVoid\<close>, which no code reads.
\<close>

section \<open>Implicit prints\<close>

text \<open>The arguments after a format, each after a comma.\<close>

definition print_args :: "calls \<Rightarrow> node list \<Rightarrow> node list pm" where
  "print_args rc = pwhile (\<lambda>as. pbind (eat '','') (\<lambda>b.
     if b then pbind (c_expr rc) (\<lambda>a. pret (Inl (as @ [rvalize a]))) else pret (Inr as)))"

definition print_stmt :: "calls \<Rightarrow> node pm" where
  "print_stmt rc = pbind cur_tok (\<lambda>t.
     if kind t = TK_CHR
     then pbind advance (\<lambda>_.
          pbind (if len t = 0 then pbind (c_expr rc) (\<lambda>e. pret (rvalize e)) else pret (new_num (ival t) t)) (\<lambda>e.
          pbind (expect '';'') (\<lambda>_. pbind (call_named ''PutChars'' [e] t) (\<lambda>n. pret (new_expr_stmt n t)))))
     else pbind (primary rc) (\<lambda>s. pbind (is_punct '';'') (\<lambda>semi. pbind (is_punct '','') (\<lambda>comma.
          pbind (if ni_str (ninf s) = [] \<and> \<not> semi \<and> \<not> comma then pbind (c_expr rc) (\<lambda>e. pret (rvalize e)) else pret s) (\<lambda>fmt.
          pbind (print_args rc [fmt]) (\<lambda>as. pbind (expect '';'') (\<lambda>_.
          pbind (call_named ''Print'' as t) (\<lambda>n. pret (new_expr_stmt n t)))))))))"

section \<open>Declarations\<close>

text \<open>The bounds of a declarator, from left to right.\<close>

definition array_bounds :: "calls \<Rightarrow> penv \<Rightarrow> ty \<Rightarrow> ty pm" where
  "array_bounds rc env = pwhile (\<lambda>y. pbind (eat ''['') (\<lambda>b.
     if \<not> b then pret (Inr y)
     else pbind (comma_expr rc) (\<lambda>n. pbind (expect '']'') (\<lambda>_.
          pbind (plift (eval_const (pe_f2i env) n)) (\<lambda>v. pbind (pget ps_classes) (\<lambda>cs.
          pbind (plift (array_of cs y (int_of_i64 v))) (\<lambda>y1. pret (Inl y1))))))))"

text \<open>A brace initializer assigns the elements in order; a comma may end it.\<close>

definition init_list :: "calls \<Rightarrow> nat \<Rightarrow> ty \<Rightarrow> token \<Rightarrow> node list pm" where
  "init_list rc v el t = pbind (pwhile (\<lambda>ns. pbind (is_punct ''}'') (\<lambda>e.
     if e then pret (Inr ns)
     else pbind (if ns = [] then pret () else expect '','') (\<lambda>_. pbind (is_punct ''}'') (\<lambda>e2.
          if e2 then pret (Inr ns)
          else pbind (c_expr rc) (\<lambda>x. pbind (new_var_node v t) (\<lambda>vn.
               pbind (new_binary ND_ADD vn (new_num (word_of_nat (length ns)) t) t) (\<lambda>addr.
               pbind (new_assign (nd1 ND_DEREF addr t el) x t) (\<lambda>a. pret (Inl (ns @ [new_expr_stmt a t])))))))))) []) (\<lambda>ns.
     pbind (expect ''}'') (\<lambda>_. pret ns))"

text \<open>\<open>= \<dots>\<close> of a variable \<open>v\<close>; a string for an array is copied with its terminator.\<close>

definition var_init :: "calls \<Rightarrow> nat \<Rightarrow> ty \<Rightarrow> token \<Rightarrow> node list pm" where
  "var_init rc v y t = pbind (is_punct ''{'') (\<lambda>br. pbind cur_tok (\<lambda>bt.
     if br
     then (case y of
             TyArray el k s a \<Rightarrow> pbind advance (\<lambda>_. init_list rc v el t)
           | _ \<Rightarrow> perr bt ''brace initializer needs an array'')
     else pbind (c_expr rc) (\<lambda>rhs. pbind (new_var_node v t) (\<lambda>vn.
          if is_array_ty y \<and> nkind rhs = ND_STR
          then pbind (call_named ''MemCpy''
                 [rvalize vn, rhs, new_num (word_of_nat (length (ni_str (ninf rhs)) + 1)) t] t) (\<lambda>n. pret [new_expr_stmt n t])
          else pbind (new_assign vn rhs t) (\<lambda>a. pret [new_expr_stmt a t])))))"

definition opt_init :: "node list pm \<Rightarrow> node list pm" where
  "opt_init m = pbind (eat ''='') (\<lambda>b. if b then m else pret [])"

text \<open>\<open>reg\<close> and \<open>noreg\<close> are skipped, with a register name after \<open>reg\<close>.\<close>

definition skip_reg :: "unit pm" where
  "skip_reg = pwhile (\<lambda>_. pbind (is_kw ''reg'') (\<lambda>r. pbind (is_kw ''noreg'') (\<lambda>nr.
     if \<not> r \<and> \<not> nr then pret (Inr ())
     else pbind advance (\<lambda>_. pbind cur_tok (\<lambda>t.
          if r \<and> kind t = TK_ID
          then pbind next_tok (\<lambda>u. pbind (pwhen (kind u = TK_ID) advance) (\<lambda>_. pret (Inl ())))
          else pret (Inl ())))))) ()"

definition declare_local :: "string \<Rightarrow> ty \<Rightarrow> hint_set \<Rightarrow> nat pm" where
  "declare_local x y h = pbind (hinted_type y (h_bits h)) (\<lambda>y1. pbind (new_local x y1) (\<lambda>v.
     pbind (hint_alignment y1 (h_align h)) (\<lambda>al. pbind (upd_obj v (\<lambda>o1. o1\<lparr>o_align := al\<rparr>)) (\<lambda>_. pret v))))"

definition local_declarator :: "calls \<Rightarrow> penv \<Rightarrow> ty \<Rightarrow> hint_set \<Rightarrow> token \<Rightarrow> node list pm" where
  "local_declarator rc env base h t =
     pbind (eat_stars base) (\<lambda>y0. pbind (hinted_nonnull_type y0 (h_nonnull h)) (\<lambda>y1. pbind skip_reg (\<lambda>_.
     pbind (is_punct ''('') (\<lambda>fp.
     if fp
     then pbind (c_fptr rc y1 True ''function pointer name'') (\<lambda>(y, x).
          pbind (declare_local (case x of None \<Rightarrow> [] | Some w \<Rightarrow> w) y h) (\<lambda>v.
          opt_init (pbind (c_expr rc) (\<lambda>rhs. pbind (new_var_node v t) (\<lambda>vn. pbind (new_assign vn rhs t) (\<lambda>a.
            pret [new_expr_stmt a t]))))))
     else pbind cur_tok (\<lambda>nt. pbind (take_name ''variable name'' True) (\<lambda>x. pbind (is_punct ''('') (\<lambda>call.
          if call
          then perr nt (''local functions are not allowed in HolyC; move '' @ sq x @ '' to file scope'')
          else pbind (array_bounds rc env y1) (\<lambda>y. pbind (declare_local x y h) (\<lambda>v. opt_init (var_init rc v y nt))))))))))"

text \<open>The declarators up to the semicolon.\<close>

definition declarators :: "(bool \<Rightarrow> node list pm) \<Rightarrow> node list pm" where
  "declarators d = pbind (pwhile (\<lambda>(ns, first). pbind (is_punct '';'') (\<lambda>e.
     if e then pret (Inr ns)
     else pbind (if first then pret () else expect '','') (\<lambda>_. pbind (d first) (\<lambda>ms. pret (Inl (ns @ ms, False)))))) ([], True)) (\<lambda>ns.
     pbind (expect '';'') (\<lambda>_. pret ns))"

definition local_decl :: "calls \<Rightarrow> penv \<Rightarrow> node pm" where
  "local_decl rc env = pbind cur_tok (\<lambda>t. pbind (collect_hints t no_hint_set) (\<lambda>h.
     pbind (reject_func_hint (h_func h)) (\<lambda>_. pbind base_type (\<lambda>base.
     pbind (declarators (\<lambda>_. local_declarator rc env base h t)) (\<lambda>ns.
       pret (case ns of [] \<Rightarrow> new_node ND_NOP t | [n] \<Rightarrow> n | _ \<Rightarrow> nd_block ns t))))))"

section \<open>Control flow\<close>

definition block_stmt :: "calls \<Rightarrow> node pm" where
  "block_stmt rc = pbind cur_tok (\<lambda>t. pbind (expect ''{'') (\<lambda>_. pbind enter_scope (\<lambda>_.
     pbind (pwhile (\<lambda>ns. pbind (is_punct ''}'') (\<lambda>e. pbind cur_tok (\<lambda>u.
        if e then pret (Inr ns)
        else if kind u = TK_EOF then perr t ''unterminated block''
        else pbind (c_stmt rc) (\<lambda>n. pret (Inl (ns @ [n])))))) []) (\<lambda>ns.
     pbind (expect ''}'') (\<lambda>_. pbind leave_scope (\<lambda>_. pret (nd_block ns t)))))))"

definition paren_cond :: "calls \<Rightarrow> node pm" where
  "paren_cond rc = pbind (expect ''('') (\<lambda>_. pbind (comma_expr rc) (\<lambda>c. pbind (to_bool (rvalize c)) (\<lambda>b.
     pbind (expect '')'') (\<lambda>_. pret b))))"

text \<open>The body of a loop: \<open>break\<close> goes to a label after it.\<close>

definition loop_body :: "calls \<Rightarrow> string \<Rightarrow> (node \<times> string) pm" where
  "loop_body rc hint = pbind (new_label hint) (\<lambda>l. pbind (pget ps_break) (\<lambda>save. pbind (set_break (Some l)) (\<lambda>_.
     pbind (c_stmt rc) (\<lambda>n. pbind (set_break save) (\<lambda>_. pret (n, l))))))"

definition loop_block :: "node \<Rightarrow> string \<Rightarrow> token \<Rightarrow> node" where
  "loop_block n l t = nd_block [n, new_labelstmt l t] t"

definition parse_if :: "calls \<Rightarrow> token \<Rightarrow> node pm" where
  "parse_if rc t = pbind advance (\<lambda>_. pbind (paren_cond rc) (\<lambda>c. pbind (c_stmt rc) (\<lambda>th. pbind (is_kw ''else'') (\<lambda>e.
     pbind (if e then pbind advance (\<lambda>_. pbind (c_stmt rc) (\<lambda>el. pret (Some el))) else pret None) (\<lambda>el.
       pret (nd_ctl ND_IF (Some c) (Some th) el t))))))"

definition parse_while :: "calls \<Rightarrow> token \<Rightarrow> node pm" where
  "parse_while rc t = pbind advance (\<lambda>_. pbind (paren_cond rc) (\<lambda>c. pbind (loop_body rc ''wend'') (\<lambda>(n, l).
     pret (loop_block (nd_ctl ND_WHILE (Some c) (Some n) None t) l t))))"

definition parse_do :: "calls \<Rightarrow> token \<Rightarrow> node pm" where
  "parse_do rc t = pbind advance (\<lambda>_. pbind (loop_body rc ''dend'') (\<lambda>(n, l). pbind (is_kw ''while'') (\<lambda>w. pbind cur_tok (\<lambda>u.
     if \<not> w then perr u (''expected '' @ sq ''while'' @ '' after do body'')
     else pbind advance (\<lambda>_. pbind (paren_cond rc) (\<lambda>c. pbind (expect '';'') (\<lambda>_.
          pret (loop_block (nd_ctl ND_DOWHILE (Some c) (Some n) None t) l t))))))))"

definition for_init :: "calls \<Rightarrow> penv \<Rightarrow> token \<Rightarrow> node option pm" where
  "for_init rc env t = pbind (is_punct '';'') (\<lambda>e.
     if e then pbind (expect '';'') (\<lambda>_. pret None)
     else pbind type_start (\<lambda>ts. pbind (if ts then next_tok else cur_tok) (\<lambda>u.
          if ts \<and> (kind u = TK_ID \<or> kind u = TK_KEYWORD \<or> kind u = TK_TYPE)
          then pbind (local_decl rc env) (\<lambda>n. pret (Some n))
          else pbind (comma_expr rc) (\<lambda>x. pbind (expect '';'') (\<lambda>_. pret (Some (new_expr_stmt x t)))))))"

definition parse_for :: "calls \<Rightarrow> penv \<Rightarrow> token \<Rightarrow> node pm" where
  "parse_for rc env t = pbind advance (\<lambda>_. pbind (expect ''('') (\<lambda>_. pbind enter_scope (\<lambda>_.
     pbind (for_init rc env t) (\<lambda>ini. pbind (is_punct '';'') (\<lambda>nc.
     pbind (if nc then pret None else pbind (comma_expr rc) (\<lambda>c. pbind (to_bool (rvalize c)) (\<lambda>b. pret (Some b)))) (\<lambda>c.
     pbind (expect '';'') (\<lambda>_. pbind (is_punct '')'') (\<lambda>ni.
     pbind (if ni then pret None else pbind (comma_expr rc) (\<lambda>x. pret (Some (new_expr_stmt x t)))) (\<lambda>inc.
     pbind (expect '')'') (\<lambda>_. pbind (loop_body rc ''fend'') (\<lambda>(n, l). pbind leave_scope (\<lambda>_.
       pret (loop_block (nd_for ini c inc n t) l t)))))))))))))"

text \<open>\<open>return\<close>: a \<open>U0\<close> function only evaluates the expression; a class value is copied to the
  caller's temporary.\<close>

definition ret_node :: "node option \<Rightarrow> token \<Rightarrow> node" where
  "ret_node e t = Node ND_RETURN e None None None None None None [] [] None 0 TRY_NONE (ninfo0 t)"

definition ret_conv :: "ty \<Rightarrow> node \<Rightarrow> node" where
  "ret_conv rt e = (if rt = TyF64 then to_f64 e else if rt \<noteq> TyVoid \<and> nty e = TyF64 then to_int e else e)"

definition return_class :: "nat \<Rightarrow> node \<Rightarrow> token \<Rightarrow> node pm" where
  "return_class c e t = pbind (pget (\<lambda>s. (ps_classes s, find_var s ''__sret''))) (\<lambda>(cs, sret).
     if nty e \<noteq> TyClass c then perr t (''return value must be a '' @ ci_name (cs ! c))
     else case sret of
            None \<Rightarrow> pfail NullDeref
          | Some v \<Rightarrow> pbind (new_var_node v t) (\<lambda>d. pbind (new_addr e (TyPtr (TyClass c) False) t) (\<lambda>src.
              pbind (size_num (TyClass c) t) (\<lambda>sz. pbind (call_named ''MemCpy'' [rvalize d, src, sz] t) (\<lambda>cp.
                pret (nd_block [new_expr_stmt cp t, ret_node (Some (rvalize d)) t] t))))))"

definition ret_type :: "cur_fn \<Rightarrow> ty pm" where
  "ret_type cur = (case cur of NoFn \<Rightarrow> pfail NullDeref | StartFn \<Rightarrow> pret ty_i64 | InFn r \<Rightarrow> pret r)"

definition return_value :: "ty \<Rightarrow> node \<Rightarrow> token \<Rightarrow> node pm" where
  "return_value rt v t = pbind (require_nonnull rt v t ''return value'') (\<lambda>_. pbind (require_fnptr_compat rt v t) (\<lambda>_.
     case rt of
       TyVoid \<Rightarrow> pret (nd_block [new_expr_stmt v t, ret_node None t] t)
     | TyClass c \<Rightarrow> return_class c v t
     | _ \<Rightarrow> pret (ret_node (Some v) t)))"

definition parse_return :: "calls \<Rightarrow> token \<Rightarrow> node pm" where
  "parse_return rc t = pbind advance (\<lambda>_. pbind (is_punct '';'') (\<lambda>e.
     pbind (if e then pret (ret_node None t)
            else pbind (comma_expr rc) (\<lambda>x. pbind (pget ps_cur) (\<lambda>cur. pbind (ret_type cur) (\<lambda>rt.
                   return_value rt (ret_conv rt (rvalize x)) t)))) (\<lambda>n.
     pbind (expect '';'') (\<lambda>_. pret n))))"

definition parse_break :: "token \<Rightarrow> node pm" where
  "parse_break t = pbind advance (\<lambda>_. pbind (expect '';'') (\<lambda>_. pbind (pget ps_break) (\<lambda>b.
     case b of None \<Rightarrow> perr t ''break outside of a loop or switch'' | Some l \<Rightarrow> pret (new_goto l t))))"

definition user_label :: "string \<Rightarrow> string" where "user_label x = ''u_'' @ x"

definition parse_goto :: "token \<Rightarrow> node pm" where
  "parse_goto t = pbind advance (\<lambda>_. pbind (take_name ''label name after goto'' True) (\<lambda>x. pbind (expect '';'') (\<lambda>_.
     pbind (label_use x t False) (\<lambda>_. pret (new_goto (user_label x) t)))))"

definition parse_try :: "calls \<Rightarrow> token \<Rightarrow> node pm" where
  "parse_try rc t = pbind advance (\<lambda>_. pbind (block_stmt rc) (\<lambda>b. pbind (is_kw ''catch'') (\<lambda>c. pbind cur_tok (\<lambda>u.
     if \<not> c then perr u (''expected '' @ sq ''catch'' @ '' after try block'')
     else pbind advance (\<lambda>_. pbind (block_stmt rc) (\<lambda>h. pret (nd_ctl ND_TRY None (Some b) (Some h) t)))))))"

definition parse_no_warn :: "token \<Rightarrow> node pm" where
  "parse_no_warn t = pbind (pwhile (\<lambda>_. pbind (eat '';'') (\<lambda>b.
     if b then pret (Inr ())
     else pbind cur_tok (\<lambda>u.
          if kind u = TK_EOF then perr t ''unterminated no_warn'' else pbind advance (\<lambda>_. pret (Inl ()))))) ()) (\<lambda>_.
     pret (new_node ND_NOP t))"

text \<open>The inline assembler reads the tokens of the block.\<close>

definition run_asm :: "penv \<Rightarrow> bool \<Rightarrow> asm_block pm" where
  "run_asm env in_fn = (\<lambda>s.
     case pe_asm env (ps_tk s) (ps_asm s + 1) in_fn of
       Inl e \<Rightarrow> Inl e
     | Inr (a, ts) \<Rightarrow> Inr (a, s\<lparr>ps_tk := ts, ps_asm := ps_asm s + 1\<rparr>))"

definition note_asm :: "token \<Rightarrow> unit pm" where
  "note_asm t = pmod (\<lambda>s. s\<lparr>ps_asm_tok := (if ps_asm_tok s = None then Some t else ps_asm_tok s)\<rparr>)"

definition parse_asm_stmt :: "penv \<Rightarrow> token \<Rightarrow> node pm" where
  "parse_asm_stmt env t = pbind (require_asm_enabled t) (\<lambda>_. pbind (reject_asm_hints t) (\<lambda>_.
     pbind (run_asm env True) (\<lambda>a. pbind (bind_asm_operands (ab_operands a) a) (\<lambda>(qs, a1).
     pbind (note_asm t) (\<lambda>_. pret (upd_info (\<lambda>i. i\<lparr>ni_asm := Some (a1\<lparr>ab_operands := qs\<rparr>)\<rparr>) (nd0 ND_ASM t TyVoid)))))))"

section \<open>Statements\<close>

text \<open>Whether a statement that starts with a type is a declaration.\<close>

definition is_decl :: "bool pm" where
  "is_decl = pbind type_start (\<lambda>ts.
     if \<not> ts then pret False
     else pbind next_tok (\<lambda>u.
       if kind u = TK_ID \<or> kind u = TK_KEYWORD \<or> kind u = TK_TYPE \<or> tok_punct u ''*'' then pret True
       else if tok_punct u ''(''
       then pget (\<lambda>s. case ps_tk s of t # u # w # _ \<Rightarrow> tok_punct w ''*'' | _ \<Rightarrow> False)
       else pret False))"

definition stmt_other :: "calls \<Rightarrow> penv \<Rightarrow> token \<Rightarrow> node pm" where
  "stmt_other rc env t = pbind peek_tok (\<lambda>nx. pbind type_start (\<lambda>ts.
     if kind t = TK_ID \<and> (case nx of None \<Rightarrow> False | Some u \<Rightarrow> tok_punct u '':'') \<and> \<not> ts
     then pbind advance (\<lambda>_. pbind advance (\<lambda>_. pbind (label_use (str t) t True) (\<lambda>_.
          pret (new_labelstmt (user_label (str t)) t))))
     else pbind is_decl (\<lambda>d.
          if d then local_decl rc env
          else if kind t = TK_STR \<or> kind t = TK_CHR then print_stmt rc
          else pbind (comma_expr rc) (\<lambda>e. pbind (expect '';'') (\<lambda>_. pret (new_expr_stmt e t))))))"

definition stmt_body :: "calls \<Rightarrow> penv \<Rightarrow> node pm" where
  "stmt_body rc env = pbind cur_tok (\<lambda>t. pbind peek_tok (\<lambda>nx.
     pbind (if (kind t = TK_KEYWORD \<or> kind t = TK_TYPE) \<and> (case nx of None \<Rightarrow> False | Some u \<Rightarrow> tok_punct u '':'')
            then reject_reserved_name t ''label name'' True else pret ()) (\<lambda>_.
     if tok_punct t ''{'' then block_stmt rc
     else pbind (eat '';'') (\<lambda>semi.
     if semi then pret (new_node ND_NOP t)
     else if tok_kw t ''if'' then parse_if rc t
     else if tok_kw t ''while'' then parse_while rc t
     else if tok_kw t ''do'' then parse_do rc t
     else if tok_kw t ''for'' then parse_for rc env t
     else if tok_kw t ''switch'' then pbind advance (\<lambda>_. switch_stmt rc env t)
     else if tok_kw t ''return'' then parse_return rc t
     else if tok_kw t ''break'' then parse_break t
     else if tok_kw t ''continue'' then perr t (''HolyC has no '' @ sq ''continue'' @ '' statement; use goto (see doc/language.md)'')
     else if tok_kw t ''goto'' then parse_goto t
     else if tok_kw t ''try'' then parse_try rc t
     else if tok_kw t ''no_warn'' then parse_no_warn t
     else if tok_kw t ''asm'' then parse_asm_stmt env t
     else if tok_kw t ''lock'' then pbind advance (\<lambda>_. block_stmt rc)
     else stmt_other rc env t))))"

end
