(* ===== verification/ParseDecl.thy ===== *)
theory ParseDecl
  imports ParseStmt
begin

text \<open>
  Declarations of \<open>src/src/parse.c\<close>: parameters with defaults, functions, classes with their layout,
  global variables.
\<close>

section \<open>Parameters\<close>

definition param_default :: "calls \<Rightarrow> ty \<Rightarrow> dflt pm" where
  "param_default rc y = pbind (eat ''='') (\<lambda>b.
     if \<not> b then pret NoDefault
     else pbind (eat ''lastclass'') (\<lambda>l.
          if l then pret LastClass
          else pbind (c_expr rc) (\<lambda>e. let d = rvalize e
               in pret (DefExpr (if y = TyF64 then to_f64 d else to_int d)))))"

text \<open>One parameter and its default; \<open>Inr\<close> ends the list, with \<open>True\<close> for an ellipsis.\<close>

definition fn_param :: "calls \<Rightarrow> penv \<Rightarrow> nat \<Rightarrow> (nat \<times> dflt + bool) pm" where
  "fn_param rc env n = pbind (eat ''...'') (\<lambda>dots.
     if dots then pret (Inr True)
     else pbind type_start (\<lambda>ts. pbind cur_tok (\<lambda>t.
       if \<not> ts then perr t ''expected parameter type''
       else pbind (collect_hints t no_hint_set) (\<lambda>h. pbind (reject_func_hint (h_func h)) (\<lambda>_.
            case h_align h of
              Some ht \<Rightarrow> perr ht ''@align applies only to classes, fields, and local variables''
            | None \<Rightarrow>
                pbind parse_typespec (\<lambda>y. pbind (is_punct '')'') (\<lambda>e.
                if y = TyVoid \<and> e \<and> n = 0 then pbind (hinted_type y (h_bits h)) (\<lambda>_. pret (Inr False))
                else
                  pbind (param_name rc y ''parameter name'') (\<lambda>(y1, x). pbind (param_arrays rc env y1) (\<lambda>y2.
                  pbind (hinted_nonnull_type y2 (h_nonnull h)) (\<lambda>y3. pbind cur_tok (\<lambda>u.
                  if is_class_ty y3 then perr u ''class values cannot be parameters; pass a pointer''
                  else
                    pbind (hinted_type y3 (h_bits h)) (\<lambda>y4.
                    pbind (new_obj (case x of None \<Rightarrow> ''arg'' @ dec_nat n | Some w \<Rightarrow> w) y4) (\<lambda>v.
                    pbind (param_default rc y3) (\<lambda>d. pbind cur_tok (\<lambda>u2.
                    if n + 1 \<ge> 250 then perr u2 ''too many parameters'' else pret (Inl (v, d)))))))))))))))))"

definition mark_params :: "nat list \<Rightarrow> unit pm" where
  "mark_params vs = pmod (\<lambda>s. s\<lparr>ps_vars := (\<lambda>v. if v \<in> set vs then map_option (\<lambda>q. q\<lparr>o_param := True\<rparr>) (ps_vars s v)
                                        else ps_vars s v)\<rparr>)"

text \<open>The parameters, their number without the hidden ones, the defaults, and whether variadic. A
  variadic function that is no C import has the hidden \<open>argc\<close> and \<open>argv\<close>; a function that returns
  a class has a first parameter for the address of the result.\<close>

definition params_rest :: "calls \<Rightarrow> penv \<Rightarrow> bool \<Rightarrow> (nat \<times> dflt) list \<Rightarrow> (nat list \<times> nat \<times> dflt list \<times> bool) pm" where
  "params_rest rc env c_import ps0 =
     pbind (pwhile (\<lambda>(ps, first). pbind (is_punct '')'') (\<lambda>e.
        if e then pret (Inr (ps, False))
        else pbind (if first then pret () else expect '','') (\<lambda>_. pbind (fn_param rc env (length ps)) (\<lambda>r.
             pret (case r of Inl p \<Rightarrow> Inl (ps @ [p], False) | Inr dots \<Rightarrow> Inr (ps, dots)))))) (ps0, True)) (\<lambda>(ps, dots).
     pbind (expect '')'') (\<lambda>_.
     pbind (if dots \<and> \<not> c_import
            then pbind (new_obj ''argc'' ty_i64) (\<lambda>c. pbind (new_obj ''argv'' (TyPtr ty_i64 False)) (\<lambda>v. pret [c, v]))
            else pret []) (\<lambda>hidden.
     pbind (mark_params (map fst ps @ hidden)) (\<lambda>_.
       pret (map fst ps @ hidden, length ps, map snd ps, dots)))))"

definition parse_params :: "calls \<Rightarrow> penv \<Rightarrow> ty \<Rightarrow> bool \<Rightarrow> (nat list \<times> nat \<times> dflt list \<times> bool) pm" where
  "parse_params rc env ret c_import = pbind (expect ''('') (\<lambda>_.
     if is_class_ty ret
     then pbind (new_obj ''__sret'' (TyPtr ret False)) (\<lambda>v. params_rest rc env c_import [(v, NoDefault)])
     else params_rest rc env c_import [])"

section \<open>Functions\<close>

definition new_func :: "string \<Rightarrow> nat \<Rightarrow> func" where
  "new_func x u = \<lparr>fn_name = x, fn_body = None, fn_prelude = False, fn_throws = False, f_ty = TyVoid, f_uid = u,
     f_extern = False, f_variadic = False, f_public = False, f_link = None, f_hints = 0, f_params = [], f_nparams = 0,
     f_defaults = [], f_locals = []\<rparr>"

definition set_func :: "nat \<Rightarrow> func \<Rightarrow> unit pm" where
  "set_func i f = pmod (\<lambda>s. s\<lparr>ps_funcs := (ps_funcs s)[i := f]\<rparr>)"

definition add_func :: "func \<Rightarrow> nat pm" where
  "add_func f = (\<lambda>s. Inr (length (ps_funcs s), s\<lparr>ps_funcs := ps_funcs s @ [f]\<rparr>))"

definition from_prelude :: "token \<Rightarrow> bool" where
  "from_prelude t \<longleftrightarrow> tfile t = ''<prelude>''"

text \<open>The header of a declaration: linkage, hints and visibility.\<close>

definition func_header :: "func \<Rightarrow> ty \<Rightarrow> bool \<Rightarrow> bool \<Rightarrow> token option \<Rightarrow> string option \<Rightarrow> func pm" where
  "func_header f ret ext pub inl link = pbind cur_tok (\<lambda>t.
     if is_class_ty ret \<and> ext
     then perr t (''extern function '' @ fn_name f @ '' cannot return a class value; return a pointer'')
     else
       pbind (case link of
                None \<Rightarrow> pret ()
              | Some l \<Rightarrow>
                  (case inl of
                     Some it \<Rightarrow> if hints it AND HINT_INLINE \<noteq> 0
                       then perr it ''cannot @inline an _extern assembler symbol; put the asm block in an @inline HolyC function''
                       else pret ()
                   | None \<Rightarrow> pret ())) (\<lambda>_.
       pbind (if link \<noteq> None \<and> f_link f \<noteq> None \<and> f_link f \<noteq> link
              then perr t (''conflicting assembler name for function '' @ fn_name f) else pret ()) (\<lambda>_.
       pbind (case inl of
                None \<Rightarrow> pret (f_hints f)
              | Some it \<Rightarrow> if f_hints f \<noteq> 0 \<and> f_hints f \<noteq> hints it
                  then perr it (''conflicting inline hint for function '' @ fn_name f) else pret (hints it)) (\<lambda>hs.
         pret (f\<lparr>f_ty := TyFunc ret [] False False, f_extern := ext, f_link := (if link = None then f_link f else link),
                 f_hints := hs, fn_prelude := (fn_prelude f \<or> ext \<and> from_prelude t), f_public := (f_public f \<or> pub),
                 f_variadic := False\<rparr>)))))"

text \<open>A function definition or declaration. A declaration of a known function gives it new
  parameters.\<close>

definition fill_params :: "func \<Rightarrow> ty \<Rightarrow> nat list \<Rightarrow> nat \<Rightarrow> dflt list \<Rightarrow> bool \<Rightarrow> func pm" where
  "fill_params f ret vs n ds dots = pget (\<lambda>s.
     f\<lparr>f_params := vs, f_nparams := n, f_defaults := ds, f_variadic := dots,
       f_ty := TyFunc ret (map (\<lambda>v. o_ty (obj_at s v)) (take n vs)) dots (dots \<and> (\<not> f_extern f \<or> fn_prelude f))\<rparr>)"

fun push_params :: "nat list \<Rightarrow> unit pm" where
  "push_params [] = pret ()"
| "push_params (v # vs) = pbind (pget (\<lambda>s. o_name (obj_at s v))) (\<lambda>x. pbind (scope_push x v) (\<lambda>_. push_params vs))"

definition func_rest :: "calls \<Rightarrow> nat \<Rightarrow> unit pm" where
  "func_rest rc i = pbind (eat '';'') (\<lambda>b.
     if b then pret ()
     else pbind (pget (\<lambda>s. ps_funcs s ! i)) (\<lambda>f. pbind cur_tok (\<lambda>t.
          if fn_body f \<noteq> None then perr t (''redefinition of function '' @ fn_name f)
          else pbind (push_params (f_params f)) (\<lambda>_. pbind (block_stmt rc) (\<lambda>body. pbind check_labels (\<lambda>_.
               pmod (\<lambda>s. s\<lparr>ps_funcs := (ps_funcs s)[i := (ps_funcs s ! i)\<lparr>fn_body := Some body, f_locals := ps_locals s\<rparr>]\<rparr>)))))))"

text \<open>A function has a scope, local variables and labels of its own.\<close>

definition with_function :: "ty \<Rightarrow> unit pm \<Rightarrow> unit pm" where
  "with_function ret m = pbind enter_scope (\<lambda>_.
     pbind (pget (\<lambda>s. (ps_locals s, ps_cur s, ps_labels s))) (\<lambda>(locals, cur, labels).
     pbind (pmod (\<lambda>s. s\<lparr>ps_locals := [], ps_labels := [], ps_cur := InFn ret\<rparr>)) (\<lambda>_.
     pbind m (\<lambda>_. pbind leave_scope (\<lambda>_.
       pmod (\<lambda>s. s\<lparr>ps_locals := locals, ps_labels := labels, ps_cur := cur\<rparr>))))))"

text \<open>From the parameters on; \<open>known\<close> is the earlier declaration, \<open>f0\<close> its record.\<close>

definition func_inner :: "calls \<Rightarrow> penv \<Rightarrow> nat option \<Rightarrow> func \<Rightarrow> func \<Rightarrow> ty \<Rightarrow> bool \<Rightarrow> unit pm" where
  "func_inner rc env known f0 f1 ret c_import = pbind (parse_params rc env ret c_import) (\<lambda>(vs, n, ds, dots).
     pbind (fill_params f1 ret vs n ds dots) (\<lambda>f2. pbind cur_tok (\<lambda>t.
     if known \<noteq> None \<and> \<not> same_type (f_ty f0) (f_ty f2)
     then perr t (''conflicting declaration of function '' @ fn_name f1)
     else pbind (case known of None \<Rightarrow> add_func f2 | Some i \<Rightarrow> pbind (set_func i f2) (\<lambda>_. pret i)) (\<lambda>i. func_rest rc i))))"

definition parse_func :: "calls \<Rightarrow> penv \<Rightarrow> ty \<Rightarrow> string \<Rightarrow> bool \<Rightarrow> bool \<Rightarrow> token option \<Rightarrow> string option \<Rightarrow> unit pm" where
  "parse_func rc env ret x ext pub inl link = pbind (pget (\<lambda>s. (find_func s x, ps_funcs s))) (\<lambda>(known, fs).
     pbind (case known of None \<Rightarrow> pbind new_obj_uid (\<lambda>u. pret (new_func x u)) | Some i \<Rightarrow> pret (fs ! i)) (\<lambda>f0.
     pbind (func_header f0 ret ext pub inl link) (\<lambda>f1.
     pbind (case known of None \<Rightarrow> pret () | Some i \<Rightarrow> set_func i f1) (\<lambda>_.
       with_function ret (func_inner rc env known f0 f1 ret (ext \<and> \<not> fn_prelude f1))))))"

section \<open>Classes\<close>

text \<open>The layout so far: the next offset, the alignments, how far the class reaches below its
  start, where a union's members start, and whether some alignment was asked for.\<close>

record layout =
  la_off :: int
  la_align :: int
  la_hint :: int
  la_neg :: int
  la_base :: int
  la_aligned :: bool
  la_members :: "member list"

text \<open>Placing a member of size \<open>sz\<close> and natural alignment \<open>nat_al\<close>; \<open>policy\<close> is the alignment asked for,
  -1 for the natural one and 0 for none.\<close>

definition place_member :: "bool \<Rightarrow> int \<Rightarrow> int \<Rightarrow> int \<Rightarrow> string \<Rightarrow> ty \<Rightarrow> layout \<Rightarrow> layout res" where
  "place_member uni policy sz nat_al x y l =
     (let natural = (if nat_al \<noteq> 0 then nat_al else 1); a = (if policy < 0 then natural else policy);
          start = (if uni then la_base l else la_off l)
      in rbind (if policy \<noteq> 0 then align_up start a else Inr start) (\<lambda>pos.
         rbind (c_int (pos + sz)) (\<lambda>stop.
           Inr (l\<lparr>la_off := (if uni then max stop (la_off l) else stop),
                  la_align := max natural (la_align l),
                  la_hint := (if policy \<noteq> 0 then max a (la_hint l) else la_hint l),
                  la_members := la_members l @ [\<lparr>m_name = x, m_ty = y, m_offset = pos\<rparr>]\<rparr>))))"

text \<open>\<open>$$ = v;\<close> moves the offset of the next member.\<close>

definition move_offset :: "bool \<Rightarrow> int \<Rightarrow> layout \<Rightarrow> layout res" where
  "move_offset uni v l = rbind (c_int (- v)) (\<lambda>m.
     Inr (let l1 = l\<lparr>la_neg := max m (la_neg l)\<rparr> in if uni then l1\<lparr>la_base := v\<rparr> else l1\<lparr>la_off := v\<rparr>))"

definition finish_layout :: "layout \<Rightarrow> (int \<times> int) res" where
  "finish_layout l = rbind (c_int (la_off l + la_neg l)) (\<lambda>n.
     if la_aligned l then rbind (align_up n (la_hint l)) (\<lambda>m. Inr (m, la_hint l)) else Inr (n, la_align l))"

definition set_dol :: "bool \<Rightarrow> layout \<Rightarrow> unit pm" where
  "set_dol uni l = pmod (\<lambda>s. s\<lparr>ps_dol := (if uni then la_base l else la_off l)\<rparr>)"

definition member_declarator :: "calls \<Rightarrow> penv \<Rightarrow> bool \<Rightarrow> int \<Rightarrow> ty \<Rightarrow> hint_set \<Rightarrow> bool \<Rightarrow> layout \<Rightarrow> layout pm" where
  "member_declarator rc env uni align_all base h first l =
     pbind (if first then pret base else eat_stars base) (\<lambda>y0. pbind (hinted_nonnull_type y0 (h_nonnull h)) (\<lambda>y1.
     pbind (is_punct ''('') (\<lambda>fp.
     pbind (if fp then c_fptr rc y1 True ''function pointer member name''
            else pbind (take_name ''member name'' True) (\<lambda>x. pret (y1, Some x))) (\<lambda>(y2, x).
     pbind (array_bounds rc env y2) (\<lambda>y. pbind cur_tok (\<lambda>t. pbind (pget (\<lambda>s. (ps_classes s, ps_align_hints s))) (\<lambda>(cs, ah).
     if is_class_ty y \<and> ty_size cs y = 0 then perr t ''member of incomplete class type''
     else
       pbind (hinted_type y (h_bits h)) (\<lambda>yh.
       pbind (plift (place_member uni (case h_align h of Some ht \<Rightarrow> if ah then hint_align ht else align_all | None \<Rightarrow> align_all)
                (ty_size cs y) (ty_align cs y) (case x of None \<Rightarrow> [] | Some w \<Rightarrow> w) yh l)) (\<lambda>l1.
       pbind (set_dol uni l1) (\<lambda>_. pret l1))))))))))"

definition member_group :: "calls \<Rightarrow> penv \<Rightarrow> bool \<Rightarrow> int \<Rightarrow> layout \<Rightarrow> layout pm" where
  "member_group rc env uni align_all l = pbind type_start (\<lambda>ts. pbind cur_tok (\<lambda>t.
     if \<not> ts then perr t ''expected member type''
     else pbind (collect_hints t no_hint_set) (\<lambda>h. pbind (reject_func_hint (h_func h)) (\<lambda>_.
          pbind (pget ps_align_hints) (\<lambda>ah. pbind parse_typespec (\<lambda>base.
          pbind (pwhile (\<lambda>(l1, first). pbind (member_declarator rc env uni align_all base h first l1) (\<lambda>l2.
             pbind (eat '','') (\<lambda>c. pret (if c then Inl (l2, False) else Inr l2))))
             (l\<lparr>la_aligned := (la_aligned l \<or> ah \<and> h_align h \<noteq> None)\<rparr>, True)) (\<lambda>l3.
          pbind (expect '';'') (\<lambda>_. pret l3))))))))"

definition class_step :: "calls \<Rightarrow> penv \<Rightarrow> bool \<Rightarrow> int \<Rightarrow> layout \<Rightarrow> (layout + layout) pm" where
  "class_step rc env uni align_all l = pbind (is_punct ''}'') (\<lambda>e.
     if e then pret (Inr l)
     else pbind (set_dol uni l) (\<lambda>_. pbind (eat '';'') (\<lambda>semi.
          if semi then pret (Inl l)
          else pbind (is_punct ''$$'') (\<lambda>d.
               if d
               then pbind advance (\<lambda>_. pbind (expect ''='') (\<lambda>_. pbind (const_expr rc env) (\<lambda>v. pbind (expect '';'') (\<lambda>_.
                    pbind (plift (move_offset uni (int_of_i64 v) l)) (\<lambda>l1. pret (Inl l1))))))
               else pbind (member_group rc env uni align_all l) (\<lambda>l1. pret (Inl l1))))))"

definition upd_class :: "nat \<Rightarrow> (class_info \<Rightarrow> class_info) \<Rightarrow> unit pm" where
  "upd_class c g = pmod (\<lambda>s. s\<lparr>ps_classes := (ps_classes s)[c := g (ps_classes s ! c)]\<rparr>)"

definition declare_class :: "string \<Rightarrow> bool \<Rightarrow> nat pm" where
  "declare_class x uni = (\<lambda>s.
     case find_class (ps_classes s) x of
       Some c \<Rightarrow> Inr (c, s)
     | None \<Rightarrow> Inr (length (ps_classes s), s\<lparr>ps_classes := ps_classes s @
         [\<lparr>ci_name = x, ci_union = uni, ci_parent = None, ci_members = [], ci_size = 0, ci_align = 1\<rparr>]\<rparr>))"

definition class_parent :: "nat \<Rightarrow> unit pm" where
  "class_parent c = pbind (eat '':'') (\<lambda>b.
     if \<not> b then pret ()
     else pbind cur_tok (\<lambda>t. pbind (reject_reserved_name t ''parent class name'' False) (\<lambda>_.
          if kind t \<noteq> TK_ID then perr t ''expected parent class name''
          else pbind (pget (\<lambda>s. find_class (ps_classes s) (str t))) (\<lambda>p.
               case p of
                 None \<Rightarrow> perr t (''unknown parent class '' @ sq (str t))
               | Some q \<Rightarrow> pbind (upd_class c (\<lambda>ci. ci\<lparr>ci_parent := Some q\<rparr>)) (\<lambda>_. advance)))))"

text \<open>The size and alignment a class starts from are its parent's.\<close>

definition start_layout :: "class_info list \<Rightarrow> nat \<Rightarrow> bool \<Rightarrow> layout" where
  "start_layout cs c aligned =
     (let (sz, al) = (case ci_parent (cs ! c) of None \<Rightarrow> (0, 1) | Some p \<Rightarrow> (ci_size (cs ! p), ci_align (cs ! p)))
      in \<lparr>la_off = sz, la_align = al, la_hint = al, la_neg = 0, la_base = 0, la_aligned = aligned, la_members = []\<rparr>)"

definition parse_class :: "calls \<Rightarrow> penv \<Rightarrow> bool \<Rightarrow> int \<Rightarrow> unit pm" where
  "parse_class rc env uni align_all = pbind advance (\<lambda>_. pbind (take_name ''class name'' False) (\<lambda>x.
     pbind (declare_class x uni) (\<lambda>c. pbind (eat '';'') (\<lambda>fwd.
     if fwd then pret ()
     else
       pbind (class_parent c) (\<lambda>_. pbind (expect ''{'') (\<lambda>_.
       pbind (pget (\<lambda>s. (start_layout (ps_classes s) c (align_all \<noteq> 0), ps_in_class s))) (\<lambda>(l0, save).
       pbind (pmod (\<lambda>s. s\<lparr>ps_in_class := True\<rparr>)) (\<lambda>_.
       pbind (pwhile (class_step rc env uni align_all) l0) (\<lambda>l.
       pbind (expect ''}'') (\<lambda>_. pbind (eat '';'') (\<lambda>_.
       pbind (pmod (\<lambda>s. s\<lparr>ps_in_class := save\<rparr>)) (\<lambda>_.
       pbind (plift (finish_layout l)) (\<lambda>(sz, al).
         upd_class c (\<lambda>ci. ci\<lparr>ci_members := la_members l, ci_size := sz, ci_align := al\<rparr>))))))))))))))"

section \<open>Global variables\<close>

definition declare_global :: "string \<Rightarrow> ty \<Rightarrow> token option \<Rightarrow> bool \<Rightarrow> bool \<Rightarrow> bool \<Rightarrow> nat pm" where
  "declare_global x y bits ext pub prel = pbind (hinted_type y bits) (\<lambda>y1. pbind (new_global x y1) (\<lambda>v.
     pbind (upd_obj v (\<lambda>q. q\<lparr>o_extern := ext, o_public := pub, o_prelude := prel\<rparr>)) (\<lambda>_. pret v)))"

definition c_varargs_ty :: "ty \<Rightarrow> ty" where
  "c_varargs_ty y = (case y of TyPtr (TyFunc r ps True h) nn \<Rightarrow> TyPtr (TyFunc r ps True False) nn | _ \<Rightarrow> y)"

definition global_declarator ::
  "calls \<Rightarrow> penv \<Rightarrow> ty \<Rightarrow> bool \<Rightarrow> bool \<Rightarrow> token option \<Rightarrow> token option \<Rightarrow> token \<Rightarrow> node list pm"
where
  "global_declarator rc env base ext pub bits nonn t =
     pbind (eat_stars base) (\<lambda>y0. pbind (hinted_nonnull_type y0 nonn) (\<lambda>y1. pbind (is_punct ''('') (\<lambda>fp.
     if fp
     then pbind (c_fptr rc y1 True ''function pointer name'') (\<lambda>(y, x).
          pbind (declare_global (case x of None \<Rightarrow> [] | Some w \<Rightarrow> w) (if ext then c_varargs_ty y else y) bits ext pub False) (\<lambda>v.
          opt_init (pbind (c_expr rc) (\<lambda>rhs. pbind (new_var_node v t) (\<lambda>vn. pbind (new_assign vn rhs t) (\<lambda>a.
            pret [new_expr_stmt a t]))))))
     else pbind cur_tok (\<lambda>nt. pbind (take_name ''variable name'' True) (\<lambda>x. pbind (array_bounds rc env y1) (\<lambda>y.
          pbind (declare_global x y bits ext pub (ext \<and> from_prelude nt)) (\<lambda>v. opt_init (var_init rc v y nt))))))))"

definition global_decl :: "calls \<Rightarrow> penv \<Rightarrow> ty \<Rightarrow> bool \<Rightarrow> bool \<Rightarrow> token option \<Rightarrow> token option \<Rightarrow> node list pm" where
  "global_decl rc env base ext pub bits nonn = pbind cur_tok (\<lambda>t.
     declarators (\<lambda>_. global_declarator rc env base ext pub bits nonn t))"

end
