(* ===== verification/Parse.thy ===== *)
theory Parse
  imports ParseDecl
begin

text \<open>
  The top level of \<open>src/src/parse.c\<close>, and the knot of its mutually recursive functions: with fuel
  \<open>n\<close>, a parsing function calls the others with fuel \<open>n - 1\<close>. \<open>parse\<close> supplies as much as a token
  chain can use, which \<open>ParseTotal\<close> proves.
\<close>

section \<open>The knot\<close>

definition out_of_fuel :: calls where
  "out_of_fuel = \<lparr>c_expr = pfail Fuel, c_unary = pfail Fuel, c_stmt = pfail Fuel, c_fptr = (\<lambda>_ _ _. pfail Fuel)\<rparr>"

primrec calls_at :: "penv \<Rightarrow> nat \<Rightarrow> calls" where
  "calls_at env 0 = out_of_fuel"
| "calls_at env (Suc n) =
     (let rc = calls_at env n
      in \<lparr>c_expr = assign_body rc, c_unary = unary_body rc, c_stmt = stmt_body rc env,
          c_fptr = parse_funcptr_declarator rc env\<rparr>)"

section \<open>Top-level items\<close>

text \<open>The words before a declaration; \<open>public\<close> exports it.\<close>

definition attr_words :: "string list" where
  "attr_words = [''public'', ''interrupt'', ''haserrcode'', ''argpop'', ''noargpop'']"

definition item_attrs :: "hint_set \<Rightarrow> (hint_set \<times> bool) pm" where
  "item_attrs h0 = pwhile (\<lambda>(h, pub). pbind cur_tok (\<lambda>t.
     if list_ex (tok_kw t) attr_words
     then pbind advance (\<lambda>_. pbind cur_tok (\<lambda>u. pbind (collect_hints u h) (\<lambda>h1.
          pret (Inl (h1, pub \<or> tok_kw t ''public'')))))
     else pret (Inr (h, pub)))) (h0, False)"

definition item_extern :: "hint_set \<Rightarrow> (hint_set \<times> bool \<times> string option) pm" where
  "item_extern h = pbind cur_tok (\<lambda>t.
     if list_ex (tok_kw t) [''extern'', ''import'', ''_extern'', ''_import'']
     then pbind advance (\<lambda>_. pbind cur_tok (\<lambda>u. pbind (collect_hints u h) (\<lambda>h1. pbind peek_tok (\<lambda>nx.
          pbind (if (tok_kw t ''_extern'' \<or> tok_kw t ''_import'') \<and> kind u = TK_ID \<and> nx \<noteq> None
                 then pbind (pget (\<lambda>s. tl (ps_tk s))) is_type_start else pret False) (\<lambda>alias.
          if alias
          then pbind advance (\<lambda>_. pbind cur_tok (\<lambda>w. pbind (collect_hints w h1) (\<lambda>h2. pret (h2, True, Some (str u)))))
          else pret (h1, True, None))))))
     else pret (h, False, None))"

definition reject_bits :: "token option \<Rightarrow> unit pm" where
  "reject_bits b = (case b of None \<Rightarrow> pret () | Some t \<Rightarrow> perr t ''@bits applies only to integer object declarations'')"

definition item_class :: "calls \<Rightarrow> penv \<Rightarrow> bool \<Rightarrow> hint_set \<Rightarrow> unit pm" where
  "item_class rc env uni h = pbind (reject_bits (h_bits h)) (\<lambda>_. pbind (reject_func_hint (h_func h)) (\<lambda>_.
     case h_nonnull h of
       Some t \<Rightarrow> perr t ''@nonnull requires a pointer declaration''
     | None \<Rightarrow> pbind (pget ps_align_hints) (\<lambda>ah.
         parse_class rc env uni (case h_align h of Some t \<Rightarrow> if ah then hint_align t else 0 | None \<Rightarrow> 0))))"

text \<open>Code outside functions belongs to the start-up function.\<close>

definition in_startup :: "'a pm \<Rightarrow> 'a pm" where
  "in_startup m = pbind (pget (\<lambda>s. (ps_cur s, ps_locals s))) (\<lambda>(cur, locals).
     pbind (pmod (\<lambda>s. s\<lparr>ps_cur := StartFn, ps_locals := ps_su_locals s\<rparr>)) (\<lambda>_.
     pbind m (\<lambda>x. pbind (pmod (\<lambda>s. s\<lparr>ps_su_locals := ps_locals s, ps_locals := locals, ps_cur := cur\<rparr>)) (\<lambda>_. pret x))))"

definition item_function :: "calls \<Rightarrow> penv \<Rightarrow> ty \<Rightarrow> hint_set \<Rightarrow> bool \<Rightarrow> bool \<Rightarrow> string option \<Rightarrow> unit pm" where
  "item_function rc env ret h ext pub link = pbind cur_tok (\<lambda>t.
     pbind (reject_reserved_name t ''function name'' True) (\<lambda>_. pbind (reject_bits (h_bits h)) (\<lambda>_.
     case h_align h of
       Some at \<Rightarrow> perr at ''@align does not apply to functions''
     | None \<Rightarrow> pbind advance (\<lambda>_. parse_func rc env ret (str t) ext pub (h_func h) link))))"

definition item_globals :: "calls \<Rightarrow> penv \<Rightarrow> ty \<Rightarrow> token \<Rightarrow> token list \<Rightarrow> hint_set \<Rightarrow> bool \<Rightarrow> bool \<Rightarrow> string option \<Rightarrow> node list pm" where
  "item_globals rc env base t rest h ext pub link =
     (if link \<noteq> None then perr t ''assembler aliases apply only to functions''
      else pbind (reject_func_hint (h_func h)) (\<lambda>_.
        case h_align h of
          Some at \<Rightarrow> perr at ''@align applies only to classes, fields, and local variables''
        | None \<Rightarrow> pbind (pmod (\<lambda>s. s\<lparr>ps_tk := rest\<rparr>)) (\<lambda>_.
            in_startup (global_decl rc env base ext pub (h_bits h) (h_nonnull h)))))"

text \<open>A declaration that starts with a type. When it is no function, the declarators are parsed
  again from the token after the type.\<close>

definition item_head :: "hint_set \<Rightarrow> (ty \<times> ty) pm" where
  "item_head h = pbind base_type (\<lambda>base. pbind (eat_stars base) (\<lambda>ret0.
     pbind (hinted_nonnull_type ret0 (h_nonnull h)) (\<lambda>ret. pret (base, ret))))"

definition item_declares :: "calls \<Rightarrow> penv \<Rightarrow> ty \<Rightarrow> ty \<Rightarrow> token \<Rightarrow> token list \<Rightarrow> hint_set \<Rightarrow> bool \<Rightarrow> bool \<Rightarrow> string option \<Rightarrow> node list pm" where
  "item_declares rc env base ret t0 rest h ext pub link = pbind cur_tok (\<lambda>t. pbind peek_tok (\<lambda>nx.
     let paren = (case nx of None \<Rightarrow> False | Some u \<Rightarrow> tok_punct u ''('')
     in pbind (if (kind t = TK_KEYWORD \<or> kind t = TK_TYPE) \<and> paren
               then reject_reserved_name t ''function name'' True else pret ()) (\<lambda>_.
        if kind t = TK_ID \<and> paren
        then pbind (item_function rc env ret h ext pub link) (\<lambda>_. pret [])
        else item_globals rc env base t0 rest h ext pub link)))"

definition item_typed :: "calls \<Rightarrow> penv \<Rightarrow> hint_set \<Rightarrow> bool \<Rightarrow> bool \<Rightarrow> string option \<Rightarrow> node list pm" where
  "item_typed rc env h ext pub link = pbind cur_tok (\<lambda>t0. pbind (pget (\<lambda>s. tl (ps_tk s))) (\<lambda>rest.
     pbind (item_head h) (\<lambda>(base, ret). item_declares rc env base ret t0 rest h ext pub link)))"

definition item_asm :: "penv \<Rightarrow> unit pm" where
  "item_asm env = pbind cur_tok (\<lambda>t. pbind (require_asm_enabled t) (\<lambda>_. pbind (reject_asm_hints t) (\<lambda>_.
     pbind (run_asm env False) (\<lambda>a.
     case ab_operands a of
       q # _ \<Rightarrow> perr (ao_tok q) (''asm local reference '' @ sq (''&'' @ ao_name q @ ''[RBP]'') @ '' is only valid inside a function'')
     | [] \<Rightarrow> pbind (pmod (\<lambda>s. s\<lparr>ps_asms := ps_asms s @ [a]\<rparr>)) (\<lambda>_. note_asm (ab_tok a))))))"

definition item_stmt :: "calls \<Rightarrow> hint_set \<Rightarrow> bool \<Rightarrow> node list pm" where
  "item_stmt rc h ext = pbind cur_tok (\<lambda>t.
     if ext then perr t ''expected declaration after extern''
     else pbind (reject_bits (h_bits h)) (\<lambda>_. pbind (reject_func_hint (h_func h)) (\<lambda>_.
          case h_align h of
            Some at \<Rightarrow> perr at ''@align applies only to classes, fields, and local variables''
          | None \<Rightarrow> pbind (in_startup (c_stmt rc)) (\<lambda>n. pret [n]))))"

text \<open>One item; its value is the statements it adds to the start-up code.\<close>

definition parse_item :: "calls \<Rightarrow> penv \<Rightarrow> node list pm" where
  "parse_item rc env = pbind cur_tok (\<lambda>t0. pbind (collect_hints t0 no_hint_set) (\<lambda>h0. pbind (item_attrs h0) (\<lambda>(h1, pub).
     pbind (item_extern h1) (\<lambda>(h, ext, link). pbind cur_tok (\<lambda>t. pbind type_start (\<lambda>ts.
     if tok_kw t ''class'' then pbind (item_class rc env False h) (\<lambda>_. pret [])
     else if tok_kw t ''union'' then pbind (item_class rc env True h) (\<lambda>_. pret [])
     else if ts then item_typed rc env h ext pub link
     else if tok_kw t ''asm'' then pbind (item_asm env) (\<lambda>_. pret [])
     else item_stmt rc h ext))))))"

definition parse_items :: "calls \<Rightarrow> penv \<Rightarrow> node list pm" where
  "parse_items rc env = pwhile (\<lambda>ns. pbind cur_tok (\<lambda>t.
     if kind t = TK_EOF then pret (Inr ns)
     else pbind (parse_item rc env) (\<lambda>ms. pret (Inl (ns @ ms))))) []"

section \<open>The program\<close>

text \<open>The start-up function has the hidden parameters of a variadic one.\<close>

definition parser_init :: "token list \<Rightarrow> bool \<Rightarrow> bool \<Rightarrow> bool \<Rightarrow> parser" where
  "parser_init ts align_hints use_asm strict =
     \<lparr>ps_tk = ts, ps_scope = [[]],
      ps_vars = [2 \<mapsto> (obj0 ''argc'' ty_i64)\<lparr>o_param := True\<rparr>, 3 \<mapsto> (obj0 ''argv'' (TyPtr ty_i64 False))\<lparr>o_param := True\<rparr>],
      ps_funcs = [], ps_globals = [], ps_su_params = [2, 3], ps_su_locals = [], ps_strings = [], ps_cur = NoFn,
      ps_locals = [], ps_break = None, ps_classes = [], ps_labels = [], ps_asms = [], ps_asm_tok = None, ps_uid = 4,
      ps_label = 1, ps_asm = 0, ps_dol = 0, ps_in_class = False, ps_align_hints = align_hints, ps_use_asm = use_asm,
      ps_strict = strict, ps_warns = []\<rparr>"

definition parse_fuel :: "token list \<Rightarrow> nat" where
  "parse_fuel ts = 2 * length ts + 4"

definition parse :: "penv \<Rightarrow> bool \<Rightarrow> bool \<Rightarrow> bool \<Rightarrow> token list \<Rightarrow> (node \<times> parser) res" where
  "parse env align_hints use_asm strict ts =
     (case ts of
        [] \<Rightarrow> Inl NullDeref
      | t # _ \<Rightarrow>
          pbind (parse_items (calls_at env (parse_fuel ts)) env) (\<lambda>ns. pbind check_labels (\<lambda>_. pret (nd_block ns t)))
            (parser_init ts align_hints use_asm strict))"

end
