(* ===== verification/ParseKeep.thy ===== *)
theory ParseKeep
  imports Parse
begin

text \<open>
  The parsing functions that leave the tokens alone. The judgement \<open>K P m\<close> says of such a function
  that it reports one of the expected errors or returns a result with \<open>P\<close>, with the tokens, the
  current function and the names of the objects unchanged and at most new bindings in the innermost
  scope; one rule per construct derives it.
\<close>

named_theorems kr \<open>rules for functions that leave the tokens alone\<close>

section \<open>Nodes the constant evaluator can walk\<close>

function wfc :: "node \<Rightarrow> bool" where
  "wfc n \<longleftrightarrow>
     (nkind n \<in> set unary_kinds \<longrightarrow> nlhs n \<noteq> None)
     \<and> (nkind n \<in> set binary_kinds \<or> nkind n = ND_DIV \<or> nkind n = ND_MOD \<longrightarrow> nlhs n \<noteq> None \<and> nrhs n \<noteq> None)
     \<and> (case nlhs n of None \<Rightarrow> True | Some l \<Rightarrow> wfc l) \<and> (case nrhs n of None \<Rightarrow> True | Some r \<Rightarrow> wfc r)"
  by pat_completeness auto
termination
  by (relation "measure size") (auto intro!: children_smaller simp: children_def opt_list_def)

declare wfc.simps [simp del]

text \<open>The errors a parse may end with: a diagnostic, an \<open>int\<close> that overflows, a division that traps,
  and the search for a member in a class that is its own ancestor.\<close>

definition good_err :: "err \<Rightarrow> bool" where
  "good_err e \<longleftrightarrow> (\<exists>f l m. e = ErrTok f l m) \<or> e = Undefined \<or> e = DivTrap \<or> e = Diverge"

lemma good_err_simps [simp]:
  "good_err (ErrTok f l m)" "good_err (err_tok t m)" "good_err Undefined" "good_err DivTrap" "good_err Diverge"
  "\<not> good_err Fuel" "\<not> good_err NullDeref"
  by (simp_all add: good_err_def err_tok_def)

lemma good_bind: "(\<And>e. m = Inl e \<Longrightarrow> good_err e) \<Longrightarrow> (\<And>x e. m = Inr x \<Longrightarrow> f x = Inl e \<Longrightarrow> good_err e) \<Longrightarrow> rbind m f = Inl e \<Longrightarrow> good_err e"
  by (auto simp: rbind_eq_Inl)

lemma c_int_good: "c_int n = Inl e \<Longrightarrow> good_err e"
  by (auto simp: c_int_def split: if_splits)

lemma c_div_good: "c_div a b = Inl e \<Longrightarrow> good_err e" "c_mod a b = Inl e \<Longrightarrow> good_err e"
  by (auto simp: c_div_def c_mod_def split: if_splits)

lemma array_of_good: "array_of cs b n = Inl e \<Longrightarrow> good_err e"
  by (auto simp: array_of_def rbind_eq_Inl dest: c_int_good)

lemma align_up_good: "align_up n a = Inl e \<Longrightarrow> good_err e"
  by (auto simp: align_up_def rbind_eq_Inl dest: c_int_good)

lemma find_member_good: "find_member cs c x = Inl e \<Longrightarrow> good_err e"
  by (auto simp: find_member_def split: sum.splits)

lemma layout_good:
  "place_member u p sz al x y l = Inl e \<Longrightarrow> good_err e" "move_offset u v l = Inl e \<Longrightarrow> good_err e"
  "finish_layout l = Inl e \<Longrightarrow> good_err e"
  by (auto simp: place_member_def move_offset_def finish_layout_def rbind_eq_Inl Let_def split: if_splits
      dest: c_int_good align_up_good)

lemma eval_const_good: "wfc n \<Longrightarrow> eval_const f n = Inl e \<Longrightarrow> good_err e"
proof (induction n arbitrary: e rule: measure_induct_rule [of size])
  case (less n)
  have sub: "good_err e'" if "nlhs n = Some m \<or> nrhs n = Some m" "eval_const f m = Inl e'" for m e'
  proof (rule less.IH [OF _ _ that(2)])
    show "size m < size n" using that(1) by (auto intro!: children_smaller simp: children_def opt_list_def)
    show "wfc m" using that(1) less.prems(1) wfc.simps [of n] by auto
  qed
  note ev = less.prems(2) [unfolded eval_const.simps [of f n]]
  note w = less.prems(1) [unfolded wfc.simps [of n]]
  show ?case
    using ev w sub
    by (auto simp: rbind_eq_Inl from_opt_def not_constant_def div_zero_def split: if_splits option.splits
        dest: c_div_good)
qed

section \<open>Functions that leave the tokens alone\<close>

definition scope_ok :: "nat \<Rightarrow> (string \<times> nat) list list \<Rightarrow> (string \<times> nat) list list \<Rightarrow> bool" where
  "scope_ok d a b \<longleftrightarrow> b \<noteq> [] \<and> tl b = tl (drop d a) \<and> suffix (hd (drop d a)) (hd b)"

text \<open>What every parsing function keeps: the current function, the functions there are, and the names of the
  objects there are.\<close>

definition keep :: "parser \<Rightarrow> parser \<Rightarrow> bool" where
  "keep s s' \<longleftrightarrow> ps_cur s' = ps_cur s \<and> ps_uid s \<le> ps_uid s' \<and> length (ps_funcs s) \<le> length (ps_funcs s')
     \<and> (\<forall>v < ps_uid s. o_name (obj_at s' v) = o_name (obj_at s v))"

definition K :: "('a \<Rightarrow> bool) \<Rightarrow> 'a pm \<Rightarrow> bool" where
  "K P m \<longleftrightarrow> (\<forall>s. ps_tk s \<noteq> [] \<and> ps_scope s \<noteq> [] \<longrightarrow>
     (case m s of Inl e \<Rightarrow> good_err e
      | Inr (x, s') \<Rightarrow> ps_tk s' = ps_tk s \<and> keep s s' \<and> scope_ok 0 (ps_scope s) (ps_scope s') \<and> P x))"

lemma keep_refl [simp]: "keep s s"
  by (simp add: keep_def)

lemma keep_trans: "keep a b \<Longrightarrow> keep b c \<Longrightarrow> keep a c"
  by (auto simp: keep_def)

lemma scope_ok_refl [simp]: "a \<noteq> [] \<Longrightarrow> scope_ok 0 a a"
  by (simp add: scope_ok_def)

lemma scope_ok_trans: "scope_ok 0 a b \<Longrightarrow> scope_ok d b c \<Longrightarrow> d < length a \<Longrightarrow> scope_ok d a c"
proof -
  assume a: "scope_ok 0 a b" "scope_ok d b c" "d < length a"
  show "scope_ok d a c"
  proof (cases d)
    case (Suc n)
    with a show ?thesis by (cases a; cases b) (auto simp: scope_ok_def)
  qed (use a in \<open>auto simp: scope_ok_def intro: suffix_order.trans\<close>)
qed

lemma scope_ok_length: "scope_ok 0 a b \<Longrightarrow> a \<noteq> [] \<Longrightarrow> length b = length a"
  by (cases a; cases b) (auto simp: scope_ok_def)

lemma K_bind: "K P m \<Longrightarrow> (\<And>x. P x \<Longrightarrow> K R (f x)) \<Longrightarrow> K R (pbind m f)"
  unfolding K_def pbind_def
  by (fastforce simp: scope_ok_def split: sum.splits intro: suffix_order.trans keep_trans)

lemma K_weaken: "K P m \<Longrightarrow> (\<And>x. P x \<Longrightarrow> R x) \<Longrightarrow> K R m"
  unfolding K_def by (fastforce split: sum.splits)

lemma K_pret [kr]: "P x \<Longrightarrow> K P (pret x)"
  by (simp add: K_def pret_def)

lemma K_pget [kr]: "(\<And>s. P (g s)) \<Longrightarrow> K P (pget g)"
  by (simp add: K_def pget_def)

text \<open>What is known of an intermediate result depends on its type.\<close>

lemma K_get_seq: "(\<And>s. K R (f (g s))) \<Longrightarrow> K R (pbind (pget g) f)" "K R (f x) \<Longrightarrow> K R (pbind (pret x) f)"
  by (simp_all add: K_def pbind_def pget_def pret_def)

lemma K_unit_seq: "K (\<lambda>_. True) (u :: unit pm) \<Longrightarrow> K R (h ()) \<Longrightarrow> K R (pbind u h)"
  by (rule K_bind) simp_all

lemma K_node_seq: "K wfc n \<Longrightarrow> (\<And>x. wfc x \<Longrightarrow> K R (k x)) \<Longrightarrow> K R (pbind n k)"
  by (rule K_bind)

lemma K_any_seq: "K (\<lambda>_. True) v \<Longrightarrow> (\<And>x. K R (j x)) \<Longrightarrow> K R (pbind v j)"
  by (rule K_bind)

lemmas K_seq = K_get_seq K_unit_seq K_node_seq K_any_seq

lemma K_perr [kr]: "K P (perr t m)"
  by (simp add: K_def perr_def pfail_def)

lemma K_plift: "(\<And>e. r = Inl e \<Longrightarrow> good_err e) \<Longrightarrow> (\<And>x. r = Inr x \<Longrightarrow> P x) \<Longrightarrow> K P (plift r)"
  by (cases r) (simp_all add: K_def plift_def)

lemma K_if [kr]: "(b \<Longrightarrow> K P x) \<Longrightarrow> (\<not> b \<Longrightarrow> K P y) \<Longrightarrow> K P (if b then x else y)"
  by simp

lemma K_let [kr]: "K P (f x) \<Longrightarrow> K P (let y = x in f y)"
  by simp

lemma K_opt [kr]: "(x = None \<Longrightarrow> K P a) \<Longrightarrow> (\<And>y. x = Some y \<Longrightarrow> K P (g y)) \<Longrightarrow> K P (case x of None \<Rightarrow> a | Some y \<Rightarrow> g y)"
  by (cases x) simp_all

lemma K_pair [kr]: "(\<And>a b. x = (a, b) \<Longrightarrow> K P (g a b)) \<Longrightarrow> K P (case x of (a, b) \<Rightarrow> g a b)"
  by (cases x) simp

lemma K_pwhen [kr]: "K (\<lambda>_. True) m \<Longrightarrow> K (\<lambda>_. True) (pwhen b m)"
  by (simp add: pwhen_def K_pret)

lemma K_pmod [kr]:
  "(\<And>s. ps_tk (g s) = ps_tk s \<and> ps_cur (g s) = ps_cur s \<and> ps_scope (g s) = ps_scope s
     \<and> ps_uid (g s) = ps_uid s \<and> ps_vars (g s) = ps_vars s \<and> length (ps_funcs (g s)) = length (ps_funcs s)) \<Longrightarrow> K (\<lambda>_. True) (pmod g)"
  by (simp add: K_def pmod_def keep_def obj_at_def)

section \<open>Node constructors\<close>

lemma wfc_nd [simp]:
  "wfc (nd0 k t y) \<longleftrightarrow> k \<notin> set unary_kinds \<and> k \<notin> set binary_kinds \<and> k \<noteq> ND_DIV \<and> k \<noteq> ND_MOD"
  "wfc (nd1 k l t y) \<longleftrightarrow> wfc l \<and> k \<notin> set binary_kinds \<and> k \<noteq> ND_DIV \<and> k \<noteq> ND_MOD"
  "wfc (nd2 k l r t y) \<longleftrightarrow> wfc l \<and> wfc r"
  by (auto simp: wfc.simps [of "nd0 k t y"] wfc.simps [of "nd1 k l t y"] wfc.simps [of "nd2 k l r t y"])

lemma wfc_upd [simp]: "wfc (upd_info g n) = wfc n" "wfc (upd_ival h n) = wfc n" "wfc (set_ty y n) = wfc n"
  by (simp_all only: wfc.simps [of "upd_info g n"] wfc.simps [of "upd_ival h n"] wfc.simps [of n] set_ty_def
      wfc.simps [of "upd_info (ni_ty_update (\<lambda>_. y)) n"] upd_simps)

lemma wfc_call [simp]: "wfc (nd_call f l args k t y) \<longleftrightarrow> (case l of None \<Rightarrow> True | Some n \<Rightarrow> wfc n)"
  by (cases l) (simp_all add: nd_call_def wfc.simps [of "Node ND_CALL l' a b c d e h i j m n q r" for l' a b c d e h i j m n q r]
      unary_kinds_def binary_kinds_def)

lemmas kind_lists = unary_kinds_def binary_kinds_def

lemma wfc_conv [simp]:
  "wfc (new_num v t)" "wfc (new_fnum q t)" "wfc n \<Longrightarrow> wfc (rvalize n)" "wfc n \<Longrightarrow> wfc (new_cast n y)"
  "wfc n \<Longrightarrow> wfc (to_f64 n)" "wfc n \<Longrightarrow> wfc (to_int n)" "wfc n \<Longrightarrow> wfc (stored_conv y n)" "wfc n \<Longrightarrow> wfc (param_conv y n)"
  by (auto simp: new_num_def new_fnum_def rvalize_def new_cast_def to_f64_def to_int_def stored_conv_def param_conv_def
      kind_lists split: ty.split)

lemma wfc_ops [simp]:
  "wfc l \<Longrightarrow> wfc r \<Longrightarrow> wfc (new_ptr_arith k l r t)" "wfc l \<Longrightarrow> wfc r \<Longrightarrow> wfc (new_arith k l r t)"
  "wfc l \<Longrightarrow> wfc r \<Longrightarrow> wfc (new_compare k l r t)"
  by (auto simp: new_ptr_arith_def new_arith_def new_compare_def)

lemma K_warn [kr]: "K (\<lambda>_. True) (warn_tok_p t m)"
  unfolding warn_tok_p_def by (intro K_seq kr) simp

lemma K_upd_obj [kr]: "(\<And>q. o_name (g q) = o_name q) \<Longrightarrow> K (\<lambda>_. True) (upd_obj v g)"
  by (simp add: K_def upd_obj_def pmod_def keep_def obj_at_def)

lemma K_new_var_node [kr]: "K wfc (new_var_node v t)"
  unfolding new_var_node_def by (intro K_seq kr) (simp add: kind_lists)

lemma K_require [kr]: "K (\<lambda>_. True) (require_nonnull y a t w)" "K (\<lambda>_. True) (require_fnptr_compat y a t)"
  unfolding require_nonnull_def require_fnptr_compat_def by (intro K_seq kr TrueI)+

lemma K_to_bool [kr]: "wfc n \<Longrightarrow> K wfc (to_bool n)"
  unfolding to_bool_def by (intro K_seq kr) simp

lemma K_new_binary [kr]: "wfc l \<Longrightarrow> wfc r \<Longrightarrow> K wfc (new_binary k l r t)"
  unfolding new_binary_def by (intro K_seq kr) auto

lemma K_new_unary: "wfc l \<Longrightarrow> k \<notin> set binary_kinds \<Longrightarrow> k \<noteq> ND_DIV \<Longrightarrow> k \<noteq> ND_MOD \<Longrightarrow> K wfc (new_unary k l t)"
  unfolding new_unary_def by (intro K_seq kr) auto

lemma K_new_unary' [kr]:
  "wfc l \<Longrightarrow> K wfc (new_unary ND_NEG l t)" "wfc l \<Longrightarrow> K wfc (new_unary ND_NOT l t)"
  "wfc l \<Longrightarrow> K wfc (new_unary ND_BITNOT l t)" "wfc l \<Longrightarrow> K wfc (new_unary ND_ADDR l t)" "wfc l \<Longrightarrow> K wfc (new_unary ND_DEREF l t)"
  by (rule K_new_unary; simp add: kind_lists)+

lemma K_addr_deref [kr]: "wfc l \<Longrightarrow> K wfc (new_addr l y t)" "wfc l \<Longrightarrow> K wfc (new_deref l y t)"
  unfolding new_addr_def new_deref_def by (intro K_seq kr; simp)+

lemma K_new_assign [kr]: "wfc l \<Longrightarrow> wfc r \<Longrightarrow> K wfc (new_assign l r t)"
  unfolding new_assign_def by (intro K_seq kr) simp

lemma K_new_str_node [kr]: "K wfc (new_str_node d t)"
  unfolding new_str_node_def by (intro K_seq kr) (simp_all add: kind_lists)

lemma K_new_obj_uid [kr]: "K (\<lambda>_. True) new_obj_uid"
  by (simp add: K_def new_obj_uid_def keep_def obj_at_def)

lemma new_obj_eq:
  "new_obj x y s = Inr (ps_uid s, s\<lparr>ps_uid := ps_uid s + 1, ps_vars := (ps_vars s)(ps_uid s \<mapsto> obj0 x y)\<rparr>)"
  by (simp add: new_obj_def new_obj_uid_def pbind_def pmod_def pret_def)

lemma K_new_obj [kr]: "K (\<lambda>_. True) (new_obj x y)"
  by (simp add: K_def new_obj_eq keep_def obj_at_def)

lemma K_new_temp [kr]: "K (\<lambda>_. True) (new_temp y)"
  unfolding new_temp_def by (intro K_seq kr) simp_all

lemma K_new_label [kr]: "K (\<lambda>_. True) (new_label h)"
  by (simp add: K_def new_label_def keep_def obj_at_def)

lemma K_scope_push [kr]: "K (\<lambda>_. True) (scope_push x v)"
  by (auto simp: K_def scope_push_def scope_ok_def suffix_def keep_def obj_at_def split: list.split)

lemma K_new_local [kr]: "K (\<lambda>_. True) (new_local x y)" "K (\<lambda>_. True) (new_global x y)"
  unfolding new_local_def new_global_def by (intro K_seq kr; simp)+

lemma K_label_use [kr]: "K (\<lambda>_. True) (label_use x t d)"
  unfolding label_use_def by (intro K_seq kr) (simp add: Let_def)

lemma K_check_labels [kr]: "K (\<lambda>_. True) check_labels"
  by (auto simp: K_def check_labels_def keep_def obj_at_def split: option.split)

lemma K_reject [kr]:
  "K (\<lambda>_. True) (reject_reserved_name t w b)" "K (\<lambda>_. True) (reject_func_hint h)" "K (\<lambda>_. True) (reject_asm_hints t)"
  "K (\<lambda>_. True) (require_asm_enabled t)" "K (\<lambda>_. True) (collect_hints t hs)" "K (\<lambda>_. True) (hint_alignment y h)"
  unfolding reject_reserved_name_def reject_func_hint_def reject_asm_hints_def require_asm_enabled_def
    collect_hints_def hint_alignment_def by (intro K_seq kr TrueI)+

lemma K_hinted [kr]: "K (\<lambda>_. True) (hinted_nonnull_type y h)" "K (\<lambda>_. True) (hinted_type y h)"
  unfolding hinted_nonnull_type_def hinted_type_def
  by (cases y; intro K_seq kr TrueI; simp add: K_perr K_pret)+

lemma K_bind_asm_operands [kr]: "K (\<lambda>_. True) (bind_asm_operands qs a)"
proof (induction qs arbitrary: a)
  case (Cons q qs)
  then show ?case unfolding bind_asm_operands.simps bind_asm_operand_def by (intro K_seq kr TrueI) simp
qed (simp add: K_pret)
section \<open>Calls and lowered operators\<close>

lemma K_list:
  "(xs = [] \<Longrightarrow> K P a) \<Longrightarrow> (\<And>y ys. xs = y # ys \<Longrightarrow> K P (g y ys)) \<Longrightarrow> K P (case xs of [] \<Rightarrow> a | y # ys \<Rightarrow> g y ys)"
  by (cases xs) simp_all

lemma K_dflt [kr]: "K P a \<Longrightarrow> K P b \<Longrightarrow> (\<And>n. K P (g n)) \<Longrightarrow> K P (case d of NoDefault \<Rightarrow> a | LastClass \<Rightarrow> b | DefExpr n \<Rightarrow> g n)"
  by (cases d) simp_all

lemma K_str_node_any: "K (\<lambda>_. True) (new_str_node d t)"
  by (rule K_weaken [OF K_new_str_node]) simp

lemma K_pick_arg: "K (\<lambda>_. True) (pick_arg f t i d a prev)"
  unfolding pick_arg_def by (intro K_seq kr K_str_node_any TrueI)

lemma K_bind_arg: "K (\<lambda>_. True) (bind_arg y a t)"
  unfolding bind_arg_def by (intro K_seq kr TrueI)

lemma K_bind_params [kr]: "K (\<lambda>_. True) (bind_params f t i ps ds as prev)"
proof (induction ps arbitrary: i ds as prev)
  case (Cons p ps)
  then show ?case unfolding bind_params.simps Let_def
    by (intro K_get_seq K_any_seq [OF K_pick_arg] K_any_seq [OF K_bind_arg] K_any_seq kr TrueI) (rule Cons)
qed (simp add: K_pret)

lemma K_extra_args [kr]: "K (\<lambda>_. True) (extra_args t as)"
  by (induction as) (auto intro!: K_any_seq kr)

lemma K_sret [kr]: "K (\<lambda>_. True) (sret_args y as t)" "wfc n \<Longrightarrow> K wfc (sret_result n y)"
  unfolding sret_args_def sret_result_def by (intro K_seq kr TrueI; simp)+

lemma K_make_call [kr]: "K wfc (make_call i as t)"
  unfolding make_call_def Let_def by (intro K_seq kr TrueI) simp_all

lemma K_call_named [kr]: "K wfc (call_named x as t)"
  unfolding call_named_def by (intro K_seq kr TrueI)

lemma K_check_indirect [kr]: "K (\<lambda>_. True) (check_indirect n as t)"
  by (induction as arbitrary: n) (auto intro!: kr)

lemma K_bind_indirect [kr]: "K (\<lambda>_. True) (bind_indirect ys as t)"
  by (induction ys as t rule: bind_indirect.induct) (auto intro!: kr K_any_seq [OF K_bind_arg] K_any_seq)

lemma K_indirect_call [kr]: "wfc n \<Longrightarrow> K wfc (make_indirect_call n as t)"
  unfolding make_indirect_call_def Let_def
  by (simp split: ty.split, intro conjI allI impI; intro K_seq kr TrueI; simp)

lemma K_size_num [kr]: "K wfc (size_num y t)"
  unfolding size_num_def by (intro kr) simp

definition wfc_pair :: "node option \<times> node \<Rightarrow> bool" where
  "wfc_pair p \<longleftrightarrow> wfc (snd p) \<and> (\<forall>n. fst p = Some n \<longrightarrow> wfc n)"

lemma K_pair_seq: "K wfc_pair v \<Longrightarrow> (\<And>a b. wfc b \<Longrightarrow> (\<forall>n. a = Some n \<longrightarrow> wfc n) \<Longrightarrow> K R (j a b)) \<Longrightarrow> K R (pbind v (\<lambda>(a, b). j a b))"
  by (erule K_bind) (auto simp: wfc_pair_def)

lemma K_lval_addr_temp: "wfc n \<Longrightarrow> K wfc_pair (lval_addr_temp n t)"
  unfolding lval_addr_temp_def by (intro K_seq kr TrueI) (simp_all add: wfc_pair_def)

lemma K_with_setup [kr]: "(\<forall>n. s = Some n \<longrightarrow> wfc n) \<Longrightarrow> wfc v \<Longrightarrow> K wfc (with_setup s v t)"
  unfolding with_setup_def by (intro K_seq kr TrueI) simp_all

lemma K_incdec [kr]: "wfc n \<Longrightarrow> K wfc (incdec n d p t)"
  unfolding incdec_def Let_def by (intro kr K_pair_seq [OF K_lval_addr_temp] K_seq TrueI) simp_all

section \<open>Switches and declarations\<close>

lemma wfc_stmt [simp]:
  "wfc (new_goto l t)" "wfc (new_labelstmt l t)" "wfc (nd_block ns t)" "wfc (nd_ctl k c th el t) \<longleftrightarrow> k \<notin> set unary_kinds \<and> k \<notin> set binary_kinds \<and> k \<noteq> ND_DIV \<and> k \<noteq> ND_MOD"
  "wfc (nd_for i c n b t)" "wfc e \<Longrightarrow> wfc (new_expr_stmt e t)" "wfc (new_node ND_NOP t)"
  "wfc (ret_node eo t) \<longleftrightarrow> (case eo of None \<Rightarrow> True | Some n \<Rightarrow> wfc n)" "wfc (loop_block m l t)"
  by (auto simp: new_goto_def new_labelstmt_def nd_jump_def new_expr_stmt_def nd_block_def nd_ctl_def nd_for_def
      new_node_def ret_node_def loop_block_def kind_lists
      wfc.simps [of "Node k l' a b c' d e' h i' j m n q r" for k l' a b c' d e' h i' j m n q r] split: option.split)

lemma K_case_test [kr]: "K wfc (case_test v c t)"
  unfolding case_test_def by (intro K_seq kr TrueI) simp_all

lemma K_case_target [kr]: "K wfc (case_target sw c i t)"
  unfolding case_target_def by (intro K_seq kr TrueI) simp_all

lemma K_build_dispatch [kr]: "K (\<lambda>_. True) (build_dispatch sw v t cnt cs)"
proof (induction cs arbitrary: cnt)
  case (Cons c cs)
  then show ?case unfolding build_dispatch.simps Let_def by (intro K_seq kr TrueI)
qed (simp add: K_pret)

lemma K_porch_dispatch [kr]: "K (\<lambda>_. True) (porch_dispatch sw g t cs)"
proof (induction cs)
  case (Cons c cs)
  then show ?case unfolding porch_dispatch.simps by (intro K_seq kr TrueI; simp)
qed (simp add: K_pret)

lemma K_splice_porches [kr]: "K (\<lambda>_. True) (splice_porches sw t cs ns)"
  by (induction ns) (auto intro!: kr K_any_seq)

lemma K_sw_build [kr]: "K wfc (sw_build sw n v t)"
  unfolding sw_build_def by (intro K_seq kr TrueI) simp

lemma K_set_break [kr]: "K (\<lambda>_. True) (set_break b)"
  unfolding set_break_def by (intro kr) simp

lemma K_note_asm [kr]: "K (\<lambda>_. True) (note_asm t)"
  unfolding note_asm_def by (intro kr) simp

lemma K_declare [kr]:
  "K (\<lambda>_. True) (declare_local x y h)" "K (\<lambda>_. True) (declare_global x y q e p r)"
  "K (\<lambda>_. True) (set_func i f)" "K (\<lambda>_. True) (fill_params f y vs n ds b)" "K (\<lambda>_. True) (push_params vs)"
  "K (\<lambda>_. True) (set_dol u l)" "K (\<lambda>_. True) (upd_class c g)"
proof -
  show "K (\<lambda>_. True) (push_params vs)" by (induction vs) (auto intro!: kr K_get_seq K_unit_seq)
qed (unfold declare_local_def declare_global_def set_func_def fill_params_def set_dol_def upd_class_def;
    intro K_seq kr TrueI; simp)+

lemma K_mark_params [kr]: "K (\<lambda>_. True) (mark_params vs)"
  by (auto simp: K_def mark_params_def pmod_def keep_def obj_at_def map_option_case split: option.split)

lemma K_add_func [kr]: "K (\<lambda>_. True) (add_func f)"
  by (simp add: K_def add_func_def keep_def obj_at_def)

lemma K_declare_class [kr]: "K (\<lambda>_. True) (declare_class x u)"
  by (simp add: K_def declare_class_def keep_def obj_at_def split: option.split)

lemma K_reject_bits [kr]: "K (\<lambda>_. True) (reject_bits h)"
  unfolding reject_bits_def by (intro kr TrueI)

lemma K_lifted [kr]:
  "K (\<lambda>_. True) (plift (array_of cs b i))" "K (\<lambda>_. True) (plift (find_member cs c x))"
  "K (\<lambda>_. True) (plift (place_member u p sz al x y l))" "K (\<lambda>_. True) (plift (move_offset u v l))"
  "K (\<lambda>_. True) (plift (finish_layout l))" "wfc n \<Longrightarrow> K (\<lambda>_. True) (plift (eval_const g n))"
  by (intro K_plift TrueI; erule array_of_good find_member_good layout_good eval_const_good, assumption?)+

end
