(* ===== verification/ParseRules.thy ===== *)
theory ParseRules
  imports ParseKeep PreprocProps
begin

text \<open>
  The judgement \<open>J\<close> says of a parsing function that on a token chain that ends in one \<open>EOF\<close> it
  reports one of the expected errors or returns with such a chain, with the current function
  unchanged and the outer scopes as they were; one rule per construct derives it.
\<close>

named_theorems jr \<open>rules for parsing functions\<close>

section \<open>The judgement\<close>

text \<open>A statement may return a class value: the address for it is then a visible variable.\<close>

definition fn_ok :: "cur_fn \<Rightarrow> (string \<times> nat) list list \<Rightarrow> bool" where
  "fn_ok cur sc \<longleftrightarrow> cur \<noteq> NoFn \<and> (\<forall>c. cur = InFn (TyClass c) \<longrightarrow> lookup_scopes sc ''__sret'' \<noteq> None)"

text \<open>Before: the current function \<open>f\<close> when known, \<open>c\<close> what is known of the tokens ahead, \<open>d\<close> scopes open that the rest
  of the function closes, at most \<open>k\<close> tokens left.\<close>

definition pre :: "cur_fn option \<Rightarrow> token list \<Rightarrow> nat \<Rightarrow> nat \<Rightarrow> parser \<Rightarrow> bool" where
  "pre f c d k s \<longleftrightarrow> eof_terminated (ps_tk s) \<and> length (ps_tk s) \<le> k \<and> d < length (ps_scope s)
     \<and> prefix c (ps_tk s) \<and> (\<forall>cur. f = Some cur \<longrightarrow> ps_cur s = cur \<and> fn_ok cur (drop d (ps_scope s)))"

text \<open>After: \<open>Q x p\<close> for the result \<open>x\<close>, where \<open>p\<close> holds only when tokens were consumed.\<close>

definition post :: "nat \<Rightarrow> ('a \<Rightarrow> bool \<Rightarrow> bool) \<Rightarrow> parser \<Rightarrow> 'a \<Rightarrow> parser \<Rightarrow> bool" where
  "post d Q s x s' \<longleftrightarrow> eof_terminated (ps_tk s') \<and> length (ps_tk s') \<le> length (ps_tk s) \<and> keep s s'
     \<and> scope_ok d (ps_scope s) (ps_scope s') \<and> (\<exists>p. (p \<longrightarrow> length (ps_tk s') < length (ps_tk s)) \<and> Q x p)"

definition J :: "cur_fn option \<Rightarrow> token list \<Rightarrow> nat \<Rightarrow> nat \<Rightarrow> ('a \<Rightarrow> bool \<Rightarrow> bool) \<Rightarrow> 'a pm \<Rightarrow> bool" where
  "J f c d k Q m \<longleftrightarrow> (\<forall>s. pre f c d k s \<longrightarrow>
     (case m s of Inl e \<Rightarrow> good_err e | Inr (x, s') \<Rightarrow> post d Q s x s'))"

lemma J_D: "J f c d k Q m \<Longrightarrow> pre f c d k s \<Longrightarrow> (\<exists>e. m s = Inl e \<and> good_err e) \<or> (\<exists>x s'. m s = Inr (x, s') \<and> post d Q s x s')"
proof -
  assume "J f c d k Q m" "pre f c d k s"
  then have "case m s of Inl e \<Rightarrow> good_err e | Inr (x, s') \<Rightarrow> post d Q s x s'" by (simp add: J_def)
  then show ?thesis by (cases "m s") auto
qed

lemma fn_ok_keep: "fn_ok cur (drop d a) \<Longrightarrow> scope_ok 0 a b \<Longrightarrow> d < length a \<Longrightarrow> fn_ok cur (drop d b)"
proof -
  assume a: "fn_ok cur (drop d a)" "scope_ok 0 a b" "d < length a"
  have hd: "lookup_scopes b z \<noteq> None" if "lookup_scopes a z \<noteq> None" for z
    using that a(2,3) by (cases a; cases b) (auto simp: scope_ok_def suffix_def map_add_def split: option.splits)
  show ?thesis
  proof (cases d)
    case 0
    then show ?thesis using a(1) hd by (simp add: fn_ok_def)
  next
    case (Suc n)
    then show ?thesis using a by (cases a; cases b) (auto simp: scope_ok_def)
  qed
qed

lemma fn_ok_outer: "fn_ok cur (drop d a) \<Longrightarrow> fn_ok cur a"
proof -
  have "lookup_scopes (drop d a) z \<noteq> None \<Longrightarrow> lookup_scopes a z \<noteq> None" for z
  proof (induction d arbitrary: a)
    case (Suc d)
    then show ?case by (cases a) (auto split: option.splits)
  qed simp
  then show "fn_ok cur (drop d a) \<Longrightarrow> fn_ok cur a" by (auto simp: fn_ok_def)
qed

lemma pre_outer: "pre f c d k s \<Longrightarrow> pre f c 0 k s"
  by (auto simp: pre_def dest: fn_ok_outer)

lemma pre_after: "pre f c d k s \<Longrightarrow> post 0 Q s x s' \<Longrightarrow> pre f [] d k s'"
  using fn_ok_keep [of "ps_cur s" d "ps_scope s" "ps_scope s'"]
  by (auto simp: pre_def post_def keep_def dest: scope_ok_length)

lemma post_trans:
  "post 0 P s x s' \<Longrightarrow> post d (\<lambda>y p. Q y p) s' y s'' \<Longrightarrow> d < length (ps_scope s) \<Longrightarrow> post d Q s y s''"
  by (fastforce simp: post_def intro: keep_trans scope_ok_trans)

text \<open>Sequences: after a function that consumes tokens, and after any.\<close>

lemma J_seqT:
  assumes m: "J f c 0 k (\<lambda>x p. p \<and> P x) m" and g: "\<And>x. P x \<Longrightarrow> J f [] d (k - 1) (\<lambda>y p. Q y True) (g x)"
  shows "J f c d k Q (pbind m g)"
  unfolding J_def
proof (intro allI impI)
  fix s assume p: "pre f c d k s"
  from J_D [OF m pre_outer [OF p]]
  show "case pbind m g s of Inl e \<Rightarrow> good_err e | Inr (x, s') \<Rightarrow> post d Q s x s'"
  proof (elim disjE exE conjE)
    fix x s1 assume e: "m s = Inr (x, s1)" and q: "post 0 (\<lambda>x p. p \<and> P x) s x s1"
    from q have l: "length (ps_tk s1) < length (ps_tk s)" "P x" by (auto simp: post_def)
    from pre_after [OF p q] l(1) p have p1: "pre f [] d (k - 1) s1" by (auto simp: pre_def)
    from J_D [OF g [OF l(2)] p1] show ?thesis
    proof (elim disjE exE conjE)
      fix y s2 assume e2: "g x s1 = Inr (y, s2)" and q2: "post d (\<lambda>y p. Q y True) s1 y s2"
      have "post d Q s y s2"
        using post_trans [OF q q2] q2 l(1) p by (auto simp: post_def pre_def)
      then show ?thesis by (simp add: pbind_def e e2)
    qed (simp add: pbind_def e)
  qed (simp add: pbind_def)
qed

lemma J_seqF:
  assumes m: "J f c 0 k (\<lambda>x p. P x) m" and g: "\<And>x. P x \<Longrightarrow> J f [] d k Q (g x)"
  shows "J f c d k Q (pbind m g)"
  unfolding J_def
proof (intro allI impI)
  fix s assume p: "pre f c d k s"
  from J_D [OF m pre_outer [OF p]]
  show "case pbind m g s of Inl e \<Rightarrow> good_err e | Inr (x, s') \<Rightarrow> post d Q s x s'"
  proof (elim disjE exE conjE)
    fix x s1 assume e: "m s = Inr (x, s1)" and q: "post 0 (\<lambda>x p. P x) s x s1"
    from q have x: "P x" by (auto simp: post_def)
    from J_D [OF g [OF x] pre_after [OF p q]] show ?thesis
    proof (elim disjE exE conjE)
      fix y s2 assume e2: "g x s1 = Inr (y, s2)" and q2: "post d Q s1 y s2"
      have "post d Q s y s2" using post_trans [OF q q2] p by (simp add: pre_def)
      then show ?thesis by (simp add: pbind_def e e2)
    qed (simp add: pbind_def e)
  qed (simp add: pbind_def)
qed

lemma K_post: "K P m \<Longrightarrow> pre f c d k s \<Longrightarrow>
    (\<exists>e. m s = Inl e \<and> good_err e) \<or>
    (\<exists>x s'. m s = Inr (x, s') \<and> P x \<and> pre f c d k s' \<and> post 0 (\<lambda>x p. True) s x s')"
proof -
  assume m: "K P m" and p: "pre f c d k s"
  have len: "scope_ok 0 (ps_scope s) b \<Longrightarrow> length b = length (ps_scope s)" for b
    using p scope_ok_length [of "ps_scope s" b] by (cases "ps_scope s") (auto simp: pre_def)
  from p have "ps_tk s \<noteq> [] \<and> ps_scope s \<noteq> []" by (auto simp: pre_def)
  with m have "case m s of Inl e \<Rightarrow> good_err e
      | Inr (x, s') \<Rightarrow> ps_tk s' = ps_tk s \<and> keep s s' \<and> scope_ok 0 (ps_scope s) (ps_scope s') \<and> P x"
    unfolding K_def by blast
  then show ?thesis
    using p fn_ok_keep [of "ps_cur s" d "ps_scope s"] len
    by (cases "m s") (auto simp: pre_def post_def keep_def)
qed

lemma J_keep:
  assumes m: "K P m" and g: "\<And>x. P x \<Longrightarrow> J f c d k Q (g x)"
  shows "J f c d k Q (pbind m g)"
  unfolding J_def
proof (intro allI impI)
  fix s assume p: "pre f c d k s"
  from K_post [OF m p]
  show "case pbind m g s of Inl e \<Rightarrow> good_err e | Inr (x, s') \<Rightarrow> post d Q s x s'"
  proof (elim disjE exE conjE)
    fix x s1 assume e: "m s = Inr (x, s1)" and x: "P x" "pre f c d k s1" and q: "post 0 (\<lambda>x p. True) s x s1"
    from J_D [OF g [OF x(1)] x(2)] show ?thesis
    proof (elim disjE exE conjE)
      fix y s2 assume e2: "g x s1 = Inr (y, s2)" and q2: "post d Q s1 y s2"
      have "post d Q s y s2" using post_trans [OF q q2] p by (simp add: pre_def)
      then show ?thesis by (simp add: pbind_def e e2)
    qed (simp add: pbind_def e)
  qed (simp add: pbind_def)
qed

lemma J_last: "K P m \<Longrightarrow> (\<And>x. P x \<Longrightarrow> Q x False) \<Longrightarrow> J f c 0 k Q m"
  unfolding J_def
proof (intro allI impI)
  fix s assume m: "K P m" and g: "\<And>x. P x \<Longrightarrow> Q x False" and p: "pre f c 0 k s"
  from K_post [OF m p] show "case m s of Inl e \<Rightarrow> good_err e | Inr (x, s') \<Rightarrow> post 0 Q s x s'"
    using g by (fastforce simp: post_def)
qed

lemma J_weaken: "J f c 0 k P m \<Longrightarrow> j \<le> k \<Longrightarrow> (\<And>x p. P x p \<Longrightarrow> Q x p) \<Longrightarrow> J f c 0 j Q m"
  unfolding J_def
proof (intro allI impI)
  fix s assume m: "\<forall>s. pre f c 0 k s \<longrightarrow> (case m s of Inl e \<Rightarrow> good_err e | Inr (x, s') \<Rightarrow> post 0 P s x s')"
    and j: "j \<le> k" and w: "\<And>x p. P x p \<Longrightarrow> Q x p" and p: "pre f c 0 j s"
  from p j have "pre f c 0 k s" by (auto simp: pre_def)
  with m have "case m s of Inl e \<Rightarrow> good_err e | Inr (x, s') \<Rightarrow> post 0 P s x s'" by blast
  then show "case m s of Inl e \<Rightarrow> good_err e | Inr (x, s') \<Rightarrow> post 0 Q s x s'"
    using w by (auto simp: post_def split: sum.splits)
qed

lemma J_pos: "(0 < k \<Longrightarrow> J f c d k Q m) \<Longrightarrow> J f c d k Q m"
  by (cases k) (auto simp: J_def pre_def)

lemma J_any: "J f [] d k Q m \<Longrightarrow> J f c d k Q m"
  by (auto simp: J_def pre_def)

section \<open>Rules\<close>

lemma pm_laws:
  "pbind (pbind m0 g0) h0 = pbind m0 (\<lambda>x. pbind (g0 x) h0)"
  "pbind (pret x1) h1 = h1 x1"
  "pbind (perr t2 w2) h2 = perr t2 w2"
  "pbind (if b3 then m3 else m3') h3 = (if b3 then pbind m3 h3 else pbind m3' h3)"
  "pbind (case z4 of None \<Rightarrow> m4 | Some y \<Rightarrow> g4 y) h4 = (case z4 of None \<Rightarrow> pbind m4 h4 | Some y \<Rightarrow> pbind (g4 y) h4)"
  "pbind (case q5 of (a, b) \<Rightarrow> g5 a b) h5 = (case q5 of (a, b) \<Rightarrow> pbind (g5 a b) h5)"
  by (auto simp: pbind_def pret_def perr_def pfail_def split: sum.splits option.splits prod.splits)

lemma J_pret [jr]: "Q x False \<Longrightarrow> J f c 0 k Q (pret x)"
  by (rule J_last [OF K_pret, of "\<lambda>y. y = x"]) simp_all

lemma J_perr [jr]: "J f c d k Q (perr t w)"
  by (simp add: J_def perr_def pfail_def)

lemma J_if [jr]: "(b \<Longrightarrow> J f c d k Q m) \<Longrightarrow> (\<not> b \<Longrightarrow> J f c d k Q m') \<Longrightarrow> J f c d k Q (if b then m else m')"
  by simp

lemma J_let [jr]: "J f c d k Q (h x) \<Longrightarrow> J f c d k Q (let y = x in h y)"
  by simp

lemma J_opt [jr]:
  "(x = None \<Longrightarrow> J f c d k Q m) \<Longrightarrow> (\<And>y. x = Some y \<Longrightarrow> J f c d k Q (h y)) \<Longrightarrow>
   J f c d k Q (case x of None \<Rightarrow> m | Some y \<Rightarrow> h y)"
  by (cases x) simp_all

lemma J_pair [jr]: "(\<And>a b. x = (a, b) \<Longrightarrow> J f c d k Q (h a b)) \<Longrightarrow> J f c d k Q (case x of (a, b) \<Rightarrow> h a b)"
  by (cases x) simp

lemma J_sum [jr]:
  "(\<And>y. x = Inl y \<Longrightarrow> J f c d k Q (h y)) \<Longrightarrow> (\<And>y. x = Inr y \<Longrightarrow> J f c d k Q (h' y)) \<Longrightarrow>
   J f c d k Q (case x of Inl y \<Rightarrow> h y | Inr y \<Rightarrow> h' y)"
  by (cases x) simp_all

lemma J_pget [jr]: "(\<And>s. J f c d k Q (g (h s))) \<Longrightarrow> J f c d k Q (pbind (pget h) g)"
  by (simp add: J_def pbind_def pget_def)

lemma pre_Cons: "pre f (t # c) d k s \<Longrightarrow> \<exists>ts. ps_tk s = t # ts \<and> prefix c ts"
  by (cases "ps_tk s") (auto simp: pre_def)

lemma pre_Nil: "pre f [] d k s \<Longrightarrow> \<exists>t ts. ps_tk s = t # ts \<and> pre f [t] d k s"
  by (cases "ps_tk s") (auto simp: pre_def)

lemma J_known: "(\<And>t. J f [t] d k Q m) \<Longrightarrow> J f [] d k Q m"
  by (meson J_def pre_Nil)

lemma J_cur [jr]:
  "J f (t # c) d k Q (g t) \<Longrightarrow> J f (t # c) d k Q (pbind cur_tok g)"
  "(\<And>t. J f [t] d k Q (g t)) \<Longrightarrow> J f [] d k Q (pbind cur_tok g)"
proof -
  show *: "J f (t # c) d k Q (g t) \<Longrightarrow> J f (t # c) d k Q (pbind cur_tok g)" for t c
    unfolding J_def by (fastforce simp: pbind_def cur_tok_def dest: pre_Cons)
  show "(\<And>t. J f [t] d k Q (g t)) \<Longrightarrow> J f [] d k Q (pbind cur_tok g)"
    by (rule J_known) (rule *)
qed

lemma J_advance [jr]:
  assumes "kind t \<noteq> TK_EOF" and g: "J f c d (k - 1) (\<lambda>x p. Q x True) (g ())"
  shows "J f (t # c) d k Q (pbind advance g)"
  unfolding J_def
proof (intro allI impI)
  fix s assume p: "pre f (t # c) d k s"
  then obtain ts where ts: "ps_tk s = t # ts" "prefix c ts" by (blast dest: pre_Cons)
  have "pre f c d (k - 1) (s\<lparr>ps_tk := ts\<rparr>)" using p ts assms(1) by (auto simp: pre_def)
  from J_D [OF g this]
  show "case pbind advance g s of Inl e \<Rightarrow> good_err e | Inr (x, s') \<Rightarrow> post d Q s x s'"
    using ts by (auto simp: pbind_def advance_def post_def keep_def obj_at_def)
qed

lemma J_advance_last [jr]: "kind t \<noteq> TK_EOF \<Longrightarrow> Q () True \<Longrightarrow> J f (t # c) 0 k Q advance"
proof -
  assume "kind t \<noteq> TK_EOF" "Q () True"
  then have "J f (t # c) 0 k Q (pbind advance pret)" by (intro jr) simp_all
  moreover have "pbind advance pret = advance"
    by (auto simp: pbind_def pret_def advance_def split: sum.splits list.splits)
  ultimately show ?thesis by simp
qed

lemma J_next [jr]:
  "J f (t # u # c) d k Q (g u) \<Longrightarrow> J f (t # u # c) d k Q (pbind next_tok g)"
  "kind t \<noteq> TK_EOF \<Longrightarrow> (\<And>u. J f [t, u] d k Q (g u)) \<Longrightarrow> J f [t] d k Q (pbind next_tok g)"
proof -
  show "J f (t # u # c) d k Q (g u) \<Longrightarrow> J f (t # u # c) d k Q (pbind next_tok g)"
    unfolding J_def by (auto simp: pbind_def next_tok_def pre_def prefix_def)
  assume k: "kind t \<noteq> TK_EOF" and g: "\<And>u. J f [t, u] d k Q (g u)"
  show "J f [t] d k Q (pbind next_tok g)"
    unfolding J_def
  proof (intro allI impI)
    fix s assume p: "pre f [t] d k s"
    then obtain u ts where ts: "ps_tk s = t # u # ts" using k by (cases "ps_tk s"; cases "tl (ps_tk s)") (auto simp: pre_def)
    have "pre f [t, u] d k s" using p ts by (simp add: pre_def)
    from J_D [OF g this] show "case pbind next_tok g s of Inl e \<Rightarrow> good_err e | Inr (x, s') \<Rightarrow> post d Q s x s'"
      using ts by (auto simp: pbind_def next_tok_def)
  qed
qed

lemma J_peek [jr]:
  assumes g: "J f [t] d k Q (g None)" "\<And>u. kind t \<noteq> TK_EOF \<Longrightarrow> J f [t, u] d k Q (g (Some u))"
  shows "J f [t] d k Q (pbind peek_tok g)"
  unfolding J_def
proof (intro allI impI)
  fix s assume p: "pre f [t] d k s"
  then obtain ts where t: "ps_tk s = t # ts" by (blast dest: pre_Cons)
  show "case pbind peek_tok g s of Inl e \<Rightarrow> good_err e | Inr (x, s') \<Rightarrow> post d Q s x s'"
  proof (cases ts)
    case Nil
    then show ?thesis using J_D [OF g(1) p] t by (auto simp: pbind_def peek_tok_def)
  next
    case (Cons u us)
    with p t have q: "pre f [t, u] d k s" "kind t \<noteq> TK_EOF" by (auto simp: pre_def)
    show ?thesis using J_D [OF g(2) [OF q(2)] q(1)] t Cons by (auto simp: pbind_def peek_tok_def)
  qed
qed

lemma J_type_start [jr]:
  "(\<And>b. (b \<Longrightarrow> kind t \<noteq> TK_EOF) \<Longrightarrow> J f (t # c) d k Q (g b)) \<Longrightarrow> J f (t # c) d k Q (pbind type_start g)"
  "(\<And>t b. (b \<Longrightarrow> kind t \<noteq> TK_EOF) \<Longrightarrow> J f [t] d k Q (g b)) \<Longrightarrow> J f [] d k Q (pbind type_start g)"
proof -
  show *: "(\<And>b. (b \<Longrightarrow> kind t \<noteq> TK_EOF) \<Longrightarrow> J f (t # c) d k Q (g b)) \<Longrightarrow> J f (t # c) d k Q (pbind type_start g)" for t c
  proof (unfold J_def, intro allI impI)
    fix s assume g: "\<And>b. (b \<Longrightarrow> kind t \<noteq> TK_EOF) \<Longrightarrow> \<forall>s. pre f (t # c) d k s \<longrightarrow>
        (case g b s of Inl e \<Rightarrow> good_err e | Inr (x, s') \<Rightarrow> post d Q s x s')" and p: "pre f (t # c) d k s"
    then obtain ts where ts: "ps_tk s = t # ts" by (blast dest: pre_Cons)
    define b where "b = (if kind t = TK_TYPE then builtin_type (str t) \<noteq> None else kind t = TK_ID \<and> type_at s (ps_tk s) \<noteq> None)"
    have "pbind type_start g s = g b s"
      using ts by (simp add: pbind_def type_start_def pget_def is_type_start_def b_def)
    moreover have "b \<Longrightarrow> kind t \<noteq> TK_EOF" by (auto simp: b_def split: if_splits)
    ultimately show "case pbind type_start g s of Inl e \<Rightarrow> good_err e | Inr (x, s') \<Rightarrow> post d Q s x s'"
      using g p by presburger
  qed
  assume g: "\<And>t b. (b \<Longrightarrow> kind t \<noteq> TK_EOF) \<Longrightarrow> J f [t] d k Q (g b)"
  show "J f [] d k Q (pbind type_start g)"
    by (rule J_known, rule *, rule g)
qed

text \<open>Scopes.\<close>

lemma J_enter [jr]: "J f c (Suc d) k Q (g ()) \<Longrightarrow> J f c d k Q (pbind enter_scope g)"
proof (unfold J_def, intro allI impI)
  fix s assume g: "\<forall>s. pre f c (Suc d) k s \<longrightarrow> (case g () s of Inl e \<Rightarrow> good_err e | Inr (x, s') \<Rightarrow> post (Suc d) Q s x s')"
    and p: "pre f c d k s"
  let ?s = "s\<lparr>ps_scope := [] # ps_scope s\<rparr>"
  have "pre f c (Suc d) k ?s" using p by (auto simp: pre_def)
  with g have "case g () ?s of Inl e \<Rightarrow> good_err e | Inr (x, s') \<Rightarrow> post (Suc d) Q ?s x s'" by blast
  moreover have "pbind enter_scope g s = g () ?s" by (simp add: pbind_def enter_scope_def pmod_def)
  ultimately show "case pbind enter_scope g s of Inl e \<Rightarrow> good_err e | Inr (x, s') \<Rightarrow> post d Q s x s'"
    by (auto simp: post_def keep_def obj_at_def scope_ok_def split: sum.splits)
qed

lemma J_leave [jr]: "J f c d k Q (g ()) \<Longrightarrow> J f c (Suc d) k Q (pbind leave_scope g)"
proof (unfold J_def, intro allI impI)
  fix s assume g: "\<forall>s. pre f c d k s \<longrightarrow> (case g () s of Inl e \<Rightarrow> good_err e | Inr (x, s') \<Rightarrow> post d Q s x s')"
    and p: "pre f c (Suc d) k s"
  then obtain sc scs where sc: "ps_scope s = sc # scs" by (cases "ps_scope s") (auto simp: pre_def)
  let ?s = "s\<lparr>ps_scope := scs\<rparr>"
  have "pre f c d k ?s" using p sc by (auto simp: pre_def)
  with g have "case g () ?s of Inl e \<Rightarrow> good_err e | Inr (x, s') \<Rightarrow> post d Q ?s x s'" by blast
  moreover have "pbind leave_scope g s = g () ?s" by (simp add: pbind_def leave_scope_def sc)
  ultimately show "case pbind leave_scope g s of Inl e \<Rightarrow> good_err e | Inr (x, s') \<Rightarrow> post (Suc d) Q s x s'"
    using sc by (auto simp: post_def keep_def obj_at_def scope_ok_def split: sum.splits)
qed

text \<open>Loops: a turn that goes on has consumed tokens.\<close>

definition turn :: "('a \<Rightarrow> bool) \<Rightarrow> ('b \<Rightarrow> bool) \<Rightarrow> 'a + 'b \<Rightarrow> bool \<Rightarrow> bool" where
  "turn P R r p \<longleftrightarrow> (case r of Inl a \<Rightarrow> p \<and> P a | Inr b \<Rightarrow> R b)"

lemma turn_simps [simp]: "turn P R (Inl a) p \<longleftrightarrow> p \<and> P a" "turn P R (Inr b) p \<longleftrightarrow> R b"
  by (simp_all add: turn_def)

lemma J_loop:
  assumes body: "\<And>a. P a \<Longrightarrow> J f [] 0 k (turn P R) (body a)"
  shows "P a \<Longrightarrow> pre f [] 0 k s \<Longrightarrow> length (ps_tk s) \<le> n \<Longrightarrow>
    (\<exists>e. ploop n body a s = Inl e \<and> good_err e) \<or>
    (\<exists>b s'. ploop n body a s = Inr (b, s') \<and> post 0 (\<lambda>b p. R b) s b s')"
proof (induction n arbitrary: a s)
  case (Suc n)
  from J_D [OF body [OF Suc.prems(1)] Suc.prems(2)] show ?case
  proof (elim disjE exE conjE)
    fix r s1 assume e: "body a s = Inr (r, s1)" and q: "post 0 (turn P R) s r s1"
    show ?thesis
    proof (cases r)
      case (Inl a')
      with q have l: "length (ps_tk s1) < length (ps_tk s)" "P a'" by (auto simp: post_def)
      from q have q': "post 0 (\<lambda>x p. True) s a' s1" by (auto simp: post_def)
      from Suc.IH [OF l(2) pre_after [OF Suc.prems(2) q']] l(1) Suc.prems(3) show ?thesis
        using post_trans [OF q', of 0 "\<lambda>b p. R b"] Suc.prems(2)
        by (auto simp: pbind_def e Inl pre_def)
    next
      case (Inr b)
      with q show ?thesis by (auto simp: pbind_def e pret_def post_def)
    qed
  qed (simp add: pbind_def)
qed (auto simp: pre_def)

lemma J_while:
  assumes body: "\<And>a. P a \<Longrightarrow> J f [] 0 k (turn P R) (body a)" and a: "P a"
  shows "J f c 0 k (\<lambda>b p. R b) (pwhile body a)"
  unfolding J_def
proof (intro allI impI)
  fix s assume "pre f c 0 k s"
  then have p: "pre f [] 0 k s" by (auto simp: pre_def)
  have "(\<exists>e. ploop (length (ps_tk s) + 1) body a s = Inl e \<and> good_err e) \<or>
      (\<exists>b s'. ploop (length (ps_tk s) + 1) body a s = Inr (b, s') \<and> post 0 (\<lambda>b p. R b) s b s')"
    by (rule J_loop [where P = P and R = R, OF body a p]) simp_all
  then
  show "case pwhile body a s of Inl e \<Rightarrow> good_err e | Inr (x, s') \<Rightarrow> post 0 (\<lambda>b p. R b) s x s'"
    by (auto simp: pwhile_def simp del: ploop.simps)
qed

lemma J_while_seq:
  assumes "\<And>a. P a \<Longrightarrow> J f [] 0 k (turn P R) (body a)" "P a" "\<And>b. R b \<Longrightarrow> J f [] d k Q (g b)"
  shows "J f c d k Q (pbind (pwhile body a) g)"
  by (rule J_seqF [OF J_while [where P = P and R = R, OF assms(1,2)] assms(3)])

lemma post_more:
  "post d (\<lambda>b p. R b) s b s' \<Longrightarrow> q \<longrightarrow> length (ps_tk s') < length (ps_tk s) \<Longrightarrow> post d (\<lambda>b p. (q \<longrightarrow> p) \<and> R b) s b s'"
  by (auto simp: post_def)

text \<open>The first turn may consume nothing; when it does consume, so does the loop.\<close>

lemma J_while_turn:
  assumes first: "J f [] 0 k (\<lambda>r p. (q \<longrightarrow> p) \<and> (case r of Inl a \<Rightarrow> P a | Inr b \<Rightarrow> R b)) (body a0)"
    and body: "\<And>a. P a \<Longrightarrow> J f [] 0 k (turn P R) (body a)"
  shows "J f c 0 k (\<lambda>b p. (q \<longrightarrow> p) \<and> R b) (pwhile body a0)"
  unfolding J_def
proof (intro allI impI)
  fix s assume "pre f c 0 k s"
  then have p: "pre f [] 0 k s" by (auto simp: pre_def)
  let ?Q = "\<lambda>b p. (q \<longrightarrow> p) \<and> R b"
  from J_D [OF first p]
  show "case pwhile body a0 s of Inl e \<Rightarrow> good_err e | Inr (x, s') \<Rightarrow> post 0 ?Q s x s'"
  proof (elim disjE exE conjE)
    fix r s1 assume e: "body a0 s = Inr (r, s1)"
      and t: "post 0 (\<lambda>r p. (q \<longrightarrow> p) \<and> (case r of Inl a \<Rightarrow> P a | Inr b \<Rightarrow> R b)) s r s1"
    from t have t': "post 0 (\<lambda>x p. True) s r s1" by (auto simp: post_def)
    show ?thesis
    proof (cases r)
      case (Inl a)
      with t have a: "P a" "length (ps_tk s1) \<le> length (ps_tk s)" "q \<longrightarrow> length (ps_tk s1) < length (ps_tk s)"
        by (auto simp: post_def)
      have "(\<exists>e. ploop (length (ps_tk s)) body a s1 = Inl e \<and> good_err e) \<or>
          (\<exists>b s'. ploop (length (ps_tk s)) body a s1 = Inr (b, s') \<and> post 0 (\<lambda>b p. R b) s1 b s')"
        by (rule J_loop [where P = P and R = R, OF body a(1) pre_after [OF p t'] a(2)])
      then show ?thesis
      proof (elim disjE exE conjE)
        fix b s2 assume e2: "ploop (length (ps_tk s)) body a s1 = Inr (b, s2)" and t2: "post 0 (\<lambda>b p. R b) s1 b s2"
        have "post 0 (\<lambda>b p. R b) s b s2" using post_trans [OF t' t2] p by (simp add: pre_def)
        moreover have "length (ps_tk s2) \<le> length (ps_tk s1)" using t2 by (simp add: post_def)
        then have "q \<longrightarrow> length (ps_tk s2) < length (ps_tk s)" using a(3) by linarith
        ultimately have "post 0 ?Q s b s2" by (rule post_more)
        then show ?thesis by (simp add: pwhile_def pbind_def e e2 Inl)
      qed (simp add: pwhile_def pbind_def e Inl)
    next
      case (Inr b)
      with t have "post 0 ?Q s b s1" by (auto simp: post_def)
      then show ?thesis by (simp add: pwhile_def pbind_def e pret_def Inr)
    qed
  qed (simp add: pwhile_def pbind_def)
qed

lemmas J_while_first = J_while_turn [where q = False, simplified]
lemmas J_while_all = J_while_turn [where q = True, simplified]

lemma J_while_last:
  assumes "\<And>a. P a \<Longrightarrow> J f [] 0 k (turn P R) (body a)" "P a" "\<And>b. R b \<Longrightarrow> Q b False"
  shows "J f c 0 k Q (pwhile body a)"
proof -
  have "J f c 0 k (\<lambda>b p. R b) (pwhile body a)" by (rule J_while [OF assms(1,2)])
  then show ?thesis unfolding J_def post_def using assms(3) by (fastforce split: sum.splits)
qed

lemma J_end: "J f c 0 k P m \<Longrightarrow> (\<And>x p. P x p \<Longrightarrow> Q x p) \<Longrightarrow> J f c 0 k Q m"
  by (rule J_weaken [OF _ order_refl])

text \<open>Functions that leave the tokens alone, by the type of their result.\<close>

lemmas J_kunit = J_keep [where P = "\<lambda>_ :: unit. True"]
lemmas J_knode = J_keep [where P = wfc]
lemmas J_kany = J_keep [where P = "\<lambda>_. True"]
lemmas J_keeps = J_kunit J_knode J_kany

lemmas J_knode_last = J_last [where P = wfc]
lemmas J_kany_last = J_last [where P = "\<lambda>_. True"]
lemmas J_lasts = J_knode_last J_kany_last

end
