(* ===== verification/ParseTotal.thy ===== *)
theory ParseTotal
  imports ParseRules
begin

text \<open>
  The parser always ends with a program or a diagnostic: the rules of \<open>ParseRules\<close> applied to every
  parsing function, with what the circle of calls must keep as a locale.
\<close>

lemmas pm_unfold = pm_laws eat_def expect_def is_punct_def is_kw_def if_True if_False

lemma op_eof: "find_op ops t = Some k \<Longrightarrow> kind t \<noteq> TK_EOF" "rel_op t = Some z \<Longrightarrow> kind t \<noteq> TK_EOF"
  by (auto simp: find_op_def rel_op_def split: if_split_asm)

lemma tok_eof: "tok_punct t w \<Longrightarrow> kind t \<noteq> TK_EOF" "tok_kw t w \<Longrightarrow> kind t \<noteq> TK_EOF"
  by (auto simp: tok_punct_def tok_kw_def)

text \<open>After a function that consumes tokens when its result is an \<open>Inl\<close>.\<close>

lemma J_seqC:
  assumes m: "J f c 0 k (turn P R) m" and g: "\<And>a. P a \<Longrightarrow> J f [] d (k - 1) (\<lambda>x _. Q x True) (g (Inl a))"
    and h: "\<And>b. R b \<Longrightarrow> J f [] d k Q (g (Inr b))"
  shows "J f c d k Q (pbind m g)"
  unfolding J_def
proof (intro allI impI)
  fix s assume p: "pre f c d k s"
  from J_D [OF m pre_outer [OF p]]
  show "case pbind m g s of Inl e \<Rightarrow> good_err e | Inr (x, s') \<Rightarrow> post d Q s x s'"
  proof (elim disjE exE conjE)
    fix r s1 assume e: "m s = Inr (r, s1)" and q: "post 0 (turn P R) s r s1"
    from q have q': "post 0 (\<lambda>x p. True) s r s1" by (auto simp: post_def)
    note p1 = pre_after [OF p q]
    have d: "d < length (ps_scope s)" using p by (simp add: pre_def)
    show ?thesis
    proof (cases r)
      case (Inl a)
      with q have l: "length (ps_tk s1) < length (ps_tk s)" "P a" by (auto simp: post_def)
      have "pre f [] d (k - 1) s1" using p1 l(1) p by (auto simp: pre_def)
      from J_D [OF g [OF l(2)] this] show ?thesis
      proof (elim disjE exE conjE)
        fix y s2 assume e2: "g (Inl a) s1 = Inr (y, s2)" and q2: "post d (\<lambda>x _. Q x True) s1 y s2"
        have "post d Q s y s2" using post_trans [OF q' q2 d] q2 l(1) by (auto simp: post_def)
        then show ?thesis by (simp add: pbind_def e e2 Inl)
      qed (simp add: pbind_def e Inl)
    next
      case (Inr b)
      with q have "R b" by (auto simp: post_def)
      from J_D [OF h [OF this] p1] show ?thesis
      proof (elim disjE exE conjE)
        fix y s2 assume e2: "g (Inr b) s1 = Inr (y, s2)" and q2: "post d Q s1 y s2"
        show ?thesis using post_trans [OF q' q2 d] by (simp add: pbind_def e e2 Inr)
      qed (simp add: pbind_def e Inr)
    qed
  qed (simp add: pbind_def)
qed

lemma wfc_leaf [simp]:
  "wfc (Node kd None None a b c d e h i j m v q) \<longleftrightarrow> kd \<notin> set unary_kinds \<and> kd \<notin> set binary_kinds \<and> kd \<noteq> ND_DIV \<and> kd \<noteq> ND_MOD"
  by (auto simp: wfc.simps [of "Node kd None None a b c d e h i j m v q"])

text \<open>\<open>eat\<close> by its two outcomes.\<close>

lemma J_eat:
  assumes "tok_punct t w \<or> tok_kw t w \<Longrightarrow> J f [] d (k - 1) (\<lambda>x _. Q x True) (g True)" "J f [t] d k Q (g False)"
  shows "J f [t] d k Q (pbind (eat w) g)"
  unfolding eat_def using assms by (simp only: pm_unfold, intro jr) (auto dest: tok_eof)

lemma J_if_const: "J f c d k Q m \<Longrightarrow> J f c d k Q (if True then m else m')" "J f c d k Q m' \<Longrightarrow> J f c d k Q (if False then m else m')"
  by simp_all

section \<open>Type names\<close>

lemma J_start: "(0 < k \<Longrightarrow> J f [] d k Q m) \<Longrightarrow> J f c d k Q m"
  by (rule J_any, rule J_pos)

lemma J_first: "(0 < k \<Longrightarrow> J f [t] d k Q m) \<Longrightarrow> J f (t # c) d k Q m"
  by (rule J_pos) (auto simp: J_def pre_def prefix_def)

lemma J_stars: "J f c 0 k (\<lambda>_ _. True) (stars y)"
  unfolding stars_def
  by (simp only: pm_unfold, intro jr J_while [where P = "\<lambda>_. True"]) (auto dest: tok_eof)

lemma J_eat_stars: "J f c 0 k (\<lambda>_ _. True) (eat_stars y)"
  unfolding eat_stars_def
  by (simp only: pm_unfold, intro jr J_while [where P = "\<lambda>_. True"]) (auto dest: tok_eof)

lemma J_base_type: "kind t \<noteq> TK_EOF \<Longrightarrow> J f (t # c) 0 k (\<lambda>_ p. p) base_type"
  unfolding base_type_def by (intro jr) auto


lemma J_typespec: "kind t \<noteq> TK_EOF \<Longrightarrow> J f (t # c) 0 k (\<lambda>_ p. p) parse_typespec"
  unfolding parse_typespec_def
  by (intro J_seqT [where P = "\<lambda>_. True", OF J_end [OF J_base_type]] J_end [OF J_stars]) auto

lemmas seq_typespec = J_seqT [where P = "\<lambda>_. True", OF J_end [OF J_typespec]]
lemmas seq_base_type = J_seqT [where P = "\<lambda>_. True", OF J_end [OF J_base_type]]
lemmas seq_stars = J_seqF [OF J_eat_stars]

lemma J_take_name: "J f c 0 k (\<lambda>_ p. p) (take_name w b)"
  unfolding take_name_def by (rule J_start, intro jr J_keeps kr) auto

lemmas seq_name = J_seqT [where P = "\<lambda>_. True", OF J_end [OF J_take_name]]

text \<open>Adjacent strings.\<close>

lemma eof_dropWhile: "eof_terminated ts \<Longrightarrow> eof_terminated (dropWhile (\<lambda>u. kind u = TK_STR) ts)"
  by (induction ts) auto

lemma J_skip_strings:
  assumes t: "kind t = TK_STR" and g: "J f [] d (k - 1) (\<lambda>x _. Q x True) (g ())"
  shows "J f (t # c) d k Q (pbind (\<lambda>s. case dropWhile (\<lambda>u. kind u = TK_STR) (ps_tk s) of [] \<Rightarrow> Inl NullDeref
     | ts \<Rightarrow> Inr ((), s\<lparr>ps_tk := ts\<rparr>)) g)"
  unfolding J_def
proof (intro allI impI)
  fix s assume p: "pre f (t # c) d k s"
  then obtain r where r: "ps_tk s = t # r" by (blast dest: pre_Cons)
  define ts where "ts = dropWhile (\<lambda>u. kind u = TK_STR) (ps_tk s)"
  have ts: "eof_terminated ts" using p eof_dropWhile by (auto simp: ts_def pre_def)
  moreover have "length ts \<le> length r"
    by (simp add: ts_def r t length_dropWhile_le)
  ultimately have q: "pre f [] d (k - 1) (s\<lparr>ps_tk := ts\<rparr>)" and l: "length ts < length (ps_tk s)" "ts \<noteq> []"
    using p r by (auto simp: pre_def)
  have eq: "pbind (\<lambda>s. case dropWhile (\<lambda>u. kind u = TK_STR) (ps_tk s) of [] \<Rightarrow> Inl NullDeref
     | ts \<Rightarrow> Inr ((), s\<lparr>ps_tk := ts\<rparr>)) g s = g () (s\<lparr>ps_tk := ts\<rparr>)"
    using l(2) by (cases ts) (simp_all add: pbind_def flip: ts_def)
  from J_D [OF g q] show "case pbind (\<lambda>s. case dropWhile (\<lambda>u. kind u = TK_STR) (ps_tk s) of [] \<Rightarrow> Inl NullDeref
     | ts \<Rightarrow> Inr ((), s\<lparr>ps_tk := ts\<rparr>)) g s of Inl e \<Rightarrow> good_err e | Inr (x, s') \<Rightarrow> post d Q s x s'"
    unfolding eq using l(1) by (auto simp: post_def keep_def obj_at_def)
qed

lemma J_string: "kind t = TK_STR \<Longrightarrow> J f (t # c) 0 k (\<lambda>e p. p \<and> wfc e) (parse_string u)"
  unfolding parse_string_def by (intro J_pget J_skip_strings J_lasts kr) auto

lemma J_dollar: "kind t \<noteq> TK_EOF \<Longrightarrow> J f (t # c) 0 k (\<lambda>e p. p \<and> wfc e) (parse_dollar u)"
  unfolding parse_dollar_def by (intro jr J_lasts kr) auto

lemmas end_string = J_end [OF J_string]
lemmas end_dollar = J_end [OF J_dollar]

text \<open>A type's constructors.\<close>

lemma J_ty [jr]:
  assumes "y = TyVoid \<Longrightarrow> J f c d k Q m1" "\<And>a b e. y = TyInt a b e \<Longrightarrow> J f c d k Q (m2 a b e)" "y = TyF64 \<Longrightarrow> J f c d k Q m3"
    "\<And>a b. y = TyPtr a b \<Longrightarrow> J f c d k Q (m4 a b)" "\<And>a b e h. y = TyArray a b e h \<Longrightarrow> J f c d k Q (m5 a b e h)"
    "\<And>a. y = TyClass a \<Longrightarrow> J f c d k Q (m6 a)" "\<And>a b e h. y = TyFunc a b e h \<Longrightarrow> J f c d k Q (m7 a b e h)"
  shows "J f c d k Q (case y of TyVoid \<Rightarrow> m1 | TyInt a b e \<Rightarrow> m2 a b e | TyF64 \<Rightarrow> m3 | TyPtr a b \<Rightarrow> m4 a b
     | TyArray a b e h \<Rightarrow> m5 a b e h | TyClass a \<Rightarrow> m6 a | TyFunc a b e h \<Rightarrow> m7 a b e h)"
  using assms by (cases y) simp_all

lemma K_ty [kr]:
  assumes "y = TyVoid \<Longrightarrow> K Q m1" "\<And>a b e. y = TyInt a b e \<Longrightarrow> K Q (m2 a b e)" "y = TyF64 \<Longrightarrow> K Q m3"
    "\<And>a b. y = TyPtr a b \<Longrightarrow> K Q (m4 a b)" "\<And>a b e h. y = TyArray a b e h \<Longrightarrow> K Q (m5 a b e h)"
    "\<And>a. y = TyClass a \<Longrightarrow> K Q (m6 a)" "\<And>a b e h. y = TyFunc a b e h \<Longrightarrow> K Q (m7 a b e h)"
  shows "K Q (case y of TyVoid \<Rightarrow> m1 | TyInt a b e \<Rightarrow> m2 a b e | TyF64 \<Rightarrow> m3 | TyPtr a b \<Rightarrow> m4 a b
     | TyArray a b e h \<Rightarrow> m5 a b e h | TyClass a \<Rightarrow> m6 a | TyFunc a b e h \<Rightarrow> m7 a b e h)"
  using assms by (cases y) simp_all

lemma J_offset: "kind t \<noteq> TK_EOF \<Longrightarrow> J f (t # c) 0 k (\<lambda>e p. p \<and> wfc e) (parse_offset u)"
  unfolding parse_offset_def
  by (rule J_first, simp only: pm_unfold, intro seq_typespec seq_name jr J_keeps kr) (auto dest: tok_eof)

lemmas end_offset = J_end [OF J_offset]

text \<open>The token after the current one is the start of a type.\<close>

lemma J_next_type:
  assumes t: "kind t \<noteq> TK_EOF" and g: "\<And>b u. (b \<Longrightarrow> kind u \<noteq> TK_EOF) \<Longrightarrow> J f [t, u] d k Q (g b)"
  shows "J f [t] d k Q (pbind (pget (\<lambda>s. tl (ps_tk s))) (\<lambda>nx. pbind (is_type_start nx) g))"
  unfolding J_def
proof (intro allI impI)
  fix s assume p: "pre f [t] d k s"
  then obtain u r where r: "ps_tk s = t # u # r" using t by (cases "ps_tk s"; cases "tl (ps_tk s)") (auto simp: pre_def)
  with p have q: "pre f [t, u] d k s" by (simp add: pre_def)
  define b where "b = (if kind u = TK_TYPE then builtin_type (str u) \<noteq> None else kind u = TK_ID \<and> type_at s (u # r) \<noteq> None)"
  have eq: "pbind (pget (\<lambda>s. tl (ps_tk s))) (\<lambda>nx. pbind (is_type_start nx) g) s = g b s"
    using r by (simp add: pbind_def pget_def is_type_start_def b_def)
  have "b \<Longrightarrow> kind u \<noteq> TK_EOF" by (auto simp: b_def split: if_splits)
  then have "J f [t, u] d k Q (g b)" by (rule g)
  from J_D [OF this q]
  show "case pbind (pget (\<lambda>s. tl (ps_tk s))) (\<lambda>nx. pbind (is_type_start nx) g) s of Inl e \<Rightarrow> good_err e
      | Inr (x, s') \<Rightarrow> post d Q s x s'"
    unfolding eq by auto
qed

lemma J_next_type2:
  assumes g: "\<And>b. (b \<Longrightarrow> kind u \<noteq> TK_EOF) \<Longrightarrow> J f (t # u # c) d k Q (g b)"
  shows "J f (t # u # c) d k Q (pbind (pget (\<lambda>s. tl (ps_tk s))) (\<lambda>nx. pbind (is_type_start nx) g))"
  unfolding J_def
proof (intro allI impI)
  fix s assume p: "pre f (t # u # c) d k s"
  then obtain r where r: "ps_tk s = t # u # r" by (auto simp: pre_def prefix_def)
  define b where "b = (if kind u = TK_TYPE then builtin_type (str u) \<noteq> None else kind u = TK_ID \<and> type_at s (u # r) \<noteq> None)"
  have eq: "pbind (pget (\<lambda>s. tl (ps_tk s))) (\<lambda>nx. pbind (is_type_start nx) g) s = g b s"
    using r by (simp add: pbind_def pget_def is_type_start_def b_def)
  have "b \<Longrightarrow> kind u \<noteq> TK_EOF" by (auto simp: b_def split: if_splits)
  then have "J f (t # u # c) d k Q (g b)" by (rule g)
  from J_D [OF this p]
  show "case pbind (pget (\<lambda>s. tl (ps_tk s))) (\<lambda>nx. pbind (is_type_start nx) g) s of Inl e \<Rightarrow> good_err e
      | Inr (x, s') \<Rightarrow> post d Q s x s'"
    unfolding eq by auto
qed

lemma J_kpair:
  "K wfc_pair v \<Longrightarrow> (\<And>a b. wfc b \<Longrightarrow> (\<forall>e. a = Some e \<longrightarrow> wfc e) \<Longrightarrow> J f c d k Q (j a b)) \<Longrightarrow> J f c d k Q (pbind v (\<lambda>(a, b). j a b))"
  by (erule J_keep) (auto simp: wfc_pair_def)

text \<open>The state of a chain of comparisons.\<close>

fun rel_ok :: "node \<times> node option \<Rightarrow> bool" where
  "rel_ok (a, None) = wfc a"
| "rel_ok (a, Some e) = (wfc a \<and> wfc e)"

lemma rel_ok_D: "rel_ok (a, b) \<Longrightarrow> wfc a" "rel_ok (a, Some e) \<Longrightarrow> wfc e"
  by (cases b) simp_all

lemma rel_ok_case: "rel_ok (a, b) \<Longrightarrow> wfc (case b of None \<Rightarrow> a | Some e \<Rightarrow> e)"
  by (cases b) simp_all

lemma rel_ok_I: "wfc a \<Longrightarrow> wfc e \<Longrightarrow> rel_ok (a, Some e)"
  by simp

declare rel_ok.simps [simp del]

section \<open>The circle of calls\<close>

text \<open>With \<open>n\<close> turns of the knot a token chain of length \<open>k\<close> is parsed when \<open>n\<close> is as large as
  below; the inline assembler consumes the block it reads.\<close>

locale parser_calls =
  fixes rc :: calls and env :: penv and n :: nat
  assumes expr: "2 * k + 2 \<le> n \<Longrightarrow> J f c 0 k (\<lambda>e p. p \<and> wfc e) (c_expr rc)"
    and unary: "2 * k + 1 \<le> n \<Longrightarrow> J f c 0 k (\<lambda>e p. p \<and> wfc e) (c_unary rc)"
    and fptr: "2 * k + 1 \<le> n \<Longrightarrow> J f c 0 k (\<lambda>_ p. p) (c_fptr rc y b w)"
    and stmt: "2 * k + 3 \<le> n \<Longrightarrow> J (Some cur) c 0 k (\<lambda>_ p. p) (c_stmt rc)"
    and asm_good: "eof_terminated ts \<Longrightarrow> pe_asm env ts i b = Inl e \<Longrightarrow> good_err e"
    and asm_rest: "eof_terminated ts \<Longrightarrow> pe_asm env ts i b = Inr (a, ts') \<Longrightarrow> eof_terminated ts' \<and> length ts' < length ts"
begin

lemmas seq_expr = J_seqT [OF expr]
lemmas end_expr = J_end [OF expr]
lemmas seq_unary = J_seqT [OF unary]
lemmas end_unary = J_end [OF unary]
lemmas seq_fptr = J_seqT [where P = "\<lambda>_. True", OF J_end [OF fptr]]
lemmas end_fptr = J_end [OF fptr]
lemmas seq_stmt = J_seqT [where P = "\<lambda>_. True", OF J_end [OF stmt]]

lemmas seqs = seq_typespec seq_base_type seq_stars seq_expr seq_unary seq_fptr end_expr end_unary end_fptr

subsection \<open>Type names\<close>

lemma const: "2 * k + 2 \<le> n \<Longrightarrow> J f c 0 k (\<lambda>_ p. p) (const_expr rc env)"
  unfolding const_expr_def by (intro seqs J_lasts kr) auto

lemmas seq_const = J_seqT [where P = "\<lambda>_. True", OF J_end [OF const]]

lemma param_arrays: "2 * k \<le> n \<Longrightarrow> J f c 0 k (\<lambda>_ _. True) (param_arrays rc env y)"
  unfolding param_arrays_def
  by (rule J_start, simp only: pm_unfold, intro J_while [where P = "\<lambda>_. True"] seq_const jr) (auto dest: tok_eof)

lemma param_name: "2 * k + 1 \<le> n \<Longrightarrow> J f c 0 k (\<lambda>_ _. True) (param_name rc y w)"
  unfolding param_name_def take_name_def
  by (rule J_start, simp only: pm_unfold, intro seqs jr J_keeps kr) (auto dest: tok_eof)

lemmas seq_param_arrays = J_seqF [OF param_arrays]
lemmas seq_param_name = J_seqF [OF param_name]

lemma fptr_param: "2 * k + 1 \<le> n \<Longrightarrow> J f c 0 k (turn (\<lambda>_. True) (\<lambda>_. True)) (fptr_param rc env i)"
  unfolding fptr_param_def
  by (rule J_start, simp only: pm_unfold, intro seqs seq_param_arrays seq_param_name jr J_keeps kr)
     (auto dest: tok_eof)

lemmas seq_fptr_param = J_seqC [OF fptr_param]

lemma funcptr_params: "2 * k + 1 \<le> n \<Longrightarrow> J f c 0 k (\<lambda>_ _. True) (parse_funcptr_params rc env y)"
  unfolding parse_funcptr_params_def
  by (rule J_start, simp only: pm_unfold sum.case, intro J_while_seq [where P = "\<lambda>_. True" and R = "\<lambda>_. True"] seq_fptr_param jr J_keeps kr)
     (auto dest: tok_eof)

lemmas end_funcptr_params = J_end [OF funcptr_params]

lemma funcptr_declarator: "2 * k \<le> n \<Longrightarrow> J f c 0 k (\<lambda>_ p. p) (parse_funcptr_declarator rc env y b w)"
  unfolding parse_funcptr_declarator_def take_name_def
  by (rule J_start, simp only: pm_unfold, intro J_seqF [OF funcptr_params] jr J_keeps kr) (auto dest: tok_eof)

lemmas seq_funcptr_declarator = J_seqT [where P = "\<lambda>_. True", OF J_end [OF funcptr_declarator]]

subsection \<open>Primary expressions\<close>

lemma parse_args: "2 * k + 2 \<le> n \<Longrightarrow> J f c 0 k (\<lambda>_ _. True) (parse_args rc)"
  unfolding parse_args_def
  by (rule J_start, simp only: pm_unfold, rule J_seqF [OF J_while_first [where P = "\<lambda>x. \<not> snd x" and R = "\<lambda>_. True"]];
      intro seqs jr J_keeps kr) (auto dest: tok_eof)

lemma comma_expr: "2 * k + 2 \<le> n \<Longrightarrow> J f c 0 k (\<lambda>e p. p \<and> wfc e) (comma_expr rc)"
  unfolding comma_expr_def
  by (rule J_start, intro seq_expr J_while_last [where P = wfc and R = wfc]; (simp only: pm_unfold, intro seqs jr J_keeps kr)?)
     (auto dest: tok_eof)

lemmas seq_args = J_seqF [OF parse_args]
lemmas seq_comma = J_seqT [OF comma_expr]

lemma sizeof: "2 * k \<le> n \<Longrightarrow> kind t \<noteq> TK_EOF \<Longrightarrow> J f (t # c) 0 k (\<lambda>e p. p \<and> wfc e) (parse_sizeof rc u)"
  unfolding parse_sizeof_def
  by (rule J_first, simp only: pm_unfold, intro seqs seq_comma jr J_keeps kr J_lasts) (auto dest: tok_eof)

lemmas end_sizeof = J_end [OF sizeof]

lemma name: "2 * k \<le> n \<Longrightarrow> kind t \<noteq> TK_EOF \<Longrightarrow> J f (t # c) 0 k (\<lambda>e p. p \<and> wfc e) (parse_name rc u)"
  unfolding parse_name_def
  by (rule J_first, simp only: pm_unfold, intro seq_args jr J_keeps J_lasts kr) (auto dest: tok_eof)

lemmas end_name = J_end [OF name]

lemma primary: "2 * k \<le> n \<Longrightarrow> J f c 0 k (\<lambda>e p. p \<and> wfc e) (primary rc)"
  unfolding primary_def
  by (rule J_start, simp only: pm_unfold, intro seq_comma end_sizeof end_name end_string end_dollar end_offset jr kr)
     (auto simp: kind_lists dest: tok_eof)

lemmas seq_primary = J_seqT [OF primary]

subsection \<open>Postfix and prefix operators\<close>

lemma cast: "2 * k + 1 \<le> n \<Longrightarrow> kind t \<noteq> TK_EOF \<Longrightarrow> wfc e \<Longrightarrow> J f (t # c) 0 k (\<lambda>e p. wfc e) (parse_cast rc e u)"
  unfolding parse_cast_def
  by (rule J_first, simp only: pm_unfold, intro seqs jr J_keeps kr) (auto dest: tok_eof)

lemma index: "2 * k + 2 \<le> n \<Longrightarrow> wfc e \<Longrightarrow> J f c 0 k (\<lambda>e p. wfc e) (parse_index rc e u)"
  unfolding parse_index_def
  by (rule J_start, simp only: pm_unfold, intro seq_comma jr J_keeps J_lasts kr) (auto dest: tok_eof)

lemma subint: "wfc e \<Longrightarrow> kind t \<noteq> TK_EOF \<Longrightarrow> J f (t # c) 0 k (\<lambda>e p. wfc e) (subint_access e u)"
  unfolding subint_access_def Let_def
  by (intro jr J_keeps kr) auto

lemmas end_subint = J_end [OF subint]

lemma member: "kind t \<noteq> TK_EOF \<Longrightarrow> wfc e \<Longrightarrow> J f (t # c) 0 k (\<lambda>e p. p \<and> wfc e) (parse_member b e u)"
  unfolding parse_member_def
  by (rule J_first, simp only: pm_unfold, intro seq_name end_subint jr J_keeps kr) (auto simp: kind_lists dest: tok_eof)

lemmas seq_cast = J_seqF [OF cast]
lemmas seq_index = J_seqF [OF index]
lemmas seq_member = J_seqT [OF member]

lemma postfix_step: "2 * k \<le> n \<Longrightarrow> wfc e \<Longrightarrow> J f c 0 k (turn wfc wfc) (postfix_step rc e)"
  unfolding postfix_step_def
  by (rule J_start, simp only: pm_unfold, intro J_next_type seq_cast seq_index seq_member seq_args jr J_keeps kr)
     (auto dest: tok_eof)

lemma postfix: "2 * k \<le> n \<Longrightarrow> J f c 0 k (\<lambda>e p. p \<and> wfc e) (postfix rc)"
  unfolding postfix_def
  by (rule J_start, intro seq_primary J_while_last [where P = wfc and R = wfc] postfix_step) auto

lemmas end_postfix = J_end [OF postfix]

lemma K_neg [kr]: "wfc e \<Longrightarrow> K wfc (neg_node e t)"
  unfolding neg_node_def by (intro kr) auto

lemma addr: "2 * k + 1 \<le> n \<Longrightarrow> J f c 0 k (\<lambda>e p. p \<and> wfc e) (parse_addr rc t)"
  unfolding parse_addr_def
  by (rule J_start, intro seq_unary jr J_keeps J_lasts kr) (simp_all add: kind_lists split: if_split_asm)

lemmas end_addr = J_end [OF addr]

lemma unary_body: "2 * k \<le> n \<Longrightarrow> J f c 0 k (\<lambda>e p. p \<and> wfc e) (unary_body rc)"
  unfolding unary_body_def
  by (rule J_start, intro J_eat J_if_const seqs end_addr end_postfix jr J_keeps J_lasts kr) (auto dest: tok_eof)

lemmas end_unary_body = J_end [OF unary_body]

subsection \<open>Binary operators and assignment\<close>

text \<open>A level needs of the next one only that it parses.\<close>

lemma level:
  assumes nxt: "\<And>j. j \<le> k \<Longrightarrow> J f [] 0 j (\<lambda>e p. p \<and> wfc e) nxt"
  shows "J f c 0 k (\<lambda>e p. p \<and> wfc e) (level ops nxt)"
  unfolding level_def
  by (rule J_start, intro J_seqT [OF nxt] J_while_last [where P = wfc and R = wfc] jr J_keeps kr)
     (simp_all add: op_eof)

lemma addsub: "2 * k + 1 \<le> n \<Longrightarrow> J f c 0 k (\<lambda>e p. p \<and> wfc e) (addsub rc)"
  unfolding addsub_def bitor_lv_def bitxor_lv_def bitand_lv_def mul_def powshift_def
  by (intro level unary) simp

lemmas seq_addsub = J_seqT [OF addsub]

lemma rel_step: "2 * k + 1 \<le> n \<Longrightarrow> rel_ok st \<Longrightarrow> J f c 0 k (turn rel_ok wfc) (rel_step rc st)"
  unfolding rel_step_def Let_def
  apply (cases st, rule J_start, simp only: pm_unfold prod.case, intro seq_addsub jr J_keeps kr)
                      apply (auto dest: op_eof rel_ok_D(1))
  apply (erule rel_ok_case rel_ok_D(2) | rule rel_ok_I, assumption, assumption)+
  done

lemma relational: "2 * k + 1 \<le> n \<Longrightarrow> J f c 0 k (\<lambda>e p. p \<and> wfc e) (relational rc)"
  unfolding relational_def
  by (rule J_start, intro seq_addsub J_while_last [where P = rel_ok and R = wfc] rel_step) (auto simp: rel_ok.simps)

lemma logor: "2 * k + 1 \<le> n \<Longrightarrow> J f c 0 k (\<lambda>e p. p \<and> wfc e) (logor rc)"
  unfolding logor_def logxor_def logand_def equality_def
  by (intro level relational) simp

lemmas seq_logor = J_seqT [OF logor]

lemma assign_body: "2 * k + 1 \<le> n \<Longrightarrow> J f c 0 k (\<lambda>e p. p \<and> wfc e) (assign_body rc)"
  unfolding assign_body_def
  by (rule J_start, intro seq_logor J_eat J_if_const seqs J_kpair [OF K_lval_addr_temp] jr J_keeps J_lasts kr)
     (simp_all add: op_eof)

end

end
