(* ===== verification/ParseTotalStmt.thy ===== *)
theory ParseTotalStmt
  imports ParseTotal
begin

text \<open>
  The rules of \<open>ParseRules\<close> applied to statements, switches and local declarations.
\<close>

section \<open>The current function\<close>

lemma J_get_cur:
  "(cur \<noteq> NoFn \<Longrightarrow> J (Some cur) c d k Q (g cur)) \<Longrightarrow> J (Some cur) c d k Q (pbind (pget ps_cur) g)"
  by (auto simp: J_def pbind_def pget_def pre_def fn_ok_def)

lemma J_get_sret:
  "(\<And>cs v. J (Some (InFn (TyClass cl))) c d k Q (g (cs, Some v))) \<Longrightarrow>
   J (Some (InFn (TyClass cl))) c d k Q (pbind (pget (\<lambda>s. (ps_classes s, find_var s ''__sret''))) g)"
proof (unfold J_def, intro allI impI)
  fix s assume g: "\<And>cs v. \<forall>s. pre (Some (InFn (TyClass cl))) c d k s \<longrightarrow>
      (case g (cs, Some v) s of Inl e \<Rightarrow> good_err e | Inr (x, s') \<Rightarrow> post d Q s x s')"
    and p: "pre (Some (InFn (TyClass cl))) c d k s"
  from p have "fn_ok (InFn (TyClass cl)) (ps_scope s)" by (auto simp: pre_def dest: fn_ok_outer)
  then obtain v where "find_var s ''__sret'' = Some v" by (auto simp: fn_ok_def find_var_def)
  then show "case pbind (pget (\<lambda>s. (ps_classes s, find_var s ''__sret''))) g s of Inl e \<Rightarrow> good_err e
      | Inr (x, s') \<Rightarrow> post d Q s x s'"
    using g p by (simp add: pbind_def pget_def)
qed

lemma J_cur_fn [jr]:
  "(x = NoFn \<Longrightarrow> J f c d k Q m) \<Longrightarrow> (x = StartFn \<Longrightarrow> J f c d k Q m') \<Longrightarrow> (\<And>y. x = InFn y \<Longrightarrow> J f c d k Q (h y)) \<Longrightarrow>
   J f c d k Q (case x of NoFn \<Rightarrow> m | StartFn \<Rightarrow> m' | InFn y \<Rightarrow> h y)"
  by (cases x) simp_all

lemma J_skip_reg: "J f c 0 k (\<lambda>_ _. True) skip_reg"
  unfolding skip_reg_def pwhen_def
  by (simp only: pm_unfold, intro J_while [where P = "\<lambda>_. True"] jr, auto dest: tok_eof)

lemma J_no_warn: "J f c 0 k (\<lambda>_ p. p) (parse_no_warn t)"
  unfolding parse_no_warn_def
  by (rule J_start, rule J_seqT [OF J_while_all [where P = "\<lambda>_. True" and R = "\<lambda>_. True"]];
      (simp only: pm_unfold)?; intro jr; auto dest: tok_eof)

section \<open>Print statements and declarations\<close>

context parser_calls begin

lemma print_args: "2 * k \<le> n \<Longrightarrow> J f c 0 k (\<lambda>_ _. True) (print_args rc as)"
  unfolding print_args_def
  by (rule J_start, simp only: pm_unfold, intro J_while [where P = "\<lambda>_. True"] seqs jr, auto dest: tok_eof)

lemma print_stmt: "2 * k \<le> n \<Longrightarrow> J f c 0 k (\<lambda>_ p. p) (print_stmt rc)"
  unfolding print_stmt_def
  by (rule J_start, simp only: pm_unfold, intro J_seqF [OF print_args] seq_primary seqs jr J_keeps kr, auto dest: tok_eof)

lemma array_bounds: "2 * k \<le> n \<Longrightarrow> J f c 0 k (\<lambda>_ _. True) (array_bounds rc env y)"
  unfolding array_bounds_def
  by (rule J_start, simp only: pm_unfold, intro J_while [where P = "\<lambda>_. True"] seq_comma jr J_keeps kr, auto dest: tok_eof)

lemma init_list: "2 * k + 2 \<le> n \<Longrightarrow> J f c 0 k (\<lambda>_ _. True) (init_list rc v y t)"
  unfolding init_list_def
  by (rule J_start, simp only: pm_unfold, intro J_while_seq [where P = "\<lambda>_. True" and R = "\<lambda>_. True"] seqs jr J_keeps kr,
      auto simp: kind_lists dest: tok_eof)

lemma var_init: "2 * k + 2 \<le> n \<Longrightarrow> J f c 0 k (\<lambda>_ _. True) (var_init rc v y t)"
  unfolding var_init_def
  by (rule J_start, simp only: pm_unfold, intro J_end [OF init_list] seqs jr J_keeps kr, auto dest: tok_eof)

lemma opt_init:
  assumes "\<And>j. j < k \<Longrightarrow> J f [] 0 j (\<lambda>_ _. True) m"
  shows "J f c 0 k (\<lambda>_ _. True) (opt_init m)"
  unfolding opt_init_def
  by (rule J_start, simp only: pm_unfold, intro assms jr, auto dest: tok_eof)

lemma local_declarator: "2 * k + 1 \<le> n \<Longrightarrow> J f c 0 k (\<lambda>_ p. p) (local_declarator rc env y h t)"
  unfolding local_declarator_def
  by (rule J_start, simp only: pm_unfold,
      intro J_seqF [OF J_skip_reg] seqs seq_name J_seqF [OF array_bounds] J_end [OF opt_init] var_init jr J_keeps kr,
      auto dest: tok_eof)

lemma declarators:
  assumes d: "\<And>b j c. j \<le> k \<Longrightarrow> J f c 0 j (\<lambda>_ p. p) (d b)"
  shows "J f c 0 k (\<lambda>_ p. p) (declarators d)"
  unfolding declarators_def
  by (rule J_start, simp only: pm_unfold,
      intro J_while_seq [where P = "\<lambda>_. True" and R = "\<lambda>_. True"] J_seqT [where P = "\<lambda>_. True", OF J_end [OF d]] jr,
      auto dest: tok_eof)

lemma local_decl: "2 * k \<le> n \<Longrightarrow> kind t \<noteq> TK_EOF \<Longrightarrow> J f (t # c) 0 k (\<lambda>_ p. p) (local_decl rc env)"
  unfolding local_decl_def
  by (rule J_first,
      intro seqs J_seqT [where P = "\<lambda>_. True", OF J_end [OF declarators]] local_declarator jr J_keeps kr,
      auto dest: tok_eof)

lemmas end_local_decl = J_end [OF local_decl]

subsection \<open>Control flow\<close>

lemma block: "2 * k + 1 \<le> n \<Longrightarrow> J (Some cur) c 0 k (\<lambda>_ p. p) (block_stmt rc)"
  unfolding block_stmt_def
  by (rule J_start, simp only: pm_unfold,
      intro J_while_seq [where P = "\<lambda>_. True" and R = "\<lambda>_. True"] seq_stmt jr, auto dest: tok_eof)

lemmas seq_block = J_seqT [where P = "\<lambda>_. True", OF J_end [OF block]]
lemmas end_block = J_end [OF block]

lemma paren_cond: "2 * k \<le> n \<Longrightarrow> J f c 0 k (\<lambda>_ p. p) (paren_cond rc)"
  unfolding paren_cond_def
  by (rule J_start, simp only: pm_unfold, intro seq_comma jr J_keeps kr, auto dest: tok_eof)

lemmas seq_paren_cond = J_seqT [where P = "\<lambda>_. True", OF J_end [OF paren_cond]]

lemma loop_body: "2 * k + 3 \<le> n \<Longrightarrow> J (Some cur) c 0 k (\<lambda>_ p. p) (loop_body rc w)"
  unfolding loop_body_def
  by (rule J_start, intro seq_stmt jr J_keeps kr, auto)

lemmas seq_loop_body = J_seqT [where P = "\<lambda>_. True", OF J_end [OF loop_body]]

lemma parse_if: "2 * k + 1 \<le> n \<Longrightarrow> kind t \<noteq> TK_EOF \<Longrightarrow> J (Some cur) (t # c) 0 k (\<lambda>_ p. p) (parse_if rc u)"
  unfolding parse_if_def
  by (rule J_first, simp only: pm_unfold, intro seq_paren_cond seq_stmt jr J_keeps kr, auto dest: tok_eof)

lemma parse_while: "2 * k + 1 \<le> n \<Longrightarrow> kind t \<noteq> TK_EOF \<Longrightarrow> J (Some cur) (t # c) 0 k (\<lambda>_ p. p) (parse_while rc u)"
  unfolding parse_while_def
  by (rule J_first, intro seq_paren_cond seq_loop_body jr, auto)

lemma parse_do: "2 * k + 1 \<le> n \<Longrightarrow> kind t \<noteq> TK_EOF \<Longrightarrow> J (Some cur) (t # c) 0 k (\<lambda>_ p. p) (parse_do rc u)"
  unfolding parse_do_def
  by (rule J_first, simp only: pm_unfold, intro seq_paren_cond seq_loop_body jr, auto dest: tok_eof)

lemma for_init: "2 * k + 2 \<le> n \<Longrightarrow> J f c 0 k (\<lambda>_ p. p) (for_init rc env u)"
  unfolding for_init_def
  by (rule J_start, simp only: pm_unfold,
      intro J_seqT [where P = "\<lambda>_. True", OF end_local_decl] seq_comma jr J_keeps kr, auto dest: tok_eof)

lemma parse_for: "2 * k + 1 \<le> n \<Longrightarrow> kind t \<noteq> TK_EOF \<Longrightarrow> J (Some cur) (t # c) 0 k (\<lambda>_ p. p) (parse_for rc env u)"
  unfolding parse_for_def
  by (rule J_first, simp only: pm_unfold,
      intro J_seqT [where P = "\<lambda>_. True", OF J_end [OF for_init]] seq_comma seq_loop_body jr J_keeps kr, auto dest: tok_eof)

lemma K_return_tail [kr]: "K (\<lambda>_. True) (call_named w as t)"
  by (rule K_weaken [OF K_call_named]) simp

lemma return_class: "wfc e \<Longrightarrow> J (Some (InFn (TyClass cl))) c 0 k (\<lambda>_ _. True) (return_class cl e t)"
  unfolding return_class_def
  by (intro J_get_sret jr J_keeps kr, auto)

lemma parse_break: "kind t \<noteq> TK_EOF \<Longrightarrow> J f (t # c) 0 k (\<lambda>_ p. p) (parse_break u)"
  unfolding parse_break_def
  by (rule J_first, simp only: pm_unfold, intro jr, auto dest: tok_eof)

lemma parse_goto: "kind t \<noteq> TK_EOF \<Longrightarrow> J f (t # c) 0 k (\<lambda>_ p. p) (parse_goto u)"
  unfolding parse_goto_def
  by (rule J_first, simp only: pm_unfold, intro seq_name jr J_keeps kr, auto dest: tok_eof)

lemma parse_try: "2 * k \<le> n \<Longrightarrow> kind t \<noteq> TK_EOF \<Longrightarrow> J (Some cur) (t # c) 0 k (\<lambda>_ p. p) (parse_try rc u)"
  unfolding parse_try_def
  by (rule J_first, simp only: pm_unfold, intro seq_block jr, auto dest: tok_eof)

lemma wfc_ret_conv [simp]: "wfc e \<Longrightarrow> wfc (ret_conv y e)"
  by (simp add: ret_conv_def)

lemma return_value:
  assumes "wfc e"
  shows "J (Some cur) c 0 k (\<lambda>_ _. True) (pbind (ret_type cur) (\<lambda>rt. return_value rt (ret_conv rt e) t))"
proof (cases cur)
  case NoFn
  then show ?thesis by (simp add: J_def pre_def fn_ok_def)
next
  case StartFn
  then show ?thesis
    unfolding return_value_def ret_type_def StartFn cur_fn.case pm_laws by (intro jr J_keeps kr, auto simp: ty_i64_def)
next
  case (InFn y)
  show ?thesis
  proof (cases "\<exists>cl. y = TyClass cl")
    case True
    then show ?thesis
      unfolding return_value_def ret_type_def InFn cur_fn.case pm_laws
      by (elim exE, simp only: ty.case, intro J_end [OF return_class] jr J_keeps kr, auto simp: assms)
  next
    case False
    then show ?thesis
      unfolding return_value_def ret_type_def InFn cur_fn.case pm_laws by (intro jr J_keeps kr, auto)
  qed
qed

lemma return_value_seq:
  assumes "wfc e" "\<And>x. J (Some cur) [] d k Q (g x)"
  shows "J (Some cur) c d k Q (pbind (ret_type cur) (\<lambda>rt. pbind (return_value rt (ret_conv rt e) t) g))"
  using J_seqF [OF return_value [OF assms(1)], where g = g] assms(2) by (simp add: pm_laws)

lemma parse_return: "2 * k \<le> n \<Longrightarrow> kind t \<noteq> TK_EOF \<Longrightarrow> J (Some cur) (t # c) 0 k (\<lambda>_ p. p) (parse_return rc u)"
  unfolding parse_return_def
  by (rule J_first, simp only: pm_unfold, intro J_get_cur return_value_seq seq_comma jr J_keeps kr, auto dest: tok_eof)

lemma run_asm: "J f c 0 k (\<lambda>_ p. p) (run_asm env b)"
  using asm_good asm_rest
  by (fastforce simp: J_def run_asm_def pre_def post_def keep_def obj_at_def split: sum.splits)

lemmas seq_asm = J_seqT [where P = "\<lambda>_. True", OF J_end [OF run_asm]]

lemma asm_stmt: "J f c 0 k (\<lambda>_ p. p) (parse_asm_stmt env t)"
  unfolding parse_asm_stmt_def
  by (rule J_start, intro seq_asm jr J_keeps kr, auto)

lemma stmt_other: "2 * k + 2 \<le> n \<Longrightarrow> J f (t # c) 0 k (\<lambda>_ p. p) (stmt_other rc env t)"
  unfolding stmt_other_def is_decl_def
  by (rule J_first, simp only: pm_unfold, intro end_local_decl J_end [OF print_stmt] seq_comma jr J_keeps kr, auto dest: tok_eof)

subsection \<open>Switches\<close>

lemma parse_case: "2 * k \<le> n \<Longrightarrow> kind t \<noteq> TK_EOF \<Longrightarrow> J f (t # c) 0 k (\<lambda>_ p. p) (parse_case rc env u sw)"
  unfolding parse_case_def
  by (rule J_first, simp only: pm_unfold, intro seq_const jr J_keeps kr, auto dest: tok_eof)

lemmas seq_case = J_seqT [where P = "\<lambda>_. True", OF J_end [OF parse_case]]

lemma parse_start: "kind t \<noteq> TK_EOF \<Longrightarrow> kind u \<noteq> TK_EOF \<Longrightarrow> J f [t, u] 0 k (\<lambda>_ p. p) (parse_start v sw)"
  unfolding parse_start_def
  by (simp only: pm_unfold, intro jr J_keeps kr, auto)

lemma parse_end: "kind t \<noteq> TK_EOF \<Longrightarrow> kind u \<noteq> TK_EOF \<Longrightarrow> J f [t, u] 0 k (\<lambda>_ p. p) (parse_end v sw)"
  unfolding parse_end_def
  by (intro jr J_keeps kr, auto)

lemmas seq_start = J_seqT [where P = "\<lambda>_. True", OF J_end [OF parse_start]]
lemmas seq_end = J_seqT [where P = "\<lambda>_. True", OF J_end [OF parse_end]]

lemma sw_step: "2 * k + 3 \<le> n \<Longrightarrow> J (Some cur) c 0 k (turn (\<lambda>_. True) (\<lambda>_. True)) (sw_step rc env sw)"
  unfolding sw_step_def kw_colon_def
  by (rule J_start, simp only: pm_unfold, intro seq_case seq_start seq_end seq_stmt jr J_keeps kr, auto dest: tok_eof)

lemma switch_stmt: "2 * k + 1 \<le> n \<Longrightarrow> J (Some cur) c 0 k (\<lambda>_ _. True) (switch_stmt rc env t)"
  unfolding switch_stmt_def
  by (rule J_start, simp only: pm_unfold,
      intro J_while_seq [where P = "\<lambda>_. True" and R = "\<lambda>_. True"] sw_step seq_comma jr J_keeps J_lasts kr, auto dest: tok_eof)

subsection \<open>Statements\<close>

lemma stmt_body: "2 * k + 2 \<le> n \<Longrightarrow> J (Some cur) c 0 k (\<lambda>_ p. p) (stmt_body rc env)"
  unfolding stmt_body_def
  apply (rule J_start, simp only: pm_unfold,
      intro J_end [OF parse_if] J_end [OF parse_while] J_end [OF parse_do] J_end [OF parse_for] J_end [OF switch_stmt]
        J_end [OF parse_return] J_end [OF parse_break] J_end [OF parse_goto] J_end [OF parse_try] J_end [OF J_no_warn]
        J_end [OF asm_stmt] J_end [OF stmt_other] end_block jr J_keeps kr)
  apply (auto dest: tok_eof)
  done

end

end
