(* ===== verification/ParseTotalDecl.thy ===== *)
theory ParseTotalDecl
  imports ParseTotalStmt
begin

text \<open>
  The rules of \<open>ParseRules\<close> applied to parameters, functions, classes, globals and top-level items.
\<close>

section \<open>A function's scope\<close>

text \<open>Inside: the current function is the one that returns \<open>ret\<close>.\<close>

definition in_fn :: "ty \<Rightarrow> nat \<Rightarrow> parser \<Rightarrow> bool" where
  "in_fn ret k s \<longleftrightarrow> pre None [] 0 k s \<and> ps_cur s = InFn ret"

definition ok_unit :: "unit pm \<Rightarrow> parser \<Rightarrow> bool" where
  "ok_unit m s \<longleftrightarrow> (case m s of Inl e \<Rightarrow> good_err e | Inr (x, s') \<Rightarrow> post 0 (\<lambda>_ _. True) s x s')"

lemma with_function:
  assumes p: "pre f c 0 k s" and m: "\<And>s'. in_fn ret k s' \<Longrightarrow> ps_funcs s' = ps_funcs s \<Longrightarrow> ok_unit m s'"
  shows "ok_unit (with_function ret m) s"
proof -
  let ?s = "s\<lparr>ps_scope := [] # ps_scope s, ps_locals := [], ps_labels := [], ps_cur := InFn ret\<rparr>"
  have "in_fn ret k ?s" using p by (auto simp: in_fn_def pre_def)
  then have ok: "ok_unit m ?s" by (rule m) simp
  show ?thesis
  proof (cases "m ?s")
    case (Inl e)
    then show ?thesis
      using ok by (simp add: ok_unit_def with_function_def pbind_def enter_scope_def pmod_def pget_def)
  next
    case (Inr q)
    obtain x s1 where q: "q = (x, s1)" by (cases q)
    from ok have t: "post 0 (\<lambda>_ _. True) ?s x s1" by (simp add: ok_unit_def Inr q)
    then obtain sc where sc: "ps_scope s1 = sc # ps_scope s"
      by (cases "ps_scope s1") (auto simp: post_def scope_ok_def)
    have "with_function ret m s = Inr ((), s1\<lparr>ps_scope := ps_scope s, ps_locals := ps_locals s, ps_labels := ps_labels s, ps_cur := ps_cur s\<rparr>)"
      using Inr q sc by (simp add: with_function_def pbind_def enter_scope_def pmod_def pget_def leave_scope_def)
    then show ?thesis using t p by (auto simp: ok_unit_def post_def keep_def obj_at_def pre_def)
  qed
qed

lemma J_in_startup:
  assumes m: "J (Some StartFn) [] 0 k Q m"
  shows "J f c 0 k Q (in_startup m)"
  unfolding J_def
proof (intro allI impI)
  fix s assume p: "pre f c 0 k s"
  let ?s = "s\<lparr>ps_cur := StartFn, ps_locals := ps_su_locals s\<rparr>"
  have "pre (Some StartFn) [] 0 k ?s" using p by (auto simp: pre_def fn_ok_def)
  from J_D [OF m this]
  show "case in_startup m s of Inl e \<Rightarrow> good_err e | Inr (x, s') \<Rightarrow> post 0 Q s x s'"
    by (auto simp: in_startup_def pbind_def pget_def pmod_def pret_def post_def keep_def obj_at_def)
qed

section \<open>The hidden result parameter\<close>

text \<open>The first parameter of a function that returns a class has the reserved name.\<close>

definition sret_param :: "ty \<Rightarrow> parser \<Rightarrow> nat list \<Rightarrow> bool" where
  "sret_param ret s vs \<longleftrightarrow> (is_class_ty ret \<longrightarrow> (\<exists>v r. vs = v # r \<and> v < ps_uid s \<and> o_name (obj_at s v) = ''__sret''))"

lemma sret_param_keep: "sret_param ret s vs \<Longrightarrow> keep s s' \<Longrightarrow> sret_param ret s' vs"
  by (fastforce simp: sret_param_def keep_def)

lemma lookup_keep: "lookup_scopes a z \<noteq> None \<Longrightarrow> scope_ok 0 a b \<Longrightarrow> a \<noteq> [] \<Longrightarrow> lookup_scopes b z \<noteq> None"
  by (cases a; cases b) (auto simp: scope_ok_def suffix_def map_add_def split: option.splits)

lemma pbind_Inr: "m s = Inr (x, s1) \<Longrightarrow> pbind m g s = g x s1"
  by (simp add: pbind_def)

lemma pbind_pget: "pbind (pget h) g s = g (h s) s"
  by (simp add: pbind_def pget_def)

lemma K_D:
  assumes "K P m" "ps_tk s \<noteq> []" "ps_scope s \<noteq> []" "m s = Inr (x, s')"
  shows "ps_tk s' = ps_tk s" "keep s s'" "scope_ok 0 (ps_scope s) (ps_scope s')" "P x"
  using assms(1) [unfolded K_def, THEN spec, of s] assms(2-) by simp_all

lemma push_params_lookup:
  "push_params vs s = Inr (u, s') \<Longrightarrow> v \<in> set vs \<Longrightarrow> ps_tk s \<noteq> [] \<Longrightarrow> lookup_scopes (ps_scope s') (o_name (obj_at s v)) \<noteq> None"
proof (induction vs arbitrary: s)
  case (Cons w vs)
  obtain sc scs where sc: "ps_scope s = sc # scs"
    using Cons.prems(1) by (cases "ps_scope s") (auto simp: pbind_def pget_def scope_push_def)
  define s1 where "s1 = s\<lparr>ps_scope := ((o_name (obj_at s w), w) # sc) # scs\<rparr>"
  have p: "push_params vs s1 = Inr (u, s')"
    using Cons.prems(1) sc by (simp add: pbind_def pget_def scope_push_def s1_def)
  have tk: "ps_tk s1 \<noteq> []" and ob: "obj_at s1 = obj_at s" using Cons.prems(3) by (simp_all add: s1_def obj_at_def fun_eq_iff)
  show ?case
  proof (cases "v = w")
    case True
    have "scope_ok 0 (ps_scope s1) (ps_scope s')"
      by (rule K_D(3) [OF K_declare(5) tk _ p]) (simp add: s1_def)
    moreover have "lookup_scopes (ps_scope s1) (o_name (obj_at s w)) \<noteq> None" by (simp add: s1_def)
    moreover have "ps_scope s1 \<noteq> []" by (simp add: s1_def)
    ultimately show ?thesis using True lookup_keep by blast
  next
    case False
    with Cons.IH [OF p _ tk] Cons.prems(2) ob show ?thesis by simp
  qed
qed simp

lemma find_func_length: "find_func s x = Some i \<Longrightarrow> i < length (ps_funcs s)"
  by (auto simp: find_func_def find_Some_iff nth_enumerate_eq)

lemma K_cur: "K (\<lambda>_. True) cur_tok"
  by (auto simp: K_def cur_tok_def split: list.split)

lemma K_func_header: "K (\<lambda>_. True) (func_header f1 y ext pub inl link)"
  unfolding func_header_def by (intro K_unit_seq K_any_seq [OF K_cur] K_any_seq kr TrueI)

text \<open>The result of a function that starts over at \<open>l\<close> tokens from the end.\<close>

definition rewound :: "nat \<Rightarrow> parser \<Rightarrow> err + 'a \<times> parser \<Rightarrow> bool" where
  "rewound l s r \<longleftrightarrow> (case r of Inl e \<Rightarrow> good_err e
     | Inr (x, s') \<Rightarrow> eof_terminated (ps_tk s') \<and> length (ps_tk s') \<le> l \<and> keep s s' \<and> scope_ok 0 (ps_scope s) (ps_scope s'))"

lemma rewound_after: "rewound l s1 r \<Longrightarrow> post 0 Q s x s1 \<Longrightarrow> ps_scope s \<noteq> [] \<Longrightarrow> l \<le> m \<Longrightarrow> rewound m s r"
  using scope_ok_trans [of "ps_scope s" "ps_scope s1" 0] keep_trans [of s s1]
  by (auto simp: rewound_def post_def split: sum.splits)

lemma rewound_consumed:
  "rewound l s r \<Longrightarrow> l < length (ps_tk s) \<Longrightarrow> (case r of Inl e \<Rightarrow> good_err e | Inr (x, s') \<Rightarrow> post 0 (\<lambda>_ p. p) s x s')"
  by (auto simp: rewound_def post_def intro!: exI [of _ True] split: sum.splits prod.splits)

lemma rewound_post: "J f c 0 k Q m \<Longrightarrow> pre f c 0 k s \<Longrightarrow> length (ps_tk s) \<le> l \<Longrightarrow> rewound l s (m s)"
  by (drule (1) J_D) (auto simp: rewound_def post_def)

lemma J_list:
  "(xs = [] \<Longrightarrow> J f c d k Q m) \<Longrightarrow> (\<And>y ys. xs = y # ys \<Longrightarrow> J f c d k Q (g y ys)) \<Longrightarrow>
   J f c d k Q (case xs of [] \<Rightarrow> m | y # ys \<Rightarrow> g y ys)"
  by (cases xs) simp_all

lemma words_eof: "list_ex (tok_kw t) ws \<Longrightarrow> kind t \<noteq> TK_EOF"
  by (auto simp: list_ex_iff dest: tok_eof)

lemma J_item_attrs: "J f c 0 k (\<lambda>_ _. True) (item_attrs h)"
  unfolding item_attrs_def
  by (intro J_while [where P = "\<lambda>_. True"] jr J_keeps kr, auto dest: words_eof)

lemma J_item_extern: "J f c 0 k (\<lambda>_ _. True) (item_extern h)"
  unfolding item_extern_def
  by (rule J_start, simp only: pm_unfold, intro J_next_type J_next_type2 jr J_keeps kr, auto dest: tok_eof)

lemma J_item_head: "kind t \<noteq> TK_EOF \<Longrightarrow> J f (t # c) 0 k (\<lambda>_ p. p) (item_head h)"
  unfolding item_head_def
  by (rule J_first, intro seq_base_type seq_stars jr J_keeps kr, auto)

section \<open>Parameters\<close>

context parser_calls begin

lemma param_default: "2 * k \<le> n \<Longrightarrow> J f c 0 k (\<lambda>_ _. True) (param_default rc y)"
  unfolding param_default_def Let_def
  by (rule J_start, simp only: pm_unfold, intro seqs jr, auto dest: tok_eof)

lemma fn_param: "2 * k + 1 \<le> n \<Longrightarrow> J f c 0 k (turn (\<lambda>_. True) (\<lambda>_. True)) (fn_param rc env i)"
  unfolding fn_param_def
  by (rule J_start, simp only: pm_unfold,
      intro seqs seq_param_name seq_param_arrays J_seqF [OF param_default] jr J_keeps kr, auto dest: tok_eof)

lemma params_rest:
  "2 * k + 1 \<le> n \<Longrightarrow> J f c 0 k (\<lambda>r _. \<exists>vs. fst r = map fst init @ vs) (params_rest rc env ci init)"
  unfolding params_rest_def
  by (rule J_start, simp only: pm_unfold sum.case,
      intro J_while_seq [where P = "\<lambda>q. \<exists>vs. fst q = init @ vs" and R = "\<lambda>q. \<exists>vs. fst q = init @ vs"] J_seqC [OF fn_param] jr J_keeps kr,
      auto dest: tok_eof)

lemma func_body:
  assumes "2 * k + 1 \<le> n"
  shows "J (Some (InFn ret)) [] 0 k (\<lambda>_ _. True) (pbind (block_stmt rc) (\<lambda>body. pbind check_labels (\<lambda>_.
    pmod (\<lambda>s. s\<lparr>ps_funcs := (ps_funcs s)[i := (ps_funcs s ! i)\<lparr>fn_body := Some body, f_locals := ps_locals s\<rparr>]\<rparr>))))"
  using assms by (intro seq_block J_keeps J_lasts kr) simp_all

lemma func_rest:
  assumes n: "2 * k + 1 \<le> n" and s: "in_fn ret k s" and v: "sret_param ret s (f_params (ps_funcs s ! i))"
  shows "ok_unit (func_rest rc i) s"
proof -
  obtain t ts where ts: "ps_tk s = t # ts" using s by (cases "ps_tk s") (auto simp: in_fn_def pre_def)
  let ?f = "ps_funcs s ! i"
  show ?thesis
  proof (cases "tok_punct t '';'' \<or> tok_kw t '';''")
    case True
    then have "kind t \<noteq> TK_EOF" by (auto dest: tok_eof)
    with True ts s show ?thesis
      by (auto simp: ok_unit_def func_rest_def eat_def cur_tok_def advance_def pbind_def pret_def in_fn_def pre_def post_def
          keep_def obj_at_def)
  next
    case no_semi: False
    show ?thesis
    proof (cases "fn_body ?f = None")
      case True
      let ?g = "\<lambda>_. pbind (block_stmt rc) (\<lambda>body. pbind check_labels (\<lambda>_.
        pmod (\<lambda>s. s\<lparr>ps_funcs := (ps_funcs s)[i := (ps_funcs s ! i)\<lparr>fn_body := Some body, f_locals := ps_locals s\<rparr>]\<rparr>)))"
      have eq: "func_rest rc i s = pbind (push_params (f_params ?f)) ?g s"
        using no_semi ts True by (simp add: func_rest_def eat_def cur_tok_def pbind_def pret_def pget_def)
      have p: "pre None [] 0 k s" using s by (simp add: in_fn_def)
      from K_post [OF K_declare(5) [of "f_params ?f"] p] show ?thesis
      proof (elim disjE exE conjE)
        fix x s1 assume e: "push_params (f_params ?f) s = Inr (x, s1)" and p1: "pre None [] 0 k s1"
          and q: "post 0 (\<lambda>x p. True) s x s1"
        have "ps_cur s1 = InFn ret" using q s by (simp add: post_def keep_def in_fn_def)
        moreover have "is_class_ty ret \<Longrightarrow> lookup_scopes (ps_scope s1) ''__sret'' \<noteq> None"
          using push_params_lookup [OF e] v ts by (fastforce simp: sret_param_def)
        ultimately have "pre (Some (InFn ret)) [] 0 k s1"
          using p1 by (auto simp: pre_def fn_ok_def)
        from J_D [OF func_body [where i = i, OF n] this] show ?thesis
          unfolding ok_unit_def eq pbind_Inr [where m = "push_params (f_params ?f)", OF e]
        proof (elim disjE exE conjE)
          fix y s2 assume e2: "?g x s1 = Inr (y, s2)" and q2: "post 0 (\<lambda>_ _. True) s1 y s2"
          show "case ?g x s1 of Inl e \<Rightarrow> good_err e | Inr (x, s') \<Rightarrow> post 0 (\<lambda>_ _. True) s x s'"
            unfolding e2 using post_trans [OF q q2] p by (simp add: pre_def)
        qed simp
      qed (simp add: ok_unit_def eq pbind_def)
    next
      case False
      then show ?thesis
        using no_semi ts by (simp add: ok_unit_def func_rest_def eat_def cur_tok_def pbind_def pret_def pget_def perr_def pfail_def)
    qed
  qed
qed

lemma expect_paren: "J f c 0 k (\<lambda>_ p. p) (expect w)"
  by (rule J_start, simp only: pm_unfold, intro J_cur J_if jr, auto dest: tok_eof)

lemma sret_rest:
  assumes n: "2 * k + 1 \<le> n" and p: "pre None [] 0 k s"
  shows "(\<exists>e. pbind (new_obj ''__sret'' y) (\<lambda>v. params_rest rc env ci [(v, NoDefault)]) s = Inl e \<and> good_err e) \<or>
    (\<exists>r s'. pbind (new_obj ''__sret'' y) (\<lambda>v. params_rest rc env ci [(v, NoDefault)]) s = Inr (r, s')
       \<and> post 0 (\<lambda>_ _. True) s r s' \<and> sret_param ret s' (fst r))"
proof -
  define s1 where "s1 = s\<lparr>ps_uid := ps_uid s + 1, ps_vars := (ps_vars s)(ps_uid s \<mapsto> obj0 ''__sret'' y)\<rparr>"
  have eq: "pbind (new_obj ''__sret'' y) (\<lambda>v. params_rest rc env ci [(v, NoDefault)]) s
      = params_rest rc env ci [(ps_uid s, NoDefault)] s1"
    by (simp add: pbind_def new_obj_eq s1_def)
  have p1: "pre None [] 0 k s1" using p by (simp add: pre_def s1_def)
  have k1: "post 0 (\<lambda>_ _. True) s () s1" using p by (auto simp: post_def s1_def keep_def obj_at_def pre_def)
  from J_D [OF params_rest [where ci = ci and init = "[(ps_uid s, NoDefault)]", OF n] p1] show ?thesis
    unfolding eq
  proof (elim disjE exE conjE)
    fix r s2 assume e: "params_rest rc env ci [(ps_uid s, NoDefault)] s1 = Inr (r, s2)"
      and q: "post 0 (\<lambda>r _. \<exists>vs. fst r = map fst [(ps_uid s, NoDefault)] @ vs) s1 r s2"
    have "sret_param ret s1 (fst r)"
      using q by (auto simp: sret_param_def post_def s1_def obj_at_def obj0_def)
    then have "sret_param ret s2 (fst r)" using q by (auto simp: post_def intro: sret_param_keep)
    moreover have "post 0 (\<lambda>_ _. True) s1 r s2" using q by (auto simp: post_def)
    then have "post 0 (\<lambda>_ _. True) s r s2" by (rule post_trans [OF k1]) (insert p, simp add: pre_def)
    ultimately show "(\<exists>e. params_rest rc env ci [(ps_uid s, NoDefault)] s1 = Inl e \<and> good_err e) \<or>
      (\<exists>r s'. params_rest rc env ci [(ps_uid s, NoDefault)] s1 = Inr (r, s')
         \<and> post 0 (\<lambda>_ _. True) s r s' \<and> sret_param ret s' (fst r))"
      using e by blast
  qed blast
qed

lemma parse_params:
  assumes n: "2 * k \<le> n" and p: "pre None [] 0 k s"
  shows "(\<exists>e. parse_params rc env ret ci s = Inl e \<and> good_err e) \<or>
    (\<exists>r s'. parse_params rc env ret ci s = Inr (r, s') \<and> post 0 (\<lambda>_ _. True) s r s' \<and> sret_param ret s' (fst r))"
  using J_D [OF expect_paren [where w = "''(''"] p]
proof (elim disjE exE conjE)
  fix u s1 assume e: "expect ''('' s = Inr (u, s1)" and q: "post 0 (\<lambda>_ p. p) s u s1"
  have n1: "2 * (k - 1) + 1 \<le> n" and p1: "pre None [] 0 (k - 1) s1"
    using p q n by (auto simp: pre_def post_def keep_def scope_ok_def)
  have q': "post 0 (\<lambda>_ _. True) s u s1" using q by (auto simp: post_def)
  show ?thesis
  proof (cases "is_class_ty ret")
    case True
    have eq: "parse_params rc env ret ci s = pbind (new_obj ''__sret'' (TyPtr ret False)) (\<lambda>v. params_rest rc env ci [(v, NoDefault)]) s1"
      by (simp add: parse_params_def pbind_Inr [where m = "expect ''(''", OF e] True)
    from sret_rest [OF n1 p1, where y = "TyPtr ret False" and ci = ci and ret = ret] show ?thesis
      unfolding eq
    proof (elim disjE exE conjE)
      fix r s2 assume e2: "pbind (new_obj ''__sret'' (TyPtr ret False)) (\<lambda>v. params_rest rc env ci [(v, NoDefault)]) s1 = Inr (r, s2)"
        and q2: "post 0 (\<lambda>_ _. True) s1 r s2" and v: "sret_param ret s2 (fst r)"
      have "post 0 (\<lambda>_ _. True) s r s2" using post_trans [OF q' q2] p by (simp add: pre_def)
      then show "(\<exists>e. pbind (new_obj ''__sret'' (TyPtr ret False)) (\<lambda>v. params_rest rc env ci [(v, NoDefault)]) s1 = Inl e \<and> good_err e) \<or>
          (\<exists>r s'. pbind (new_obj ''__sret'' (TyPtr ret False)) (\<lambda>v. params_rest rc env ci [(v, NoDefault)]) s1 = Inr (r, s')
            \<and> post 0 (\<lambda>_ _. True) s r s' \<and> sret_param ret s' (fst r))"
        using e2 v by blast
    qed blast
  next
    case False
    from J_D [OF params_rest [where ci = ci and init = "[]", OF n1] p1] show ?thesis
    proof (elim disjE exE conjE)
      fix r s2 assume e2: "params_rest rc env ci [] s1 = Inr (r, s2)"
        and q2: "post 0 (\<lambda>r _. \<exists>vs. fst r = map fst [] @ vs) s1 r s2"
      have "post 0 (\<lambda>_ _. True) s1 r s2" using q2 by (auto simp: post_def)
      then have "post 0 (\<lambda>_ _. True) s r s2" by (rule post_trans [OF q']) (insert p, simp add: pre_def)
      then show ?thesis
        using e2 False by (auto simp: parse_params_def pbind_Inr [where m = "expect ''(''", OF e] sret_param_def)
    qed (simp add: parse_params_def pbind_Inr [where m = "expect ''(''", OF e] False)
  qed
qed (simp add: parse_params_def pbind_def)

lemma func_inner:
  assumes n: "2 * k + 1 \<le> n" and s: "in_fn ret k s" and i: "\<And>i. known = Some i \<Longrightarrow> i < length (ps_funcs s)"
  shows "ok_unit (func_inner rc env known f0 f1 ret ci) s"
proof -
  have p: "pre None [] 0 k s" and n0: "2 * k \<le> n" using s n by (simp_all add: in_fn_def)
  show ?thesis
    using parse_params [OF n0 p, of ret ci]
  proof (elim disjE exE conjE)
    fix r s1 assume e: "parse_params rc env ret ci s = Inr (r, s1)" and q: "post 0 (\<lambda>_ _. True) s r s1"
      and v: "sret_param ret s1 (fst r)"
    obtain vs cnt ds dots where r: "r = (vs, cnt, ds, dots)" by (cases r)
    define f2 where "f2 = f1\<lparr>f_params := vs, f_nparams := cnt, f_defaults := ds, f_variadic := dots,
       f_ty := TyFunc ret (map (\<lambda>v. o_ty (obj_at s1 v)) (take cnt vs)) dots (dots \<and> (\<not> f_extern f1 \<or> fn_prelude f1))\<rparr>"
    define j where "j = (case known of None \<Rightarrow> length (ps_funcs s1) | Some i \<Rightarrow> i)"
    define s2 where "s2 = s1\<lparr>ps_funcs := (case known of None \<Rightarrow> ps_funcs s1 @ [f2] | Some i \<Rightarrow> (ps_funcs s1)[i := f2])\<rparr>"
    have p1: "pre None [] 0 k s1" by (rule pre_after [OF p q])
    have c1: "ps_cur s1 = InFn ret" using q s by (simp add: post_def keep_def in_fn_def)
    have f2: "f_params (ps_funcs s2 ! j) = vs"
      using i q by (auto simp: s2_def j_def f2_def post_def keep_def nth_append dest: less_le_trans split: option.splits)
    have s2: "in_fn ret k s2" using p1 c1 by (simp add: in_fn_def pre_def s2_def)
    have t2: "post 0 (\<lambda>_ _. True) s1 () s2"
      using p1 by (auto simp: post_def s2_def keep_def obj_at_def pre_def split: option.splits)
    have v2: "sret_param ret s2 (f_params (ps_funcs s2 ! j))"
      using v f2 r by (simp add: sret_param_def s2_def obj_at_def)
    obtain t ts where tk: "ps_tk s1 = t # ts" using p1 by (cases "ps_tk s1") (auto simp: pre_def)
    have fp: "fill_params f1 ret vs cnt ds dots s1 = Inr (f2, s1)" by (simp add: fill_params_def pget_def f2_def)
    have ct: "cur_tok s1 = Inr (t, s1)" by (simp add: cur_tok_def tk)
    have reg: "(case known of None \<Rightarrow> add_func f2 | Some i \<Rightarrow> pbind (set_func i f2) (\<lambda>_. pret i)) s1 = Inr (j, s2)"
      by (simp add: add_func_def set_func_def pmod_def pbind_def pret_def j_def s2_def split: option.split)
    have eq: "func_inner rc env known f0 f1 ret ci s
        = (if known \<noteq> None \<and> \<not> same_type (f_ty f0) (f_ty f2)
           then perr t (''conflicting declaration of function '' @ fn_name f1) s1 else func_rest rc j s2)"
      unfolding func_inner_def pbind_Inr [where m = "parse_params rc env ret ci", OF e] r prod.case
        pbind_Inr [where m = "fill_params f1 ret vs cnt ds dots", OF fp] pbind_Inr [where m = cur_tok, OF ct]
      using pbind_Inr [where m = "case known of None \<Rightarrow> add_func f2 | Some i \<Rightarrow> pbind (set_func i f2) (\<lambda>_. pret i)"
          and g = "func_rest rc", OF reg]
      by (cases "known \<noteq> None \<and> \<not> same_type (f_ty f0) (f_ty f2)") (simp_all only: if_True if_False simp_thms)
    have "ok_unit (func_rest rc j) s2" by (rule func_rest [OF _ s2 v2]) (use n in simp)
    then have "case func_rest rc j s2 of Inl e \<Rightarrow> good_err e | Inr (x, s') \<Rightarrow> post 0 (\<lambda>_ _. True) s x s'"
    proof (cases "func_rest rc j s2")
      case (Inr z)
      assume "ok_unit (func_rest rc j) s2"
      then have "post 0 (\<lambda>_ _. True) s2 (fst z) (snd z)" by (simp add: ok_unit_def Inr split_beta)
      then have "post 0 (\<lambda>_ _. True) s1 (fst z) (snd z)" by (rule post_trans [OF t2]) (insert p1, simp add: pre_def)
      then have "post 0 (\<lambda>_ _. True) s (fst z) (snd z)" by (rule post_trans [OF q]) (insert p, simp add: pre_def)
      then show ?thesis by (simp add: Inr split_beta)
    qed (simp add: ok_unit_def)
    then show ?thesis
      unfolding ok_unit_def eq by (simp add: perr_def pfail_def)
  qed (simp add: ok_unit_def func_inner_def pbind_def)
qed

lemma parse_func:
  assumes n: "2 * k + 1 \<le> n"
  shows "J f c 0 k (\<lambda>_ _. True) (parse_func rc env ret x ext pub inl link)"
  unfolding J_def
proof (intro allI impI)
  fix s assume p: "pre f c 0 k s"
  let ?known = "find_func s x"
  let ?hdr = "pbind (case ?known of None \<Rightarrow> pbind new_obj_uid (\<lambda>u. pret (new_func x u)) | Some i \<Rightarrow> pret (ps_funcs s ! i)) (\<lambda>f0.
     pbind (func_header f0 ret ext pub inl link) (\<lambda>f1.
     pbind (case ?known of None \<Rightarrow> pret () | Some i \<Rightarrow> set_func i f1) (\<lambda>_. pret (f0, f1))))"
  let ?rest = "\<lambda>(f0, f1). with_function ret (func_inner rc env ?known f0 f1 ret (ext \<and> \<not> fn_prelude f1))"
  have eq: "parse_func rc env ret x ext pub inl link s = pbind ?hdr ?rest s"
    by (cases ?known) (simp_all add: parse_func_def pbind_pget pm_laws)
  have "K (\<lambda>_. True) ?hdr"
    by (intro K_unit_seq K_any_seq [OF K_func_header] K_any_seq kr TrueI)
  from K_post [OF this p]
  show "case parse_func rc env ret x ext pub inl link s of Inl e \<Rightarrow> good_err e | Inr (y, s') \<Rightarrow> post 0 (\<lambda>_ _. True) s y s'"
  proof (elim disjE exE conjE)
    fix h s1 assume e: "?hdr s = Inr (h, s1)" and p1: "pre f c 0 k s1" and q: "post 0 (\<lambda>x p. True) s h s1"
    obtain f0 f1 where h: "h = (f0, f1)" by (cases h)
    have ok: "ok_unit (with_function ret (func_inner rc env ?known f0 f1 ret (ext \<and> \<not> fn_prelude f1))) s1"
    proof (rule with_function [OF p1])
      fix s' assume s': "in_fn ret k s'" "ps_funcs s' = ps_funcs s1"
      show "ok_unit (func_inner rc env ?known f0 f1 ret (ext \<and> \<not> fn_prelude f1)) s'"
      proof (rule func_inner [OF n s'(1)])
        fix i assume "?known = Some i"
        then have "i < length (ps_funcs s)" by (rule find_func_length)
        also have "\<dots> \<le> length (ps_funcs s')" using q s'(2) by (simp add: post_def keep_def)
        finally show "i < length (ps_funcs s')" .
      qed
    qed
    show ?thesis
    proof (cases "?rest h s1")
      case (Inl e')
      then show ?thesis using ok by (simp add: eq pbind_Inr [where m = ?hdr, OF e] h ok_unit_def)
    next
      case (Inr z)
      then have "post 0 (\<lambda>_ _. True) s1 (fst z) (snd z)" using ok by (simp add: h ok_unit_def split_beta)
      then have "post 0 (\<lambda>_ _. True) s (fst z) (snd z)" by (rule post_trans [OF q]) (insert p, simp add: pre_def)
      then show ?thesis using Inr by (simp add: eq pbind_Inr [where m = ?hdr, OF e] split_beta)
    qed
  qed (simp add: eq pbind_def [where m = ?hdr])
qed

section \<open>Classes\<close>

lemma member_declarator: "2 * k + 1 \<le> n \<Longrightarrow> J f c 0 k (\<lambda>_ p. p) (member_declarator rc env u a y h b l)"
  unfolding member_declarator_def
  by (rule J_start, simp only: pm_unfold,
      intro seqs seq_name J_seqF [OF array_bounds] jr J_keeps kr, auto dest: tok_eof)

lemmas seq_member_declarator = J_seqT [where P = "\<lambda>_. True", OF J_end [OF member_declarator]]

lemma member_group: "2 * k \<le> n \<Longrightarrow> J f c 0 k (\<lambda>_ p. p) (member_group rc env u a l)"
  unfolding member_group_def
  by (rule J_start, simp only: pm_unfold,
      intro seqs J_while_seq [where P = "\<lambda>_. True" and R = "\<lambda>_. True"] seq_member_declarator jr J_keeps kr, auto dest: tok_eof)

lemma class_step: "2 * k \<le> n \<Longrightarrow> J f c 0 k (turn (\<lambda>_. True) (\<lambda>_. True)) (class_step rc env u a l)"
  unfolding class_step_def
  by (rule J_start, simp only: pm_unfold,
      intro seqs seq_const J_seqT [where P = "\<lambda>_. True", OF J_end [OF member_group]] jr J_keeps kr, auto dest: tok_eof)

lemma class_parent: "J f c 0 k (\<lambda>_ _. True) (class_parent i)"
  unfolding class_parent_def
  by (rule J_start, simp only: pm_unfold, intro jr J_keeps kr, auto dest: tok_eof)

lemma parse_class: "2 * k \<le> n \<Longrightarrow> kind t \<noteq> TK_EOF \<Longrightarrow> J f (t # c) 0 k (\<lambda>_ p. p) (parse_class rc env u a)"
  unfolding parse_class_def
  by (rule J_first, simp only: pm_unfold,
      intro seq_name J_seqF [OF class_parent] J_while_seq [where P = "\<lambda>_. True" and R = "\<lambda>_. True"] class_step jr J_keeps J_lasts kr,
      auto dest: tok_eof)

section \<open>Globals and items\<close>

lemma global_declarator: "2 * k + 1 \<le> n \<Longrightarrow> J f c 0 k (\<lambda>_ p. p) (global_declarator rc env y e p b nn t)"
  unfolding global_declarator_def
  by (rule J_start, simp only: pm_unfold,
      intro seqs seq_name J_seqF [OF array_bounds] J_end [OF opt_init] var_init jr J_keeps kr, auto dest: tok_eof)

lemma global_decl: "2 * k + 1 \<le> n \<Longrightarrow> J f c 0 k (\<lambda>_ _. True) (global_decl rc env y e p b nn)"
  unfolding global_decl_def
  by (rule J_start, intro J_end [OF declarators] global_declarator jr, auto)

lemma item_function: "2 * k \<le> n \<Longrightarrow> kind t \<noteq> TK_EOF \<Longrightarrow> J f (t # c) 0 k (\<lambda>_ p. p) (item_function rc env y h e pb l)"
  unfolding item_function_def
  by (rule J_first, intro J_end [OF parse_func] jr J_keeps kr, auto)

text \<open>The declarators of globals start over at \<open>rest\<close>.\<close>

lemma item_globals:
  assumes n: "2 * length rest + 1 \<le> n" and p: "pre f c 0 k s" and e: "eof_terminated rest"
  shows "rewound (length rest) s (item_globals rc env base t rest h ext pub link s)"
proof (cases "link \<noteq> None \<or> (h_func h \<noteq> None) \<or> (h_align h \<noteq> None)")
  case True
  then show ?thesis
    by (auto simp: rewound_def item_globals_def reject_func_hint_def pbind_def pret_def perr_def pfail_def split: option.splits)
next
  case False
  let ?s = "s\<lparr>ps_tk := rest\<rparr>"
  have "pre f [] 0 (length rest) ?s" using p e by (auto simp: pre_def)
  from J_D [OF J_in_startup [OF global_decl [OF n]] this, of base ext pub "h_bits h" "h_nonnull h"]
  show ?thesis
    using False by (auto simp: rewound_def item_globals_def reject_func_hint_def pbind_def pret_def pmod_def post_def keep_def obj_at_def)
qed

lemma item_declares:
  assumes n: "2 * k \<le> n" "2 * length rest + 1 \<le> n" and p: "pre f [] 0 k s" and e: "eof_terminated rest"
  shows "rewound (max (length rest) (length (ps_tk s))) s (item_declares rc env base ret t0 rest h ext pub link s)"
proof -
  obtain t ts where tk: "ps_tk s = t # ts" using p by (cases "ps_tk s") (auto simp: pre_def)
  define paren where "paren = (case ts of [] \<Rightarrow> False | u # us \<Rightarrow> tok_punct u ''('')"
  have ct: "cur_tok s = Inr (t, s)" by (simp add: cur_tok_def tk)
  have pk: "peek_tok s = Inr (case ts of [] \<Rightarrow> None | u # us \<Rightarrow> Some u, s)" by (simp add: peek_tok_def tk split: list.split)
  define m where "m = (if (kind t = TK_KEYWORD \<or> kind t = TK_TYPE) \<and> paren then reject_reserved_name t ''function name'' True else pret ())"
  have pp: "(case case ts of [] \<Rightarrow> None | u # us \<Rightarrow> Some u of None \<Rightarrow> False | Some u \<Rightarrow> tok_punct u ''('') = paren"
    by (simp add: paren_def split: list.split)
  have eq: "item_declares rc env base ret t0 rest h ext pub link s
      = pbind m (\<lambda>_. if kind t = TK_ID \<and> paren
          then pbind (item_function rc env ret h ext pub link) (\<lambda>_. pret [])
          else item_globals rc env base t0 rest h ext pub link) s"
    unfolding item_declares_def pbind_Inr [where m = cur_tok, OF ct] pbind_Inr [where m = peek_tok, OF pk] Let_def pp m_def ..
  have m: "K (\<lambda>_. True) m" unfolding m_def by (intro kr TrueI)
  have pt: "pre f [t] 0 k s" using p tk by (simp add: pre_def)
  from K_post [OF m pt] show ?thesis
  proof (elim disjE exE conjE)
    fix x s1 assume e1: "m s = Inr (x, s1)" and p1: "pre f [t] 0 k s1" and q: "post 0 (\<lambda>x p. True) s x s1"
    show ?thesis
    proof (cases "kind t = TK_ID \<and> paren")
      case True
      have J: "J f [t] 0 k (\<lambda>_ _. True) (pbind (item_function rc env ret h ext pub link) (\<lambda>_. pret ([] :: node list)))"
        using n(1) True by (intro J_seqT [where P = "\<lambda>_. True", OF J_end [OF item_function]] jr) auto
      have "length (ps_tk s1) \<le> length (ps_tk s)" using q by (simp add: post_def)
      from rewound_after [OF rewound_post [OF J p1 this] q] p show ?thesis
        using True by (simp add: eq pbind_Inr [where m = m, OF e1] pre_def)
    next
      case False
      from rewound_after [OF item_globals [OF n(2) p1 e, of base t0 h ext pub link] q] p show ?thesis
        by (simp add: eq pbind_Inr [where m = m, OF e1] pre_def if_not_P [OF False])
    qed
  qed (simp add: eq pbind_def [where m = m] rewound_def)
qed

lemma item_typed: "2 * k \<le> n \<Longrightarrow> kind t \<noteq> TK_EOF \<Longrightarrow> J f (t # c) 0 k (\<lambda>_ p. p) (item_typed rc env h ext pub link)"
  unfolding J_def
proof (intro allI impI)
  fix s assume n: "2 * k \<le> n" and t: "kind t \<noteq> TK_EOF" and p: "pre f (t # c) 0 k s"
  then obtain rest where tk: "ps_tk s = t # rest" by (blast dest: pre_Cons)
  have ct: "cur_tok s = Inr (t, s)" by (simp add: cur_tok_def tk)
  have rest: "eof_terminated rest" "2 * length rest + 1 \<le> n" using p tk t n by (auto simp: pre_def)
  have eq: "item_typed rc env h ext pub link s
      = pbind (item_head h) (\<lambda>(base, ret). item_declares rc env base ret t rest h ext pub link) s"
    unfolding item_typed_def pbind_Inr [where m = cur_tok, OF ct] pbind_pget tk list.sel ..
  show "case item_typed rc env h ext pub link s of Inl e \<Rightarrow> good_err e | Inr (x, s') \<Rightarrow> post 0 (\<lambda>_ p. p) s x s'"
    using J_D [OF J_item_head [OF t] p, of h]
  proof (elim disjE exE conjE)
    fix br s1 assume e1: "item_head h s = Inr (br, s1)" and q: "post 0 (\<lambda>_ p. p) s br s1"
    obtain base ret where br: "br = (base, ret)" by (cases br)
    have q': "post 0 (\<lambda>_ p. True) s br s1" using q by (auto simp: post_def)
    have "pre f [] 0 k s1" by (rule pre_after [OF p q'])
    moreover have "max (length rest) (length (ps_tk s1)) \<le> length rest" using q tk by (auto simp: post_def)
    moreover have "ps_scope s \<noteq> []" using p by (auto simp: pre_def)
    ultimately have "rewound (length rest) s (item_declares rc env base ret t rest h ext pub link s1)"
      using rewound_after [OF item_declares [OF n rest(2) _ rest(1)] q] by blast
    then have "case item_declares rc env base ret t rest h ext pub link s1 of Inl e \<Rightarrow> good_err e
        | Inr (x, s') \<Rightarrow> post 0 (\<lambda>_ p. p) s x s'"
      by (rule rewound_consumed) (simp add: tk)
    then show ?thesis by (simp add: eq pbind_Inr [where m = "item_head h", OF e1] br)
  qed (simp add: eq pbind_def [where m = "item_head h"])
qed

lemma item_class: "2 * k \<le> n \<Longrightarrow> kind t \<noteq> TK_EOF \<Longrightarrow> J f (t # c) 0 k (\<lambda>_ p. p) (item_class rc env u h)"
  unfolding item_class_def
  by (rule J_first, intro J_end [OF parse_class] jr J_keeps kr, auto)

lemma item_asm: "J f c 0 k (\<lambda>_ p. p) (item_asm env)"
  unfolding item_asm_def
  by (rule J_start, intro seq_asm jr J_list J_keeps J_lasts kr, auto)

lemma item_stmt: "2 * k + 3 \<le> n \<Longrightarrow> J f c 0 k (\<lambda>_ p. p) (item_stmt rc h e)"
  unfolding item_stmt_def
  by (rule J_start, intro J_seqT [where P = "\<lambda>_. True", OF J_end [OF J_in_startup [OF stmt]]] jr J_keeps kr, auto)

lemma parse_item: "2 * k + 3 \<le> n \<Longrightarrow> J f c 0 k (\<lambda>_ p. p) (parse_item rc env)"
  unfolding parse_item_def
  by (rule J_start, intro J_seqF [OF J_item_attrs] J_seqF [OF J_item_extern]
      J_seqT [where P = "\<lambda>_. True", OF J_end [OF item_class]] J_seqT [where P = "\<lambda>_. True", OF J_end [OF item_asm]]
      J_end [OF item_typed] J_end [OF item_stmt] jr J_keeps kr, auto dest: tok_eof)

lemma parse_items: "2 * k + 3 \<le> n \<Longrightarrow> J f c 0 k (\<lambda>_ _. True) (parse_items rc env)"
  unfolding parse_items_def
  by (rule J_start, intro J_while [where P = "\<lambda>_. True"] J_seqT [where P = "\<lambda>_. True", OF J_end [OF parse_item]] jr, auto)

end

section \<open>The program\<close>

text \<open>The inline assembler is a parameter of the parser. On a block of an EOF-terminated chain it reports
  an error or returns with a shorter such chain.\<close>

definition asm_reads :: "penv \<Rightarrow> bool" where
  "asm_reads env \<longleftrightarrow> (\<forall>ts i b. eof_terminated ts \<longrightarrow>
     (case pe_asm env ts i b of Inl e \<Rightarrow> good_err e | Inr (a, ts') \<Rightarrow> eof_terminated ts' \<and> length ts' < length ts))"

lemma calls_ok: "asm_reads env \<Longrightarrow> parser_calls (calls_at env n) env n"
proof (induction n)
  case 0
  then show ?case by unfold_locales (fastforce simp: asm_reads_def split: sum.splits)+
next
  case (Suc n)
  let ?rc = "calls_at env n"
  have rc: "parser_calls ?rc env n" by (rule Suc.IH [OF Suc.prems])
  show ?case
  proof
    show "2 * k + 2 \<le> Suc n \<Longrightarrow> J f c 0 k (\<lambda>e p. p \<and> wfc e) (c_expr (calls_at env (Suc n)))" for k f c
      using parser_calls.assign_body [OF rc] by (simp add: Let_def)
    show "2 * k + 1 \<le> Suc n \<Longrightarrow> J f c 0 k (\<lambda>e p. p \<and> wfc e) (c_unary (calls_at env (Suc n)))" for k f c
      using parser_calls.unary_body [OF rc] by (simp add: Let_def)
    show "2 * k + 1 \<le> Suc n \<Longrightarrow> J f c 0 k (\<lambda>_ p. p) (c_fptr (calls_at env (Suc n)) y b w)" for k f c y b w
      using parser_calls.funcptr_declarator [OF rc] by (simp add: Let_def)
    show "2 * k + 3 \<le> Suc n \<Longrightarrow> J (Some cur) c 0 k (\<lambda>_ p. p) (c_stmt (calls_at env (Suc n)))" for k c cur
      using parser_calls.stmt_body [OF rc] by (simp add: Let_def)
  next
    fix ts i b e
    show "eof_terminated ts \<Longrightarrow> pe_asm env ts i b = Inl e \<Longrightarrow> good_err e"
      using parser_calls.asm_good [OF rc] by blast
  next
    fix ts i b a ts'
    show "eof_terminated ts \<Longrightarrow> pe_asm env ts i b = Inr (a, ts') \<Longrightarrow> eof_terminated ts' \<and> length ts' < length ts"
      using parser_calls.asm_rest [OF rc] by blast
  qed
qed

end
