(* ===== verification/ParseSafe.thy ===== *)
theory ParseSafe
  imports ParseTotalDecl
begin

text \<open>
  What the judgement of \<open>ParseRules\<close> gives for the whole parser: \<open>parse_fuel\<close> is enough for every
  token chain, no null token or variable is followed, and scopes are closed again.
\<close>

section \<open>A parser without an assembler\<close>

text \<open>\<open>-fno-asm\<close> rejects an asm block before the assembler runs.\<close>

definition no_asm :: penv where
  "no_asm = \<lparr>pe_f2i = (\<lambda>_. 0), pe_asm = (\<lambda>ts _ _. Inl (ErrTok [] 0 ''asm blocks are disabled''))\<rparr>"

lemma no_asm_reads: "asm_reads no_asm"
  by (simp add: asm_reads_def no_asm_def)

interpretation knot: parser_calls "calls_at no_asm n" no_asm n
  by (rule calls_ok [OF no_asm_reads])

section \<open>The end of the program\<close>

text \<open>The loop over the items leaves only at the end of the tokens.\<close>

lemma ploop_exit:
  "ploop n f a s = Inr (b, s') \<Longrightarrow> (\<And>a s b s'. f a s = Inr (Inr b, s') \<Longrightarrow> P s') \<Longrightarrow> P s'"
proof (induction n arbitrary: a s)
  case (Suc n)
  then show ?case
    by (auto simp: pbind_def pret_def split: sum.splits)
qed (simp add: pfail_def)

lemma parse_items_end:
  assumes "parse_items rc env s = Inr (ns, s')"
  shows "\<exists>t ts. ps_tk s' = t # ts \<and> kind t = TK_EOF"
  using assms unfolding parse_items_def pwhile_def
  by (rule ploop_exit)
     (auto simp: pbind_def cur_tok_def pret_def split: list.splits if_splits sum.splits)

lemma parser_init_pre: "eof_terminated ts \<Longrightarrow> pre None [] 0 (length ts) (parser_init ts ah ua st)"
  by (simp add: pre_def parser_init_def)

text \<open>C1: The parser is total and safe. On every token chain that ends in one end-of-file token (which is what
  the preprocessor hands it) it ends without running out of the fuel \<open>parse_fuel\<close> and without
  following a null token, variable or function: it reports a diagnostic, or stops at one of three
  known hazards of the C code (an \<open>int\<close> overflow in a layout, a trapping constant division, a class that
  is its own ancestor), or returns a program with exactly the end-of-file token left, in no function and
  in the one global scope.\<close>

theorem parse_total:
  assumes "eof_terminated ts" "asm_reads env"
  shows "case parse env ah ua st ts of
      Inl e \<Rightarrow> (\<exists>f l m. e = ErrTok f l m) \<or> e = Undefined \<or> e = DivTrap \<or> e = Diverge
    | Inr (n, s') \<Rightarrow> length (ps_tk s') = 1 \<and> ps_cur s' = NoFn \<and> length (ps_scope s') = 1"
proof -
  obtain t r where ts: "ts = t # r" using assms(1) by (cases ts) auto
  let ?n = "parse_fuel ts"
  let ?s = "parser_init ts ah ua st"
  let ?m = "pbind (parse_items (calls_at env ?n) env) (\<lambda>ns. pbind check_labels (\<lambda>_. pret (nd_block ns t)))"
  have calls: "parser_calls (calls_at env ?n) env ?n" by (rule calls_ok [OF assms(2)])
  have "J None [] 0 (length ts) (\<lambda>_ _. True) ?m"
    by (intro J_seqF [OF parser_calls.parse_items [OF calls]] J_keeps jr kr) (simp_all add: parse_fuel_def)
  from J_D [OF this parser_init_pre [OF assms(1)], of ah ua st]
  have "(\<exists>e. ?m ?s = Inl e \<and> good_err e) \<or> (\<exists>x s'. ?m ?s = Inr (x, s') \<and> post 0 (\<lambda>_ _. True) ?s x s')" .
  moreover have "parse env ah ua st ts = ?m ?s" by (simp add: parse_def ts)
  moreover have "length (ps_tk s') = 1 \<and> ps_cur s' = NoFn \<and> length (ps_scope s') = 1"
    if m: "?m ?s = Inr (x, s')" and q: "post 0 (\<lambda>_ _. True) ?s x s'" for x s'
  proof (intro conjI)
    from m obtain ns s1 where s1: "parse_items (calls_at env ?n) env ?s = Inr (ns, s1)" and "ps_tk s' = ps_tk s1"
      by (auto simp: pbind_def check_labels_def pret_def split: sum.splits option.splits)
    with parse_items_end [OF s1] q show "length (ps_tk s') = 1" by (auto simp: post_def)
    show "ps_cur s' = NoFn" using q by (simp add: post_def keep_def parser_init_def)
    show "length (ps_scope s') = 1" using q by (cases "ps_scope s'") (auto simp: post_def scope_ok_def parser_init_def)
  qed
  ultimately show ?thesis by (auto simp: good_err_def)
qed

theorem parse_total_witness:
  "case parse no_asm True True False [(new_token ''a'' 1 TK_PUNCT)\<lparr>str := '';''\<rparr>, new_token ''a'' 1 TK_EOF] of
      Inl e \<Rightarrow> (\<exists>f l m. e = ErrTok f l m) \<or> e = Undefined \<or> e = DivTrap \<or> e = Diverge
    | Inr (n, s') \<Rightarrow> length (ps_tk s') = 1 \<and> ps_cur s' = NoFn \<and> length (ps_scope s') = 1"
  by (rule parse_total) (simp_all add: new_token_def no_asm_reads)

end
