(* ===== verification/SwitchSem.thy ===== *)
theory SwitchSem
  imports Parse
begin

text \<open>
  What the dispatch of a lowered \<open>switch\<close> does when it runs: a small evaluator for the statements that
  \<open>sw_build\<close> makes (\<open>src/src/parse.c\<close>), and the theorem that they reach the first case whose range
  holds the value.
\<close>

section \<open>Running dispatch statements\<close>

text \<open>Expressions over variables: what \<open>hc_i64\<close> comparisons give.\<close>

function node_val :: "(nat \<Rightarrow> i64) \<Rightarrow> node \<Rightarrow> i64 option" where
  "node_val e n =
     (if nkind n = ND_NUM then Some (nival n)
      else if nkind n = ND_VAR then Some (e (ni_var (ninf n)))
      else (case (nlhs n, nrhs n) of
              (Some l, Some r) \<Rightarrow>
                (case (node_val e l, node_val e r) of
                   (Some a, Some b) \<Rightarrow>
                     (if nkind n = ND_EQ then Some (if a = b then 1 else 0)
                      else if nkind n = ND_LE then Some (if sint a \<le> sint b then 1 else 0)
                      else if nkind n = ND_LOGAND then Some (if a \<noteq> 0 \<and> b \<noteq> 0 then 1 else 0)
                      else None)
                 | _ \<Rightarrow> None)
            | _ \<Rightarrow> None))"
  by pat_completeness auto
termination
  by (relation "measure (\<lambda>(e, n). size n)") (auto intro!: children_smaller simp: children_def)

declare node_val.simps [simp del]

lemma body_smaller: "size_list size (nbody n) < size n"
  by (cases n) simp

lemma then_smaller: "nthen n = Some m \<Longrightarrow> size m < size n"
  by (rule children_smaller) (simp add: children_def)

text \<open>Running a list of statements: the variables afterwards and the label jumped to, if any. Only the
  statements of a dispatch are known; anything else is \<open>None\<close>.\<close>

type_synonym effect_of = "((nat \<Rightarrow> i64) \<times> string option) option"

definition goes_on :: "effect_of \<Rightarrow> ((nat \<Rightarrow> i64) \<Rightarrow> effect_of) \<Rightarrow> effect_of" where
  "goes_on r k = (case r of None \<Rightarrow> None | Some (e, Some l) \<Rightarrow> Some (e, Some l) | Some (e, None) \<Rightarrow> k e)"

lemma goes_on_simps [simp]:
  "goes_on None k = None" "goes_on (Some (e, Some l)) k = Some (e, Some l)" "goes_on (Some (e, None)) k = k e"
  "goes_on (goes_on r k) k2 = goes_on r (\<lambda>e. goes_on (k e) k2)" "goes_on r (\<lambda>e. Some (e, None)) = r"
  by (auto simp: goes_on_def split: option.split prod.split)

function run :: "(nat \<Rightarrow> i64) \<Rightarrow> node list \<Rightarrow> effect_of" where
  "run e [] = Some (e, None)"
| "run e (n # ns) =
     (if nkind n = ND_GOTO then Some (e, Some (ni_label (ninf n)))
      else if nkind n = ND_BLOCK then goes_on (run e (nbody n)) (\<lambda>e1. run e1 ns)
      else if nkind n = ND_IF
      then (case (ncond n, nthen n) of
              (Some c, Some th) \<Rightarrow>
                (case node_val e c of None \<Rightarrow> None
                 | Some x \<Rightarrow> goes_on (if x \<noteq> 0 then run e [th] else Some (e, None)) (\<lambda>e1. run e1 ns))
            | _ \<Rightarrow> None)
      else if nkind n = ND_EXPR_STMT
      then (case nlhs n of None \<Rightarrow> None
            | Some a \<Rightarrow>
                (case (nlhs a, nrhs a) of
                   (Some l, Some r) \<Rightarrow>
                     (if nkind a = ND_ASSIGN \<and> nkind l = ND_VAR
                      then (case node_val e r of None \<Rightarrow> None | Some x \<Rightarrow> run (e(ni_var (ninf l) := x)) ns)
                      else None)
                 | _ \<Rightarrow> None))
      else None)"
  by pat_completeness auto
termination
  by (relation "measure (\<lambda>(e, ns). size_list size ns)")
    (auto dest!: then_smaller [OF sym] intro: less_SucI body_smaller trans_less_add1)

declare run.simps(2) [simp del]

section \<open>What a switch means\<close>

definition case_hit :: "i64 \<Rightarrow> sw_case \<Rightarrow> bool" where
  "case_hit x c \<longleftrightarrow> \<not> sc_default c \<and> sint (sc_lo c) \<le> sint x \<and> sint x \<le> sint (sc_hi c)"

definition in_group :: "nat \<Rightarrow> sw_case \<Rightarrow> bool" where
  "in_group g c \<longleftrightarrow> sc_group c = Some g \<and> \<not> sc_default c"

definition index_var :: "sw_ctx \<Rightarrow> nat" where
  "index_var sw = (case sw_var sw of None \<Rightarrow> 0 | Some w \<Rightarrow> w)"

text \<open>The meaning of the cases: the variables and the label the first one that holds the value leads to.
  A case inside a group stores its number within the group and enters the group's porch.\<close>

fun dispatched :: "sw_ctx \<Rightarrow> nat \<Rightarrow> (nat \<Rightarrow> i64) \<Rightarrow> (nat \<Rightarrow> nat) \<Rightarrow> sw_case list \<Rightarrow> (nat \<Rightarrow> i64) \<times> string option" where
  "dispatched sw v e cnt [] = (e, None)"
| "dispatched sw v e cnt (c # cs) =
     (if sc_default c then dispatched sw v e cnt cs
      else (case sc_group c of
              None \<Rightarrow> (if case_hit (e v) c then (e, Some (sc_label c)) else dispatched sw v e cnt cs)
            | Some g \<Rightarrow> (if case_hit (e v) c
                        then (e(index_var sw := word_of_nat (cnt g)), Some (sw_porch sw ! g))
                        else dispatched sw v e (cnt(g := cnt g + 1)) cs)))"

text \<open>The cases as the dispatch leaves them: a grouped case carries its number in its group.\<close>

fun numbered :: "(nat \<Rightarrow> nat) \<Rightarrow> sw_case list \<Rightarrow> sw_case list" where
  "numbered cnt [] = []"
| "numbered cnt (c # cs) =
     (if sc_default c then c # numbered cnt cs
      else (case sc_group c of
              None \<Rightarrow> c # numbered cnt cs
            | Some g \<Rightarrow> c\<lparr>sc_hi := word_of_nat (cnt g)\<rparr> # numbered (cnt(g := cnt g + 1)) cs))"

lemma run_Cons: "run e (n # ns) = goes_on (run e [n]) (\<lambda>e1. run e1 ns)"
  by (simp add: run.simps(2) split: option.split)

lemma run_append: "run e (ms @ ns) = goes_on (run e ms) (\<lambda>e1. run e1 ns)"
proof (induction ms arbitrary: e)
  case (Cons m ms)
  show ?case by (simp add: run_Cons [of e m "ms @ ns"] run_Cons [of e m ms] Cons.IH)
qed simp

section \<open>The nodes of a dispatch\<close>

definition int_var :: "parser \<Rightarrow> nat \<Rightarrow> bool" where
  "int_var s v \<longleftrightarrow> o_ty (obj_at s v) = ty_i64"

definition var_nd :: "nat \<Rightarrow> token \<Rightarrow> node" where
  "var_nd v t = upd_info (\<lambda>i. i\<lparr>ni_var := v\<rparr>) (nd0 ND_VAR t ty_i64)"

lemma new_var_int: "int_var s v \<Longrightarrow> new_var_node v t s = Inr (var_nd v t, s)"
  by (simp add: new_var_node_def pget_def int_var_def var_nd_def)

lemma nd_types [simp]:
  "nty (var_nd v t) = ty_i64" "nty (new_num x t) = ty_i64" "nkind (var_nd v t) = ND_VAR" "nkind (new_num x t) = ND_NUM"
  by (simp_all add: var_nd_def new_num_def)

lemma num_val [simp]: "node_val e (new_num x t) = Some x" "node_val e (var_nd v t) = Some (e v)"
  by (simp_all add: node_val.simps new_num_def var_nd_def)

lemma plain_int [simp]:
  "is_ptrish ty_i64 = False" "nonnull ty_i64 = False" "rvalize n = n" "is_array_ty ty_i64 = False" "is_fnptr ty_i64 = False"
  if "nty n = ty_i64"
  using that by (simp_all add: is_ptrish_def rvalize_def is_fnptr_def ty_i64_def)

lemma new_test: "k \<in> {ND_EQ, ND_LE} \<Longrightarrow> nty l = ty_i64 \<Longrightarrow> nty r = ty_i64 \<Longrightarrow> new_binary k l r t s = Inr (nd2 k l r t ty_i64, s)"
  by (auto simp: new_binary_def pwhen_def null_compare_def pbind_def pret_def new_compare_def any_f64_def ty_i64_def
      rvalize_def is_ptrish_def)

lemma new_both: "nty l = ty_i64 \<Longrightarrow> nty r = ty_i64 \<Longrightarrow> new_binary ND_LOGAND l r t s = Inr (nd2 ND_LOGAND l r t ty_i64, s)"
  by (auto simp: new_binary_def to_bool_def pwhen_def pbind_def pret_def ty_i64_def rvalize_def)

lemma new_store:
  "new_assign (var_nd w t) (new_num x t) t s = Inr (nd2 ND_ASSIGN (var_nd w t) (new_num x t) t ty_i64, s)"
  by (auto simp: new_assign_def is_lvalue_def require_nonnull_def require_fnptr_compat_def pbind_def pret_def pget_def
      stored_conv_def value_type_def ty_i64_def rvalize_def is_fnptr_def)

lemma nd2_val [simp]:
  "nkind (nd2 k l r t y) = k" "nty (nd2 k l r t y) = y"
  by simp_all

definition test_nd :: "nat \<Rightarrow> sw_case \<Rightarrow> token \<Rightarrow> node" where
  "test_nd v c t =
     (if sc_lo c = sc_hi c then nd2 ND_EQ (var_nd v t) (new_num (sc_lo c) t) t ty_i64
      else nd2 ND_LOGAND (nd2 ND_LE (new_num (sc_lo c) t) (var_nd v t) t ty_i64)
             (nd2 ND_LE (var_nd v t) (new_num (sc_hi c) t) t ty_i64) t ty_i64)"

lemma case_test_nd: "int_var s v \<Longrightarrow> case_test v c t s = Inr (test_nd v c t, s)"
  by (simp add: case_test_def test_nd_def pbind_def new_var_int new_test new_both)

lemma sint_eq_iff: "sint (a::i64) = sint b \<longleftrightarrow> a = b"
  by (auto intro: signed_word_eqI)

lemma test_val:
  "node_val e (test_nd v c t) = Some (if sint (sc_lo c) \<le> sint (e v) \<and> sint (e v) \<le> sint (sc_hi c) then 1 else 0)"
  by (auto simp: test_nd_def node_val.simps [of e "nd2 k l r t y" for k l r t y] sint_eq_iff order_antisym_conv
      intro: signed_word_eqI)

definition store_nd :: "nat \<Rightarrow> i64 \<Rightarrow> token \<Rightarrow> node" where
  "store_nd w x t = new_expr_stmt (nd2 ND_ASSIGN (var_nd w t) (new_num x t) t ty_i64) t"

lemma run_store: "run e (store_nd w x t # ns) = run (e(w := x)) ns"
  by (simp add: run.simps(2) store_nd_def new_expr_stmt_def var_nd_def [of w] Let_def)

lemma run_goto: "run e (new_goto l t # ns) = Some (e, Some l)"
  by (simp add: run.simps(2) new_goto_def nd_jump_def Let_def)

lemma nd_block_sel [simp]: "nkind (nd_block ns t) = ND_BLOCK" "nbody (nd_block ns t) = ns"
  by (simp_all add: nd_block_def)

lemma run_block_goto: "run e (nd_block [store_nd w x t, new_goto l t] t # ns) = Some (e(w := x), Some l)"
  by (simp add: run.simps(2) [of e "nd_block b t" for b t] Let_def run_store run_goto)

lemma run_if:
  "run e (nd_ctl ND_IF (Some c) (Some th) None t # ns) =
     (case node_val e c of None \<Rightarrow> None
      | Some x \<Rightarrow> goes_on (if x \<noteq> 0 then run e [th] else Some (e, None)) (\<lambda>e1. run e1 ns))"
  by (simp add: run.simps(2) nd_ctl_def)

section \<open>The two dispatches\<close>

definition branch_nd :: "sw_ctx \<Rightarrow> sw_case \<Rightarrow> nat \<Rightarrow> token \<Rightarrow> node" where
  "branch_nd sw c idx t =
     (case sc_group c of None \<Rightarrow> new_goto (sc_label c) t
      | Some g \<Rightarrow> nd_block [store_nd (index_var sw) (word_of_nat idx) t, new_goto (sw_porch sw ! g) t] t)"

text \<open>The variable of the group numbers is there as soon as some case is in a group.\<close>

definition index_ok :: "parser \<Rightarrow> sw_ctx \<Rightarrow> sw_case list \<Rightarrow> bool" where
  "index_ok s sw cs \<longleftrightarrow> (\<forall>c \<in> set cs. sc_group c = None) \<or> int_var s (index_var sw)"

lemma index_ok_Cons: "index_ok s sw (c # cs) \<Longrightarrow> index_ok s sw cs \<and> (sc_group c \<noteq> None \<longrightarrow> int_var s (index_var sw))"
  by (auto simp: index_ok_def)

lemma index_ok_numbered: "index_ok s sw (numbered cnt cs) \<longleftrightarrow> index_ok s sw cs"
proof -
  have "(\<forall>c \<in> set (numbered cnt cs). sc_group c = None) \<longleftrightarrow> (\<forall>c \<in> set cs. sc_group c = None)"
    by (induction cs arbitrary: cnt) (auto split: option.split)
  then show ?thesis by (simp add: index_ok_def)
qed

lemma case_target_nd:
  "(sc_group c \<noteq> None \<longrightarrow> int_var s (index_var sw)) \<Longrightarrow> case_target sw c idx t s = Inr (branch_nd sw c idx t, s)"
  by (simp add: case_target_def branch_nd_def pret_def pbind_def new_var_int new_store store_nd_def index_var_def
      split: option.split)

lemma build_dispatch_runs:
  assumes "int_var s v" "index_ok s sw cs"
  shows "\<exists>ns. build_dispatch sw v t cnt cs s = Inr ((ns, numbered cnt cs), s) \<and> (\<forall>e. run e ns = Some (dispatched sw v e cnt cs))"
using assms(2)
proof (induction cs arbitrary: cnt)
  case Nil
  show ?case by (simp add: pret_def)
next
  case (Cons c cs)
  note ok = index_ok_Cons [OF Cons.prems]
  show ?case
  proof (cases "sc_default c")
    case True
    from Cons.IH [of cnt] ok True show ?thesis by (auto simp: pbind_def pret_def)
  next
    case False
    define cnt1 where "cnt1 = (case sc_group c of None \<Rightarrow> cnt | Some g \<Rightarrow> cnt(g := cnt g + 1))"
    obtain ns where ns: "build_dispatch sw v t cnt1 cs s = Inr ((ns, numbered cnt1 cs), s)"
      "\<And>e. run e ns = Some (dispatched sw v e cnt1 cs)"
      using Cons.IH [of cnt1] ok by blast
    show ?thesis
    proof (cases "sc_group c")
      case None
      with False ns assms(1) ok show ?thesis
        by (auto simp: pbind_def pret_def case_test_nd case_target_nd Let_def cnt1_def run_if test_val branch_nd_def
            run_goto case_hit_def)
    next
      case (Some g)
      with False ns assms(1) ok show ?thesis
        by (auto simp: pbind_def pret_def case_test_nd case_target_nd Let_def cnt1_def run_if test_val branch_nd_def
            run_block_goto case_hit_def)
    qed
  qed
qed

text \<open>In the porch the first case of the group whose number is stored is entered.\<close>

definition porch_entry :: "sw_ctx \<Rightarrow> nat \<Rightarrow> (nat \<Rightarrow> i64) \<Rightarrow> sw_case list \<Rightarrow> string option" where
  "porch_entry sw g e cs = map_option sc_label (find (\<lambda>c. in_group g c \<and> sc_hi c = e (index_var sw)) cs)"

lemma porch_dispatch_runs:
  assumes "index_ok s sw cs"
  shows "\<exists>ds. porch_dispatch sw g t cs s = Inr (ds, s) \<and> (\<forall>e. run e ds = Some (e, porch_entry sw g e cs))"
using assms
proof (induction cs)
  case Nil
  show ?case by (simp add: pret_def porch_entry_def)
next
  case (Cons c cs)
  note ok = index_ok_Cons [OF Cons.prems]
  obtain ds where ds: "porch_dispatch sw g t cs s = Inr (ds, s)" "\<And>e. run e ds = Some (e, porch_entry sw g e cs)"
    using Cons.IH ok by blast
  let ?test = "nd2 ND_EQ (var_nd (index_var sw) t) (new_num (sc_hi c) t) t ty_i64"
  have test: "node_val e ?test = Some (if e (index_var sw) = sc_hi c then 1 else 0)" for e
    by (simp add: node_val.simps [of e ?test])
  have "porch_dispatch sw g t (c # cs) s =
      (if in_group g c then Inr (nd_ctl ND_IF (Some ?test) (Some (new_goto (sc_label c) t)) None t # ds, s) else Inr (ds, s))"
    using ok ds(1) by (auto simp: in_group_def pbind_def pret_def new_var_int index_var_def new_test)
  moreover have "run e (nd_ctl ND_IF (Some ?test) (Some (new_goto (sc_label c) t)) None t # ds) = Some (e, porch_entry sw g e (c # cs))"
    if "in_group g c" for e
    using that by (auto simp: run_if test run_goto ds(2) porch_entry_def)
  moreover have "run e ds = Some (e, porch_entry sw g e (c # cs))" if "\<not> in_group g c" for e
    using that by (simp add: ds(2) porch_entry_def)
  ultimately show ?case by (cases "in_group g c") auto
qed

lemma dispatched_group:
  assumes "dispatched sw v e cnt cs = (e1, Some l)" "cnt g + length cs < 2 ^ 64"
    "find (case_hit (e v)) cs = Some c" "sc_group c = Some g"
  shows "l = sw_porch sw ! g \<and> (\<exists>j. cnt g \<le> j \<and> j < cnt g + length cs \<and> e1 = e(index_var sw := word_of_nat j)) \<and>
         porch_entry sw g e1 (numbered cnt cs) = Some (sc_label c)"
  using assms
proof (induction cs arbitrary: cnt)
  case (Cons d ds)
  show ?case
  proof (cases "case_hit (e v) d")
    case True
    with Cons.prems show ?thesis
      by (auto simp: case_hit_def porch_entry_def in_group_def intro!: exI [of _ "cnt g"])
  next
    case False
    define cnt1 where "cnt1 = (if sc_default d \<or> sc_group d = None then cnt else cnt(the (sc_group d) := cnt (the (sc_group d)) + 1))"
    have "dispatched sw v e cnt (d # ds) = dispatched sw v e cnt1 ds"
      using False by (auto simp: cnt1_def split: option.split)
    with Cons.prems False have IH: "l = sw_porch sw ! g \<and> (\<exists>j. cnt1 g \<le> j \<and> j < cnt1 g + length ds \<and> e1 = e(index_var sw := word_of_nat j)) \<and>
         porch_entry sw g e1 (numbered cnt1 ds) = Some (sc_label c)"
      by (intro Cons.IH) (auto simp: cnt1_def)
    then obtain j where j: "cnt1 g \<le> j" "j < cnt1 g + length ds" "e1 = e(index_var sw := word_of_nat j)" by blast
    show ?thesis
    proof (cases "in_group g d")
      case True
      then have c1: "cnt1 g = cnt g + 1" "numbered cnt (d # ds) = d\<lparr>sc_hi := word_of_nat (cnt g)\<rparr> # numbered cnt1 ds"
        by (auto simp: cnt1_def in_group_def)
      have "(word_of_nat (cnt g) :: i64) \<noteq> word_of_nat j"
        using j(1,2) c1(1) Cons.prems(2) by (simp add: word_of_nat_eq_iff take_bit_nat_eq_self)
      with IH j(3) c1 have "porch_entry sw g e1 (numbered cnt (d # ds)) = Some (sc_label c)"
        by (simp add: porch_entry_def in_group_def)
      moreover have "cnt g \<le> j \<and> j < cnt g + length (d # ds) \<and> e1 = e(index_var sw := word_of_nat j)"
        using j c1(1) by simp
      ultimately show ?thesis using IH by blast
    next
      case F: False
      then have c1: "cnt1 g = cnt g" by (auto simp: cnt1_def in_group_def)
      have "porch_entry sw g e1 (numbered cnt (d # ds)) = porch_entry sw g e1 (numbered cnt1 ds)"
        using F by (auto simp: cnt1_def porch_entry_def in_group_def split: option.split)
      then have "porch_entry sw g e1 (numbered cnt (d # ds)) = Some (sc_label c)" using IH by (simp only:)
      moreover have "cnt g \<le> j \<and> j < cnt g + length (d # ds) \<and> e1 = e(index_var sw := word_of_nat j)"
        using j c1 by simp
      ultimately show ?thesis using IH by blast
    qed
  qed
qed simp

lemma dispatched_first:
  "(case find (case_hit (e v)) cs of
      None \<Rightarrow> dispatched sw v e cnt cs = (e, None)
    | Some c \<Rightarrow> (sc_group c = None \<longrightarrow> dispatched sw v e cnt cs = (e, Some (sc_label c)))
        \<and> (\<exists>e1 l. dispatched sw v e cnt cs = (e1, Some l)))"
  by (induction cs arbitrary: cnt) (auto simp: case_hit_def split: option.splits)


section \<open>The whole switch\<close>

definition porch_of :: "sw_ctx \<Rightarrow> token \<Rightarrow> parser \<Rightarrow> sw_case list \<Rightarrow> node \<Rightarrow> node list" where
  "porch_of sw t s cs n =
     (case anchor_group n of None \<Rightarrow> [n]
      | Some g \<Rightarrow> (case porch_dispatch sw g t cs s of Inl _ \<Rightarrow> [n] | Inr (d, _) \<Rightarrow> if d = [] then [n] else d))"

lemma splice_porches_body:
  assumes "index_ok s sw cs"
  shows "splice_porches sw t cs ns s = Inr (concat (map (porch_of sw t s cs) ns), s)"
proof (induction ns)
  case (Cons n ns)
  show ?case
  proof (cases "anchor_group n")
    case None
    then show ?thesis by (simp add: pbind_def pret_def Cons.IH porch_of_def)
  next
    case (Some g)
    obtain d where "porch_dispatch sw g t cs s = Inr (d, s)" using porch_dispatch_runs [OF assms] by blast
    with Some show ?thesis by (simp add: pbind_def pret_def Cons.IH porch_of_def)
  qed
qed (simp add: pret_def)

lemma anchor_group_anchor: "anchor_group (porch_anchor g t) = Some g"
proof -
  have "takeWhile is_digit (dec_nat g) = dec_nat g"
    using dec_nat_digits [of g] by (simp only: takeWhile_eq_all_conv list_all_iff)
  moreover have "anchor_group (porch_anchor g t) = Some (dec_value (takeWhile is_digit (dec_nat g)))"
    by (simp add: anchor_group_def porch_anchor_def nd_jump_def)
  ultimately show ?thesis by (simp only: dec_value_dec_nat)
qed

text \<open>Where the front of a switch lands for the case found: at its label, or for a case of a group
  in the group's porch with the number that the porch's dispatch, which stands where the group's
  anchor stood, takes to the case's label; for no case, at the default.\<close>

definition lands :: "sw_ctx \<Rightarrow> node list \<Rightarrow> node list \<Rightarrow> (nat \<Rightarrow> i64) \<Rightarrow> sw_case option \<Rightarrow> bool" where
  "lands sw front body e r =
     (case r of
        None \<Rightarrow> run e front = Some (e, Some (default_label sw))
      | Some c \<Rightarrow>
          (case sc_group c of
             None \<Rightarrow> run e front = Some (e, Some (sc_label c))
           | Some g \<Rightarrow>
               (\<exists>e1. run e front = Some (e1, Some (sw_porch sw ! g))
                  \<and> (\<forall>pre tk post. sw_body sw = pre @ porch_anchor g tk # post \<longrightarrow>
                       (\<exists>pre1 porch post1. body = pre1 @ porch @ post1 \<and> run e1 porch = Some (e1, Some (sc_label c)))))))"

lemma porch_in_body:
  assumes "index_ok s sw cs" "sw_body sw = pre @ porch_anchor g tk # post" "porch_entry sw g e1 cs = Some l"
  shows "\<exists>pre1 porch post1. concat (map (porch_of sw t s cs) (sw_body sw)) = pre1 @ porch @ post1
    \<and> run e1 porch = Some (e1, Some l)"
proof -
  obtain d where d: "porch_dispatch sw g t cs s = Inr (d, s)" "run e1 d = Some (e1, Some l)"
    using porch_dispatch_runs [OF assms(1), of g t] assms(3) by auto
  then have "d \<noteq> []" by auto
  with d have "porch_of sw t s cs (porch_anchor g tk) = d" by (simp add: porch_of_def anchor_group_anchor)
  then have "concat (map (porch_of sw t s cs) (sw_body sw)) =
      concat (map (porch_of sw t s cs) pre) @ d @ concat (map (porch_of sw t s cs) post)"
    by (simp add: assms(2))
  with d(2) show ?thesis by blast
qed


definition demo_case :: "i64 \<Rightarrow> i64 \<Rightarrow> string \<Rightarrow> nat option \<Rightarrow> sw_case" where
  "demo_case lo hi l g = \<lparr>sc_lo = lo, sc_hi = hi, sc_default = False, sc_label = l, sc_group = g\<rparr>"

definition demo_sw :: sw_ctx where
  "demo_sw = (sw_init ''x'')\<lparr>sw_cases := [demo_case 1 5 ''a'' None, demo_case 6 6 ''b'' (Some 0), demo_case 7 9 ''c'' (Some 0)],
     sw_porch := [''p''], sw_var := Some 1, sw_body := [porch_anchor 0 (new_token [] 1 TK_ID)]\<rparr>"

definition demo_state :: parser where
  "demo_state = (parser_init [] True True False)\<lparr>ps_vars := (\<lambda>_. Some (obj0 ''v'' ty_i64))\<rparr>"


end
