(* ===== verification/ClassLayout.thy ===== *)
theory ClassLayout
  imports Parse
begin

text \<open>
  The layout that \<open>parse_class\<close> (\<open>src/src/parse.c\<close>) gives the members of a class or union: they lie one
  after the other (a union's all at its start), inside the class, and where an alignment was asked
  for they have it. Moving the offset with \<open>$$ = ...;\<close> is left out here: it may put members anywhere.
\<close>

section \<open>Rounding up to an alignment\<close>

definition pow2 :: "int \<Rightarrow> bool" where
  "pow2 a \<longleftrightarrow> (\<exists>k. a = 2 ^ k)"

lemma and_neg_pow2: "x AND - (2 ^ k) = x - x mod 2 ^ k" for x :: int
proof -
  have "x AND NOT (mask k) = x AND NOT (take_bit k x)" by (rule bit_eqI) (auto simp: bit_simps)
  also have "\<dots> = x - take_bit k x" by (rule disjunctive_diff_eq_and_not [symmetric]) (rule bit_eqI, auto simp: bit_simps)
  finally have "x AND - (2 ^ k) = x - take_bit k x" by (simp only: minus_exp_eq_not_mask)
  then show ?thesis by (simp only: take_bit_eq_mod)
qed

lemma align_up_le:
  assumes "align_up n a = Inr m" "pow2 a"
  shows "n \<le> m \<and> m < n + a \<and> a dvd m"
proof -
  obtain k where k: "a = 2 ^ k" using assms(2) by (auto simp: pow2_def)
  then have a: "0 < a" by simp
  have "m = (n + a - 1) AND - a" using assms(1) by (auto simp: align_up_def rbind_eq_Inr c_int_Inr)
  then have m: "m = (n + a - 1) - (n + a - 1) mod a" using and_neg_pow2 [of "n + a - 1" k] k by simp
  have "0 \<le> (n + a - 1) mod a" "(n + a - 1) mod a < a" using a by simp_all
  moreover have "a dvd m" unfolding m by (rule dvd_minus_mod)
  ultimately show ?thesis using m by simp
qed

lemma align_up_zero: "align_up 0 a = Inr m \<Longrightarrow> pow2 a \<Longrightarrow> m = 0"
proof -
  assume a: "align_up 0 a = Inr m" "pow2 a"
  then have "0 \<le> m" "m < a" "a dvd m" using align_up_le [OF a] by simp_all
  then show "m = 0" using zdvd_imp_le [of a m] by fastforce
qed

section \<open>Placing the members\<close>

text \<open>A member to place: the alignment policy, the size and natural alignment of its type, its name and
  its type.\<close>

type_synonym placing = "int \<times> int \<times> int \<times> string \<times> ty"

definition place1 :: "bool \<Rightarrow> placing \<Rightarrow> layout \<Rightarrow> layout res" where
  "place1 uni p l = (case p of (policy, sz, al, x, y) \<Rightarrow> place_member uni policy sz al x y l)"

fun place_members :: "bool \<Rightarrow> placing list \<Rightarrow> layout \<Rightarrow> layout res" where
  "place_members uni [] l = Inr l"
| "place_members uni (p # ps) l = rbind (place1 uni p l) (place_members uni ps)"

definition pl_size :: "placing \<Rightarrow> int" where "pl_size p = fst (snd p)"

definition pl_align :: "placing \<Rightarrow> int" where
  "pl_align p = (case p of (policy, sz, al, x, y) \<Rightarrow>
     if policy = 0 then 1 else if policy < 0 then (if al \<noteq> 0 then al else 1) else policy)"

definition pl_ok :: "placing \<Rightarrow> bool" where
  "pl_ok p \<longleftrightarrow> 0 \<le> pl_size p \<and> pow2 (pl_align p)"

text \<open>Where each member placed so far lies.\<close>

definition placed_ok :: "bool \<Rightarrow> int \<Rightarrow> placing list \<Rightarrow> int list \<Rightarrow> int \<Rightarrow> bool" where
  "placed_ok uni start ps offs stop \<longleftrightarrow>
     list_all2 (\<lambda>p off. (if uni then off = 0 else start \<le> off) \<and> off + pl_size p \<le> stop \<and> pl_align p dvd off) ps offs
     \<and> (uni \<or> sorted_wrt (\<lambda>(p, off) (q, off2). off + pl_size p \<le> off2) (zip ps offs))"

lemma placed_ok_mono: "placed_ok uni start ps offs stop \<Longrightarrow> stop \<le> stop2 \<Longrightarrow> placed_ok uni start ps offs stop2"
  by (auto simp: placed_ok_def elim!: list_all2_mono)

lemma placed_ok_snoc:
  assumes "placed_ok uni start ps offs stop" "stop \<le> stop2" "pos + pl_size p \<le> stop2" "pl_align p dvd pos"
    "if uni then pos = 0 else start \<le> pos \<and> stop \<le> pos"
  shows "placed_ok uni start (ps @ [p]) (offs @ [pos]) stop2"
proof -
  have len: "length ps = length offs" using assms(1) by (auto simp: placed_ok_def dest: list_all2_lengthD)
  have "off + pl_size q \<le> stop" if "(q, off) \<in> set (zip ps offs)" for q off
    using assms(1) that by (auto simp: placed_ok_def list_all2_iff)
  then have "uni \<or> sorted_wrt (\<lambda>(p, off) (q, off2). off + pl_size p \<le> off2) (zip (ps @ [p]) (offs @ [pos]))"
    using assms(1,5) len by (fastforce simp: placed_ok_def sorted_wrt_append split: if_split_asm)
  moreover note placed_ok_mono [OF assms(1,2)]
  ultimately show ?thesis using assms(3-5) by (simp add: placed_ok_def list_all2_appendI split: if_split_asm)
qed

definition layout_inv :: "bool \<Rightarrow> int \<Rightarrow> placing list \<Rightarrow> layout \<Rightarrow> bool" where
  "layout_inv uni start ps l \<longleftrightarrow> placed_ok uni start ps (map m_offset (la_members l)) (la_off l)
     \<and> start \<le> la_off l \<and> la_neg l = 0 \<and> la_base l = 0 \<and> pow2 (la_hint l)"

lemma place1_inv:
  assumes "layout_inv uni start ps l" "place1 uni p l = Inr l1" "pl_ok p"
  shows "layout_inv uni start (ps @ [p]) l1"
proof -
  obtain policy sz al x y where p: "p = (policy, sz, al, x, y)" by (cases p)
  let ?from = "if uni then la_base l else la_off l"
  obtain pos where pos: "(if policy \<noteq> 0 then align_up ?from (pl_align p) else Inr ?from) = Inr pos"
    "l1 = l\<lparr>la_off := (if uni then max (pos + sz) (la_off l) else pos + sz),
        la_align := max (if al \<noteq> 0 then al else 1) (la_align l),
        la_hint := (if policy \<noteq> 0 then max (pl_align p) (la_hint l) else la_hint l),
        la_members := la_members l @ [\<lparr>m_name = x, m_ty = y, m_offset = pos\<rparr>]\<rparr>"
    using assms(2) unfolding p place1_def place_member_def
    by (auto simp: rbind_eq_Inr c_int_Inr Let_def pl_align_def split: if_split_asm)
  have al: "?from \<le> pos" "pl_align p dvd pos" "uni \<Longrightarrow> pos = 0"
    using pos(1) assms(1,3) align_up_le [of ?from "pl_align p" pos] align_up_zero [of "pl_align p" pos]
    by (auto simp: pl_ok_def layout_inv_def pl_align_def p split: if_split_asm)
  have sz: "pl_size p = sz" "0 \<le> sz" using assms(3) by (simp_all add: p pl_size_def pl_ok_def)
  have pm: "pow2 (max (pl_align p) (la_hint l))" using assms(1,3) by (simp add: pl_ok_def layout_inv_def max_def)
  note inv = assms(1) [unfolded layout_inv_def]
  have stop: "la_off l \<le> la_off l1" "pos + pl_size p \<le> la_off l1" using al(1) sz pos(2) by auto
  have "if uni then pos = 0 else start \<le> pos \<and> la_off l \<le> pos" using al(1,3) inv by auto
  then have "placed_ok uni start (ps @ [p]) (map m_offset (la_members l1)) (la_off l1)"
    using placed_ok_snoc [OF _ stop al(2)] inv pos(2) by simp
  then show ?thesis using inv pos(2) al sz pm stop(1) by (simp add: layout_inv_def)
qed

lemma place_members_inv:
  "layout_inv uni start qs l \<Longrightarrow> place_members uni ps l = Inr l1 \<Longrightarrow> \<forall>p \<in> set ps. pl_ok p \<Longrightarrow>
     layout_inv uni start (qs @ ps) l1"
proof (induction ps arbitrary: l qs)
  case (Cons p ps)
  then obtain l2 where "place1 uni p l = Inr l2" "place_members uni ps l2 = Inr l1" by (auto simp: rbind_eq_Inr)
  with Cons.IH [of "qs @ [p]" l2] place1_inv [of uni start qs l p l2] Cons.prems show ?case by simp
qed simp



end
