(* ===== verification/Emit.thy ===== *)
theory Emit
  imports Prelude
begin

text \<open>
  Writing text, as the code generators do it: a result that is text or an error, and actions that
  also change a state. The buffers themselves are those of \<open>sb.c\<close>; a write appends, and an error ends
  the compiler.
\<close>

section \<open>Texts\<close>

text \<open>A sequence of writes; the first error ends it.\<close>

primrec texts :: "string res list \<Rightarrow> string res" where
  "texts [] = Inr []"
| "texts (r # rs) = rbind r (\<lambda>a. rbind (texts rs) (\<lambda>b. Inr (a @ b)))"

abbreviation say :: "string \<Rightarrow> string res" where "say s \<equiv> Inr s"

text \<open>Writes with a separator in between.\<close>

fun separated :: "string \<Rightarrow> string res list \<Rightarrow> string res list" where
  "separated sep [] = []"
| "separated sep [r] = [r]"
| "separated sep (r # rs) = r # say sep # separated sep rs"

section \<open>Actions\<close>

type_synonym 's emitter = "'s \<Rightarrow> (string \<times> 's) res"

definition put :: "string res \<Rightarrow> 's emitter" where
  "put r = (\<lambda>st. rbind r (\<lambda>s. Inr (s, st)))"

definition out :: "string \<Rightarrow> 's emitter" where "out s = (\<lambda>st. Inr (s, st))"

definition change :: "('s \<Rightarrow> 's) \<Rightarrow> 's emitter" where "change g = (\<lambda>st. Inr ([], g st))"

primrec acts :: "'s emitter list \<Rightarrow> 's emitter" where
  "acts [] = out []"
| "acts (a # as) = (\<lambda>st. rbind (a st) (\<lambda>(s, st1). rbind (acts as st1) (\<lambda>(s2, st2). Inr (s @ s2, st2))))"

text \<open>Text that is made first and used in what follows, and actions with a separator in between.\<close>

definition taking :: "'s emitter \<Rightarrow> (string \<Rightarrow> 's emitter) \<Rightarrow> 's emitter" where
  "taking a f = (\<lambda>st. rbind (a st) (\<lambda>(s, st1). f s st1))"

fun separated_acts :: "string \<Rightarrow> 's emitter list \<Rightarrow> 's emitter list" where
  "separated_acts sep [] = []"
| "separated_acts sep [a] = [a]"
| "separated_acts sep (a # as) = a # out sep # separated_acts sep as"

definition nl :: string where "nl = [CHR 0x0A]"
definition tabs :: "nat \<Rightarrow> string" where "tabs n = replicate n (CHR 0x09)"

text \<open>A whole line.\<close>

definition line :: "nat \<Rightarrow> string \<Rightarrow> 's emitter" where "line ind s = out (tabs ind @ s @ nl)"

end
