(* ===== verification/CExpr.thy ===== *)
theory CExpr
  imports RtPrint ParserState Emit
begin

text \<open>
  The expressions of the C backend (\<open>src/src/back_c.c\<close>). Emitting is concatenating: the buffer only
  grows, so each function is the text it appends, or the error it stops with. Every emitted
  expression is a unary expression of C: a prefix of casts and operators, or in parentheses.
\<close>

section \<open>The program as the backend sees it\<close>

text \<open>The variables and functions the nodes refer to, the classes, whether the start-up code becomes a
  constructor, \<open>%.17g\<close> of the C library, and the texts that \<open>asm.c\<close> gives for asm blocks.\<close>

record cgen =
  cg_vars :: "nat \<Rightarrow> obj"
  cg_funcs :: "func list"
  cg_classes :: "class_info list"
  cg_ctor :: bool
  cg_g17 :: "bool \<times> string \<Rightarrow> string"
  cg_asm_inline :: "asm_block \<Rightarrow> nat \<Rightarrow> (nat \<Rightarrow> string) \<Rightarrow> string res"
  cg_asm_module :: "asm_block \<Rightarrow> string res"

definition value_unsig :: "ty \<Rightarrow> bool" where
  "value_unsig t \<longleftrightarrow> ty_unsigned t"

definition is_agg :: "ty \<Rightarrow> bool" where
  "is_agg t \<longleftrightarrow> is_class_ty t \<or> is_array_ty t"

definition is_ptr :: "ty \<Rightarrow> bool" where
  "is_ptr t \<longleftrightarrow> is_ptr_ty t \<or> is_array_ty t"

definition is_fs_obj :: "obj \<Rightarrow> bool" where
  "is_fs_obj v \<longleftrightarrow> o_extern v \<and> o_prelude v \<and> o_name v = ''Fs''"

definition is_c_varargs :: "func \<Rightarrow> bool" where
  "is_c_varargs f \<longleftrightarrow> f_variadic f \<and> f_extern f \<and> \<not> fn_prelude f"

definition is_user_import :: "func \<Rightarrow> bool" where
  "is_user_import f \<longleftrightarrow> f_extern f \<and> \<not> fn_prelude f \<and> f_link f = None"

definition scalar_ctype :: "ty \<Rightarrow> string" where
  "scalar_ctype t =
     (case t of
        TyF64 \<Rightarrow> ''hc_f64''
      | TyInt n u b \<Rightarrow>
          if n = 1 then (if u then ''uint8_t'' else ''int8_t'')
          else if n = 2 then (if u then ''uint16_t'' else ''int16_t'')
          else if n = 4 then (if u then ''uint32_t'' else ''int32_t'')
          else ''hc_i64''
      | _ \<Rightarrow> ''hc_i64'')"

definition value_ctype :: "ty \<Rightarrow> string" where
  "value_ctype t = (if t = TyF64 then ''hc_f64'' else ''hc_i64'')"

definition extern_ctype :: "ty \<Rightarrow> string" where
  "extern_ctype t = (if is_ptr t then ''void *'' else value_ctype t)"

text \<open>The bits asked for with a hint; 0 when none were.\<close>

fun ty_bits :: "ty \<Rightarrow> int" where "ty_bits (TyInt n u b) = b" | "ty_bits _ = 0"

definition signed_i1 :: "ty \<Rightarrow> bool" where
  "signed_i1 t \<longleftrightarrow> ty_bits t = 1 \<and> \<not> ty_unsigned t"

definition bits_begin :: "ty \<Rightarrow> string" where
  "bits_begin t =
     (if signed_i1 t then ''-(hc_i64)(''
      else ''(hc_i64)('' @ (if ty_unsigned t then ''unsigned'' else ''signed'') @ '' _BitInt('' @ dec_int (ty_bits t) @ ''))'')"

definition bits_end :: "ty \<Rightarrow> string" where
  "bits_end t = (if signed_i1 t then '' & 1)'' else [])"

text \<open>\<open>emit_narrowed\<close>, around a value that is already text.\<close>

definition narrowed :: "ty \<Rightarrow> string res \<Rightarrow> string res" where
  "narrowed t v = (if ty_bits t \<noteq> 0 then texts [say (bits_begin t), v, say (bits_end t)] else v)"

section \<open>Names\<close>

text \<open>Names are printed into buffers of 256 bytes.\<close>

definition in_buf :: "string \<Rightarrow> string" where "in_buf s = take 255 s"

definition var_name :: "nat \<Rightarrow> obj \<Rightarrow> string" where
  "var_name u v = in_buf
     (if o_extern v \<or> o_public v then o_name v
      else (if o_global v then ''g'' else ''l'') @ dec_nat u @ ''_'' @ o_name v)"

definition fun_name :: "func \<Rightarrow> string" where
  "fun_name f = in_buf
     (if is_user_import f then ''HC_EX('' @ fn_name f @ '')''
      else if f_extern f \<or> f_public f then fn_name f
      else ''hc_'' @ fn_name f)"

definition startup_name :: "bool \<Rightarrow> string" where
  "startup_name ctor = (if ctor then ''__hc_ctor_body'' else ''__hc_start'')"

definition labname :: "string \<Rightarrow> string" where
  "labname l = map (\<lambda>ch. if ch = CHR ''.'' then CHR ''_'' else ch) (in_buf (CHR ''L'' # l))"

definition elem_size :: "class_info list \<Rightarrow> ty \<Rightarrow> int" where
  "elem_size cs t = (let s = (case base_of t of Some b \<Rightarrow> ty_size cs b | None \<Rightarrow> 1) in if s = 0 then 1 else s)"

section \<open>Pieces of expressions\<close>

definition fnum_text :: "cgen \<Rightarrow> bool \<times> string \<Rightarrow> string" where
  "fnum_text c d = (let b = cg_g17 c d in if \<exists>ch \<in> set b. ch \<in> set ''.eEnN'' then b else b @ ''.0'')"

definition binop :: "node_kind \<Rightarrow> string" where
  "binop k =
     (case k of
        ND_ADD \<Rightarrow> ''+'' | ND_SUB \<Rightarrow> ''-'' | ND_MUL \<Rightarrow> ''*'' | ND_DIV \<Rightarrow> ''/''
      | ND_MOD \<Rightarrow> ''%'' | ND_AND \<Rightarrow> ''&'' | ND_OR \<Rightarrow> ''|'' | ND_XOR \<Rightarrow> ''^''
      | ND_SHL \<Rightarrow> ''<<'' | ND_SHR \<Rightarrow> ''>>'' | ND_EQ \<Rightarrow> ''=='' | ND_NE \<Rightarrow> ''!=''
      | ND_LT \<Rightarrow> ''<'' | ND_LE \<Rightarrow> ''<='' | ND_LOGAND \<Rightarrow> ''&&'' | ND_LOGOR \<Rightarrow> ''||''
      | ND_COMMA \<Rightarrow> '','' | _ \<Rightarrow> [])"

definition sp_op :: "node_kind \<Rightarrow> string" where "sp_op k = '' '' @ binop k @ '' ''"

definition emit_binary :: "node_kind \<Rightarrow> string res \<Rightarrow> string res \<Rightarrow> string res" where
  "emit_binary k l r = texts [say ''('', l, say (sp_op k), r, say '')'']"

definition emit_unsigned_binary :: "node_kind \<Rightarrow> string res \<Rightarrow> string res \<Rightarrow> string res" where
  "emit_unsigned_binary k l r = texts [say ''(hc_i64)((hc_u64)'', l, say (sp_op k @ ''(hc_u64)''), r, say '')'']"

definition emit_load :: "ty \<Rightarrow> string res \<Rightarrow> string res" where
  "emit_load t a =
     (if is_agg t then a
      else if t = TyF64 then texts [say ''*(hc_f64 *)(intptr_t)'', a]
      else texts [say (if ty_bits t \<noteq> 0 then bits_begin t else if is_int_ty t \<and> ty_size [] t < 8 then ''(hc_i64)'' else []),
                  say (''*('' @ scalar_ctype t @ '' *)(intptr_t)''), a, say (if ty_bits t \<noteq> 0 then bits_end t else [])])"

definition var_text :: "nat \<Rightarrow> obj \<Rightarrow> string" where
  "var_text u v =
     (let x = var_name u v; t = o_ty v
      in if is_fs_obj v then ''(hc_i64)(intptr_t)__hc_fs()''
         else if is_agg t then ''(hc_i64)(intptr_t)'' @ x
         else if t = TyF64 then x
         else if ty_bits t \<noteq> 0 then bits_begin t @ x @ bits_end t
         else if is_int_ty t \<and> ty_size [] t < 8 then ''(hc_i64)'' @ x
         else x)"

definition assign_text :: "cgen \<Rightarrow> node \<Rightarrow> string res \<Rightarrow> string res \<Rightarrow> string res" where
  "assign_text c l la r =
     (if is_class_ty (nty l)
      then texts [say ''(hc_i64)(intptr_t)memcpy((void *)(intptr_t)'', la, say '', (void *)(intptr_t)'', r,
                  say ('', '' @ dec_int (ty_size (cg_classes c) (nty l)) @ '')'')]
      else if nkind l = ND_VAR \<and> \<not> is_agg (nty l)
      then texts [say (''('' @ var_name (ni_var (ninf l)) (cg_vars c (ni_var (ninf l))) @ '' = ''), narrowed (nty l) r, say '')'']
      else texts [say (''(*('' @ scalar_ctype (nty l) @ '' *)(intptr_t)''), la, say '' = '', narrowed (nty l) r, say '')''])"

definition cast_text :: "bool \<Rightarrow> ty \<Rightarrow> ty \<Rightarrow> string res \<Rightarrow> string res" where
  "cast_text bitc to from v =
     (let small = is_int_ty to \<and> ty_size [] to < 8
      in if bitc \<and> to = TyF64 then texts [say ''hc_b2f('', v, say '')'']
         else if bitc
         then texts [say (if small then ''(hc_i64)('' @ scalar_ctype to @ '')'' else []), say ''hc_f2b('', v, say '')'']
         else if to = TyF64 \<and> from \<noteq> TyF64
         then texts [say (''(hc_f64)'' @ (if value_unsig from then ''(hc_u64)'' else [])), v]
         else if to \<noteq> TyF64 \<and> from = TyF64
         then texts [say (if small then ''(hc_i64)('' @ scalar_ctype to @ '')(hc_i64)'' else ''(hc_i64)''), v]
         else if small then texts [say (''(hc_i64)('' @ scalar_ctype to @ '')''), v]
         else v)"

text \<open>Pointers are scaled by the size of what they point to.\<close>

definition sum_text :: "class_info list \<Rightarrow> node_kind \<Rightarrow> ty \<Rightarrow> ty \<Rightarrow> string res \<Rightarrow> string res \<Rightarrow> string res" where
  "sum_text cs k lt rt l r =
     (if is_ptr lt \<and> is_ptr rt \<and> k = ND_SUB
      then texts [say ''(('', l, say '' - '', r, say ('') / '' @ dec_int (elem_size cs lt) @ '')'')]
      else if is_ptr lt
      then texts [say ''('', l, say (sp_op k), r, say ('' * '' @ dec_int (elem_size cs lt) @ '')'')]
      else emit_binary k l r)"

section \<open>Calls\<close>

text \<open>An argument for an external function: a pointer parameter takes a string, the address of a variable
  or a value cast to a pointer.\<close>

definition emit_rt_arg :: "cgen \<Rightarrow> node \<Rightarrow> string res \<Rightarrow> ty \<Rightarrow> string res" where
  "emit_rt_arg c a v pty =
     (if \<not> is_ptr pty then v
      else if nkind a = ND_STR then say (''hcs'' @ dec_nat (ni_str_id (ninf a)))
      else if nkind a = ND_ADDR \<and> (case nlhs a of Some l \<Rightarrow> nkind l = ND_VAR | None \<Rightarrow> False)
      then (let l = the (nlhs a); u = ni_var (ninf l)
            in say ((if is_agg (nty l) then [] else ''&'') @ var_name u (cg_vars c u)))
      else texts [say ''(void *)(intptr_t)'', v])"

text \<open>Variadic arguments are 64-bit slots; a float goes in by its bits.\<close>

definition slot_text :: "node \<Rightarrow> string res \<Rightarrow> string res" where
  "slot_text a v = (if nty a = TyF64 then texts [say ''hc_f2b('', v, say '')''] else v)"

definition slots_text :: "(node \<times> string res) list \<Rightarrow> string res" where
  "slots_text as = texts ([say ''(hc_i64[]){''] @ separated '', '' (map (\<lambda>(a, v). slot_text a v) as) @ [say ''}''])"

text \<open>The fixed arguments of a direct call, with the parameters they meet.\<close>

fun fixed_args :: "cgen \<Rightarrow> func \<Rightarrow> (node \<times> string res) list \<Rightarrow> nat list \<Rightarrow> string res list" where
  "fixed_args c f [] ps = []"
| "fixed_args c f ((a, v) # as) ps =
     (if f_extern f
      then (case ps of [] \<Rightarrow> Inl NullDeref | p # _ \<Rightarrow> emit_rt_arg c a v (o_ty (cg_vars c p)))
      else v) # fixed_args c f as (tl ps)"

definition direct_call :: "cgen \<Rightarrow> func \<Rightarrow> nat \<Rightarrow> (node \<times> string res) list \<Rightarrow> string res" where
  "direct_call c f nfixed as =
     (let fixed = fixed_args c f (take nfixed as) (f_params f); extras = drop nfixed as; sep = (if fixed = [] then [] else '', '')
      in texts
        [say (fun_name f @ ''(''),
         (if is_c_varargs f then texts (separated '', '' (fixed @ map snd extras))
          else if f_variadic f
          then texts (separated '', '' fixed
                 @ [say (sep @ dec_nat (length extras) @ '', ''), say (if f_extern f then [] else ''(hc_i64)(intptr_t)''),
                    (if extras = [] then say ''(hc_i64 *)0'' else slots_text extras)])
          else texts (separated '', '' fixed)),
         say '')''])"

text \<open>A call through a pointer casts it to the type of the arguments.\<close>

definition indirect_call :: "node \<Rightarrow> node \<Rightarrow> string res \<Rightarrow> (node \<times> string res) list \<Rightarrow> string res" where
  "indirect_call n l lv as =
     (let holyva = (case nty l of TyPtr (TyFunc r ps va hva) nn \<Rightarrow> hva | _ \<Rightarrow> False);
          fixed = (if holyva then take (ni_nfixed (ninf n)) as else as); extras = drop (length fixed) as;
          types = map (\<lambda>(a, v). say (value_ctype (nty a))) fixed @ (if holyva then [say ''hc_i64'', say ''hc_i64''] else []);
          sep = (if fixed = [] then [] else '', '')
      in texts
        [say (''(('' @ (if nty n = TyF64 then ''hc_f64'' else ''hc_i64'') @ ''(*)(''),
         texts (if types = [] then [say ''void''] else separated '', '' types), say ''))(intptr_t)'', lv, say '')('',
         texts (separated '', '' (map snd fixed)),
         (if \<not> holyva then say []
          else texts [say (sep @ dec_nat (length extras) @ '', ''),
                 (if extras = [] then say ''0'' else texts [say ''(hc_i64)(intptr_t)'', slots_text extras])]),
         say '')''])"

definition emit_call :: "cgen \<Rightarrow> node \<Rightarrow> bool \<Rightarrow> string res \<Rightarrow> string res list \<Rightarrow> string res" where
  "emit_call c n value lv vs =
     (let isvoid = (value \<and> nty n = TyVoid)
      in texts
        [say (if isvoid then ''('' else []),
         (case nfunc n of
            Some i \<Rightarrow>
              (let f = cg_funcs c ! i
               in texts [say (if value \<and> f_extern f \<and> (case base_of (f_ty f) of Some b \<Rightarrow> is_ptr b | None \<Rightarrow> False)
                              then ''(hc_i64)(intptr_t)'' else []),
                         direct_call c f (ni_nfixed (ninf n)) (zip (nargs n) vs)])
          | None \<Rightarrow> (case nlhs n of None \<Rightarrow> Inl NullDeref | Some l \<Rightarrow> indirect_call n l lv (zip (nargs n) vs))),
         say (if isvoid then '', 0)'' else [])])"

section \<open>Values, truth values and addresses\<close>

definition truth_kinds :: "node_kind list" where
  "truth_kinds = [ND_EQ, ND_NE, ND_LT, ND_LE, ND_LOGAND, ND_LOGOR, ND_LOGXOR, ND_NOT]"

text \<open>An ordering is unsigned when one of its operands is.\<close>

definition compare_text :: "node_kind \<Rightarrow> ty \<Rightarrow> ty \<Rightarrow> string res \<Rightarrow> string res \<Rightarrow> string res" where
  "compare_text k lt rt l r =
     (if (k = ND_LT \<or> k = ND_LE) \<and> is_int_ty lt \<and> (value_unsig lt \<or> value_unsig rt)
      then texts [say ''((hc_u64)'', l, say (sp_op k @ ''(hc_u64)''), r, say '')'']
      else emit_binary k l r)"

definition no_node :: "string res" where "no_node = Inl NullDeref"

definition opt_ty :: "node option \<Rightarrow> ty" where
  "opt_ty x = (case x of None \<Rightarrow> TyVoid | Some n \<Rightarrow> nty n)"

definition hex_text :: "i64 \<Rightarrow> string" where
  "hex_text v = radix_text False 16 (unat v)"

function emit_val :: "cgen \<Rightarrow> node \<Rightarrow> string res"
  and emit_truth :: "cgen \<Rightarrow> node \<Rightarrow> string res"
  and emit_addr :: "cgen \<Rightarrow> node \<Rightarrow> string res" where
  "emit_val c n =
     (let k = nkind n;
          l = (case nlhs n of None \<Rightarrow> no_node | Some m \<Rightarrow> emit_val c m);
          r = (case nrhs n of None \<Rightarrow> no_node | Some m \<Rightarrow> emit_val c m);
          la = (case nlhs n of None \<Rightarrow> no_node | Some m \<Rightarrow> emit_addr c m);
          unsig = (is_int_ty (nty n) \<and> ty_unsigned (nty n))
      in if k = ND_NUM then say (''(hc_i64)0x'' @ hex_text (nival n) @ ''ULL'')
         else if k = ND_FNUM then say (fnum_text c (ni_fval (ninf n)))
         else if k = ND_STR then say (''(hc_i64)(intptr_t)hcs'' @ dec_nat (ni_str_id (ninf n)))
         else if k = ND_VAR then say (var_text (ni_var (ninf n)) (cg_vars c (ni_var (ninf n))))
         else if k = ND_FUNCNAME
         then (case nfunc n of None \<Rightarrow> no_node | Some i \<Rightarrow> say (''(hc_i64)(intptr_t)&'' @ fun_name (cg_funcs c ! i)))
         else if k = ND_DEREF then (if is_agg (nty n) then l else emit_load (nty n) (emit_addr c n))
         else if k = ND_MEMBER then emit_load (nty n) (emit_addr c n)
         else if k = ND_ADDR then la
         else if k = ND_ASSIGN
         then (case nlhs n of None \<Rightarrow> no_node | Some m \<Rightarrow> assign_text c m la r)
         else if k = ND_CAST then cast_text (ni_bit_cast (ninf n)) (nty n) (opt_ty (nlhs n)) l
         else if k = ND_ADD \<or> k = ND_SUB
         then sum_text (cg_classes c) k (opt_ty (nlhs n)) (opt_ty (nrhs n)) l r
         else if k \<in> {ND_MUL, ND_DIV, ND_MOD, ND_SHR}
         then (if unsig \<and> k \<noteq> ND_MUL then emit_unsigned_binary k l r else emit_binary k l r)
         else if k \<in> {ND_AND, ND_OR, ND_XOR, ND_SHL, ND_COMMA} then emit_binary k l r
         else if k = ND_POW then texts [say ''__hc_pow('', l, say '', '', r, say '')'']
         else if k \<in> set truth_kinds then texts [say ''(hc_i64)'', emit_truth c n]
         else if k = ND_BITNOT then texts [say ''~'', l]
         else if k = ND_NEG then texts [say ''-'', l]
         else if k = ND_CALL then emit_call c n True l (map (emit_val c) (nargs n))
         else if k = ND_NOP then say ''0''
         else Inl (Err ''C backend: unexpected node kind in expression''))"
| "emit_truth c n =
     (let k = nkind n
      in if k \<notin> set truth_kinds then emit_val c n
         else
           (let l = (case nlhs n of None \<Rightarrow> no_node | Some m \<Rightarrow> emit_val c m);
                r = (case nrhs n of None \<Rightarrow> no_node | Some m \<Rightarrow> emit_val c m);
                lt = (case nlhs n of None \<Rightarrow> no_node | Some m \<Rightarrow> emit_truth c m);
                rt = (case nrhs n of None \<Rightarrow> no_node | Some m \<Rightarrow> emit_truth c m)
            in if k \<in> {ND_EQ, ND_NE, ND_LT, ND_LE} then compare_text k (opt_ty (nlhs n)) (opt_ty (nrhs n)) l r
               else if k = ND_LOGAND \<or> k = ND_LOGOR then emit_binary k lt rt
               else if k = ND_LOGXOR then texts [say ''(!'', lt, say '' != !'', rt, say '')'']
               else texts [say ''!'', lt]))"
| "emit_addr c n =
     (let k = nkind n
      in if k = ND_VAR
         then (let u = ni_var (ninf n); v = cg_vars c u
               in say (''(hc_i64)(intptr_t)'' @ (if is_agg (o_ty v) then [] else ''&'') @ var_name u v))
         else if k = ND_DEREF then (case nlhs n of None \<Rightarrow> no_node | Some m \<Rightarrow> emit_val c m)
         else if k = ND_MEMBER
         then (let a = (case nlhs n of None \<Rightarrow> no_node | Some m \<Rightarrow> emit_addr c m); off = m_offset (ni_member (ninf n))
               in if off \<noteq> 0 then texts [say ''('', a, say ('' + '' @ dec_int off @ '')'')] else a)
         else Inl (Err ''C backend: not an lvalue''))"
  by pat_completeness auto
termination
  by (relation "measures [(\<lambda>x. case x of Inl (c, n) \<Rightarrow> size n | Inr (Inl (c, n)) \<Rightarrow> size n | Inr (Inr (c, n)) \<Rightarrow> size n),
        (\<lambda>x. case x of Inl (c, n) \<Rightarrow> 2 | Inr (Inl (c, n)) \<Rightarrow> if nkind n \<in> set truth_kinds then 1 else 3 | Inr (Inr (c, n)) \<Rightarrow> 0)]")
    (auto intro!: children_smaller simp: children_def)

declare emit_val.simps [simp del] emit_truth.simps [simp del] emit_addr.simps [simp del]

text \<open>An expression whose value is not used.\<close>

definition emit_discarded :: "cgen \<Rightarrow> node \<Rightarrow> string res" where
  "emit_discarded c n =
     (if nkind n = ND_CALL
      then emit_call c n False (case nlhs n of None \<Rightarrow> no_node | Some l \<Rightarrow> emit_val c l) (map (emit_val c) (nargs n))
      else emit_val c n)"

end
