(* ===== verification/CRead.thy ===== *)
theory CRead
  imports CExpr ConstEval
begin

text \<open>
  A reader for the part of C that the integer expressions of the backend use: C's tokens by longest
  match, C's grammar of unary and binary operators with its precedences, and C's rules for the
  values. It knows nothing of the emitter, so what it reads back from an emitted text is what a C
  compiler computes.
\<close>

section \<open>Tokens\<close>

datatype ctok = CNum i64 | CId string | CP string

definition hex_chars :: string where "hex_chars = ''0123456789abcdef''"
definition is_hex :: "char \<Rightarrow> bool" where "is_hex ch \<longleftrightarrow> ch \<in> set hex_chars"
definition hex_digit :: "char \<Rightarrow> nat" where "hex_digit ch = length (takeWhile (\<lambda>d. d \<noteq> ch) hex_chars)"
definition hex_value :: "string \<Rightarrow> nat" where "hex_value s = fold (\<lambda>ch v. 16 * v + hex_digit ch) s 0"

definition id_start :: "char \<Rightarrow> bool" where
  "id_start ch \<longleftrightarrow> ch = CHR ''_'' \<or> (97 \<le> (of_char ch :: nat) \<and> (of_char ch :: nat) \<le> 122)
     \<or> (65 \<le> (of_char ch :: nat) \<and> (of_char ch :: nat) \<le> 90)"

definition id_char :: "char \<Rightarrow> bool" where
  "id_char ch \<longleftrightarrow> id_start ch \<or> (48 \<le> (of_char ch :: nat) \<and> (of_char ch :: nat) \<le> 57)"

definition puncts2 :: "string list" where
  "puncts2 = [''<<'', ''>>'', ''=='', ''!='', ''<='', ''>='', ''&&'', ''||'', ''--'', ''++'', ''->'',
     ''+='', ''-='', ''*='', ''/='', ''%='', ''&='', ''|='', ''^='', ''//'', ''/*'']"

definition puncts1 :: string where "puncts1 = ''()[]{}.,;?:~!%^&*-+=|<>/''"

text \<open>A hexadecimal constant with the suffix \<open>ULL\<close>, an identifier, or the longest operator.\<close>

function c_lex :: "string \<Rightarrow> ctok list option" where
  "c_lex [] = Some []"
| "c_lex (ch # s) =
     (if ch = CHR '' '' then c_lex s
      else if ch = CHR ''0'' \<and> take 1 s = ''x''
      then (let h = takeWhile is_hex (tl s); r = dropWhile is_hex (tl s)
            in if h \<noteq> [] \<and> take 3 r = ''ULL'' then map_option ((#) (CNum (word_of_nat (hex_value h)))) (c_lex (drop 3 r)) else None)
      else if id_start ch
      then map_option ((#) (CId (ch # takeWhile id_char s))) (c_lex (dropWhile id_char s))
      else if ch # take 1 s \<in> set puncts2 then map_option ((#) (CP (ch # take 1 s))) (c_lex (drop 1 s))
      else if ch \<in> set puncts1 then map_option ((#) (CP [ch])) (c_lex s)
      else None)"
  by pat_completeness auto
termination
  by (relation "measure length") (auto simp: less_Suc_eq_le le_diff_conv intro: le_trans [OF length_dropWhile_le]
      le_trans [OF diff_le_self] le_trans [OF _ length_dropWhile_le])

declare c_lex.simps(2) [simp del]

section \<open>Grammar\<close>

datatype cexp = CLit i64 | CVar string | CCast string cexp | CUn string cexp | CBin string cexp cexp

definition type_names :: "string list" where
  "type_names = [''hc_i64'', ''hc_u64'', ''int8_t'', ''uint8_t'', ''int16_t'', ''uint16_t'', ''int32_t'', ''uint32_t'']"

definition c_prec :: "string \<Rightarrow> nat option" where
  "c_prec op = map_of
     [(''*'', 10), (''/'', 10), (''%'', 10), (''+'', 9), (''-'', 9), (''<<'', 8), (''>>'', 8), (''<'', 7), (''<='', 7), (''>'', 7),
      (''>='', 7), (''=='', 6), (''!='', 6), (''&'', 5), (''^'', 4), (''|'', 3), (''&&'', 2), (''||'', 1)] op"

text \<open>A cast is a type name in parentheses; binary operators group to the left by precedence.\<close>

fun c_unary :: "nat \<Rightarrow> ctok list \<Rightarrow> (cexp \<times> ctok list) option"
  and c_binary :: "nat \<Rightarrow> nat \<Rightarrow> ctok list \<Rightarrow> (cexp \<times> ctok list) option"
  and c_rest :: "nat \<Rightarrow> nat \<Rightarrow> cexp \<Rightarrow> ctok list \<Rightarrow> (cexp \<times> ctok list) option" where
  "c_unary 0 ts = None"
| "c_unary (Suc f) ts =
     (case ts of
        CNum v # r \<Rightarrow> Some (CLit v, r)
      | CId x # r \<Rightarrow> if x \<in> set type_names then None else Some (CVar x, r)
      | CP p # r \<Rightarrow>
          if p \<in> {''-'', ''~'', ''!''} then map_option (\<lambda>(e, r2). (CUn p e, r2)) (c_unary f r)
          else if p = ''(''
          then (case r of
                  CId t # CP q # r2 \<Rightarrow>
                    if t \<in> set type_names \<and> q = '')'' then map_option (\<lambda>(e, r3). (CCast t e, r3)) (c_unary f r2)
                    else (case c_binary f 0 r of Some (e, CP q1 # r1) \<Rightarrow> if q1 = '')'' then Some (e, r1) else None | _ \<Rightarrow> None)
                | _ \<Rightarrow> (case c_binary f 0 r of Some (e, CP q1 # r1) \<Rightarrow> if q1 = '')'' then Some (e, r1) else None | _ \<Rightarrow> None))
          else None
      | [] \<Rightarrow> None)"
| "c_binary 0 p ts = None"
| "c_binary (Suc f) p ts = (case c_unary f ts of None \<Rightarrow> None | Some (l, r) \<Rightarrow> c_rest f p l r)"
| "c_rest 0 p l ts = None"
| "c_rest (Suc f) p l ts =
     (case ts of
        CP op # r \<Rightarrow>
          (case c_prec op of
             None \<Rightarrow> Some (l, ts)
           | Some q \<Rightarrow>
               if q < p then Some (l, ts)
               else (case c_binary f (q + 1) r of None \<Rightarrow> None | Some (e, r2) \<Rightarrow> c_rest f p (CBin op l e) r2))
      | _ \<Rightarrow> Some (l, ts))"

definition c_read :: "string \<Rightarrow> cexp option" where
  "c_read s =
     (case c_lex s of
        None \<Rightarrow> None
      | Some ts \<Rightarrow> (case c_binary (4 * length ts + 4) 0 ts of Some (e, []) \<Rightarrow> Some e | _ \<Rightarrow> None))"

section \<open>Values\<close>

text \<open>A value of type \<open>hc_i64\<close> or \<open>hc_u64\<close>, or of a narrower type, which here is only converted or tested.\<close>

datatype cval = VI int | VL i64 | VU i64

definition cval_bits :: "cval \<Rightarrow> i64" where
  "cval_bits x = (case x of VI i \<Rightarrow> word_of_int i | VL w \<Rightarrow> w | VU w \<Rightarrow> w)"

definition c_cast :: "string \<Rightarrow> i64 \<Rightarrow> cval option" where
  "c_cast t w =
     (if t = ''hc_i64'' then Some (VL w)
      else if t = ''hc_u64'' then Some (VU w)
      else if t = ''int8_t'' then Some (VI (sint (ucast w :: 8 word)))
      else if t = ''uint8_t'' then Some (VI (uint (ucast w :: 8 word)))
      else if t = ''int16_t'' then Some (VI (sint (ucast w :: 16 word)))
      else if t = ''uint16_t'' then Some (VI (uint (ucast w :: 16 word)))
      else if t = ''int32_t'' then Some (VI (sint (ucast w :: 32 word)))
      else if t = ''uint32_t'' then Some (VI (uint (ucast w :: 32 word)))
      else None)"

definition c_un :: "string \<Rightarrow> cval \<Rightarrow> cval option" where
  "c_un p x =
     (if p = ''!'' then Some (VI (if cval_bits x = 0 then 1 else 0))
      else (case x of
              VL a \<Rightarrow> if p = ''-'' then map_option VL (c_i64 (- sint a))
                     else if p = ''~'' then map_option VL (c_i64 (- sint a - 1)) else None
            | _ \<Rightarrow> None))"

definition truth_val :: "bool \<Rightarrow> cval option" where "truth_val b = Some (VI (if b then 1 else 0))"

text \<open>Both operands signed, or both unsigned. A signed result that does not fit, a division by zero and
  a shift out of range are undefined.\<close>

definition c_signed :: "string \<Rightarrow> i64 \<Rightarrow> i64 \<Rightarrow> cval option" where
  "c_signed p a b =
     (if p = ''+'' then map_option VL (c_i64 (sint a + sint b))
      else if p = ''-'' then map_option VL (c_i64 (sint a - sint b))
      else if p = ''*'' then map_option VL (c_i64 (sint a * sint b))
      else if p = ''/'' then (case c_div a b of Inl _ \<Rightarrow> None | Inr v \<Rightarrow> if b = 0 then None else Some (VL v))
      else if p = ''%'' then (case c_mod a b of Inl _ \<Rightarrow> None | Inr v \<Rightarrow> if b = 0 then None else Some (VL v))
      else if p = ''&'' then map_option VL (c_i64 (sint a AND sint b))
      else if p = ''|'' then map_option VL (c_i64 (sint a OR sint b))
      else if p = ''^'' then map_option VL (c_i64 (sint a XOR sint b))
      else if p = ''<<'' then (if sint a < 0 \<or> 64 \<le> uint b then None else map_option VL (c_i64 (sint a * 2 ^ unat b)))
      else if p = ''>>'' then (if 64 \<le> uint b then None else Some (VL (word_of_int (sint a div 2 ^ unat b))))
      else if p = ''=='' then truth_val (a = b)
      else if p = ''!='' then truth_val (a \<noteq> b)
      else if p = ''<'' then truth_val (sint a < sint b)
      else if p = ''<='' then truth_val (sint a \<le> sint b)
      else None)"

definition c_unsigned :: "string \<Rightarrow> i64 \<Rightarrow> i64 \<Rightarrow> cval option" where
  "c_unsigned p a b =
     (if p = ''/'' then (if b = 0 then None else Some (VU (a div b)))
      else if p = ''%'' then (if b = 0 then None else Some (VU (a mod b)))
      else if p = ''>>'' then (if 64 \<le> uint b then None else Some (VU (word_of_int (uint a div 2 ^ unat b))))
      else if p = ''<'' then truth_val (uint a < uint b)
      else if p = ''<='' then truth_val (uint a \<le> uint b)
      else None)"

fun c_eval :: "(string \<Rightarrow> cval option) \<Rightarrow> cexp \<Rightarrow> cval option" where
  "c_eval X (CLit v) = Some (VU v)"
| "c_eval X (CVar x) = X x"
| "c_eval X (CCast t e) = (case c_eval X e of None \<Rightarrow> None | Some a \<Rightarrow> c_cast t (cval_bits a))"
| "c_eval X (CUn p e) = (case c_eval X e of None \<Rightarrow> None | Some a \<Rightarrow> c_un p a)"
| "c_eval X (CBin p l r) =
     (case (c_eval X l, c_eval X r) of
        (Some (VL a), Some (VL b)) \<Rightarrow> c_signed p a b
      | (Some (VU a), Some (VU b)) \<Rightarrow> c_unsigned p a b
      | _ \<Rightarrow> None)"

end
