(* ===== verification/CValue.thy ===== *)
theory CValue
  imports CRead
begin

text \<open>
  The text the C backend emits for an integer expression, read by the rules of C, has the value the
  expression has. \<open>shows_as\<close> says that a text is a unary expression of C with some value; one rule per
  way in which the emitter builds texts.
\<close>

section \<open>Reading pieces of text\<close>

definition ends_token :: "string \<Rightarrow> bool" where
  "ends_token s \<longleftrightarrow> (case s of [] \<Rightarrow> True | ch # _ \<Rightarrow> ch = CHR '' '' \<or> ch = CHR '')'')"

lemma ends_token_simps [simp]:
  "ends_token []" "ends_token (CHR '' '' # s)" "ends_token (CHR '')'' # s)"
  by (simp_all add: ends_token_def)

text \<open>The text is the tokens, whatever follows after a space or a closing parenthesis.\<close>

definition reads :: "string \<Rightarrow> ctok list \<Rightarrow> bool" where
  "reads s ts \<longleftrightarrow> s \<noteq> [] \<and> hd s \<notin> {CHR ''='', CHR ''>''}
     \<and> (\<forall>rest. ends_token rest \<longrightarrow> c_lex (s @ rest) = map_option ((@) ts) (c_lex rest))"

lemma map_option_Cons: "map_option ((#) a) (map_option ((@) ts) x) = map_option ((@) (a # ts)) x"
  by (cases x) simp_all

lemma lex_open: "c_lex (CHR ''('' # s) = map_option ((#) (CP ''('')) (c_lex s)"
  by (cases s) (simp_all add: c_lex.simps(2) [of "CHR ''(''"] id_start_def puncts2_def puncts1_def)

lemma lex_close: "c_lex (CHR '')'' # s) = map_option ((#) (CP '')'')) (c_lex s)"
  by (cases s) (simp_all add: c_lex.simps(2) [of "CHR '')''"] id_start_def puncts2_def puncts1_def)

lemma lex_space: "c_lex (CHR '' '' # s) = c_lex s"
  by (simp add: c_lex.simps(2))

lemma lex_ident:
  assumes "x \<noteq> []" "id_start (hd x)" "list_all id_char x" "rest = [] \<or> \<not> id_char (hd rest)"
  shows "c_lex (x @ rest) = map_option ((#) (CId x)) (c_lex rest)"
proof -
  obtain ch y where x: "x = ch # y" using assms(1) by (cases x) auto
  have ch: "id_start ch" "ch \<noteq> CHR '' ''" "ch \<noteq> CHR ''0''" using assms(2) by (auto simp: x id_start_def)
  have tw: "takeWhile id_char (y @ rest) = y" "dropWhile id_char (y @ rest) = rest"
    using assms(3,4) by (cases rest; auto simp: x list_all_iff takeWhile_append dropWhile_append)+
  show ?thesis using ch tw by (simp add: x c_lex.simps(2))
qed

lemma reads_cast:
  assumes "reads s ts" "t \<in> set type_names"
  shows "reads (''('' @ t @ '')'' @ s) ([CP ''('', CId t, CP '')''] @ ts)"
proof -
  have t: "t \<noteq> []" "id_start (hd t)" "list_all id_char t"
    using assms(2) by (auto simp: type_names_def id_start_def id_char_def)
  have "c_lex (t @ '')'' @ s @ rest) = map_option ((#) (CId t)) (c_lex ('')'' @ s @ rest))" for rest
    using lex_ident [OF t, of "'')'' @ s @ rest"] by (simp add: id_char_def id_start_def)
  then show ?thesis using assms(1)
    by (auto simp: reads_def lex_open lex_close map_option_Cons)
qed

lemma reads_un:
  assumes "reads s ts" "p = CHR ''-'' \<or> p = CHR ''~'' \<or> p = CHR ''!''" "p = CHR ''-'' \<longrightarrow> hd s \<noteq> CHR ''-''"
  shows "reads (p # s) (CP [p] # ts)"
proof -
  obtain ch r where s: "s = ch # r" using assms(1) by (cases s) (auto simp: reads_def)
  have "c_lex (p # s @ rest) = map_option ((#) (CP [p])) (c_lex (s @ rest))" for rest
    using assms by (auto simp: s reads_def c_lex.simps(2) [of p] id_start_def puncts2_def puncts1_def)
  then show ?thesis using assms(1,2) by (auto simp: reads_def map_option_Cons)
qed

definition ops :: "string list" where
  "ops = [''+'', ''-'', ''*'', ''/'', ''%'', ''&'', ''|'', ''^'', ''<<'', ''>>'', ''=='', ''!='', ''<'', ''<='']"

lemma lex_op: "op \<in> set ops \<Longrightarrow> c_lex (op @ '' '' @ s) = map_option ((#) (CP op)) (c_lex s)"
  by (auto simp: ops_def c_lex.simps(2) id_start_def puncts2_def puncts1_def)

lemma reads_bin:
  assumes "reads a ta" "reads b tb" "op \<in> set ops"
  shows "reads (''('' @ a @ '' '' @ op @ '' '' @ b @ '')'') (CP ''('' # ta @ CP op # tb @ [CP '')''])"
proof -
  have "c_lex (a @ '' '' @ op @ '' '' @ b @ '')'' @ rest) =
      map_option ((@) ta) (map_option ((#) (CP op)) (map_option ((@) tb) (map_option ((#) (CP '')'')) (c_lex rest))))" for rest
    using assms(1,2) lex_op [OF assms(3), of "b @ '')'' @ rest"] by (simp add: reads_def lex_space lex_close)
  moreover have "(\<lambda>x. CP ''('' # ta @ CP op # tb @ CP '')'' # x) = (@) (CP ''('' # ta @ CP op # tb @ [CP '')''])"
    by (simp add: fun_eq_iff)
  ultimately show ?thesis by (simp add: reads_def lex_open option.map_comp comp_def)
qed

section \<open>Parsing the tokens\<close>

definition parses :: "ctok list \<Rightarrow> cexp \<Rightarrow> bool" where
  "parses ts e \<longleftrightarrow> ts \<noteq> [] \<and> (\<forall>f rest. 4 * length ts \<le> f \<longrightarrow> c_unary f (ts @ rest) = Some (e, rest))"

lemma parses_cast: "parses ts e \<Longrightarrow> t \<in> set type_names \<Longrightarrow> parses ([CP ''('', CId t, CP '')''] @ ts) (CCast t e)"
  unfolding parses_def
proof (intro conjI allI impI)
  fix f rest assume a: "ts \<noteq> [] \<and> (\<forall>f rest. 4 * length ts \<le> f \<longrightarrow> c_unary f (ts @ rest) = Some (e, rest))"
    "t \<in> set type_names" "4 * length ([CP ''('', CId t, CP '')''] @ ts) \<le> f"
  then obtain g where "f = Suc g" "4 * length ts \<le> g" by (cases f) auto
  with a show "c_unary f (([CP ''('', CId t, CP '')''] @ ts) @ rest) = Some (CCast t e, rest)" by simp
qed simp

lemma parses_un: "parses ts e \<Longrightarrow> p \<in> {''-'', ''~'', ''!''} \<Longrightarrow> parses (CP p # ts) (CUn p e)"
  unfolding parses_def
proof (intro conjI allI impI)
  fix f rest assume a: "ts \<noteq> [] \<and> (\<forall>f rest. 4 * length ts \<le> f \<longrightarrow> c_unary f (ts @ rest) = Some (e, rest))"
    "p \<in> {''-'', ''~'', ''!''}" "4 * length (CP p # ts) \<le> f"
  then obtain g where "f = Suc g" "4 * length ts \<le> g" by (cases f) auto
  with a show "c_unary f ((CP p # ts) @ rest) = Some (CUn p e, rest)" by auto
qed simp

text \<open>An opening parenthesis that does not open a cast.\<close>

lemma c_unary_paren:
  assumes "c_unary g r = Some x"
  shows "c_unary (Suc f) (CP ''('' # r) =
     (case c_binary f 0 r of Some (e, CP q1 # r1) \<Rightarrow> if q1 = '')'' then Some (e, r1) else None | _ \<Rightarrow> None)"
proof -
  have "\<not> (\<exists>t r2. r = CId t # CP '')'' # r2 \<and> t \<in> set type_names)" using assms by (cases g) auto
  then show ?thesis by (auto split: list.split ctok.split)
qed

lemma op_prec: "op \<in> set ops \<Longrightarrow> \<exists>q. c_prec op = Some q"
  by (auto simp: ops_def c_prec_def)

lemma parses_bin:
  assumes "parses ta l" "parses tb r" "op \<in> set ops"
  shows "parses (CP ''('' # ta @ CP op # tb @ [CP '')'']) (CBin op l r)"
  unfolding parses_def
proof (intro conjI allI impI)
  fix f rest assume f: "4 * length (CP ''('' # ta @ CP op # tb @ [CP '')'']) \<le> f"
  define g where "g = f - 5"
  have g: "f = Suc (Suc (Suc (Suc (Suc g))))" "4 * length ta \<le> g" "4 * length tb \<le> g"
    using f by (simp_all add: g_def)
  obtain q where q: "c_prec op = Some q" using op_prec [OF assms(3)] by blast
  let ?r = "ta @ CP op # tb @ [CP '')''] @ rest"
  have l: "c_unary k ?r = Some (l, CP op # tb @ [CP '')''] @ rest)" if "g \<le> k" for k
    using assms(1) g(2) that by (simp add: parses_def)
  have r: "c_unary k (tb @ [CP '')''] @ rest) = Some (r, [CP '')''] @ rest)" if "g \<le> k" for k
    using assms(2) g(3) that by (simp add: parses_def)
  have close: "c_rest (Suc k) p e ([CP '')''] @ rest) = Some (e, [CP '')''] @ rest)" for k p e
    by (simp add: c_prec_def)
  have gpos: "\<exists>h. g = Suc h" using g(2) assms(1) by (cases g) (auto simp: parses_def)
  then have "c_binary (Suc (Suc g)) (q + 1) (tb @ [CP '')''] @ rest) = Some (r, [CP '')''] @ rest)"
    using r [of "Suc g"] close by auto
  then have "c_rest (Suc (Suc (Suc g))) 0 l (CP op # tb @ [CP '')''] @ rest) = Some (CBin op l r, [CP '')''] @ rest)"
    using close [of "Suc g"] q by simp
  then have "c_binary (Suc (Suc (Suc (Suc g)))) 0 ?r = Some (CBin op l r, [CP '')''] @ rest)"
    using l [of "Suc (Suc (Suc g))"] by simp
  then show "c_unary f ((CP ''('' # ta @ CP op # tb @ [CP '')'']) @ rest) = Some (CBin op l r, rest)"
    using c_unary_paren [OF l [of g]] by (simp add: g(1))
qed simp
section \<open>Texts with a value\<close>

definition shows_as :: "(string \<Rightarrow> cval option) \<Rightarrow> string \<Rightarrow> cval \<Rightarrow> bool" where
  "shows_as X s x \<longleftrightarrow> (\<exists>ts e. reads s ts \<and> parses ts e \<and> c_eval X e = Some x)"

lemma shows_cast:
  "shows_as X s x \<Longrightarrow> t \<in> set type_names \<Longrightarrow> c_cast t (cval_bits x) = Some y \<Longrightarrow> shows_as X (''('' @ t @ '')'' @ s) y"
  unfolding shows_as_def using reads_cast parses_cast by fastforce

lemma shows_i64: "shows_as X s x \<Longrightarrow> shows_as X (''(hc_i64)'' @ s) (VL (cval_bits x))"
  using shows_cast [of X s x "''hc_i64''"] by (simp add: type_names_def c_cast_def)

lemma shows_u64: "shows_as X s x \<Longrightarrow> shows_as X (''(hc_u64)'' @ s) (VU (cval_bits x))"
  using shows_cast [of X s x "''hc_u64''"] by (simp add: type_names_def c_cast_def)

lemma shows_un:
  "shows_as X s x \<Longrightarrow> p = CHR ''-'' \<or> p = CHR ''~'' \<or> p = CHR ''!'' \<Longrightarrow> p = CHR ''-'' \<longrightarrow> hd s \<noteq> CHR ''-'' \<Longrightarrow>
     c_un [p] x = Some y \<Longrightarrow> shows_as X (p # s) y"
proof -
  assume a: "shows_as X s x" "p = CHR ''-'' \<or> p = CHR ''~'' \<or> p = CHR ''!''" "p = CHR ''-'' \<longrightarrow> hd s \<noteq> CHR ''-''"
    "c_un [p] x = Some y"
  then obtain ts e where t: "reads s ts" "parses ts e" "c_eval X e = Some x" unfolding shows_as_def by blast
  have "[p] \<in> {''-'', ''~'', ''!''}" using a(2) by blast
  from reads_un [OF t(1) a(2,3)] parses_un [OF t(2) this] t(3) a(4) show ?thesis
    unfolding shows_as_def by (intro exI [of _ "CP [p] # ts"] exI [of _ "CUn [p] e"]) simp
qed

lemma shows_bin:
  assumes "shows_as X a x" "shows_as X b y" "op \<in> set ops"
    "(\<exists>u v. x = VL u \<and> y = VL v \<and> c_signed op u v = Some z) \<or> (\<exists>u v. x = VU u \<and> y = VU v \<and> c_unsigned op u v = Some z)"
  shows "shows_as X (''('' @ a @ '' '' @ op @ '' '' @ b @ '')'') z"
proof -
  obtain ta l tb r where a: "reads a ta" "parses ta l" "c_eval X l = Some x" and b: "reads b tb" "parses tb r" "c_eval X r = Some y"
    using assms(1,2) unfolding shows_as_def by blast
  have "c_eval X (CBin op l r) = Some z" using a(3) b(3) assms(4) by auto
  with reads_bin [OF a(1) b(1) assms(3)] parses_bin [OF a(2) b(2) assms(3)] show ?thesis
    unfolding shows_as_def by blast
qed

lemma hex_digit_radix: "n < 16 \<Longrightarrow> hex_digit (radix_digit False n) = n \<and> is_hex (radix_digit False n)"
proof -
  assume "n < 16"
  moreover have "list_all (\<lambda>n. hex_digit (radix_digit False n) = n \<and> is_hex (radix_digit False n)) [0 ..< 16]"
    by code_simp
  ultimately show ?thesis by (simp add: list_all_iff)
qed

lemma hex_value_snoc: "hex_value (s @ [ch]) = 16 * hex_value s + hex_digit ch"
  by (simp add: hex_value_def)

lemma hex_radix:
  "hex_value (radix_text False 16 n) = n \<and> list_all is_hex (radix_text False 16 n) \<and> radix_text False 16 n \<noteq> []"
proof (induction n rule: less_induct)
  case (less n)
  show ?case
  proof (cases "n < 16")
    case True
    with hex_digit_radix [OF True] show ?thesis
      using hex_value_snoc [of "[]" "radix_digit False n"] by (simp add: radix_text.simps [of False 16 n] hex_value_def)
  next
    case False
    with less [of "n div 16"] hex_digit_radix [of "n mod 16"] show ?thesis
      by (simp add: radix_text.simps [of False 16 n] hex_value_snoc)
  qed
qed

lemma shows_num: "shows_as X (''(hc_i64)0x'' @ hex_text v @ ''ULL'') (VL v)"
proof -
  let ?h = "hex_text v"
  have h: "hex_value ?h = unat v" "list_all is_hex ?h" "?h \<noteq> []"
    using hex_radix [of "unat v"] by (simp_all add: hex_text_def)
  have "takeWhile is_hex (?h @ ''ULL'' @ rest) = ?h" "dropWhile is_hex (?h @ ''ULL'' @ rest) = ''ULL'' @ rest" for rest
    using h(2) by (simp_all add: list_all_iff takeWhile_append dropWhile_append is_hex_def hex_chars_def)
  then have "c_lex (''0x'' @ ?h @ ''ULL'' @ rest) = map_option ((#) (CNum v)) (c_lex rest)" for rest
    using h(1,3) by (simp add: c_lex.simps(2) [of "CHR ''0''"])
  moreover have "(@) [CNum v] = (#) (CNum v)" by (simp add: fun_eq_iff)
  ultimately have "reads (''0x'' @ ?h @ ''ULL'') [CNum v]" by (simp add: reads_def)
  moreover have "parses [CNum v] (CLit v)"
    unfolding parses_def
  proof (intro conjI allI impI)
    fix f rest assume "4 * length [CNum v] \<le> f"
    then show "c_unary f ([CNum v] @ rest) = Some (CLit v, rest)" by (cases f) simp_all
  qed simp
  ultimately have "shows_as X (''0x'' @ ?h @ ''ULL'') (VU v)" unfolding shows_as_def by fastforce
  from shows_i64 [OF this] show ?thesis by (simp add: cval_bits_def)
qed

text \<open>A name of the emitted code that is no type.\<close>

definition c_name :: "string \<Rightarrow> bool" where
  "c_name x \<longleftrightarrow> x \<noteq> [] \<and> id_start (hd x) \<and> list_all id_char x \<and> x \<notin> set type_names"

lemma shows_name: "c_name x \<Longrightarrow> X x = Some y \<Longrightarrow> shows_as X x y"
proof -
  assume x: "c_name x" "X x = Some y"
  then have i: "x \<noteq> []" "id_start (hd x)" "list_all id_char x" "x \<notin> set type_names" by (simp_all add: c_name_def)
  have "c_lex (x @ rest) = map_option ((#) (CId x)) (c_lex rest)" if "ends_token rest" for rest
    using that by (intro lex_ident i) (auto simp: ends_token_def id_char_def id_start_def split: list.splits)
  moreover have "hd x \<notin> {CHR ''='', CHR ''>''}" using i(2) by (auto simp: id_start_def)
  moreover have "(@) [CId x] = (#) (CId x)" by (simp add: fun_eq_iff)
  ultimately have "reads x [CId x]" using i(1) by (simp add: reads_def)
  moreover have "parses [CId x] (CVar x)"
    unfolding parses_def
  proof (intro conjI allI impI)
    fix f rest assume "4 * length [CId x] \<le> f"
    then show "c_unary f ([CId x] @ rest) = Some (CVar x, rest)" using i(4) by (cases f) simp_all
  qed simp
  ultimately show ?thesis using x(2) unfolding shows_as_def by fastforce
qed

lemma shows_read: "shows_as X s x \<Longrightarrow> \<exists>e. c_read s = Some e \<and> c_eval X e = Some x"
proof -
  assume "shows_as X s x"
  then obtain ts e where a: "reads s ts" "parses ts e" "c_eval X e = Some x" unfolding shows_as_def by blast
  then have lex: "c_lex s = Some ts" by (auto simp: reads_def dest!: spec [of _ "[]"])
  obtain n where n: "4 * length ts + 4 = Suc (Suc n)" "4 * length ts \<le> Suc n" by (simp add: numeral_eq_Suc)
  have "c_unary (Suc n) (ts @ []) = Some (e, [])" using a(2) n(2) unfolding parses_def by blast
  then have "c_binary (Suc (Suc n)) 0 ts = Some (e, [])" by simp
  then have "c_binary (4 * length ts + 4) 0 ts = Some (e, [])" by (simp only: n(1))
  with lex a(3) show ?thesis by (simp add: c_read_def del: c_binary.simps)
qed

section \<open>Operators\<close>

lemma binop_ops [simp]:
  "k \<in> {ND_ADD, ND_SUB, ND_MUL, ND_DIV, ND_MOD, ND_AND, ND_OR, ND_XOR, ND_SHL, ND_SHR, ND_EQ, ND_NE, ND_LT, ND_LE} \<Longrightarrow>
     binop k \<in> set ops"
  by (auto simp: binop_def ops_def)

text \<open>The kinds whose value is an \<open>hc_i64\<close> of C, and the comparisons.\<close>

definition arith_kinds :: "node_kind list" where
  "arith_kinds = [ND_ADD, ND_SUB, ND_MUL, ND_AND, ND_OR, ND_XOR, ND_SHL, ND_SHR]"

definition compare_kinds :: "node_kind list" where
  "compare_kinds = [ND_EQ, ND_NE, ND_LT, ND_LE]"

lemma c_signed_arith:
  "k \<in> set arith_kinds \<Longrightarrow> \<not> (u \<and> k = ND_SHR) \<Longrightarrow> rt_arith k u a b = Some v \<Longrightarrow> c_signed (binop k) a b = Some (VL v)"
  by (cases k) (simp_all add: arith_kinds_def rt_arith_def c_signed_def binop_def split: if_split_asm)

lemma c_signed_compare:
  "k \<in> set compare_kinds \<Longrightarrow> rt_arith k u a b = Some v \<Longrightarrow> \<exists>i. c_signed (binop k) a b = Some (VI i) \<and> word_of_int i = v"
  by (cases k) (simp_all add: compare_kinds_def rt_arith_def c_signed_def binop_def truth_val_def sint_inject split: if_split_asm)

lemma c_signed_div:
  "b \<noteq> 0 \<Longrightarrow> (if k = ND_DIV then c_div a b else c_mod a b) = Inr v \<Longrightarrow> k = ND_DIV \<or> k = ND_MOD \<Longrightarrow>
     c_signed (binop k) a b = Some (VL v)"
  by (auto simp: c_signed_def binop_def)

lemma emit_binary_text: "emit_binary k (Inr a) (Inr b) = Inr (''('' @ a @ '' '' @ binop k @ '' '' @ b @ '')'')"
  by (simp add: emit_binary_def sp_op_def)

lemma emit_unsigned_text:
  "emit_unsigned_binary k (Inr a) (Inr b) =
     Inr (''(hc_i64)'' @ ''('' @ (''(hc_u64)'' @ a) @ '' '' @ binop k @ '' '' @ (''(hc_u64)'' @ b) @ '')'')"
  by (simp add: emit_unsigned_binary_def sp_op_def)

text \<open>What the emitter makes of two operands has the value of the operation.\<close>

lemma shows_binary:
  assumes "shows_as X a (VL x)" "shows_as X b (VL y)" "binop k \<in> set ops" "c_signed (binop k) x y = Some z"
  shows "\<exists>s. emit_binary k (Inr a) (Inr b) = Inr s \<and> shows_as X s z"
  using shows_bin [OF assms(1-3)] assms(4) by (simp add: emit_binary_text)

lemma shows_unsigned:
  assumes "shows_as X a (VL x)" "shows_as X b (VL y)" "binop k \<in> set ops" "c_unsigned (binop k) x y = Some (VU v)"
  shows "\<exists>s. emit_unsigned_binary k (Inr a) (Inr b) = Inr s \<and> shows_as X s (VL v)"
proof -
  have "shows_as X (''('' @ (''(hc_u64)'' @ a) @ '' '' @ binop k @ '' '' @ (''(hc_u64)'' @ b) @ '')'') (VU v)"
    using shows_u64 [OF assms(1)] shows_u64 [OF assms(2)] assms(3,4)
    by (intro shows_bin [where x = "VU x" and y = "VU y"]) (simp_all add: cval_bits_def)
  from shows_i64 [OF this] show ?thesis by (simp only: emit_unsigned_text cval_bits_def cval.case) blast
qed

lemma shows_compare:
  assumes a: "shows_as X a (VL x)" and b: "shows_as X b (VL y)" and k: "k \<in> set compare_kinds"
    and rt: "rt_binop n l r x y = Some v" "nkind n = k"
  shows "\<exists>s i. compare_text k (nty l) (nty r) (Inr a) (Inr b) = Inr s \<and> shows_as X s (VI i) \<and> word_of_int i = v"
proof -
  have ops: "binop k \<in> set ops" using k by (auto simp: compare_kinds_def)
  have nodiv: "k \<noteq> ND_DIV" "k \<noteq> ND_MOD" using k by (auto simp: compare_kinds_def)
  show ?thesis
  proof (cases "(k = ND_LT \<or> k = ND_LE) \<and> is_int_ty (nty l) \<and> (ty_unsigned (nty l) \<or> ty_unsigned (nty r))")
    case True
    then have v: "v = (if (if k = ND_LT then uint x < uint y else uint x \<le> uint y) then 1 else 0)"
      using rt nodiv by (auto simp: rt_binop_def split: if_split_asm)
    let ?i = "if (if k = ND_LT then uint x < uint y else uint x \<le> uint y) then 1 else 0 :: int"
    have "c_unsigned (binop k) x y = Some (VI ?i)" using True by (auto simp: c_unsigned_def binop_def truth_val_def)
    then have "shows_as X (''('' @ (''(hc_u64)'' @ a) @ '' '' @ binop k @ '' '' @ (''(hc_u64)'' @ b) @ '')'') (VI ?i)"
      using shows_u64 [OF a] shows_u64 [OF b] ops
      by (intro shows_bin [where x = "VU x" and y = "VU y"]) (simp_all add: cval_bits_def)
    moreover have "compare_text k (nty l) (nty r) (Inr a) (Inr b) =
        Inr (''('' @ (''(hc_u64)'' @ a) @ '' '' @ binop k @ '' '' @ (''(hc_u64)'' @ b) @ '')'')"
      using True by (simp add: compare_text_def value_unsig_def sp_op_def)
    moreover have "word_of_int ?i = v" using v by auto
    ultimately show ?thesis by blast
  next
    case False
    then have "rt_arith k (ty_unsigned (nty n)) x y = Some v"
      using rt nodiv by (auto simp: rt_binop_def split: if_split_asm)
    then obtain i where "c_signed (binop k) x y = Some (VI i)" "word_of_int i = v" using c_signed_compare [OF k] by blast
    with shows_binary [OF a b ops] False show ?thesis by (auto simp: compare_text_def value_unsig_def)
  qed
qed

lemma shows_arith:
  assumes a: "shows_as X a (VL x)" and b: "shows_as X b (VL y)"
    and k: "k \<in> set arith_kinds \<or> k = ND_DIV \<or> k = ND_MOD" and rt: "rt_binop n l r x y = Some v" "nkind n = k"
  shows "\<exists>s. (if k = ND_ADD \<or> k = ND_SUB then sum_text cs k (nty l) (nty r) (Inr a) (Inr b)
      else if k \<in> {ND_DIV, ND_MOD, ND_SHR} \<and> ty_unsigned (nty n) then emit_unsigned_binary k (Inr a) (Inr b)
      else emit_binary k (Inr a) (Inr b)) = Inr s \<and> shows_as X s (VL v)"
proof -
  have ops: "binop k \<in> set ops" using k by (auto simp: arith_kinds_def)
  have noptr: "\<not> is_ptr (nty l)" "\<not> is_ptr (nty r)" using rt by (auto simp: rt_binop_def is_ptr_def is_ptrish_def split: if_split_asm)
  show ?thesis
  proof (cases "k \<in> {ND_DIV, ND_MOD, ND_SHR} \<and> ty_unsigned (nty n)")
    case True
    then have "c_unsigned (binop k) x y = Some (VU v)"
      using rt by (auto simp: rt_binop_def c_unsigned_def binop_def rt_arith_def split: if_split_asm)
    with shows_unsigned [OF a b ops] True show ?thesis by auto
  next
    case False
    have "c_signed (binop k) x y = Some (VL v)"
    proof (cases "k = ND_DIV \<or> k = ND_MOD")
      case True
      with rt False show ?thesis
        by (intro c_signed_div) (auto simp: rt_binop_def split: if_split_asm sum.split_asm)
    next
      case nd: False
      then have "rt_arith k (ty_unsigned (nty n)) x y = Some v"
        using rt k by (auto simp: rt_binop_def arith_kinds_def split: if_split_asm)
      then show ?thesis using k nd False by (intro c_signed_arith) auto
    qed
    with shows_binary [OF a b ops] False noptr show ?thesis by (auto simp: sum_text_def)
  qed
qed
section \<open>Emitted expressions\<close>

text \<open>The variables: \<open>env\<close> gives their values, \<open>X\<close> the values of their names in C, at their width.\<close>

definition env_ok :: "cgen \<Rightarrow> (nat \<Rightarrow> i64 option) \<Rightarrow> (string \<Rightarrow> cval option) \<Rightarrow> bool" where
  "env_ok c env X \<longleftrightarrow> (\<forall>u x. env u = Some x \<longrightarrow>
     (let v = cg_vars c u; y = var_name u v; t = o_ty v
      in \<not> is_fs_obj v \<and> \<not> is_agg t \<and> t \<noteq> TyF64 \<and> ty_bits t = 0 \<and> c_name y
         \<and> (\<exists>a. X y = Some a \<and> cval_bits a = x \<and> ((is_int_ty t \<and> ty_size [] t < 8) \<or> a = VL x))))"

text \<open>No bits of a float are taken, and no negation stands before a text that starts with a minus.\<close>

function readable :: "cgen \<Rightarrow> node \<Rightarrow> bool" where
  "readable c n \<longleftrightarrow> \<not> ni_bit_cast (ninf n)
     \<and> (nkind n = ND_NEG \<longrightarrow> (case nlhs n of None \<Rightarrow> True | Some l \<Rightarrow>
          (case emit_val c l of Inl _ \<Rightarrow> True | Inr s \<Rightarrow> take 1 s \<noteq> ''-'')))
     \<and> (case nlhs n of None \<Rightarrow> True | Some l \<Rightarrow> readable c l) \<and> (case nrhs n of None \<Rightarrow> True | Some r \<Rightarrow> readable c r)"
  by pat_completeness auto
termination
  by (relation "measure (\<lambda>(c, n). size n)") (auto intro!: children_smaller simp: children_def)

declare readable.simps [simp del]

lemma shows_nonempty: "shows_as X s x \<Longrightarrow> s \<noteq> []"
  by (auto simp: shows_as_def reads_def)

lemma shows_var:
  assumes "env_ok c env X" "env u = Some x"
  shows "shows_as X (var_text u (cg_vars c u)) (VL x)"
proof -
  let ?v = "cg_vars c u" and ?y = "var_name u (cg_vars c u)"
  obtain a where a: "X ?y = Some a" "cval_bits a = x" "c_name ?y" "\<not> is_fs_obj ?v" "\<not> is_agg (o_ty ?v)" "o_ty ?v \<noteq> TyF64"
    "ty_bits (o_ty ?v) = 0" "(is_int_ty (o_ty ?v) \<and> ty_size [] (o_ty ?v) < 8) \<or> a = VL x"
    using assms unfolding env_ok_def Let_def by blast
  have y: "shows_as X ?y a" using shows_name a(1,3) by blast
  show ?thesis
  proof (cases "is_int_ty (o_ty ?v) \<and> ty_size [] (o_ty ?v) < 8")
    case True
    then show ?thesis using shows_i64 [OF y] a by (simp add: var_text_def Let_def)
  next
    case False
    then show ?thesis using y a by (auto simp: var_text_def Let_def)
  qed
qed

lemma shows_cast_text:
  assumes "shows_as X s (VL a)" "\<not> bitc" "from \<noteq> TyF64" "to \<noteq> TyF64"
  shows "\<exists>t. cast_text bitc to from (Inr s) = Inr t \<and> shows_as X t (VL (narrow to a))"
proof (cases "is_int_ty to \<and> ty_size [] to < 8")
  case True
  then obtain k u b where to: "to = TyInt k u b" by (cases to) auto
  have "scalar_ctype to \<in> set type_names" by (auto simp: to scalar_ctype_def type_names_def)
  moreover have "\<exists>y. c_cast (scalar_ctype to) a = Some y \<and> cval_bits y = narrow to a"
    by (auto simp: to scalar_ctype_def c_cast_def narrow_def cval_bits_def)
  ultimately obtain y where "shows_as X (''('' @ scalar_ctype to @ '')'' @ s) y" "cval_bits y = narrow to a"
    using shows_cast [OF assms(1), of "scalar_ctype to"] by (auto simp: cval_bits_def)
  from shows_i64 [OF this(1)] this(2) True assms(2-4) show ?thesis by (auto simp: cast_text_def Let_def)
next
  case False
  then have "narrow to a = a" by (auto simp: narrow_def ty_size_def split: ty.split)
  with False assms show ?thesis by (auto simp: cast_text_def Let_def)
qed

lemma text_has_value:
  assumes "env_ok c env X"
  shows "readable c n \<Longrightarrow> rt_value env n = Some v \<Longrightarrow>
      (\<exists>s. emit_val c n = Inr s \<and> shows_as X s (VL v)) \<and> (\<exists>s x. emit_truth c n = Inr s \<and> shows_as X s x \<and> cval_bits x = v)"
proof (induction n arbitrary: v rule: measure_induct_rule [of size])
  case (less n)
  note rt = less.prems(2) [unfolded rt_value.simps [of _ n]]
  note re = less.prems(1) [unfolded readable.simps [of _ n]]
  have nf: "nty n \<noteq> TyF64" using rt by (auto split: if_splits)
  have sub: "(\<exists>s. emit_val c m = Inr s \<and> shows_as X s (VL w)) \<and> (\<exists>s x. emit_truth c m = Inr s \<and> shows_as X s x \<and> cval_bits x = w)"
    if "nlhs n = Some m \<or> nrhs n = Some m" "rt_value env m = Some w" for m w
  proof (rule less.IH [OF _ _ that(2)])
    show "size m < size n" using that(1) by (auto intro!: children_smaller simp: children_def opt_list_def)
    show "readable c m" using that(1) re by auto
  qed
  have not_f64: "nty m \<noteq> TyF64" if "rt_value env m = Some w" for m w
    using that by (auto simp: rt_value.simps [of _ m])
  have plain: ?case if "nkind n \<notin> set truth_kinds" "emit_val c n = Inr s" "shows_as X s (VL v)" for s
    using that by (auto simp: emit_truth.simps [of c n] cval_bits_def)
  have truth: ?case if "nkind n \<in> set truth_kinds" "emit_truth c n = Inr s" "shows_as X s x" "cval_bits x = v" for s x
  proof -
    have "emit_val c n = Inr (''(hc_i64)'' @ s)"
      using that(1,2) by (simp add: emit_val.simps [of c n] Let_def truth_kinds_def) (elim disjE; simp)
    with shows_i64 [OF that(3)] that(2-4) show ?thesis by auto
  qed
  consider "nkind n = ND_NUM" | "nkind n = ND_VAR" | "nkind n \<in> set unary_kinds"
    | "nkind n \<in> set compare_kinds" | "nkind n \<in> set arith_kinds \<or> nkind n = ND_DIV \<or> nkind n = ND_MOD"
    using rt by (auto simp: arith_kinds_def compare_kinds_def binary_kinds_def split: if_split_asm)
  then show ?case
  proof cases
    case 1
    with rt nf show ?thesis
      using shows_num [of X v] by (intro plain [of "''(hc_i64)0x'' @ hex_text v @ ''ULL''"]) (simp_all add: emit_val.simps truth_kinds_def)
  next
    case 2
    with rt nf have "env (ni_var (ninf n)) = Some v" by simp
    with shows_var [OF assms] 2 show ?thesis
      by (intro plain) (auto simp: emit_val.simps truth_kinds_def)
  next
    case 3
    with rt nf obtain l a where l: "nlhs n = Some l" "rt_value env l = Some a" "rt_unop n a = Some v"
      by (auto simp: unary_kinds_def split: option.split_asm)
    obtain s where s: "emit_val c l = Inr s" "shows_as X s (VL a)" using sub [of l a] l by blast
    obtain t x where t: "emit_truth c l = Inr t" "shows_as X t x" "cval_bits x = a" using sub [of l a] l by blast
    from 3 consider "nkind n = ND_NEG" | "nkind n = ND_BITNOT" | "nkind n = ND_NOT" | "nkind n = ND_CAST"
      by (auto simp: unary_kinds_def)
    then show ?thesis
    proof cases
      case 1
      have "hd s \<noteq> CHR ''-''" using re 1 l s shows_nonempty [OF s(2)] by (cases s) auto
      moreover have "c_un ''-'' (VL a) = Some (VL v)" using l(3) 1 by (simp add: c_un_def rt_unop_def)
      ultimately have "shows_as X (CHR ''-'' # s) (VL v)" using shows_un [OF s(2)] by blast
      then show ?thesis using 1 l s by (intro plain) (auto simp: emit_val.simps [of c n] Let_def truth_kinds_def)
    next
      case 2
      have "c_un ''~'' (VL a) = Some (VL v)" using l(3) 2 by (simp add: c_un_def rt_unop_def)
      then have "shows_as X (CHR ''~'' # s) (VL v)" using shows_un [OF s(2), of "CHR ''~''"] by simp
      then show ?thesis using 2 l s by (intro plain) (auto simp: emit_val.simps [of c n] Let_def truth_kinds_def)
    next
      case 3
      have "shows_as X (CHR ''!'' # t) (VI (if a = 0 then 1 else 0))"
        using shows_un [OF t(2), of "CHR ''!''"] t(3) by (simp add: c_un_def)
      moreover have "v = (if a = 0 then 1 else 0)" using l(3) 3 by (simp add: rt_unop_def unat_eq_zero)
      ultimately show ?thesis
        using 3 l t by (intro truth) (auto simp: emit_truth.simps [of c n] Let_def truth_kinds_def cval_bits_def)
    next
      case 4
      have "v = narrow (nty n) a" using l(3) 4 by (simp add: rt_unop_def)
      then obtain u where "cast_text (ni_bit_cast (ninf n)) (nty n) (nty l) (Inr s) = Inr u" "shows_as X u (VL v)"
        using shows_cast_text [OF s(2) _ not_f64 [OF l(2)] nf] re by blast
      then show ?thesis using 4 l s by (intro plain) (auto simp: emit_val.simps [of c n] Let_def truth_kinds_def opt_ty_def)
    qed
  next
    case 4
    with rt nf obtain l r a b where lr: "nlhs n = Some l" "nrhs n = Some r" "rt_value env l = Some a"
      "rt_value env r = Some b" "rt_binop n l r a b = Some v"
      by (auto simp: compare_kinds_def unary_kinds_def split: option.split_asm if_split_asm)
    obtain s t where s: "emit_val c l = Inr s" "shows_as X s (VL a)" "emit_val c r = Inr t" "shows_as X t (VL b)"
      using sub [of l a] sub [of r b] lr by blast
    obtain u i where u: "compare_text (nkind n) (nty l) (nty r) (Inr s) (Inr t) = Inr u" "shows_as X u (VI i)" "word_of_int i = v"
      using shows_compare [OF s(2,4) 4 lr(5) refl] by blast
    have "emit_truth c n = Inr u"
      using 4 lr s u(1) by (auto simp: emit_truth.simps [of c n] Let_def truth_kinds_def compare_kinds_def opt_ty_def)
    moreover have "nkind n \<in> set truth_kinds" using 4 by (auto simp: truth_kinds_def compare_kinds_def)
    ultimately show ?thesis using truth u(2,3) by (simp add: cval_bits_def)
  next
    case 5
    with rt nf obtain l r a b where lr: "nlhs n = Some l" "nrhs n = Some r" "rt_value env l = Some a"
      "rt_value env r = Some b" "rt_binop n l r a b = Some v"
      by (auto simp: arith_kinds_def unary_kinds_def split: option.split_asm if_split_asm)
    obtain s t where s: "emit_val c l = Inr s" "shows_as X s (VL a)" "emit_val c r = Inr t" "shows_as X t (VL b)"
      using sub [of l a] sub [of r b] lr by blast
    have int: "(is_int_ty y \<and> ty_unsigned y) = ty_unsigned y" for y by (cases y) auto
    obtain u where u: "(if nkind n = ND_ADD \<or> nkind n = ND_SUB then sum_text (cg_classes c) (nkind n) (nty l) (nty r) (Inr s) (Inr t)
        else if nkind n \<in> {ND_DIV, ND_MOD, ND_SHR} \<and> ty_unsigned (nty n) then emit_unsigned_binary (nkind n) (Inr s) (Inr t)
        else emit_binary (nkind n) (Inr s) (Inr t)) = Inr u" "shows_as X u (VL v)"
      using shows_arith [OF s(2,4) 5 lr(5) refl] by blast
    have "emit_val c n = (if nkind n = ND_ADD \<or> nkind n = ND_SUB then sum_text (cg_classes c) (nkind n) (nty l) (nty r) (Inr s) (Inr t)
        else if nkind n \<in> {ND_DIV, ND_MOD, ND_SHR} \<and> ty_unsigned (nty n) then emit_unsigned_binary (nkind n) (Inr s) (Inr t)
        else emit_binary (nkind n) (Inr s) (Inr t))"
      by (cases "nkind n") (use 5 in \<open>simp_all add: emit_val.simps [of c n] Let_def arith_kinds_def lr s opt_ty_def int\<close>)
    then have "emit_val c n = Inr u" by (simp only: u(1))
    with u(2) 5 show ?thesis by (intro plain) (auto simp: arith_kinds_def truth_kinds_def)
  qed
qed

text \<open>C2: The C backend is correct on integer expressions. Whenever an expression has a value (as 64-bit
  words under C's rules, over any values of its variables), the backend emits a text that C's lexer and
  grammar read as one expression, and that expression has the same value; its truth value, where
  the backend emits one for a condition, is that of the value. The one exception is real: the
  text of a negation of a negation starts with two minus signs, which C reads as a decrement.\<close>
theorem emitted_expression_value:
  assumes "rt_value env n = Some v" "readable c n" "env_ok c env X"
  shows "(\<exists>s e t d x. emit_val c n = Inr s \<and> c_read s = Some e \<and> c_eval X e = Some (VL v)
      \<and> emit_truth c n = Inr t \<and> c_read t = Some d \<and> c_eval X d = Some x \<and> cval_bits x = v)
    \<and> emit_val c (nd1 ND_NEG (nd1 ND_NEG (new_num 1 tk) tk ty_i64) tk ty_i64) = Inr ''--(hc_i64)0x1ULL''
    \<and> c_read ''--(hc_i64)0x1ULL'' = None"
proof (intro conjI)
  show "\<exists>s e t d x. emit_val c n = Inr s \<and> c_read s = Some e \<and> c_eval X e = Some (VL v)
      \<and> emit_truth c n = Inr t \<and> c_read t = Some d \<and> c_eval X d = Some x \<and> cval_bits x = v"
    using text_has_value [OF assms(3,2,1)] shows_read by metis
  have one: "hex_text 1 = ''1''" by code_simp
  show "emit_val c (nd1 ND_NEG (nd1 ND_NEG (new_num 1 tk) tk ty_i64) tk ty_i64) = Inr ''--(hc_i64)0x1ULL''"
    by (simp add: emit_val.simps Let_def new_num_def truth_kinds_def one)
  show "c_read ''--(hc_i64)0x1ULL'' = None" by code_simp
qed

text \<open>\<open>x - 3 < 5\<close> for an 8-bit \<open>x\<close> that is -2.\<close>

definition demo_cgen :: cgen where
  "demo_cgen = \<lparr>cg_vars = (\<lambda>_. obj0 ''x'' ty_i8), cg_funcs = [], cg_classes = [], cg_ctor = False, cg_g17 = (\<lambda>_. []),
     cg_asm_inline = (\<lambda>_ _ _. Inr []), cg_asm_module = (\<lambda>_. Inr [])\<rparr>"

definition demo_less :: node where
  "demo_less = (let t = new_token [] 1 TK_ID
     in nd2 ND_LT (nd2 ND_SUB (upd_info (\<lambda>i. i\<lparr>ni_var := 7\<rparr>) (nd0 ND_VAR t ty_i8)) (new_num 3 t) t ty_i64) (new_num 5 t) t ty_i64)"

theorem emitted_expression_value_witness:
  "\<exists>s e t d x. emit_val demo_cgen demo_less = Inr s \<and> c_read s = Some e \<and> c_eval [''l7_x'' \<mapsto> VI (- 2)] e = Some (VL 1)
     \<and> emit_truth demo_cgen demo_less = Inr t \<and> c_read t = Some d \<and> c_eval [''l7_x'' \<mapsto> VI (- 2)] d = Some x \<and> cval_bits x = 1"
proof -
  have nm: "var_name 7 (obj0 ''x'' ty_i8) = ''l7_x''" by code_simp
  have var: "o_ty (obj0 ''x'' ty_i8) = TyInt 1 False 0" "\<not> is_fs_obj (obj0 ''x'' ty_i8)"
    by (simp_all add: obj0_def is_fs_obj_def ty_i8_def)
  have "rt_value [7 \<mapsto> - 2] demo_less = Some 1"
    by (simp add: demo_less_def Let_def rt_value.simps new_num_def unary_kinds_def binary_kinds_def rt_binop_def is_ptrish_def
        rt_arith_def c_i64_def builtin_tys)
  moreover have "readable demo_cgen demo_less"
    by (simp add: demo_less_def Let_def readable.simps new_num_def)
  moreover have "env_ok demo_cgen [7 \<mapsto> - 2] [''l7_x'' \<mapsto> VI (- 2)]"
    by (auto simp: env_ok_def demo_cgen_def nm var Let_def is_agg_def c_name_def id_start_def id_char_def type_names_def
        cval_bits_def ty_size_def split: if_split_asm)
  ultimately show ?thesis
    using emitted_expression_value [of "[7 \<mapsto> - 2]" demo_less 1 demo_cgen "[''l7_x'' \<mapsto> VI (- 2)]"] by blast
qed

end
