(* ===== verification/CStmt.thy ===== *)
theory CStmt
  imports CExpr Effects
begin

text \<open>
  The statements of the C backend (\<open>src/src/back_c.c\<close>). Besides the text there is a little state: how
  many dynamic \<open>try\<close>s are open, the stack of handlers, and the last number used for a local one.
\<close>

section \<open>State and actions\<close>

record chandler =
  ch_label :: nat
  ch_dynamic :: bool

record cstate =
  cs_depth :: nat
  cs_handlers :: "chandler list"
  cs_label :: nat

type_synonym act = "cstate emitter"

section \<open>Handlers\<close>

definition current_handler :: "cstate \<Rightarrow> chandler option" where
  "current_handler st = (case cs_handlers st of [] \<Rightarrow> None | h # _ \<Rightarrow> Some h)"

definition push_handler :: "bool \<Rightarrow> nat \<Rightarrow> act" where
  "push_handler dyn label = (\<lambda>st.
     if length (cs_handlers st) \<ge> 256 then Inl (Err ''C backend: try nesting too deep'')
     else Inr ([], st\<lparr>cs_handlers := \<lparr>ch_label = label, ch_dynamic = dyn\<rparr> # cs_handlers st\<rparr>))"

definition pop_handler :: act where
  "pop_handler = change (\<lambda>st. st\<lparr>cs_handlers := tl (cs_handlers st)\<rparr>)"

definition catch_name :: "nat \<Rightarrow> string" where "catch_name k = ''Lhc_catch'' @ dec_nat k"
definition tryend_name :: "nat \<Rightarrow> string" where "tryend_name k = ''Lhc_tryend'' @ dec_nat k"

text \<open>A throw under a local handler stores the exception and jumps.\<close>

definition local_throw :: "cgen \<Rightarrow> node \<Rightarrow> nat \<Rightarrow> nat \<Rightarrow> string res" where
  "local_throw c call ind label = texts
     [say (tabs ind @ ''__hc_fs()->except_ch = ''), (case nargs call of [] \<Rightarrow> say ''0'' | a # _ \<Rightarrow> emit_val c a), say ('';'' @ nl),
      say (tabs ind @ ''__hc_fs()->catch_except = 0;'' @ nl), say (tabs ind @ ''goto '' @ catch_name label @ '';'' @ nl)]"

definition emit_rethrow :: "nat \<Rightarrow> act" where
  "emit_rethrow ind = (\<lambda>st.
     (case current_handler st of
        Some h \<Rightarrow> if ch_dynamic h then line ind ''if (!__hc_fs()->catch_except) throw(__hc_fs()->except_ch);''
                 else line ind (''if (!__hc_fs()->catch_except) goto '' @ catch_name (ch_label h) @ '';'')
      | None \<Rightarrow> line ind ''if (!__hc_fs()->catch_except) throw(__hc_fs()->except_ch);'') st)"

definition throw_stmt :: "cgen \<Rightarrow> node option \<Rightarrow> bool" where
  "throw_stmt c n = is_throw_call (\<lambda>i. fn_name (cg_funcs c ! i), \<lambda>_. False) n"

definition expr_stmt :: "cgen \<Rightarrow> node \<Rightarrow> nat \<Rightarrow> act" where
  "expr_stmt c n ind = (\<lambda>st.
     (case (if throw_stmt c (nlhs n) then current_handler st else None) of
        Some h \<Rightarrow> if ch_dynamic h then put (texts [say (tabs ind), emit_discarded c (the (nlhs n)), say ('';'' @ nl)])
                 else put (local_throw c (the (nlhs n)) ind (ch_label h))
      | None \<Rightarrow> put (texts [say (tabs ind), (case nlhs n of None \<Rightarrow> no_node | Some e \<Rightarrow> emit_discarded c e), say ('';'' @ nl)])) st)"

text \<open>A return first leaves the dynamic handlers.\<close>

definition return_stmt :: "cgen \<Rightarrow> ty \<Rightarrow> node \<Rightarrow> nat \<Rightarrow> act" where
  "return_stmt c ret n ind = (\<lambda>st. put (texts
     (replicate (cs_depth st) (say (tabs ind @ ''__hc_try_pop();'' @ nl))
      @ [say (tabs ind),
         (case nlhs n of
            Some e \<Rightarrow> texts [say ''return '', emit_val c e, say ('';'' @ nl)]
          | None \<Rightarrow> say ((if ret = TyVoid then ''return;'' else ''return 0;'') @ nl))])) st)"

section \<open>Statements\<close>

definition cond_text :: "cgen \<Rightarrow> node option \<Rightarrow> string res" where
  "cond_text c n = (case n of None \<Rightarrow> no_node | Some e \<Rightarrow> emit_truth c e)"

function emit_stmt :: "cgen \<Rightarrow> ty \<Rightarrow> nat \<Rightarrow> node \<Rightarrow> act"
  and emit_inner :: "cgen \<Rightarrow> ty \<Rightarrow> nat \<Rightarrow> node \<Rightarrow> act" where
  "emit_stmt c ret ind n =
     (let k = nkind n;
          th = (case nthen n of None \<Rightarrow> put no_node | Some m \<Rightarrow> emit_inner c ret (ind + 1) m);
          els = (case nels n of None \<Rightarrow> put no_node | Some m \<Rightarrow> emit_inner c ret (ind + 1) m);
          ini = (case ninit n of None \<Rightarrow> acts [] | Some m \<Rightarrow> emit_inner c ret ind m);
          inc = (case ninc n of None \<Rightarrow> acts [] | Some m \<Rightarrow> emit_inner c ret (ind + 1) m);
          cond = put (cond_text c (ncond n));
          opening = out (''{'' @ nl); closing = line ind ''}''
      in if k = ND_NOP then acts []
         else if k = ND_EXPR_STMT then expr_stmt c n ind
         else if k = ND_BLOCK then acts (map (emit_stmt c ret ind) (nbody n))
         else if k = ND_IF
         then acts ([out (tabs ind @ ''if (''), cond, out '') '', opening, th, closing]
                @ (if nels n = None then [] else [out (tabs ind @ ''else ''), opening, els, closing]))
         else if k = ND_WHILE then acts [out (tabs ind @ ''while (''), cond, out '') '', opening, th, closing]
         else if k = ND_DOWHILE
         then acts [out (tabs ind @ ''do ''), opening, th, closing, out (tabs ind @ ''while (''), cond, out ('');'' @ nl)]
         else if k = ND_FOR
         then acts ([ini, line ind ''for (;;) {'']
                @ (if ncond n = None then [] else [out (tabs (ind + 1) @ ''if (!''), cond, out ('') break;'' @ nl)])
                @ [th, inc, closing])
         else if k = ND_RETURN then return_stmt c ret n ind
         else if k = ND_GOTO then line ind (''goto '' @ labname (ni_label (ninf n)) @ '';'')
         else if k = ND_LABEL then line ind (labname (ni_label (ninf n)) @ '': ;'')
         else if k = ND_ASM
         then (case ni_asm (ninf n) of None \<Rightarrow> put no_node
               | Some a \<Rightarrow> put (cg_asm_inline c a ind (\<lambda>u. var_name u (cg_vars c u))))
         else if k = ND_TRY
         then (case ntry n of
                 TRY_NONE \<Rightarrow> acts [line ind ''{'', th, line ind ''}'']
               | TRY_LOCAL \<Rightarrow> (\<lambda>st.
                   let label = cs_label st + 1
                   in acts [change (\<lambda>s. s\<lparr>cs_label := label\<rparr>), line ind ''{'', push_handler False label, th, pop_handler,
                        line (ind + 1) (''goto '' @ tryend_name label @ '';''), line ind (catch_name label @ '': ;''),
                        els, emit_rethrow (ind + 1), line ind (tryend_name label @ '': ;''), line ind ''}''] st)
               | TRY_DYNAMIC \<Rightarrow>
                   acts [line ind ''{ void *hjb = __hc_try_push();'', line ind ''if (!_setjmp(*(jmp_buf *)hjb)) {'',
                     change (\<lambda>s. s\<lparr>cs_depth := cs_depth s + 1\<rparr>), push_handler True 0, th, pop_handler,
                     change (\<lambda>s. s\<lparr>cs_depth := cs_depth s - 1\<rparr>), line (ind + 1) ''__hc_try_pop();'', line ind ''} else {'',
                     els, emit_rethrow (ind + 1), line ind ''} }''])
         else put (texts [say (tabs ind), emit_discarded c n, say ('';'' @ nl)]))"
| "emit_inner c ret ind n =
     (if nkind n = ND_BLOCK then acts (map (emit_stmt c ret ind) (nbody n)) else emit_stmt c ret ind n)"
  by pat_completeness auto
termination
  by (relation "measures [(\<lambda>x. case x of Inl (c, t, i, n) \<Rightarrow> size n | Inr (c, t, i, n) \<Rightarrow> size n),
        (\<lambda>x. case x of Inl _ \<Rightarrow> 0 | Inr _ \<Rightarrow> 1)]")
    (auto intro!: children_smaller simp: children_def)

declare emit_stmt.simps [simp del] emit_inner.simps [simp del]

end
