(* ===== verification/CBack.thy ===== *)
theory CBack
  imports CStmt Parse
begin

text \<open>
  The C backend (\<open>src/src/back_c.c\<close>): declarations, functions and the whole translation unit that
  \<open>c_emit\<close> writes for a parsed program.
\<close>

section \<open>The program\<close>

record program =
  pr_funcs :: "func list"
  pr_globals :: "nat list"
  pr_startup :: func
  pr_strings :: "string list"
  pr_asms :: "asm_block list"
  pr_vars :: "nat \<Rightarrow> obj"
  pr_classes :: "class_info list"

text \<open>What the parser leaves. The start-up function is the first object of all.\<close>

definition to_program :: "node \<Rightarrow> parser \<Rightarrow> program" where
  "to_program body s =
     \<lparr>pr_funcs = ps_funcs s, pr_globals = ps_globals s,
      pr_startup = (new_func ''__hc_start'' 1)\<lparr>fn_body := Some body, f_ty := TyFunc ty_i64 [] False False,
        f_variadic := True, f_params := ps_su_params s, f_locals := ps_su_locals s\<rparr>,
      pr_strings = ps_strings s, pr_asms = ps_asms s, pr_vars = obj_at s, pr_classes = ps_classes s\<rparr>"

text \<open>How the backend is called: the options, and what lies outside its file.\<close>

record cbackend =
  cb_exceptions :: bool
  cb_object :: bool
  cb_ctor :: bool
  cb_g17 :: "bool \<times> string \<Rightarrow> string"
  cb_asm_inline :: "asm_block \<Rightarrow> nat \<Rightarrow> (nat \<Rightarrow> string) \<Rightarrow> string res"
  cb_asm_module :: "asm_block \<Rightarrow> string res"
  cb_rt_src :: string

definition cgen_of :: "cbackend \<Rightarrow> program \<Rightarrow> cgen" where
  "cgen_of b p = \<lparr>cg_vars = pr_vars p, cg_funcs = pr_funcs p, cg_classes = pr_classes p, cg_ctor = cb_ctor b,
     cg_g17 = cb_g17 b, cg_asm_inline = cb_asm_inline b, cg_asm_module = cb_asm_module b\<rparr>"

text \<open>The exception analysis sets the \<open>try\<close> modes and the flags of the functions.\<close>

definition analyzed :: "program \<Rightarrow> program" where
  "analyzed p =
     (let (fs, body, _) = analyze_exceptions (map fn.truncate (pr_funcs p)) (fn_body (pr_startup p))
      in p\<lparr>pr_funcs := map2 (\<lambda>f g. f\<lparr>fn_body := fn_body g, fn_throws := fn_throws g\<rparr>) (pr_funcs p) fs,
           pr_startup := (pr_startup p)\<lparr>fn_body := body\<rparr>\<rparr>)"

section \<open>Functions\<close>

definition result_ty :: "func \<Rightarrow> ty" where
  "result_ty f = (case base_of (f_ty f) of Some t \<Rightarrow> t | None \<Rightarrow> TyVoid)"

definition hinted :: "func \<Rightarrow> u32 \<Rightarrow> string \<Rightarrow> string" where
  "hinted f h s = (if f_hints f AND h \<noteq> 0 then s else [])"

definition the_name :: "cgen \<Rightarrow> bool \<Rightarrow> func \<Rightarrow> string" where
  "the_name c startup f = (if startup then startup_name (cg_ctor c) else fun_name f)"

definition joined :: "string \<Rightarrow> string list \<Rightarrow> string" where
  "joined sep xs = (case xs of [] \<Rightarrow> [] | x # ys \<Rightarrow> x @ concat (map (\<lambda>y. sep @ y) ys))"

definition obj_name :: "cgen \<Rightarrow> nat \<Rightarrow> string" where
  "obj_name c u = var_name u (cg_vars c u)"

definition emit_func_sig :: "cgen \<Rightarrow> bool \<Rightarrow> func \<Rightarrow> string" where
  "emit_func_sig c startup f =
     (let exported = (f_public f \<or> (startup \<and> \<not> cg_ctor c)); ret = result_ty f
      in (if exported then hinted f HINT_INLINE ''extern '' else ''static '')
         @ hinted f HINT_INLINE ''inline __attribute__((always_inline)) '' @ hinted f HINT_NOINLINE ''__attribute__((noinline)) ''
         @ (if ret = TyVoid then ''void'' else value_ctype ret) @ '' '' @ the_name c startup f @ ''(''
         @ (if f_params f = [] then ''void''
            else joined '', '' (map (\<lambda>u. value_ctype (o_ty (cg_vars c u)) @ '' '' @ obj_name c u) (f_params f)))
         @ '')'')"

text \<open>The 64-bit words an aggregate takes, at least one.\<close>

definition agg_words :: "class_info list \<Rightarrow> ty \<Rightarrow> int" where
  "agg_words cs t = (let n = ty_size cs t + 7; w = (if n < 0 then - ((- n) div 8) else n div 8) in if w = 0 then 1 else w)"

definition local_decl_text :: "cgen \<Rightarrow> nat \<Rightarrow> string" where
  "local_decl_text c u =
     (let v = cg_vars c u; t = o_ty v; x = obj_name c u; al = ty_align (cg_classes c) t
      in tabs 1
         @ (if o_align v \<noteq> 0 then ''_Alignas('' @ dec_int (if o_align v < al then al else o_align v) @ '') '' else [])
         @ (if is_agg t then ''hc_i64 '' @ x @ ''['' @ dec_int (agg_words (cg_classes c) t) @ ''] = {0};''
            else if t = TyF64 then ''hc_f64 '' @ x @ '' = 0;''
            else if ty_bits t \<noteq> 0 \<and> \<not> signed_i1 t \<and> \<not> o_addr v
            then (if ty_unsigned t then ''unsigned'' else ''signed'') @ '' _BitInt('' @ dec_int (ty_bits t) @ '') '' @ x @ '' = 0;''
            else scalar_ctype t @ '' '' @ x @ '' = 0;'')
         @ nl)"

definition start_state :: cstate where
  "start_state = \<lparr>cs_depth = 0, cs_handlers = [], cs_label = 0\<rparr>"

definition emit_func :: "cgen \<Rightarrow> bool \<Rightarrow> func \<Rightarrow> string res" where
  "emit_func c startup f =
     (case fn_body f of
        None \<Rightarrow> Inl NullDeref
      | Some body \<Rightarrow>
          rbind (emit_inner c (result_ty f) 1 body start_state) (\<lambda>(s, _).
            Inr (emit_func_sig c startup f @ '' {'' @ nl @ concat (map (local_decl_text c) (f_locals f)) @ s
              @ (if result_ty f \<noteq> TyVoid then tabs 1 @ ''return 0;'' @ nl else []) @ ''}'' @ nl @ nl)))"

section \<open>Declarations\<close>

definition dquote :: string where "dquote = [CHR 0x22]"

text \<open>The macros that bind an import to its real symbol.\<close>

definition import_macros :: string where
  "import_macros = concat (map (\<lambda>s. s @ nl)
     [''#define HC_S_(x) #x'', ''#define HC_S(x) HC_S_(x)'', ''#if defined(__GNUC__) || defined(__clang__)'',
      ''#define HC_CSYM(name) __asm__(HC_S(__USER_LABEL_PREFIX__) name)'', ''#define HC_EX(name) hc_ex_##name'', ''#else'',
      ''#define HC_CSYM(name)'', ''#define HC_EX(name) name'', ''#endif''])"

definition extern_func_text :: "cgen \<Rightarrow> func \<Rightarrow> string" where
  "extern_func_text c f =
     (let ret = result_ty f; ps = map (\<lambda>u. extern_ctype (o_ty (cg_vars c u))) (f_params f)
      in ''extern '' @ hinted f HINT_INLINE ''inline '' @ hinted f HINT_NOINLINE ''__attribute__((noinline)) ''
         @ (if ret = TyVoid then ''void'' else extern_ctype ret) @ '' '' @ fun_name f @ ''('' @ joined '', '' ps
         @ (if is_c_varargs f then (if ps = [] then [] else '', '') @ ''...)'' else (if ps = [] then ''void'' else []) @ '')'')
         @ (case f_link f of
              Some l \<Rightarrow> '' __asm__('' @ dquote @ l @ dquote @ '')''
            | None \<Rightarrow> if is_user_import f then '' HC_CSYM('' @ dquote @ fn_name f @ dquote @ '')'' else [])
         @ '';'' @ nl)"

definition extern_var_text :: "cgen \<Rightarrow> nat \<Rightarrow> string" where
  "extern_var_text c u =
     (let g = cg_vars c u
      in (if is_agg (o_ty g) then ''extern hc_i64 '' @ o_name g @ ''[];'' else ''extern '' @ scalar_ctype (o_ty g) @ '' '' @ o_name g @ '';'')
         @ nl)"

definition emit_extern_decls :: "cgen \<Rightarrow> program \<Rightarrow> bool \<Rightarrow> string" where
  "emit_extern_decls c p only_user =
     (if \<exists>f \<in> set (pr_funcs p). is_user_import f then import_macros else [])
     @ concat (map (extern_func_text c) (filter (\<lambda>f. f_extern f \<and> \<not> (only_user \<and> fn_prelude f)) (pr_funcs p)))
     @ concat (map (extern_var_text c)
         (filter (\<lambda>u. let g = cg_vars c u in o_extern g \<and> o_name g \<noteq> ''Fs'' \<and> \<not> (only_user \<and> o_prelude g)) (pr_globals p)))"

definition ls :: "string list \<Rightarrow> string" where "ls xs = concat (map (\<lambda>s. s @ nl) xs)"

definition emit_obj_preamble :: "bool \<Rightarrow> cgen \<Rightarrow> program \<Rightarrow> string" where
  "emit_obj_preamble exceptions c p =
     ls [''#include <stdint.h>'', ''#include <string.h>''] @ (if exceptions then ls [''#include <setjmp.h>''] else [])
     @ ls [''#if defined(_WIN32)'', ''#define HC_TLS __declspec(thread)'',
           ''#elif defined(__STDC_VERSION__) && __STDC_VERSION__ >= 201112L'', ''#define HC_TLS _Thread_local'',
           ''#elif defined(__GNUC__) || defined(__clang__)'', ''#define HC_TLS __thread'', ''#else'',
           ''#error '' @ dquote @ ''aholyc output needs thread-local storage support'' @ dquote, ''#endif'',
           ''typedef int64_t hc_i64;'', ''typedef uint64_t hc_u64;'', ''typedef double hc_f64;'',
           ''typedef struct { hc_i64 except_ch, catch_except; } HcTask;'', ''extern HC_TLS HcTask *Fs;'',
           ''extern HcTask *__hc_fs(void);'']
     @ (if exceptions then ls [''extern void *__hc_try_push(void);'', ''extern void __hc_try_pop(void);''] else [])
     @ ls [''extern hc_f64 __hc_pow(hc_f64, hc_f64);'', ''extern void __hc_register_start(hc_i64 (*)(hc_i64, hc_i64));'']
     @ emit_extern_decls c p False"

text \<open>A string is an array of its bytes and a zero; the strings come newest first.\<close>

definition string_text :: "nat \<Rightarrow> string \<Rightarrow> string" where
  "string_text i s = ''static unsigned char hcs'' @ dec_nat i @ ''[] = {''
     @ concat (map (\<lambda>ch. dec_nat (of_char ch) @ '','') s) @ ''0};'' @ nl"

definition strings_text :: "string list \<Rightarrow> string" where
  "strings_text ss = concat (map2 string_text (rev [0 ..< length ss]) ss)"

definition global_text :: "cgen \<Rightarrow> nat \<Rightarrow> string" where
  "global_text c u =
     (let g = cg_vars c u; t = o_ty g; x = obj_name c u
      in if o_extern g then []
         else (if o_public g then [] else ''static '')
           @ (if is_agg t then ''hc_i64 '' @ x @ ''['' @ dec_int (agg_words (cg_classes c) t) @ ''];''
              else if t = TyF64 then ''hc_f64 '' @ x @ '';'' else scalar_ctype t @ '' '' @ x @ '';'')
           @ nl)"

section \<open>The translation unit\<close>

definition defined_funcs :: "program \<Rightarrow> func list" where
  "defined_funcs p = filter (\<lambda>f. \<not> f_extern f \<and> fn_body f \<noteq> None) (pr_funcs p)"

definition has_start :: "program \<Rightarrow> bool" where
  "has_start p \<longleftrightarrow> (case fn_body (pr_startup p) of None \<Rightarrow> False | Some b \<Rightarrow> nbody b \<noteq> [])"

definition c_emit :: "cbackend \<Rightarrow> program \<Rightarrow> string res" where
  "c_emit b p0 =
     (let p = (if cb_exceptions b then analyzed p0 else p0); c = cgen_of b p
      in texts
        ([say (ls [''/* generated by aholyc (HolyC -> C) */'']),
          say (if cb_object b then emit_obj_preamble (cb_exceptions b) c p
               else (if cb_exceptions b then [] else ls [''#define HC_NO_EXCEPTIONS 1'']) @ ls [''#define HC_API static'']
                 @ cb_rt_src b @ emit_extern_decls c p True),
          say (nl @ ls [''/* ---- program ---- */'', ''static hc_i64 hc_f2b(hc_f64 d){hc_i64 v;memcpy(&v,&d,8);return v;}'',
                 ''static hc_f64 hc_b2f(hc_i64 v){hc_f64 d;memcpy(&d,&v,8);return d;}'']),
          say (strings_text (pr_strings p)), say (concat (map (global_text c) (pr_globals p))),
          say (concat (map (\<lambda>f. emit_func_sig c False f @ '';'' @ nl) (defined_funcs p))), say nl]
         @ map (cg_asm_module c) (pr_asms p)
         @ map (emit_func c False) (defined_funcs p)
         @ (if \<not> cb_ctor b \<or> has_start p then [emit_func c True (pr_startup p)] else [])
         @ (if cb_ctor b \<and> has_start p
            then [say (ls [''__attribute__((constructor)) static void __hc_ctor(void) {'',
                           tabs 1 @ ''__hc_register_start(__hc_ctor_body);'', ''}''])] else [])))"

end
