(* ===== verification/JsRt.thy ===== *)
theory JsRt
  imports Emit
begin

text \<open>
  The runtime of the JavaScript backend (\<open>src/src/back_js.c\<close>). Its source is one text, cut by lines
  \<open>//@ name dep...\<close> into chunks; only the chunks that the emitted program refers to, directly or
  through others, are shipped.
\<close>

section \<open>Cutting the source\<close>

record rt_chunk =
  rc_name :: string
  rc_deps :: "string list"
  rc_src :: string
  rc_inc :: bool

text \<open>Lines with their ends, and the words that \<open>strtok_r\<close> finds.\<close>

function rt_lines :: "string \<Rightarrow> string list" where
  "rt_lines s =
     (if s = [] then []
      else (takeWhile (\<lambda>ch. ch \<noteq> CHR 0x0A) s @ take 1 (dropWhile (\<lambda>ch. ch \<noteq> CHR 0x0A) s))
             # rt_lines (drop 1 (dropWhile (\<lambda>ch. ch \<noteq> CHR 0x0A) s)))"
  by pat_completeness auto
termination
proof (relation "measure length")
  fix s :: string
  assume "s \<noteq> []"
  moreover have "length (dropWhile (\<lambda>ch. ch \<noteq> CHR 0x0A) s) \<le> length s" by (rule length_dropWhile_le)
  ultimately have "length (drop 1 (dropWhile (\<lambda>ch. ch \<noteq> CHR 0x0A) s)) < length s" by (cases s) auto
  then show "(drop 1 (dropWhile (\<lambda>ch. ch \<noteq> CHR 0x0A) s), s) \<in> measure length" by simp
qed simp

declare rt_lines.simps [simp del]

definition tok_blank :: "char \<Rightarrow> bool" where
  "tok_blank ch \<longleftrightarrow> ch \<in> {CHR '' '', CHR 0x09, CHR 0x0D, CHR 0x0A}"

function strtok_words :: "string \<Rightarrow> string list" where
  "strtok_words s =
     (let r = dropWhile tok_blank s
      in if r = [] then [] else takeWhile (\<lambda>ch. \<not> tok_blank ch) r # strtok_words (dropWhile (\<lambda>ch. \<not> tok_blank ch) r))"
  by pat_completeness auto
termination
proof (relation "measure length")
  fix s r :: string
  assume r: "r = dropWhile tok_blank s" "r \<noteq> []"
  then have "\<not> tok_blank (hd r)" by (metis hd_dropWhile)
  with r(2) have "length (dropWhile (\<lambda>ch. \<not> tok_blank ch) r) < length r"
    by (cases r) (auto simp: less_Suc_eq_le length_dropWhile_le)
  moreover have "length r \<le> length s" unfolding r by (rule length_dropWhile_le)
  ultimately show "(dropWhile (\<lambda>ch. \<not> tok_blank ch) r, s) \<in> measure length" by simp
qed simp

declare strtok_words.simps [simp del]

definition is_marker :: "string \<Rightarrow> bool" where
  "is_marker l \<longleftrightarrow> take 4 l = ''//@ ''"

text \<open>The marker is copied into a buffer of 256 bytes; at most twelve dependencies are kept.\<close>

definition marker_words :: "string \<Rightarrow> string list" where
  "marker_words l = strtok_words (take (min (length l) 255 - 4) (drop 4 l))"

definition marker_chunk :: "string \<Rightarrow> string \<Rightarrow> rt_chunk" where
  "marker_chunk l src =
     \<lparr>rc_name = (case marker_words l of [] \<Rightarrow> ''?'' | w # _ \<Rightarrow> w), rc_deps = take 12 (tl (marker_words l)),
      rc_src = src, rc_inc = False\<rparr>"

function chunks_of :: "string list \<Rightarrow> rt_chunk list" where
  "chunks_of [] = []"
| "chunks_of (l # ls) =
     marker_chunk l (concat (takeWhile (\<lambda>x. \<not> is_marker x) ls)) # chunks_of (dropWhile (\<lambda>x. \<not> is_marker x) ls)"
  by pat_completeness auto
termination by (relation "measure length") (auto simp: less_Suc_eq_le length_dropWhile_le)

text \<open>The core before the first marker, and the chunks.\<close>

definition parse_rt_chunks :: "string \<Rightarrow> (string \<times> rt_chunk list) res" where
  "parse_rt_chunks src =
     (let ls = rt_lines src; cs = chunks_of (dropWhile (\<lambda>x. \<not> is_marker x) ls)
      in if length cs > 160 then Inl (Err ''js backend: too many runtime chunks'')
         else Inr (concat (takeWhile (\<lambda>x. \<not> is_marker x) ls), cs))"

section \<open>Marking\<close>

definition chunk_alias :: "bool \<Rightarrow> string \<Rightarrow> string" where
  "chunk_alias exc x = (if \<not> exc \<and> x = ''hcThrow'' then ''hcCrashFn'' else x)"

text \<open>The first chunk of a name.\<close>

fun chunk_at :: "rt_chunk list \<Rightarrow> string \<Rightarrow> nat option" where
  "chunk_at [] x = None"
| "chunk_at (c # cs) x = (if rc_name c = x then Some 0 else map_option Suc (chunk_at cs x))"

definition pending_chunks :: "rt_chunk list \<Rightarrow> nat" where
  "pending_chunks cs = length (filter (\<lambda>c. \<not> rc_inc c) cs)"

definition include_at :: "rt_chunk list \<Rightarrow> nat \<Rightarrow> rt_chunk list" where
  "include_at cs i = cs[i := (cs ! i)\<lparr>rc_inc := True\<rparr>]"

lemma chunk_at_bound: "chunk_at cs x = Some i \<Longrightarrow> i < length cs"
  by (induction cs arbitrary: i) (auto split: if_split_asm)

lemma chunk_at_name: "chunk_at cs x = Some i \<Longrightarrow> rc_name (cs ! i) = x"
  by (induction cs arbitrary: i) (auto split: if_split_asm)

lemma pending_include: "i < length cs \<Longrightarrow> \<not> rc_inc (cs ! i) \<Longrightarrow> pending_chunks (include_at cs i) < pending_chunks cs"
proof (induction cs arbitrary: i)
  case (Cons c cs)
  then show ?case by (cases i) (auto simp: pending_chunks_def include_at_def)
qed simp

text \<open>\<open>mark_chunk\<close> calls itself for each dependency of a chunk it includes; the calls still to be made
  are the second argument.\<close>

function mark_all :: "bool \<Rightarrow> string list \<Rightarrow> rt_chunk list \<Rightarrow> rt_chunk list" where
  "mark_all exc [] cs = cs"
| "mark_all exc (x # xs) cs =
     (case chunk_at cs (chunk_alias exc x) of
        None \<Rightarrow> mark_all exc xs cs
      | Some i \<Rightarrow>
          if rc_inc (cs ! i) then mark_all exc xs cs
          else mark_all exc (rc_deps (cs ! i) @ xs) (include_at cs i))"
  by pat_completeness auto
termination
  by (relation "measures [(\<lambda>(e, xs, cs). pending_chunks cs), (\<lambda>(e, xs, cs). length xs)]")
    (auto simp: pending_include chunk_at_bound)

declare mark_all.simps(2) [simp del]

definition mark_chunk :: "bool \<Rightarrow> string \<Rightarrow> rt_chunk list \<Rightarrow> rt_chunk list" where
  "mark_chunk exc x cs = mark_all exc [x] cs"

section \<open>What is included\<close>

definition included :: "rt_chunk list \<Rightarrow> nat set" where
  "included cs = {i. i < length cs \<and> rc_inc (cs ! i)}"

definition depends :: "bool \<Rightarrow> rt_chunk list \<Rightarrow> (nat \<times> nat) set" where
  "depends exc cs = {(i, j). i < length cs \<and> (\<exists>d \<in> set (rc_deps (cs ! i)). chunk_at cs (chunk_alias exc d) = Some j)}"

definition named :: "bool \<Rightarrow> rt_chunk list \<Rightarrow> string list \<Rightarrow> nat set" where
  "named exc cs xs = {j. \<exists>x \<in> set xs. chunk_at cs (chunk_alias exc x) = Some j}"

text \<open>Every chunk that an included one depends on is included.\<close>

definition chunks_closed :: "bool \<Rightarrow> rt_chunk list \<Rightarrow> bool" where
  "chunks_closed exc cs \<longleftrightarrow> depends exc cs `` included cs \<subseteq> included cs"

text \<open>Marking changes only the flags.\<close>

definition same_chunks :: "rt_chunk list \<Rightarrow> rt_chunk list \<Rightarrow> bool" where
  "same_chunks cs ds \<longleftrightarrow> map (\<lambda>c. c\<lparr>rc_inc := False\<rparr>) cs = map (\<lambda>c. c\<lparr>rc_inc := False\<rparr>) ds"

lemma same_chunks_refl [simp]: "same_chunks cs cs" by (simp add: same_chunks_def)

lemma same_chunks_trans: "same_chunks a b \<Longrightarrow> same_chunks b c \<Longrightarrow> same_chunks a c"
  by (simp add: same_chunks_def)

lemma same_chunks_length: "same_chunks cs ds \<Longrightarrow> length cs = length ds"
  unfolding same_chunks_def by (metis length_map)

lemma same_chunks_include [simp]: "same_chunks (include_at cs i) cs"
  unfolding same_chunks_def include_at_def
  by (cases "i < length cs") (auto intro!: nth_equalityI simp: nth_list_update list_update_beyond)

lemma same_chunks_Cons: "same_chunks (c # cs) ds \<longleftrightarrow> (\<exists>d es. ds = d # es \<and> c\<lparr>rc_inc := False\<rparr> = d\<lparr>rc_inc := False\<rparr> \<and> same_chunks cs es)"
  unfolding same_chunks_def by (cases ds) auto

lemma same_fields:
  "(c :: rt_chunk)\<lparr>rc_inc := False\<rparr> = d\<lparr>rc_inc := False\<rparr> \<longleftrightarrow> rc_name c = rc_name d \<and> rc_deps c = rc_deps d \<and> rc_src c = rc_src d"
  by (cases c; cases d) auto

lemma same_chunks_at: "same_chunks cs ds \<Longrightarrow> chunk_at cs x = chunk_at ds x"
  by (induction cs arbitrary: ds) (auto simp: same_chunks_Cons same_fields, simp add: same_chunks_def)

lemma same_chunks_deps: "same_chunks cs ds \<Longrightarrow> i < length cs \<Longrightarrow> rc_deps (cs ! i) = rc_deps (ds ! i)"
proof (induction cs arbitrary: ds i)
  case (Cons c cs)
  then show ?case by (cases i) (auto simp: same_chunks_Cons same_fields)
qed simp

lemma same_chunks_depends: "same_chunks cs ds \<Longrightarrow> depends e cs = depends e ds"
  using same_chunks_at same_chunks_deps same_chunks_length unfolding depends_def by fastforce

lemma same_chunks_named: "same_chunks cs ds \<Longrightarrow> named e cs xs = named e ds xs"
  by (simp add: named_def same_chunks_at)

lemma mark_all_same: "same_chunks (mark_all e xs cs) cs"
proof (induction e xs cs rule: mark_all.induct)
  case (2 e x xs cs)
  then show ?case by (auto simp: mark_all.simps(2) split: option.split intro: same_chunks_trans)
qed simp

lemma included_include: "i < length cs \<Longrightarrow> included (include_at cs i) = insert i (included cs)"
  by (auto simp: included_def include_at_def nth_list_update split: if_split_asm)

text \<open>With the work list counted in, what an included chunk depends on is included or waiting.\<close>

lemma mark_all_included:
  assumes "depends e cs `` included cs \<subseteq> included cs \<union> named e cs xs"
  shows "included cs \<union> named e cs xs \<subseteq> included (mark_all e xs cs)
    \<and> included (mark_all e xs cs) \<subseteq> included cs \<union> (depends e cs)\<^sup>* `` named e cs xs
    \<and> depends e cs `` included (mark_all e xs cs) \<subseteq> included (mark_all e xs cs)"
  using assms
proof (induction e xs cs rule: mark_all.induct)
  case (1 e cs)
  then show ?case by (auto simp: named_def)
next
  case (2 e x xs cs)
  let ?i = "chunk_at cs (chunk_alias e x)"
  show ?case
  proof (cases "\<exists>i. ?i = Some i \<and> \<not> rc_inc (cs ! i)")
    case False
    then have m: "mark_all e (x # xs) cs = mark_all e xs cs" by (auto simp: mark_all.simps(2) split: option.split)
    have n: "named e cs (x # xs) - included cs = named e cs xs - included cs" "named e cs xs \<subseteq> named e cs (x # xs)"
      using False chunk_at_bound [of cs] by (fastforce simp: named_def included_def)+
    then have "depends e cs `` included cs \<subseteq> included cs \<union> named e cs xs" using "2.prems" by auto
    moreover have "?i = None \<or> (\<exists>i. ?i = Some i \<and> rc_inc (cs ! i))" using False by (cases ?i) auto
    ultimately have ih: "included cs \<union> named e cs xs \<subseteq> included (mark_all e xs cs)
      \<and> included (mark_all e xs cs) \<subseteq> included cs \<union> (depends e cs)\<^sup>* `` named e cs xs
      \<and> depends e cs `` included (mark_all e xs cs) \<subseteq> included (mark_all e xs cs)"
      using "2.IH"(1,2) by blast
    have "(depends e cs)\<^sup>* `` named e cs xs \<subseteq> (depends e cs)\<^sup>* `` named e cs (x # xs)" using n(2) by blast
    with ih n show ?thesis unfolding m by blast
  next
    case True
    then obtain i where i: "?i = Some i" "\<not> rc_inc (cs ! i)" by blast
    let ?ds = "include_at cs i" and ?ys = "rc_deps (cs ! i) @ xs"
    have b: "i < length cs" using i chunk_at_bound by blast
    have m: "mark_all e (x # xs) cs = mark_all e ?ys ?ds" using i by (simp add: mark_all.simps(2))
    have d: "depends e ?ds = depends e cs" "named e ?ds ?ys = named e cs ?ys"
      using same_chunks_depends same_chunks_named same_chunks_include by blast+
    have di: "depends e cs `` {i} = named e cs (rc_deps (cs ! i))" using b by (auto simp: depends_def named_def)
    have ny: "named e cs ?ys = depends e cs `` {i} \<union> named e cs xs" unfolding di by (auto simp: named_def)
    have nx: "named e cs (x # xs) = insert i (named e cs xs)" using i by (auto simp: named_def)
    have inc: "included ?ds = insert i (included cs)" using b by (rule included_include)
    have pre: "depends e ?ds `` included ?ds \<subseteq> included ?ds \<union> named e ?ds ?ys"
      using "2.prems" unfolding d inc ny nx by blast
    have ih: "included ?ds \<union> named e cs ?ys \<subseteq> included (mark_all e ?ys ?ds)
      \<and> included (mark_all e ?ys ?ds) \<subseteq> included ?ds \<union> (depends e cs)\<^sup>* `` named e cs ?ys
      \<and> depends e cs `` included (mark_all e ?ys ?ds) \<subseteq> included (mark_all e ?ys ?ds)"
      using "2.IH"(3) [OF i pre] unfolding d by blast
    have "(depends e cs)\<^sup>* `` named e cs ?ys \<subseteq> (depends e cs)\<^sup>* `` named e cs (x # xs)"
      unfolding ny nx by (auto intro: converse_rtrancl_into_rtrancl)
    moreover have "i \<in> (depends e cs)\<^sup>* `` named e cs (x # xs)" unfolding nx by blast
    ultimately show ?thesis using ih unfolding m inc nx ny by blast
  qed
qed

lemma mark_chunk_closed: "chunks_closed e cs \<Longrightarrow> chunks_closed e (mark_chunk e x cs)"
  using mark_all_included [of e cs "[x]"] same_chunks_depends [OF mark_all_same [of e "[x]" cs]]
  unfolding chunks_closed_def mark_chunk_def by auto

lemma parsed_closed: "parse_rt_chunks src = Inr (core, cs) \<Longrightarrow> chunks_closed e cs"
proof -
  have n: "\<not> rc_inc c" if "c \<in> set (chunks_of ls)" for c ls
    using that by (induction ls rule: chunks_of.induct) (auto simp: marker_chunk_def)
  have "included (chunks_of ls) = {}" for ls using n [OF nth_mem] unfolding included_def by blast
  then show "parse_rt_chunks src = Inr (core, cs) \<Longrightarrow> chunks_closed e cs"
    by (auto simp: parse_rt_chunks_def Let_def chunks_closed_def split: if_split_asm)
qed

text \<open>C13: Marking a chunk of the JavaScript runtime includes exactly what is needed: from any state in which
  the included chunks are closed under their dependencies, the chunks included afterwards are those
  included before and those reachable from the named one, so they are closed again; nothing else about
  the chunks changes.\<close>
theorem mark_chunk_is_reachability:
  assumes "chunks_closed e cs"
  shows "included (mark_chunk e x cs) = included cs \<union> (depends e cs)\<^sup>* `` named e cs [x]
    \<and> chunks_closed e (mark_chunk e x cs) \<and> same_chunks (mark_chunk e x cs) cs"
proof -
  have inv: "depends e cs `` included cs \<subseteq> included cs \<union> named e cs [x]" using assms unfolding chunks_closed_def by blast
  note m = mark_all_included [OF inv, folded mark_chunk_def]
  have "(depends e cs)\<^sup>* `` named e cs [x] \<subseteq> included (mark_chunk e x cs)"
  proof (intro subsetI)
    fix j assume "j \<in> (depends e cs)\<^sup>* `` named e cs [x]"
    then obtain i where "i \<in> named e cs [x]" "(i, j) \<in> (depends e cs)\<^sup>*" by blast
    from this(2,1) show "j \<in> included (mark_chunk e x cs)" by (induction rule: rtrancl_induct) (use m in blast)+
  qed
  then show ?thesis
    using m mark_chunk_closed [OF assms] mark_all_same [of e "[x]" cs] unfolding mark_chunk_def by blast
qed

theorem mark_chunk_is_reachability_witness:
  "let cs = snd (case parse_rt_chunks (''core'' @ nl @ ''//@ a b'' @ nl @ ''A'' @ nl @ ''//@ b a'' @ nl @ ''B'' @ nl @ ''//@ c'' @ nl @ ''C'' @ nl)
                 of Inr r \<Rightarrow> r)
   in included (mark_chunk True ''a'' cs) = included cs \<union> (depends True cs)\<^sup>* `` named True cs [''a'']
    \<and> chunks_closed True (mark_chunk True ''a'' cs) \<and> same_chunks (mark_chunk True ''a'' cs) cs
    \<and> map rc_inc (mark_chunk True ''a'' cs) = [True, True, False]"
proof -
  let ?src = "''core'' @ nl @ ''//@ a b'' @ nl @ ''A'' @ nl @ ''//@ b a'' @ nl @ ''B'' @ nl @ ''//@ c'' @ nl @ ''C'' @ nl"
  have "case parse_rt_chunks ?src of Inl e \<Rightarrow> False | Inr r \<Rightarrow> map rc_inc (mark_chunk True ''a'' (snd r)) = [True, True, False]"
    by code_simp
  then obtain core cs where cs: "parse_rt_chunks ?src = Inr (core, cs)" "map rc_inc (mark_chunk True ''a'' cs) = [True, True, False]"
    by (auto split: sum.split_asm)
  from mark_chunk_is_reachability [OF parsed_closed [OF cs(1)], of True "''a''"] cs
  show ?thesis by (simp add: Let_def)
qed

end
