(* ===== verification/JsExpr.thy ===== *)
theory JsExpr
  imports CExpr JsRt
begin

text \<open>
  The expressions of the JavaScript backend (\<open>src/src/back_js.c\<close>). Emitting an expression gives its
  text and marks the chunks of the runtime it uses. Variables whose address is never taken are
  variables of JavaScript; the others are bytes of one linear memory.
\<close>

section \<open>State\<close>

text \<open>A block of a function with gotos: its text, and whether control has left it.\<close>

record js_block =
  jb_out :: string
  jb_term :: bool

record jstate =
  js_chunks :: "rt_chunk list"
  js_blocks :: "js_block list"
  js_cur :: nat
  js_labels :: "(string \<times> nat) list"
  js_umap :: "nat \<Rightarrow> int option"
  js_restore_fp :: bool

text \<open>The program and the options; the addresses of the strings.\<close>

record jgen =
  jg_exc :: bool
  jg_vars :: "nat \<Rightarrow> obj"
  jg_funcs :: "func list"
  jg_classes :: "class_info list"
  jg_g17 :: "bool \<times> string \<Rightarrow> string"
  jg_str :: "nat \<Rightarrow> int"

type_synonym jact = "jstate emitter"

section \<open>Layout and runtime functions\<close>

definition uid_set :: "nat \<Rightarrow> int \<Rightarrow> jact" where
  "uid_set u v = (\<lambda>st.
     if u \<ge> 65536 then Inl (Err ''js backend: uid out of range'')
     else Inr ([], st\<lparr>js_umap := (js_umap st)(u \<mapsto> v)\<rparr>))"

definition uid_get :: "nat \<Rightarrow> jact" where
  "uid_get u = (\<lambda>st.
     case (if u < 65536 then js_umap st u else None) of
       Some v \<Rightarrow> if v \<ge> 0 then Inr (dec_int v, st) else Inl (Err (''js backend: no layout for uid '' @ dec_nat u))
     | None \<Rightarrow> Inl (Err (''js backend: no layout for uid '' @ dec_nat u)))"

text \<open>\<open>RT\<close>: the name of a function of the runtime, whose chunk is marked.\<close>

definition js_rt :: "jgen \<Rightarrow> string \<Rightarrow> jact" where
  "js_rt c x = (\<lambda>st.
     let y = (if \<not> jg_exc c \<and> x = ''hcVCall'' then ''hcNoExceptVCall'' else x)
     in Inr (y, st\<lparr>js_chunks := mark_chunk (jg_exc c) y (js_chunks st)\<rparr>))"

definition native_var :: "obj \<Rightarrow> bool" where
  "native_var v \<longleftrightarrow> \<not> o_extern v \<and> \<not> is_agg (o_ty v) \<and> \<not> o_addr v"

definition vname :: "nat \<Rightarrow> obj \<Rightarrow> string" where
  "vname u v = (if o_global v then ''g'' else ''l'') @ dec_nat u @ ''_'' @ o_name v"

definition size_or_8 :: "jgen \<Rightarrow> ty \<Rightarrow> int" where
  "size_or_8 c t = (let n = ty_size (jg_classes c) t in if n = 0 then 8 else n)"

definition store_size :: "jgen \<Rightarrow> obj \<Rightarrow> int" where
  "store_size c v = (if o_param v then 8 else size_or_8 c (o_ty v))"

definition extname :: "jgen \<Rightarrow> func \<Rightarrow> string" where
  "extname c f =
     (if fn_name f = ''throw'' then (if jg_exc c then ''hcThrowFn'' else ''hcCrashFn'')
      else if \<not> jg_exc c \<and> fn_name f = ''PutExcept'' then ''hcNoPutExcept''
      else fn_name f)"

definition fname :: "jgen \<Rightarrow> func \<Rightarrow> jact" where
  "fname c f = (if f_extern f then js_rt c (extname c f) else out (''hc_'' @ fn_name f))"

definition var_addr :: "jgen \<Rightarrow> nat \<Rightarrow> jact" where
  "var_addr c u =
     (let v = jg_vars c u
      in if o_extern v then out (''EXT.'' @ o_name v)
         else if o_global v then uid_get u
         else acts [out ''(fp+'', uid_get u, out '')''])"

definition ld_fn :: "jgen \<Rightarrow> ty \<Rightarrow> int \<Rightarrow> jact" where
  "ld_fn c t n =
     (if t = TyF64 then js_rt c ''ldf''
      else if n = 1 then js_rt c (if ty_unsigned t then ''ldu1'' else ''lds1'')
      else if n = 2 then js_rt c (if ty_unsigned t then ''ldu2'' else ''lds2'')
      else if n = 4 then js_rt c (if ty_unsigned t then ''ldu4'' else ''lds4'')
      else js_rt c ''ld8'')"

definition st_fn :: "jgen \<Rightarrow> ty \<Rightarrow> int \<Rightarrow> jact" where
  "st_fn c t n =
     (if t = TyF64 then js_rt c ''stf''
      else if n = 1 then js_rt c ''st1''
      else if n = 2 then js_rt c ''st2''
      else if n = 4 then js_rt c ''st4''
      else js_rt c ''st8'')"

section \<open>Pieces of expressions\<close>

definition js_op :: "node_kind \<Rightarrow> string" where
  "js_op k =
     (case k of
        ND_ADD \<Rightarrow> ''+'' | ND_SUB \<Rightarrow> ''-'' | ND_MUL \<Rightarrow> ''*'' | ND_MOD \<Rightarrow> ''%''
      | ND_AND \<Rightarrow> ''&'' | ND_OR \<Rightarrow> ''|'' | ND_XOR \<Rightarrow> ''^''
      | ND_SHL \<Rightarrow> ''<<'' | ND_SHR \<Rightarrow> ''>>'' | ND_EQ \<Rightarrow> ''===''
      | ND_NE \<Rightarrow> ''!=='' | ND_LT \<Rightarrow> ''<'' | ND_LE \<Rightarrow> ''<='' | _ \<Rightarrow> [])"

definition js_binary :: "node_kind \<Rightarrow> jact \<Rightarrow> jact \<Rightarrow> jact" where
  "js_binary k l r = acts [out ''('', l, out ('' '' @ js_op k @ '' ''), r, out '')'']"

definition no_js :: jact where "no_js = put no_node"

definition load_text :: "jgen \<Rightarrow> ty \<Rightarrow> int \<Rightarrow> jact \<Rightarrow> jact" where
  "load_text c t n a = acts [ld_fn c t n, out ''('', a, out '')'']"

definition js_sum :: "jgen \<Rightarrow> node_kind \<Rightarrow> ty \<Rightarrow> ty \<Rightarrow> jact \<Rightarrow> jact \<Rightarrow> jact" where
  "js_sum c k lt rt l r =
     (let n = dec_int (elem_size (jg_classes c) lt)
      in if is_ptr lt \<and> is_ptr rt \<and> k = ND_SUB then acts [out ''Math.trunc(('', l, out '' - '', r, out ('') / '' @ n @ '')'')]
         else if is_ptr lt then acts [out ''('', l, out ('' '' @ js_op k @ '' ''), r, out ('' * '' @ n @ '')'')]
         else js_binary k l r)"

definition var_node :: "node \<Rightarrow> nat" where "var_node n = ni_var (ninf n)"

text \<open>An assignment: the value is made before the address.\<close>

definition js_assign :: "jgen \<Rightarrow> node \<Rightarrow> jact \<Rightarrow> jact \<Rightarrow> jact" where
  "js_assign c l la r = taking r (\<lambda>rv.
     if nkind l = ND_VAR \<and> native_var (jg_vars c (var_node l))
     then out (''('' @ vname (var_node l) (jg_vars c (var_node l)) @ '' = '' @ rv @ '')'')
     else if is_class_ty (nty l)
     then acts [js_rt c ''MemCpy'', out ''('', la, out ('','' @ rv @ '','' @ dec_int (ty_size (jg_classes c) (nty l)) @ '')'')]
     else acts [st_fn c (nty l) (if nkind l = ND_VAR then store_size c (jg_vars c (var_node l)) else size_or_8 c (nty l)),
                out ''('', la, out ('','' @ rv @ '')'')])"

text \<open>A view of the same bits reads the memory again where the operand has an address.\<close>

definition js_cast :: "jgen \<Rightarrow> bool \<Rightarrow> ty \<Rightarrow> node \<Rightarrow> jact \<Rightarrow> jact \<Rightarrow> jact" where
  "js_cast c bitc to l la v =
     (let from = nty l;
          mem = (nkind l = ND_DEREF \<or> nkind l = ND_MEMBER \<or> (nkind l = ND_VAR \<and> \<not> native_var (jg_vars c (var_node l))))
                \<and> (from = TyF64 \<or> is_ptr_ty from \<or> ty_size (jg_classes c) from = 8)
      in if bitc \<and> mem then acts [js_rt c (if to = TyF64 then ''ldf'' else ''ld8''), out ''('', la, out '')'']
         else if bitc then acts [js_rt c (if to = TyF64 then ''hcB2F'' else ''hcF2B''), out ''('', v, out '')'']
         else if to \<noteq> TyF64 \<and> from = TyF64 then acts [out ''Math.trunc('', v, out '')'']
         else v)"

section \<open>Calls\<close>

definition append_args :: "jact list \<Rightarrow> jact" where
  "append_args as = acts (separated_acts '','' as)"

text \<open>Variadic arguments go in an array, and an array says which are floats.\<close>

definition js_vcall :: "jgen \<Rightarrow> nat \<Rightarrow> jact \<Rightarrow> (node \<times> jact) list \<Rightarrow> jact" where
  "js_vcall c nfixed callee as = acts
     [js_rt c ''hcVCall'', out ''('', callee, out '',['', append_args (map snd (take nfixed as)), out ''],['',
      append_args (map snd (drop nfixed as)), out ''],['',
      append_args (map (\<lambda>(a, _). out (if nty a = TyF64 then ''1'' else ''0'')) (drop nfixed as)), out ''])'']"

definition js_call :: "jgen \<Rightarrow> node \<Rightarrow> jact \<Rightarrow> jact list \<Rightarrow> jact" where
  "js_call c n lv vs =
     (let as = zip (nargs n) vs; nfixed = ni_nfixed (ninf n)
      in case nfunc n of
           Some i \<Rightarrow>
             (let f = jg_funcs c ! i
              in taking (fname c f) (\<lambda>x.
                   if f_variadic f then js_vcall c nfixed (out x) as
                   else acts [out (x @ ''(''), append_args vs, out '')'']))
         | None \<Rightarrow>
             (let holyva = (case opt_ty (nlhs n) of TyPtr (TyFunc r ps va hva) nn \<Rightarrow> hva | _ \<Rightarrow> False)
              in taking lv (\<lambda>x.
                   if holyva then js_vcall c nfixed (out (''FT[('' @ x @ '')-1]'')) as
                   else acts [out (''FT[('' @ x @ '')-1]('' ), append_args vs, out '')''])))"

section \<open>Values and addresses\<close>

text \<open>The operators that are written between their operands as they are.\<close>

definition plain_ops :: "node_kind list" where
  "plain_ops = [ND_MUL, ND_MOD, ND_AND, ND_OR, ND_XOR, ND_SHL, ND_SHR, ND_EQ, ND_NE, ND_LT, ND_LE]"

function js_val :: "jgen \<Rightarrow> node \<Rightarrow> jact"
  and js_addr :: "jgen \<Rightarrow> node \<Rightarrow> jact" where
  "js_val c n =
     (let k = nkind n;
          l = (case nlhs n of None \<Rightarrow> no_js | Some m \<Rightarrow> js_val c m);
          r = (case nrhs n of None \<Rightarrow> no_js | Some m \<Rightarrow> js_val c m);
          la = (case nlhs n of None \<Rightarrow> no_js | Some m \<Rightarrow> js_addr c m);
          sz = size_or_8 c (nty n)
      in if k = ND_NUM then out (dec_int (sint (nival n)))
         else if k = ND_FNUM then out (jg_g17 c (ni_fval (ninf n)))
         else if k = ND_STR then out (dec_int (jg_str c (ni_str_id (ninf n))))
         else if k = ND_VAR
         then (let u = var_node n; v = jg_vars c u
               in if native_var v then out (vname u v)
                  else if is_agg (o_ty v) then var_addr c u
                  else load_text c (o_ty v) (store_size c v) (var_addr c u))
         else if k = ND_FUNCNAME then (case nfunc n of None \<Rightarrow> no_js | Some i \<Rightarrow> uid_get (f_uid (jg_funcs c ! i)))
         else if k = ND_DEREF then (if is_agg (nty n) then l else load_text c (nty n) sz l)
         else if k = ND_MEMBER then (if is_agg (nty n) then js_addr c n else load_text c (nty n) sz (js_addr c n))
         else if k = ND_ADDR then la
         else if k = ND_ASSIGN then (case nlhs n of None \<Rightarrow> no_js | Some m \<Rightarrow> js_assign c m la r)
         else if k = ND_CAST then (case nlhs n of None \<Rightarrow> no_js | Some m \<Rightarrow> js_cast c (ni_bit_cast (ninf n)) (nty n) m la l)
         else if k = ND_ADD \<or> k = ND_SUB then js_sum c k (opt_ty (nlhs n)) (opt_ty (nrhs n)) l r
         else if k \<in> set plain_ops then js_binary k l r
         else if k = ND_DIV
         then (if nty n = TyF64 then acts [out ''('', l, out '' / '', r, out '')''] else acts [out ''Math.trunc('', l, out '' / '', r, out '')''])
         else if k = ND_POW then acts [out ''('', l, out '' ** '', r, out '')'']
         else if k = ND_LOGAND then acts [out ''('', l, out '' && '', r, out '')'']
         else if k = ND_LOGOR then acts [out ''('', l, out '' || '', r, out '')'']
         else if k = ND_LOGXOR then acts [out ''(Boolean('', l, out '') !== Boolean('', r, out ''))'']
         else if k = ND_NOT then acts [out ''(!'', l, out '')'']
         else if k = ND_BITNOT then acts [out ''(~'', l, out '')'']
         else if k = ND_NEG then acts [out ''(-'', l, out '')'']
         else if k = ND_COMMA then acts [out ''('', l, out '', '', r, out '')'']
         else if k = ND_CALL then js_call c n l (map (js_val c) (nargs n))
         else if k = ND_NOP then out ''0''
         else put (Inl (Err ''js backend: unexpected node kind in expression'')))"
| "js_addr c n =
     (let k = nkind n
      in if k = ND_VAR then var_addr c (var_node n)
         else if k = ND_DEREF then (case nlhs n of None \<Rightarrow> no_js | Some m \<Rightarrow> js_val c m)
         else if k = ND_MEMBER
         then (let a = (case nlhs n of None \<Rightarrow> no_js | Some m \<Rightarrow> js_addr c m); off = m_offset (ni_member (ninf n))
               in if off = 0 then a else acts [out ''('', a, out (''+'' @ dec_int off @ '')'')])
         else put (Inl (Err ''js backend: not an lvalue'')))"
  by pat_completeness auto
termination
  by (relation "measures [(\<lambda>x. case x of Inl (c, n) \<Rightarrow> size n | Inr (c, n) \<Rightarrow> size n),
        (\<lambda>x. case x of Inl _ \<Rightarrow> 1 | Inr _ \<Rightarrow> 0)]")
    (auto intro!: children_smaller simp: children_def)

declare js_val.simps [simp del] js_addr.simps [simp del]

end
