(* ===== verification/JsStmt.thy ===== *)
theory JsStmt
  imports JsExpr
begin

text \<open>
  The statements of the JavaScript backend (\<open>src/src/back_js.c\<close>). A function without gotos becomes
  structured JavaScript; any other is cut into numbered blocks, the cases of one \<open>switch (pc)\<close> in an
  endless loop, where a jump sets \<open>pc\<close> and continues.
\<close>

section \<open>Structured functions\<close>

definition loop_label :: "node \<Rightarrow> bool" where
  "loop_label n \<longleftrightarrow> nkind n = ND_LABEL
     \<and> (let l = ni_label (ninf n)
        in take 1 l = ''.'' \<and> take 4 (drop 1 l) \<in> {''fend'', ''wend'', ''dend''})"

text \<open>A missing body would be dereferenced; such a node is not structured.\<close>

function native_stmt :: "bool \<Rightarrow> node \<Rightarrow> bool" where
  "native_stmt exc n =
     (let k = nkind n;
          th = (case nthen n of None \<Rightarrow> False | Some m \<Rightarrow> native_stmt exc m);
          els = (case nels n of None \<Rightarrow> False | Some m \<Rightarrow> native_stmt exc m);
          ini = (case ninit n of None \<Rightarrow> True | Some m \<Rightarrow> native_stmt exc m);
          inc = (case ninc n of None \<Rightarrow> True | Some m \<Rightarrow> native_stmt exc m)
      in if k = ND_NOP \<or> k = ND_EXPR_STMT \<or> k = ND_RETURN then True
         else if k = ND_BLOCK then list_all (native_stmt exc) (nbody n)
         else if k = ND_IF then th \<and> (nels n = None \<or> els)
         else if k = ND_WHILE \<or> k = ND_DOWHILE then th
         else if k = ND_FOR then ini \<and> inc \<and> th
         else if k = ND_TRY then th \<and> (\<not> exc \<or> els)
         else if k = ND_LABEL then loop_label n
         else False)"
  by pat_completeness auto
termination
  by (relation "measure (\<lambda>(e, n). size n)") (auto intro!: children_smaller simp: children_def)

declare native_stmt.simps [simp del]

definition plain_expr :: "jgen \<Rightarrow> node \<Rightarrow> jact" where
  "plain_expr c n =
     (case nlhs n of
        Some l \<Rightarrow>
          (if nkind n = ND_ASSIGN \<and> nkind l = ND_VAR \<and> native_var (jg_vars c (var_node l))
           then acts [out (vname (var_node l) (jg_vars c (var_node l)) @ '' = ''), (case nrhs n of None \<Rightarrow> no_js | Some r \<Rightarrow> js_val c r)]
           else js_val c n)
      | None \<Rightarrow> js_val c n)"

text \<open>A step that the parser has spelled out is written \<open>x++\<close> again; a clause that is no expression
  statement is left out.\<close>

definition step_var :: "jgen \<Rightarrow> node \<Rightarrow> nat option" where
  "step_var c n =
     (case nlhs n of
        Some a \<Rightarrow>
          (case nrhs a of
             Some v \<Rightarrow>
               (if nkind n = ND_COMMA \<and> nkind a = ND_ASSIGN \<and> nkind v = ND_VAR \<and> native_var (jg_vars c (var_node v))
                   \<and> str (ntok n) \<in> {''++'', ''--''}
                then Some (var_node v) else None)
           | None \<Rightarrow> None)
      | None \<Rightarrow> None)"

definition for_clause :: "jgen \<Rightarrow> node option \<Rightarrow> jact" where
  "for_clause c s =
     (case s of
        Some n \<Rightarrow>
          (if nkind n \<noteq> ND_EXPR_STMT then out []
           else
             (case nlhs n of
                None \<Rightarrow> no_js
              | Some e \<Rightarrow>
                  (case step_var c e of
                     Some u \<Rightarrow> out (vname u (jg_vars c u) @ str (ntok e))
                   | None \<Rightarrow> plain_expr c e)))
      | None \<Rightarrow> out [])"

definition opt_val :: "jgen \<Rightarrow> node option \<Rightarrow> jact" where
  "opt_val c x = (case x of None \<Rightarrow> no_js | Some n \<Rightarrow> js_val c n)"

definition js_return :: "jgen \<Rightarrow> nat \<Rightarrow> node option \<Rightarrow> jact" where
  "js_return c ind v = (\<lambda>st. acts
     [out (tabs ind @ (if js_restore_fp st then ''FP=fp;'' else [])),
      (case v of Some e \<Rightarrow> acts [out ''return '', js_val c e, out ('';'' @ nl)] | None \<Rightarrow> out (''return 0;'' @ nl))] st)"

definition structured_error :: err where
  "structured_error = Err ''js backend: cannot emit structured node''"

function js_native :: "jgen \<Rightarrow> nat \<Rightarrow> node \<Rightarrow> jact" where
  "js_native c ind n =
     (let k = nkind n;
          th = (\<lambda>i. case nthen n of None \<Rightarrow> no_js | Some m \<Rightarrow> js_native c i m);
          els = (case nels n of None \<Rightarrow> no_js | Some m \<Rightarrow> js_native c (ind + 1) m);
          cond = opt_val c (ncond n); closing = line ind ''}''
      in if k = ND_NOP \<or> k = ND_LABEL then acts []
         else if k = ND_EXPR_STMT
         then acts [out (tabs ind), (case nlhs n of None \<Rightarrow> no_js | Some e \<Rightarrow> plain_expr c e), out ('';'' @ nl)]
         else if k = ND_BLOCK then acts (map (js_native c ind) (nbody n))
         else if k = ND_IF
         then acts ([out (tabs ind @ ''if (''), cond, out ('') {'' @ nl), th (ind + 1)]
                @ (if nels n = None then [closing] else [line ind ''} else {'', els, closing]))
         else if k = ND_WHILE then acts [out (tabs ind @ ''while (''), cond, out ('') {'' @ nl), th (ind + 1), closing]
         else if k = ND_DOWHILE then acts [line ind ''do {'', th (ind + 1), out (tabs ind @ ''} while (''), cond, out ('');'' @ nl)]
         else if k = ND_FOR
         then acts [out (tabs ind @ ''for (''), for_clause c (ninit n), out ''; '', (if ncond n = None then out [] else cond), out ''; '',
                    for_clause c (ninc n), out ('') {'' @ nl), th (ind + 1), closing]
         else if k = ND_RETURN then js_return c ind (nlhs n)
         else if k = ND_TRY
         then (if \<not> jg_exc c then th ind
               else acts [line ind ''try {'', th (ind + 1), line ind ''} catch (e) {'', line (ind + 1) ''if (e !== HCEXC) throw e;'', els,
                      out (tabs (ind + 1) @ ''if (!ld8(TASK + 8)) ''), js_rt c ''hcThrowFn'', out (''(ld8(TASK));'' @ nl), closing])
         else put (Inl structured_error))"
  by pat_completeness auto
termination
  by (relation "measure (\<lambda>(c, i, n). size n)") (auto intro!: children_smaller simp: children_def)

declare js_native.simps [simp del]

section \<open>Blocks\<close>

type_synonym jstep = "jstate \<Rightarrow> jstate res"

primrec seq :: "jstep list \<Rightarrow> jstep" where
  "seq [] = Inr"
| "seq (a # as) = (\<lambda>st. rbind (a st) (seq as))"

definition new_block :: "jstate \<Rightarrow> (nat \<times> jstate) res" where
  "new_block st =
     (if length (js_blocks st) \<ge> 1024 then Inl (Err ''js backend: too many blocks'')
      else Inr (length (js_blocks st), st\<lparr>js_blocks := js_blocks st @ [\<lparr>jb_out = [], jb_term = False\<rparr>]\<rparr>))"

definition with_block :: "(nat \<Rightarrow> jstep) \<Rightarrow> jstep" where
  "with_block f = (\<lambda>st. rbind (new_block st) (\<lambda>(b, st1). f b st1))"

definition set_cur :: "nat \<Rightarrow> jstep" where
  "set_cur b = (\<lambda>st. Inr (st\<lparr>js_cur := b\<rparr>))"

definition cur_block :: "jstate \<Rightarrow> js_block" where
  "cur_block st = js_blocks st ! js_cur st"

definition upd_block :: "(js_block \<Rightarrow> js_block) \<Rightarrow> jstate \<Rightarrow> jstate" where
  "upd_block f st = st\<lparr>js_blocks := (js_blocks st)[js_cur st := f (cur_block st)]\<rparr>"

text \<open>\<open>EMIT\<close> appends to the current block; some texts end it.\<close>

definition emit_to :: "jact \<Rightarrow> jstep" where
  "emit_to a = (\<lambda>st. rbind (a st) (\<lambda>(s, st1). Inr (upd_block (\<lambda>b. b\<lparr>jb_out := jb_out b @ s\<rparr>) st1)))"

definition set_term :: jstep where
  "set_term = (\<lambda>st. Inr (upd_block (\<lambda>b. b\<lparr>jb_term := True\<rparr>) st))"

definition jump_to :: "nat \<Rightarrow> jstep" where
  "jump_to b = seq [emit_to (out (''pc='' @ dec_nat b @ '';continue;'' @ nl)), set_term]"

definition jump_if_open :: "nat \<Rightarrow> jstep" where
  "jump_if_open b = (\<lambda>st. if jb_term (cur_block st) then Inr st else jump_to b st)"

definition branch :: "jact \<Rightarrow> nat \<Rightarrow> nat \<Rightarrow> jstep" where
  "branch v a b = seq
     [emit_to (acts [out ''pc=('', v, out ('')?'' @ dec_nat a @ '':'' @ dec_nat b @ '';continue;'' @ nl)]), set_term]"

definition label_block :: "string \<Rightarrow> jstate \<Rightarrow> (nat \<times> jstate) res" where
  "label_block x st =
     (case map_of (js_labels st) x of
        Some b \<Rightarrow> Inr (b, st)
      | None \<Rightarrow>
          (if length (js_labels st) \<ge> 512 then Inl (Err ''js backend: too many labels'')
           else rbind (new_block st) (\<lambda>(b, st1). Inr (b, st1\<lparr>js_labels := js_labels st1 @ [(x, b)]\<rparr>))))"

definition at_label :: "string \<Rightarrow> (nat \<Rightarrow> jstep) \<Rightarrow> jstep" where
  "at_label x f = (\<lambda>st. rbind (label_block x st) (\<lambda>(b, st1). f b st1))"

text \<open>A statement after the end of a block starts a new one.\<close>

definition fresh_if_closed :: "node_kind \<Rightarrow> jstep" where
  "fresh_if_closed k = (\<lambda>st. if jb_term (cur_block st) \<and> k \<noteq> ND_LABEL then with_block set_cur st else Inr st)"

section \<open>Functions with gotos\<close>

definition if_step :: "jact \<Rightarrow> jstep \<Rightarrow> jstep option \<Rightarrow> jstep" where
  "if_step cond th els =
     (case els of
        Some e \<Rightarrow> with_block (\<lambda>tb. with_block (\<lambda>eb. with_block (\<lambda>db.
          seq [branch cond tb eb, set_cur tb, th, jump_if_open db, set_cur eb, e, jump_if_open db, set_cur db])))
      | None \<Rightarrow> with_block (\<lambda>tb. with_block (\<lambda>db.
          seq [branch cond tb db, set_cur tb, th, jump_if_open db, set_cur db])))"

definition if_open :: "jstep \<Rightarrow> jstep" where
  "if_open a = (\<lambda>st. if jb_term (cur_block st) then Inr st else a st)"

definition loop_step :: "jact option \<Rightarrow> jstep \<Rightarrow> jstep \<Rightarrow> jstep" where
  "loop_step cond th inc = with_block (\<lambda>hb. with_block (\<lambda>bb. with_block (\<lambda>db.
     seq [jump_to hb, set_cur hb, (case cond of Some v \<Rightarrow> branch v bb db | None \<Rightarrow> jump_to bb), set_cur bb,
          th, if_open inc, jump_if_open hb, set_cur db])))"

definition dowhile_step :: "jact \<Rightarrow> jstep \<Rightarrow> jstep" where
  "dowhile_step cond th = with_block (\<lambda>bb. with_block (\<lambda>hb. with_block (\<lambda>db.
     seq [jump_to bb, set_cur bb, th, jump_if_open hb, set_cur hb, branch cond bb db, set_cur db])))"

definition return_step :: "jgen \<Rightarrow> node option \<Rightarrow> jstep" where
  "return_step c v = (\<lambda>st. seq
     [emit_to (acts
        [out (if js_restore_fp st then ''FP=fp;'' else []),
         (case v of Some e \<Rightarrow> acts [out ''return ('', js_val c e, out ('');'' @ nl)] | None \<Rightarrow> out (''return 0;'' @ nl))]),
      set_term] st)"

definition no_step :: jstep where "no_step = (\<lambda>st. Inl NullDeref)"

function js_stmt :: "jgen \<Rightarrow> node \<Rightarrow> jstep" where
  "js_stmt c n =
     (let k = nkind n;
          th = (case nthen n of None \<Rightarrow> no_step | Some m \<Rightarrow> js_stmt c m);
          els = (case nels n of None \<Rightarrow> None | Some m \<Rightarrow> Some (js_stmt c m));
          ini = (case ninit n of None \<Rightarrow> Inr | Some m \<Rightarrow> js_stmt c m);
          inc = (case ninc n of None \<Rightarrow> Inr | Some m \<Rightarrow> js_stmt c m);
          cond = opt_val c (ncond n)
      in seq [fresh_if_closed k,
           (if k = ND_NOP then Inr
            else if k = ND_EXPR_STMT then emit_to (acts [opt_val c (nlhs n), out ('';'' @ nl)])
            else if k = ND_BLOCK then seq (map (js_stmt c) (nbody n))
            else if k = ND_IF then if_step cond th els
            else if k = ND_FOR then seq [ini, loop_step (if ncond n = None then None else Some cond) th inc]
            else if k = ND_WHILE then loop_step (Some cond) th Inr
            else if k = ND_DOWHILE then dowhile_step cond th
            else if k = ND_RETURN then return_step c (nlhs n)
            else if k = ND_TRY
            then (if jg_exc c then (\<lambda>st. Inl (Err ''js backend: try with non-structured control flow'')) else th)
            else if k = ND_GOTO then at_label (ni_label (ninf n)) jump_to
            else if k = ND_LABEL then at_label (ni_label (ninf n)) (\<lambda>b. seq [jump_if_open b, set_cur b])
            else emit_to (acts [js_val c n, out ('';'' @ nl)]))])"
  by pat_completeness auto
termination
  by (relation "measure (\<lambda>(c, n). size n)") (auto intro!: children_smaller simp: children_def)

declare js_stmt.simps [simp del]

end
