(* ===== verification/JsBack.thy ===== *)
theory JsBack
  imports JsStmt CBack
begin

text \<open>
  The JavaScript backend (\<open>src/src/back_js.c\<close>): functions with their frames, the layout of strings and
  globals in linear memory, and the whole file that \<open>js_emit\<close> writes.
\<close>

section \<open>Functions\<close>

definition align8 :: "int \<Rightarrow> int" where
  "align8 v = (v + 7) div 8 * 8"

text \<open>The memory variables of a frame with their sizes: parameters, then locals.\<close>

definition frame_slots :: "jgen \<Rightarrow> func \<Rightarrow> (nat \<times> int) list" where
  "frame_slots c f =
     map (\<lambda>u. (u, 8)) (filter (\<lambda>u. \<not> native_var (jg_vars c u)) (f_params f))
     @ map (\<lambda>u. (u, align8 (size_or_8 c (o_ty (jg_vars c u))))) (filter (\<lambda>u. \<not> native_var (jg_vars c u)) (f_locals f))"

text \<open>Slots are handed out in order from an offset; the result is the offset after the last.\<close>

fun lay_out :: "(nat \<times> int) list \<Rightarrow> int \<Rightarrow> jstate \<Rightarrow> (int \<times> jstate) res" where
  "lay_out [] off st = Inr (off, st)"
| "lay_out ((u, n) # slots) off st = rbind (uid_set u off st) (\<lambda>(_, st1). lay_out slots (off + n) st1)"

definition comma_list :: "string list \<Rightarrow> string" where
  "comma_list xs = joined '','' xs"

definition js_vname :: "jgen \<Rightarrow> nat \<Rightarrow> string" where
  "js_vname c u = vname u (jg_vars c u)"

text \<open>The blocks of a function with gotos.\<close>

definition function_blocks :: "jgen \<Rightarrow> node \<Rightarrow> jstep" where
  "function_blocks c body = (\<lambda>st. with_block (\<lambda>entry. seq
     [set_cur entry, js_stmt c body,
      (\<lambda>st1. if jb_term (cur_block st1) then Inr st1
             else emit_to (out ((if js_restore_fp st1 then ''FP=fp;'' else []) @ ''return 0;'' @ nl)) st1)])
     (st\<lparr>js_blocks := []\<rparr>))"

definition cases_text :: "js_block list \<Rightarrow> string" where
  "cases_text bs = concat (map2 (\<lambda>i b. '' case '' @ dec_nat i @ '':{'' @ nl @ jb_out b @ '' }'' @ nl) [0 ..< length bs] bs)"

definition last_is_return :: "node \<Rightarrow> bool" where
  "last_is_return body =
     (if nkind body = ND_BLOCK then (nbody body \<noteq> [] \<and> nkind (last (nbody body)) = ND_RETURN) else nkind body = ND_RETURN)"

text \<open>The start of a function: native variables, the frame, and the parameters that live in it.\<close>

definition func_head :: "jgen \<Rightarrow> string \<Rightarrow> func \<Rightarrow> int \<Rightarrow> jact" where
  "func_head c x f framesz = acts
     ([out (''function '' @ x @ ''('' @ comma_list (map (js_vname c) (f_params f)) @ ''){'' @ nl
         @ concat (map (\<lambda>u. '' let '' @ js_vname c u @ ''=0;'' @ nl) (filter (\<lambda>u. native_var (jg_vars c u)) (f_locals f)))
         @ (if framesz \<noteq> 0
            then '' const fp=FP;FP+='' @ dec_int framesz @ '';'' @ nl @ '' U8A.fill(0,fp,fp+'' @ dec_int framesz @ '');'' @ nl else []))]
      @ map (\<lambda>u. acts [out '' '', js_rt c (if o_ty (jg_vars c u) = TyF64 then ''stf'' else ''st8''), out ''(fp+'', uid_get u,
                       out ('','' @ js_vname c u @ '');'' @ nl)])
            (filter (\<lambda>u. \<not> native_var (jg_vars c u)) (f_params f)))"

definition native_body :: "jgen \<Rightarrow> bool \<Rightarrow> node \<Rightarrow> jact" where
  "native_body c guarded body = (\<lambda>st. acts
     [out (if guarded then '' try {'' @ nl else []), js_native c (if guarded then 2 else 1) body,
      out (if last_is_return body then []
           else (if js_restore_fp st then '' FP=fp;'' else []) @ (if guarded then ''  '' else '' '') @ ''return 0;'' @ nl),
      out ((if guarded then '' } finally { FP=fp; }'' @ nl else []) @ ''}'' @ nl)] st)"

definition switch_body :: "bool \<Rightarrow> nat \<Rightarrow> jact" where
  "switch_body guarded entry = (\<lambda>st. acts
     [out ('' let pc='' @ dec_nat entry @ '';'' @ nl @ (if guarded then '' try {'' @ nl else []) @ '' for (;;) switch (pc) {'' @ nl
        @ cases_text (js_blocks st)
        @ (if js_restore_fp st then '' default:FP=fp;return 0;'' else '' default:return 0;'') @ nl @ '' }'' @ nl
        @ (if guarded then '' } finally { FP=fp; }'' @ nl else []) @ ''}'' @ nl)] st)"

definition js_func :: "jgen \<Rightarrow> bool \<Rightarrow> func \<Rightarrow> jact" where
  "js_func c startup f = (\<lambda>st0.
     case fn_body f of
       None \<Rightarrow> Inl NullDeref
     | Some body \<Rightarrow>
         rbind (lay_out (frame_slots c f) 0 (st0\<lparr>js_labels := []\<rparr>)) (\<lambda>(framesz, st1).
           let guarded = (framesz \<noteq> 0 \<and> jg_exc c); native = native_stmt (jg_exc c) body;
               st2 = st1\<lparr>js_restore_fp := (framesz \<noteq> 0 \<and> \<not> jg_exc c)\<rparr>
           in rbind (if native then Inr st2 else function_blocks c body st2) (\<lambda>st3. acts
                [func_head c (if startup then ''__hc_start'' else ''hc_'' @ fn_name f) f framesz,
                 (if native then native_body c guarded body else switch_body guarded 0)] st3)))"

section \<open>Layout of the data\<close>

text \<open>Strings from address 64, each with its zero and rounded up to 8 bytes; then the globals in memory.
  Strings are numbered newest last, but the list has the newest first.\<close>

fun string_addrs :: "(nat \<times> string) list \<Rightarrow> int \<Rightarrow> (nat \<times> int) list \<times> int" where
  "string_addrs [] a = ([], a)"
| "string_addrs ((i, s) # ss) a =
     (let (m, e) = string_addrs ss (align8 (a + int (length s) + 1)) in ((i, a) # m, e))"

definition numbered_strings :: "program \<Rightarrow> (nat \<times> string) list" where
  "numbered_strings p = zip (rev [0 ..< length (pr_strings p)]) (pr_strings p)"

definition global_size :: "jgen \<Rightarrow> nat \<Rightarrow> int" where
  "global_size c u = (let n = size_or_8 c (o_ty (jg_vars c u)) in if n < 8 then 8 else n)"

definition memory_globals :: "jgen \<Rightarrow> program \<Rightarrow> nat list" where
  "memory_globals c p = filter (\<lambda>u. \<not> o_extern (jg_vars c u) \<and> \<not> native_var (jg_vars c u)) (pr_globals p)"

fun lay_globals :: "jgen \<Rightarrow> nat list \<Rightarrow> int \<Rightarrow> jstate \<Rightarrow> (int \<times> jstate) res" where
  "lay_globals c [] a st = Inr (a, st)"
| "lay_globals c (u # us) a st =
     rbind (uid_set u a st) (\<lambda>(_, st1). lay_globals c us (align8 (a + global_size c u)) st1)"

text \<open>Functions are named by their place in a table, from 1.\<close>

fun lay_funcs :: "func list \<Rightarrow> int \<Rightarrow> jstate \<Rightarrow> jstate res" where
  "lay_funcs [] i st = Inr st"
| "lay_funcs (f # fs) i st = rbind (uid_set (f_uid f) (i + 1) st) (\<lambda>(_, st1). lay_funcs fs (i + 1) st1)"

section \<open>The file\<close>

text \<open>How the backend is called: \<open>asm_tok\<close> is the first asm statement of the program.\<close>

record jsbackend =
  jb_exceptions :: bool
  jb_g17 :: "bool \<times> string \<Rightarrow> string"
  jb_rt_src :: string
  jb_asm_tok :: "token option"

definition asm_reject_js :: "token option \<Rightarrow> unit res" where
  "asm_reject_js t =
     (case t of
        Some tok \<Rightarrow> Inl (err_tok tok ''asm statements are not supported by the js backend; use c or llvm'')
      | None \<Rightarrow> Inr ())"

definition jgen_of :: "jsbackend \<Rightarrow> program \<Rightarrow> (nat \<times> int) list \<Rightarrow> jgen" where
  "jgen_of b p addrs = \<lparr>jg_exc = jb_exceptions b, jg_vars = pr_vars p, jg_funcs = pr_funcs p, jg_classes = pr_classes p,
     jg_g17 = jb_g17 b, jg_str = (\<lambda>i. case map_of addrs i of None \<Rightarrow> 0 | Some a \<Rightarrow> a)\<rparr>"

definition js_start :: "rt_chunk list \<Rightarrow> jstate" where
  "js_start cs = \<lparr>js_chunks = cs, js_blocks = [], js_cur = 0, js_labels = [], js_umap = (\<lambda>_. None), js_restore_fp = False\<rparr>"

text \<open>Everything up to the text of the functions.\<close>

definition js_layout :: "jgen \<Rightarrow> program \<Rightarrow> int \<Rightarrow> jstate \<Rightarrow> (int \<times> jstate) res" where
  "js_layout c p a st =
     rbind (lay_globals c (memory_globals c p) a st) (\<lambda>(e, st1).
       rbind (lay_funcs (defined_funcs p) 0 st1) (\<lambda>st2. Inr (e, st2)))"

definition js_functions :: "jgen \<Rightarrow> program \<Rightarrow> jact" where
  "js_functions c p = acts (map (js_func c False) (defined_funcs p) @ [js_func c True (pr_startup p)])"

text \<open>With exceptions the end of the file names two more functions.\<close>

definition js_tail_rt :: "jgen \<Rightarrow> jstep" where
  "js_tail_rt c = (\<lambda>st.
     if jg_exc c then rbind (js_rt c ''hcExcState'' st) (\<lambda>(_, st1). rbind (js_rt c ''chstr'' st1) (\<lambda>(_, st2). Inr st2))
     else Inr st)"

definition data_text :: "(nat \<times> int) list \<Rightarrow> (nat \<times> string) list \<Rightarrow> string" where
  "data_text addrs ss = concat (map (\<lambda>(i, s). ''D('' @ dec_int (the (map_of addrs i)) @ '',['' @
     concat (map (\<lambda>ch. dec_nat (of_char ch) @ '','') s) @ ''0]);'' @ nl) ss)"

definition backslash_n :: string where "backslash_n = [CHR 0x5C, CHR ''n'']"

text \<open>The start of the program: the arguments are copied into linear memory.\<close>

definition args_text :: string where
  "args_text = concat
     [''const __hc_args=process.argv.slice(2);'', ''const __hc_argv=HP;HP+=(__hc_args.length+1)*8;'',
      ''if(HP>HEAP_END)throw new Error('' @ sq ''argument vector exceeds memory'' @ '');'',
      ''for(let i=0;i<__hc_args.length;i++){'', ''const b=Buffer.from(__hc_args[i],'' @ sq ''utf8'' @ '');'',
      ''if(HP+b.length+1>HEAP_END)throw new Error('' @ sq ''argument data exceeds memory'' @ '');'',
      ''st8(__hc_argv+i*8,HP);U8A.set(b,HP);HP+=b.length;U8A[HP++]=0;}'', ''st8(__hc_argv+__hc_args.length*8,0);'',
      ''const __hc_status=__hc_start(__hc_args.length,__hc_argv);'',
      ''process.exitCode=((Math.trunc(__hc_status)%256)+256)%256;'']"

definition start_text :: "bool \<Rightarrow> string" where
  "start_text exc =
     (if exc
      then ''try{'' @ args_text @ ''}catch(e){if(e===HCEXC){'' @ ''process.stderr.write('' @ dquote @ ''Unhandled Exception '' @ [CHR 0x27]
           @ dquote @ ''+chstr(ld8(TASK))+'' @ dquote @ [CHR 0x27] @ backslash_n @ dquote @ '');'' @ ''process.exit(1);}throw e;}'' @ nl
      else args_text @ nl)"

definition js_emit :: "jsbackend \<Rightarrow> program \<Rightarrow> string res" where
  "js_emit b p =
     rbind (asm_reject_js (jb_asm_tok b)) (\<lambda>_.
     rbind (parse_rt_chunks (jb_rt_src b)) (\<lambda>(core, cs).
       if length (pr_strings p) > 65536 then Inl Overrun
       else
         (let (addrs, a) = string_addrs (numbered_strings p) 64; c = jgen_of b p addrs
          in rbind (js_layout c p a (js_start cs)) (\<lambda>(e, st1).
             rbind (js_functions c p st1) (\<lambda>(funcs, st2).
             rbind (js_tail_rt c st2) (\<lambda>st3. Inr
               (''#!/usr/bin/env node'' @ nl @ core @ concat (map rc_src (filter rc_inc (js_chunks st3)))
                @ concat (map (\<lambda>u. ''let '' @ js_vname c u @ ''=0;'' @ nl) (filter (\<lambda>u. native_var (jg_vars c u)) (pr_globals p)))
                @ funcs @ ''const FT=['' @ concat (map (\<lambda>f. ''hc_'' @ fn_name f @ '','') (defined_funcs p)) @ ''];'' @ nl
                @ data_text addrs (numbered_strings p) @ ''setLayout('' @ dec_int e @ '');'' @ nl @ start_text (jg_exc c))))))))"

end
