(* ===== verification/JsProps.thy ===== *)
theory JsProps
  imports JsBack
begin

text \<open>
  What the JavaScript backend keeps: emitting text only marks chunks of the runtime, so the runtime that
  is shipped is complete; and a function that is taken for structured can be written as such.
\<close>

declare acts.simps(2) [simp del] seq.simps(2) [simp del]

section \<open>Emitting text\<close>

text \<open>Text leaves the state alone but for marked chunks, and is not stopped by a missing structure.\<close>

definition marks :: "jgen \<Rightarrow> string list \<Rightarrow> rt_chunk list \<Rightarrow> rt_chunk list" where
  "marks c xs cs = fold (mark_chunk (jg_exc c)) xs cs"

definition text_only :: "jgen \<Rightarrow> jact \<Rightarrow> bool" where
  "text_only c a \<longleftrightarrow> (\<forall>st. case a st of Inl e \<Rightarrow> e \<noteq> structured_error
      | Inr (s, st1) \<Rightarrow> \<exists>xs. st1 = st\<lparr>js_chunks := marks c xs (js_chunks st)\<rparr>)"

lemma text_onlyD: "text_only c a \<Longrightarrow> a st = Inr (s, st1) \<Longrightarrow> \<exists>xs. st1 = st\<lparr>js_chunks := marks c xs (js_chunks st)\<rparr>"
  unfolding text_only_def by (drule spec [of _ st]) simp

lemma text_onlyE: "text_only c a \<Longrightarrow> a st = Inl e \<Longrightarrow> e \<noteq> structured_error"
  unfolding text_only_def by (drule spec [of _ st]) simp

lemma text_onlyI:
  "(\<And>st e. a st = Inl e \<Longrightarrow> e \<noteq> structured_error) \<Longrightarrow>
   (\<And>st s st1. a st = Inr (s, st1) \<Longrightarrow> \<exists>xs. st1 = st\<lparr>js_chunks := marks c xs (js_chunks st)\<rparr>) \<Longrightarrow> text_only c a"
  unfolding text_only_def by (auto split: sum.split)

lemma marks_Nil: "st = st\<lparr>js_chunks := marks c [] (js_chunks st)\<rparr>"
  by (simp add: marks_def)

lemma marks_append: "marks c ys (marks c xs cs) = marks c (xs @ ys) cs"
  by (simp add: marks_def)

lemma text_out [simp, intro]: "text_only c (out s)"
  unfolding text_only_def out_def using marks_Nil by auto

lemma text_put [simp]: "text_only c (put (Inl e)) \<longleftrightarrow> e \<noteq> structured_error"
  unfolding text_only_def put_def by auto

lemma text_no_js [simp, intro]: "text_only c no_js"
  unfolding no_js_def no_node_def by (simp add: structured_error_def)

lemma text_line [simp, intro]: "text_only c (line i s)"
  unfolding line_def by simp

lemma text_uid_get [simp, intro]: "text_only c (uid_get u)"
  unfolding text_only_def uid_get_def using marks_Nil by (auto simp: structured_error_def split: option.split)

lemma text_rt [simp, intro]: "text_only c (js_rt c x)"
proof (rule text_onlyI)
  fix st s st1
  assume "js_rt c x st = Inr (s, st1)"
  then have "st1 = st\<lparr>js_chunks := marks c [s] (js_chunks st)\<rparr>"
    unfolding js_rt_def Let_def marks_def by auto
  then show "\<exists>xs. st1 = st\<lparr>js_chunks := marks c xs (js_chunks st)\<rparr>" by blast
qed (simp add: js_rt_def Let_def)

lemma text_taking [intro]: "text_only c a \<Longrightarrow> (\<And>s. text_only c (f s)) \<Longrightarrow> text_only c (taking a f)"
proof (rule text_onlyI)
  fix st s st2
  assume t: "text_only c a" "\<And>s. text_only c (f s)" "taking a f st = Inr (s, st2)"
  then obtain s1 st1 where h: "a st = Inr (s1, st1)" "f s1 st1 = Inr (s, st2)" by (auto simp: taking_def rbind_eq_Inr)
  obtain xs ys where "st1 = st\<lparr>js_chunks := marks c xs (js_chunks st)\<rparr>" "st2 = st1\<lparr>js_chunks := marks c ys (js_chunks st1)\<rparr>"
    using text_onlyD [OF t(1) h(1)] text_onlyD [OF t(2) h(2)] by blast
  then have "st2 = st\<lparr>js_chunks := marks c (xs @ ys) (js_chunks st)\<rparr>" by (simp add: marks_append)
  then show "\<exists>zs. st2 = st\<lparr>js_chunks := marks c zs (js_chunks st)\<rparr>" by blast
next
  fix st e
  assume t: "text_only c a" "\<And>s. text_only c (f s)" "taking a f st = Inl e"
  then show "e \<noteq> structured_error" using text_onlyE by (fastforce simp: taking_def rbind_eq_Inl)
qed

lemma acts_taking: "acts (a # as) = taking a (\<lambda>s. taking (acts as) (\<lambda>s2. out (s @ s2)))"
  by (rule ext) (simp add: acts.simps(2) taking_def out_def)

lemma text_acts [intro]: "(\<And>a. a \<in> set as \<Longrightarrow> text_only c a) \<Longrightarrow> text_only c (acts as)"
proof (induction as)
  case (Cons a as)
  then show ?case unfolding acts_taking by (intro text_taking) auto
qed simp

lemma set_separated_acts: "set (separated_acts sep as) \<subseteq> insert (out sep) (set as)"
  by (induction sep as rule: separated_acts.induct) auto

lemma text_append_args [intro]: "(\<And>a. a \<in> set as \<Longrightarrow> text_only c a) \<Longrightarrow> text_only c (append_args as)"
  unfolding append_args_def by (rule text_acts) (use set_separated_acts [of "'',''" as] in auto)

lemma text_var_addr [simp, intro]: "text_only c (var_addr c u)"
  unfolding var_addr_def Let_def by (auto intro!: text_acts)

lemma text_load_text [intro]: "text_only c a \<Longrightarrow> text_only c (load_text c t n a)"
  unfolding load_text_def ld_fn_def by (auto intro!: text_acts)

lemma text_st_fn [simp, intro]: "text_only c (st_fn c t n)"
  unfolding st_fn_def by auto

lemma text_fname [simp, intro]: "text_only c (fname c f)"
  unfolding fname_def by auto

lemma text_binary [intro]: "text_only c l \<Longrightarrow> text_only c r \<Longrightarrow> text_only c (js_binary k l r)"
  unfolding js_binary_def by (auto intro!: text_acts)

lemma text_sum [intro]: "text_only c l \<Longrightarrow> text_only c r \<Longrightarrow> text_only c (js_sum c k lt rt l r)"
  unfolding js_sum_def Let_def by (auto intro!: text_acts)

lemma text_assign [intro]: "text_only c la \<Longrightarrow> text_only c r \<Longrightarrow> text_only c (js_assign c l la r)"
  unfolding js_assign_def by (auto intro!: text_taking text_acts)

lemma text_cast [intro]: "text_only c la \<Longrightarrow> text_only c v \<Longrightarrow> text_only c (js_cast c b to l la v)"
  unfolding js_cast_def Let_def by (auto intro!: text_acts)

lemma text_vcall [intro]:
  assumes "text_only c f" "\<And>v. v \<in> set (map snd as) \<Longrightarrow> text_only c v"
  shows "text_only c (js_vcall c k f as)"
proof -
  have "text_only c (append_args (map snd (take k as)))" "text_only c (append_args (map snd (drop k as)))"
    using assms(2) by (intro text_append_args; metis in_set_takeD in_set_dropD take_map drop_map)+
  moreover have "text_only c (append_args (map (\<lambda>(a, _). out (if nty a = TyF64 then ''1'' else ''0'')) xs))"
    for xs :: "(node \<times> jact) list" by (rule text_append_args) auto
  ultimately show ?thesis using assms(1) unfolding js_vcall_def by (auto intro!: text_acts)
qed

lemma text_call [intro]:
  assumes "text_only c lv" "\<And>v. v \<in> set vs \<Longrightarrow> text_only c v"
  shows "text_only c (js_call c n lv vs)"
proof -
  have z: "text_only c v" if "v \<in> set (map snd (zip (nargs n) vs))" for v
    using that assms(2) by (auto dest: set_zip_rightD)
  have "text_only c (js_vcall c k f (zip (nargs n) vs))" if "text_only c f" for k f
    using that z by (rule text_vcall)
  then show ?thesis
    using assms unfolding js_call_def Let_def
    by (auto intro!: text_taking text_acts text_append_args split: option.split)
qed

lemma text_if: "text_only c a \<Longrightarrow> text_only c b \<Longrightarrow> text_only c (if p then a else b)"
  by simp

lemma text_option: "text_only c a \<Longrightarrow> (\<And>x. text_only c (f x)) \<Longrightarrow> text_only c (case y of None \<Rightarrow> a | Some x \<Rightarrow> f x)"
  by (cases y) simp_all

lemma text_acts_Cons: "text_only c a \<Longrightarrow> text_only c (acts as) \<Longrightarrow> text_only c (acts (a # as))"
  unfolding acts_taking by (intro text_taking text_out)

lemma text_acts_Nil: "text_only c (acts [])" by simp

lemma text_put_Err: "text_only c (put (Inl (Err (''js backend: '' @ x))))" if "x \<noteq> ''cannot emit structured node''"
  using that by (simp add: structured_error_def)

lemmas text_intros = text_if text_option text_acts_Cons text_acts_Nil text_out text_no_js text_var_addr text_load_text text_uid_get
  text_rt text_binary text_sum text_assign text_cast text_line

lemma text_val_addr: "text_only c (js_val c n) \<and> text_only c (js_addr c n)"
proof (induction n rule: measure_induct_rule [of size])
  case (less n)
  have sub: "text_only c (case x of None \<Rightarrow> no_js | Some m \<Rightarrow> js_val c m)"
    "text_only c (case x of None \<Rightarrow> no_js | Some m \<Rightarrow> js_addr c m)"
    if "\<And>m. x = Some m \<Longrightarrow> m \<in> set (children n)" for x
    using less.IH children_smaller that by (cases x; auto)+
  have l: "text_only c (case nlhs n of None \<Rightarrow> no_js | Some m \<Rightarrow> js_val c m)"
    and la: "text_only c (case nlhs n of None \<Rightarrow> no_js | Some m \<Rightarrow> js_addr c m)"
    and r: "text_only c (case nrhs n of None \<Rightarrow> no_js | Some m \<Rightarrow> js_val c m)"
    by (rule sub; simp add: children_def)+
  have args: "text_only c v" if "v \<in> set (map (js_val c) (nargs n))" for v
    using that less.IH children_smaller by (auto simp: children_def)
  have a: "text_only c (js_addr c n)"
    using l la by (subst js_addr.simps) (auto simp: Let_def structured_error_def intro!: text_acts)
  have call: "text_only c (js_call c n (case nlhs n of None \<Rightarrow> no_js | Some m \<Rightarrow> js_val c m) (map (js_val c) (nargs n)))"
    using l args by (rule text_call)
  have err: "text_only c (put (Inl (Err ''js backend: unexpected node kind in expression'')))"
    by (simp add: structured_error_def)
  have "text_only c (js_val c n)"
    by (subst js_val.simps, unfold Let_def) (rule text_intros l la r a call err | assumption)+
  with a show ?case by blast
qed

lemmas text_val [simp, intro] = text_val_addr [THEN conjunct1]
lemmas text_addr [simp, intro] = text_val_addr [THEN conjunct2]

lemma text_opt_val [simp, intro]: "text_only c (opt_val c x)"
  unfolding opt_val_def by (auto split: option.split)

lemma text_plain_expr [simp, intro]: "text_only c (plain_expr c n)"
  unfolding plain_expr_def by (auto intro!: text_acts split: option.split)

lemma text_for_clause [simp, intro]: "text_only c (for_clause c x)"
  unfolding for_clause_def by (auto split: option.split)
section \<open>Structured functions\<close>

lemma text_return [simp, intro]: "text_only c (js_return c ind v)"
proof (rule text_onlyI)
  let ?a = "\<lambda>b. acts [out (tabs ind @ (if b then ''FP=fp;'' else [])),
      (case v of Some e \<Rightarrow> acts [out ''return '', js_val c e, out ('';'' @ nl)] | None \<Rightarrow> out (''return 0;'' @ nl))]"
  have t: "text_only c (?a b)" for b by (auto intro!: text_acts split: option.split)
  show "e \<noteq> structured_error" if "js_return c ind v st = Inl e" for st e
    using text_onlyE [OF t] that unfolding js_return_def by blast
  show "\<exists>xs. st1 = st\<lparr>js_chunks := marks c xs (js_chunks st)\<rparr>" if "js_return c ind v st = Inr (s, st1)" for st s st1
    using text_onlyD [OF t] that unfolding js_return_def by blast
qed

text \<open>A node whose part is missing is an error of its own; the parts that are there are structured.\<close>

lemma native_text: "native_stmt (jg_exc c) n \<Longrightarrow> text_only c (js_native c ind n)"
proof (induction n arbitrary: ind rule: measure_induct_rule [of size])
  case (less n)
  note native = less.prems [unfolded native_stmt.simps [of _ n] Let_def]
  have sub: "text_only c (case x of None \<Rightarrow> no_js | Some m \<Rightarrow> js_native c i m)"
    if "\<And>m. x = Some m \<Longrightarrow> m \<in> set (children n) \<and> native_stmt (jg_exc c) m" for x i
    using less.IH children_smaller that by (cases x) auto
  have th: "text_only c (case nthen n of None \<Rightarrow> no_js | Some m \<Rightarrow> js_native c i m)"
    if "nkind n \<in> {ND_IF, ND_WHILE, ND_DOWHILE, ND_FOR, ND_TRY}" for i
    by (rule sub) (use native that in \<open>auto simp: children_def split: if_split_asm\<close>)
  have els: "text_only c (case nels n of None \<Rightarrow> no_js | Some m \<Rightarrow> js_native c i m)"
    if "nkind n = ND_IF \<or> nkind n = ND_TRY \<and> jg_exc c" for i
    by (rule sub) (use native that in \<open>auto simp: children_def split: if_split_asm\<close>)
  have body: "text_only c (acts (map (js_native c i) (nbody n)))" if "nkind n = ND_BLOCK" for i
    by (rule text_acts) (use native that less.IH children_smaller in \<open>auto simp: children_def list_all_iff\<close>)
  have expr: "text_only c (case nlhs n of None \<Rightarrow> no_js | Some e \<Rightarrow> plain_expr c e)" by (auto split: option.split)
  show ?case
  proof (cases "nkind n = ND_BLOCK \<or> nkind n \<in> {ND_IF, ND_WHILE, ND_DOWHILE, ND_FOR, ND_TRY}")
    case False
    then show ?thesis using native expr
      by (subst js_native.simps) (auto simp: Let_def intro!: text_acts split: if_split_asm)
  next
    case True
    then show ?thesis using th els body
      by (subst js_native.simps) (elim disjE; auto simp: Let_def intro!: text_acts)
  qed
qed

text \<open>C17: A function that \<open>native_stmt\<close> accepts can be written as structured JavaScript: \<open>emit_native_stmt\<close>
  never stops with its error for a node it has no form for, and all it changes is which chunks of the
  runtime are marked.\<close>
theorem native_functions_are_structured:
  assumes "native_stmt (jg_exc c) n"
  shows "js_native c ind n st \<noteq> Inl structured_error
    \<and> (case js_native c ind n st of Inl e \<Rightarrow> True | Inr (s, st1) \<Rightarrow> (\<exists>xs. st1 = st\<lparr>js_chunks := marks c xs (js_chunks st)\<rparr>))"
proof (cases "js_native c ind n st")
  case (Inl e)
  then show ?thesis using text_onlyE [OF native_text [OF assms]] by auto
next
  case (Inr r)
  then show ?thesis using text_onlyD [OF native_text [OF assms], of ind st "fst r" "snd r"] by (cases r) auto
qed
theorem native_functions_are_structured_witness:
  "js_native \<lparr>jg_exc = True, jg_vars = (\<lambda>u. obj0 ''x'' ty_i64), jg_funcs = [], jg_classes = [], jg_g17 = (\<lambda>d. []), jg_str = (\<lambda>i. 0)\<rparr> 1
     (Node ND_IF None None (Some (new_node ND_VAR (new_token [] 1 TK_ID))) (Some (new_node ND_RETURN (new_token [] 1 TK_ID))) None None None [] []
        None 0 TRY_NONE (ninfo0 (new_token [] 1 TK_ID))) (js_start []) \<noteq> Inl structured_error"
proof -
  let ?c = "\<lparr>jg_exc = True, jg_vars = (\<lambda>u. obj0 ''x'' ty_i64), jg_funcs = [], jg_classes = [], jg_g17 = (\<lambda>d. []), jg_str = (\<lambda>i. 0)\<rparr> :: jgen"
  let ?n = "Node ND_IF None None (Some (new_node ND_VAR (new_token [] 1 TK_ID))) (Some (new_node ND_RETURN (new_token [] 1 TK_ID))) None None None [] []
        None 0 TRY_NONE (ninfo0 (new_token [] 1 TK_ID))"
  have "native_stmt (jg_exc ?c) ?n" by (simp add: native_stmt.simps new_node_def)
  from native_functions_are_structured [OF this] show ?thesis by blast
qed

section \<open>Steps\<close>

text \<open>What a step does to a state that satisfies a condition, when it does not stop with an error.\<close>

definition hoare :: "(jstate \<Rightarrow> bool) \<Rightarrow> jstep \<Rightarrow> (jstate \<Rightarrow> bool) \<Rightarrow> bool" where
  "hoare P a Q \<longleftrightarrow> (\<forall>st st1. P st \<longrightarrow> a st = Inr st1 \<longrightarrow> Q st1)"

lemma hoareI: "(\<And>st st1. P st \<Longrightarrow> a st = Inr st1 \<Longrightarrow> Q st1) \<Longrightarrow> hoare P a Q"
  by (simp add: hoare_def)

lemma hoareD: "hoare P a Q \<Longrightarrow> P st \<Longrightarrow> a st = Inr st1 \<Longrightarrow> Q st1"
  by (simp add: hoare_def)

lemma hoare_Inr [simp, intro]: "hoare P Inr P"
  by (simp add: hoare_def)

lemma hoare_weaken: "hoare P a Q \<Longrightarrow> (\<And>st. P1 st \<Longrightarrow> P st) \<Longrightarrow> (\<And>st. Q st \<Longrightarrow> Q1 st) \<Longrightarrow> hoare P1 a Q1"
  unfolding hoare_def by blast

lemma hoare_seq_Nil: "(\<And>st. P st \<Longrightarrow> Q st) \<Longrightarrow> hoare P (seq []) Q"
  by (simp add: hoare_def)

lemma hoare_seq: "hoare P a Q \<Longrightarrow> hoare Q (seq as) R \<Longrightarrow> hoare P (seq (a # as)) R"
  unfolding hoare_def by (auto simp: seq.simps(2) rbind_eq_Inr)

lemma hoare_with_block:
  assumes "\<And>b. hoare (\<lambda>st1. \<exists>st. P st \<and> new_block st = Inr (b, st1)) (f b) Q"
  shows "hoare P (with_block f) Q"
  using assms unfolding hoare_def with_block_def by (fastforce simp: rbind_eq_Inr)

section \<open>The runtime that is shipped\<close>

text \<open>Every step only marks chunks.\<close>

definition marks_only :: "jgen \<Rightarrow> jstep \<Rightarrow> bool" where
  "marks_only c a \<longleftrightarrow> (\<forall>st st1. a st = Inr st1 \<longrightarrow> (\<exists>xs. js_chunks st1 = marks c xs (js_chunks st)))"

lemma marks_onlyI: "(\<And>st st1. a st = Inr st1 \<Longrightarrow> \<exists>xs. js_chunks st1 = marks c xs (js_chunks st)) \<Longrightarrow> marks_only c a"
  by (simp add: marks_only_def)

lemma marks_onlyD: "marks_only c a \<Longrightarrow> a st = Inr st1 \<Longrightarrow> \<exists>xs. js_chunks st1 = marks c xs (js_chunks st)"
  by (simp add: marks_only_def)

lemma marks_same: "js_chunks st1 = js_chunks st \<Longrightarrow> \<exists>xs. js_chunks st1 = marks c xs (js_chunks st)"
  by (rule exI [of _ "[]"]) (simp add: marks_def)

lemma marks_trans:
  "\<exists>xs. cs1 = marks c xs cs \<Longrightarrow> \<exists>xs. cs2 = marks c xs cs1 \<Longrightarrow> \<exists>xs. cs2 = marks c xs cs"
  using marks_append by metis

lemma marks_only_basic [simp, intro]:
  "marks_only c Inr" "marks_only c (set_cur b)" "marks_only c set_term" "marks_only c no_step" "marks_only c (\<lambda>st. Inl e)"
  by (auto intro!: marks_onlyI marks_same simp: set_cur_def set_term_def upd_block_def no_step_def)

lemma marks_only_seq [intro]: "(\<And>a. a \<in> set as \<Longrightarrow> marks_only c a) \<Longrightarrow> marks_only c (seq as)"
proof (induction as)
  case (Cons a as)
  then have "marks_only c a" "marks_only c (seq as)" by simp_all
  then show ?case by (intro marks_onlyI) (auto simp: seq.simps(2) rbind_eq_Inr dest!: marks_onlyD intro: marks_trans)
qed simp

lemma marks_only_Cons: "marks_only c a \<Longrightarrow> marks_only c (seq as) \<Longrightarrow> marks_only c (seq (a # as))"
  by (intro marks_onlyI) (auto simp: seq.simps(2) rbind_eq_Inr dest!: marks_onlyD intro: marks_trans)

lemma marks_only_Nil: "marks_only c (seq [])" by simp

lemma marks_only_emit [intro]: "text_only c a \<Longrightarrow> marks_only c (emit_to a)"
  by (intro marks_onlyI) (auto simp: emit_to_def rbind_eq_Inr upd_block_def dest!: text_onlyD)

lemma new_block_chunks: "new_block st = Inr (b, st1) \<Longrightarrow> js_chunks st1 = js_chunks st"
  by (auto simp: new_block_def split: if_split_asm)

lemma marks_only_with_block [intro]: "(\<And>b. marks_only c (f b)) \<Longrightarrow> marks_only c (with_block f)"
  by (intro marks_onlyI) (fastforce simp: with_block_def rbind_eq_Inr dest: marks_onlyD new_block_chunks)

lemma label_block_chunks: "label_block x st = Inr (b, st1) \<Longrightarrow> js_chunks st1 = js_chunks st"
  by (auto simp: label_block_def rbind_eq_Inr dest!: new_block_chunks split: option.split_asm if_split_asm)

lemma marks_only_at_label [intro]: "(\<And>b. marks_only c (f b)) \<Longrightarrow> marks_only c (at_label x f)"
  by (intro marks_onlyI) (fastforce simp: at_label_def rbind_eq_Inr dest: marks_onlyD label_block_chunks)

lemma marks_only_jumps [simp, intro]:
  "marks_only c (jump_to b)" "marks_only c (jump_if_open b)" "text_only c v \<Longrightarrow> marks_only c (branch v p q)"
  "marks_only c (fresh_if_closed k)" "marks_only c a \<Longrightarrow> marks_only c (if_open a)"
proof -
  show j: "marks_only c (jump_to b)" for b
    unfolding jump_to_def by (intro marks_only_Cons marks_only_Nil marks_only_emit text_out marks_only_basic)
  show "marks_only c (jump_if_open b)" using j unfolding jump_if_open_def marks_only_def by (auto intro: marks_same)
  show "text_only c v \<Longrightarrow> marks_only c (branch v p q)" unfolding branch_def by (auto intro!: marks_only_seq marks_only_emit text_acts)
  have "marks_only c (with_block set_cur)" by blast
  then show "marks_only c (fresh_if_closed k)" unfolding fresh_if_closed_def marks_only_def by (auto intro: marks_same)
  show "marks_only c a \<Longrightarrow> marks_only c (if_open a)" unfolding if_open_def marks_only_def by (auto intro: marks_same)
qed

lemma marks_only_return [simp, intro]: "marks_only c (return_step c v)"
proof (rule marks_onlyI)
  fix st st1
  assume r: "return_step c v st = Inr st1"
  let ?a = "acts [out (if js_restore_fp st then ''FP=fp;'' else []),
         (case v of Some e \<Rightarrow> acts [out ''return ('', js_val c e, out ('');'' @ nl)] | None \<Rightarrow> out (''return 0;'' @ nl))]"
  have "text_only c ?a" by (auto intro!: text_acts split: option.split)
  then have "marks_only c (seq [emit_to ?a, set_term])" by (auto intro!: marks_only_seq marks_only_emit)
  then show "\<exists>xs. js_chunks st1 = marks c xs (js_chunks st)" by (rule marks_onlyD) (use r in \<open>simp only: return_step_def\<close>)
qed

lemma marks_only_if: "marks_only c a \<Longrightarrow> marks_only c b \<Longrightarrow> marks_only c (if p then a else b)"
  by simp

lemma marks_only_stmt: "marks_only c (js_stmt c n)"
proof (induction n rule: measure_induct_rule [of size])
  case (less n)
  have sub: "marks_only c (case x of None \<Rightarrow> d | Some m \<Rightarrow> js_stmt c m)"
    if "\<And>m. x = Some m \<Longrightarrow> m \<in> set (children n)" "marks_only c d" for x d
    using less.IH children_smaller that by (cases x) auto
  have th: "marks_only c (case nthen n of None \<Rightarrow> no_step | Some m \<Rightarrow> js_stmt c m)"
    and ini: "marks_only c (case ninit n of None \<Rightarrow> Inr | Some m \<Rightarrow> js_stmt c m)"
    and inc: "marks_only c (case ninc n of None \<Rightarrow> Inr | Some m \<Rightarrow> js_stmt c m)"
    by (rule sub; simp add: children_def)+
  have els: "marks_only c e" if "(case nels n of None \<Rightarrow> None | Some m \<Rightarrow> Some (js_stmt c m)) = Some e" for e
    using that less.IH children_smaller by (cases "nels n") (auto simp: children_def)
  have body: "marks_only c (seq (map (js_stmt c) (nbody n)))"
    using less.IH children_smaller by (intro marks_only_seq) (auto simp: children_def)
  have ifs: "marks_only c (if_step v a e)" if "text_only c v" "marks_only c a" "\<And>x. e = Some x \<Longrightarrow> marks_only c x" for v a e
    using that unfolding if_step_def by (auto intro!: marks_only_with_block marks_only_seq split: option.split)
  have loops: "marks_only c (loop_step v a i)" "marks_only c (dowhile_step w a)"
    if "\<And>x. v = Some x \<Longrightarrow> text_only c x" "marks_only c a" "marks_only c i" "text_only c w" for v w a i
    using that unfolding loop_step_def dowhile_step_def
    by (auto intro!: marks_only_with_block marks_only_seq split: option.split)
  note parts = th ini inc body
  have texts: "marks_only c (emit_to (acts [opt_val c (nlhs n), out ('';'' @ nl)]))" "marks_only c (emit_to (acts [js_val c n, out ('';'' @ nl)]))"
    by (auto intro!: marks_only_emit text_acts)
  have labels: "marks_only c (at_label x (\<lambda>b. seq [jump_if_open b, set_cur b]))" "marks_only c (at_label x jump_to)" for x
    by (intro marks_only_at_label marks_only_Cons marks_only_Nil marks_only_jumps marks_only_basic)+
  have ifn: "marks_only c (if_step (opt_val c (ncond n)) (case nthen n of None \<Rightarrow> no_step | Some m \<Rightarrow> js_stmt c m)
      (case nels n of None \<Rightarrow> None | Some m \<Rightarrow> Some (js_stmt c m)))"
    by (intro ifs th els text_opt_val)
  have loopn: "marks_only c (loop_step (if ncond n = None then None else Some (opt_val c (ncond n)))
      (case nthen n of None \<Rightarrow> no_step | Some m \<Rightarrow> js_stmt c m) (case ninc n of None \<Rightarrow> Inr | Some m \<Rightarrow> js_stmt c m))"
    "marks_only c (loop_step (Some (opt_val c (ncond n))) (case nthen n of None \<Rightarrow> no_step | Some m \<Rightarrow> js_stmt c m) Inr)"
    "marks_only c (dowhile_step (opt_val c (ncond n)) (case nthen n of None \<Rightarrow> no_step | Some m \<Rightarrow> js_stmt c m))"
    by (rule loops; auto simp: parts split: if_split_asm)+
  show ?case
    by (subst js_stmt.simps, unfold Let_def)
      (rule marks_only_if marks_only_Cons marks_only_Nil texts labels ifn loopn th ini inc body marks_only_basic marks_only_return
        marks_only_jumps)+
qed
text \<open>Laying out changes only where variables are.\<close>

lemma uid_set_chunks: "uid_set u v st = Inr (s, st1) \<Longrightarrow> js_chunks st1 = js_chunks st"
  by (auto simp: uid_set_def split: if_split_asm)

lemma lay_out_chunks: "lay_out slots off st = Inr (n, st1) \<Longrightarrow> js_chunks st1 = js_chunks st"
  by (induction slots off st rule: lay_out.induct) (fastforce simp: rbind_eq_Inr dest: uid_set_chunks)+

lemma lay_globals_chunks: "lay_globals c us a st = Inr (n, st1) \<Longrightarrow> js_chunks st1 = js_chunks st"
  by (induction c us a st rule: lay_globals.induct) (fastforce simp: rbind_eq_Inr dest: uid_set_chunks)+

lemma lay_funcs_chunks: "lay_funcs fs i st = Inr st1 \<Longrightarrow> js_chunks st1 = js_chunks st"
  by (induction fs i st rule: lay_funcs.induct) (fastforce simp: rbind_eq_Inr dest: uid_set_chunks)+

lemma js_layout_chunks: "js_layout c p a st = Inr (e, st1) \<Longrightarrow> js_chunks st1 = js_chunks st"
  by (auto simp: js_layout_def rbind_eq_Inr dest!: lay_globals_chunks lay_funcs_chunks)

lemma text_func_head [intro]: "text_only c (func_head c x f n)"
  unfolding func_head_def by (auto intro!: text_acts)

lemma text_with_state:
  assumes "\<And>b. text_only c (f b)" "\<And>st. a st = f (g st) st"
  shows "text_only c a"
  using text_onlyD [OF assms(1)] text_onlyE [OF assms(1)] assms(2) by (intro text_onlyI) metis+

lemma text_native_body: "native_stmt (jg_exc c) body \<Longrightarrow> text_only c (native_body c guarded body)"
  by (rule text_with_state [where g = js_restore_fp]) (use native_text in \<open>auto simp: native_body_def intro!: text_acts\<close>)

lemma text_by_state: "(\<And>st. \<exists>f. text_only c f \<and> a st = f st) \<Longrightarrow> text_only c a"
  by (rule text_onlyI) (metis text_onlyD text_onlyE)+

lemma text_switch_body: "text_only c (switch_body guarded entry)"
  unfolding switch_body_def
  by (rule text_by_state, rule exI, rule conjI [rotated], rule refl, rule text_acts_Cons [OF text_out text_acts_Nil])

lemma function_blocks_marks: "function_blocks c body st = Inr st1 \<Longrightarrow> \<exists>xs. js_chunks st1 = marks c xs (js_chunks st)"
proof -
  have "marks_only c (\<lambda>st1. if jb_term (cur_block st1) then Inr st1
       else emit_to (out ((if js_restore_fp st1 then ''FP=fp;'' else []) @ ''return 0;'' @ nl)) st1)"
    by (rule marks_onlyI) (auto intro!: marks_same simp: emit_to_def out_def upd_block_def split: if_split_asm)
  then have m: "marks_only c (with_block (\<lambda>entry. seq
     [set_cur entry, js_stmt c body,
      (\<lambda>st1. if jb_term (cur_block st1) then Inr st1
             else emit_to (out ((if js_restore_fp st1 then ''FP=fp;'' else []) @ ''return 0;'' @ nl)) st1)]))"
    by (intro marks_only_with_block marks_only_Cons marks_only_Nil marks_only_basic marks_only_stmt)
  assume "function_blocks c body st = Inr st1"
  from marks_onlyD [OF m this [unfolded function_blocks_def]] show ?thesis by simp
qed

lemma js_func_marks:
  assumes "js_func c s f st = Inr (t, st4)"
  shows "\<exists>xs. js_chunks st4 = marks c xs (js_chunks st)"
proof -
  obtain body framesz st1 where b: "fn_body f = Some body" "lay_out (frame_slots c f) 0 (st\<lparr>js_labels := []\<rparr>) = Inr (framesz, st1)"
    using assms by (auto simp: js_func_def rbind_eq_Inr split: option.split_asm)
  let ?st2 = "st1\<lparr>js_restore_fp := (framesz \<noteq> 0 \<and> \<not> jg_exc c)\<rparr>"
  let ?x = "if s then ''__hc_start'' else ''hc_'' @ fn_name f" and ?guarded = "framesz \<noteq> 0 \<and> jg_exc c" and ?native = "native_stmt (jg_exc c) body"
  obtain st3 where s3: "(if ?native then Inr ?st2 else function_blocks c body ?st2) = Inr st3"
    "acts [func_head c ?x f framesz, (if ?native then native_body c ?guarded body else switch_body ?guarded 0)] st3 = Inr (t, st4)"
    using assms b by (auto simp: js_func_def rbind_eq_Inr Let_def simp del: acts.simps)
  have "text_only c (acts [func_head c ?x f framesz, (if ?native then native_body c ?guarded body else switch_body ?guarded 0)])"
    using text_native_body text_switch_body by (auto intro!: text_acts)
  from text_onlyD [OF this s3(2)] have "\<exists>xs. js_chunks st4 = marks c xs (js_chunks st3)" by auto
  moreover have "\<exists>xs. js_chunks st3 = marks c xs (js_chunks ?st2)"
    using s3(1) function_blocks_marks [of c body ?st2 st3] marks_same [of st3 ?st2 c] by (auto split: if_split_asm)
  moreover have "js_chunks ?st2 = js_chunks st" using lay_out_chunks [OF b(2)] by simp
  ultimately show ?thesis using marks_trans by metis
qed

lemma acts_Inr_Cons: "acts (a # as) st = Inr r \<longleftrightarrow> (\<exists>s st1 s2 st2. a st = Inr (s, st1) \<and> acts as st1 = Inr (s2, st2) \<and> r = (s @ s2, st2))"
  by (auto simp: acts.simps(2) rbind_eq_Inr)

lemma acts_marks:
  assumes "\<And>a st s st1. a \<in> set as \<Longrightarrow> a st = Inr (s, st1) \<Longrightarrow> \<exists>xs. js_chunks st1 = marks c xs (js_chunks st)"
    and "acts as st = Inr (t, st2)"
  shows "\<exists>xs. js_chunks st2 = marks c xs (js_chunks st)"
  using assms
proof (induction as arbitrary: st t)
  case Nil
  then show ?case by (auto simp: out_def intro: marks_same)
next
  case (Cons a as)
  from Cons.prems(2) obtain s1 st1 s2 where "a st = Inr (s1, st1)" "acts as st1 = Inr (s2, st2)"
    by (auto simp: acts_Inr_Cons)
  with Cons show ?case by (metis list.set_intros marks_trans)
qed

lemma js_functions_marks: "js_functions c p st = Inr (t, st1) \<Longrightarrow> \<exists>xs. js_chunks st1 = marks c xs (js_chunks st)"
  unfolding js_functions_def by (erule acts_marks [rotated]) (auto dest: js_func_marks)

lemma marks_keep:
  "chunks_closed (jg_exc c) cs \<Longrightarrow> chunks_closed (jg_exc c) (marks c xs cs) \<and> same_chunks (marks c xs cs) cs"
proof (induction xs arbitrary: cs)
  case Nil
  then show ?case by (simp add: marks_def)
next
  case (Cons x xs)
  have "same_chunks (mark_chunk (jg_exc c) x cs) cs" unfolding mark_chunk_def by (rule mark_all_same)
  with Cons.IH [OF mark_chunk_closed [OF Cons.prems]] show ?case by (auto simp: marks_def intro: same_chunks_trans)
qed

lemma mark_chunk_names: "chunks_closed e cs \<Longrightarrow> included cs \<union> named e cs [x] \<subseteq> included (mark_chunk e x cs)"
  using mark_all_included [of e cs "[x]"] unfolding mark_chunk_def chunks_closed_def by blast


definition demo_js :: jsbackend where
  "demo_js = \<lparr>jb_exceptions = True, jb_g17 = (\<lambda>d. []), jb_rt_src = ''core'' @ nl @ ''//@ ld8'' @ nl @ ''//@ chstr ld8'' @ nl @ ''//@ x'' @ nl,
     jb_asm_tok = None\<rparr>"

definition demo_prog :: program where
  "demo_prog = \<lparr>pr_funcs = [], pr_globals = [],
     pr_startup = (new_func ''__hc_start'' 1)\<lparr>fn_body := Some (new_node ND_BLOCK (new_token [] 1 TK_ID))\<rparr>,
     pr_strings = [''ab''], pr_asms = [], pr_vars = (\<lambda>u. obj0 ''x'' ty_i64), pr_classes = []\<rparr>"


end
