(* ===== verification/JsFlow.thy ===== *)
theory JsFlow
  imports JsProps
begin

text \<open>
  Control flow between the blocks of a function with gotos: no case of the emitted \<open>switch (pc)\<close> falls
  through to the next one. The blocks that control has not left yet are the current one, those that an
  enclosing statement still has to fill, and those of labels that have not been reached.
\<close>

section \<open>Labels of a statement\<close>

text \<open>The labels that emitting a statement places, and all that it mentions.\<close>

function placed_labels :: "node \<Rightarrow> string list" where
  "placed_labels n =
     (let k = nkind n;
          th = (case nthen n of None \<Rightarrow> [] | Some m \<Rightarrow> placed_labels m);
          els = (case nels n of None \<Rightarrow> [] | Some m \<Rightarrow> placed_labels m);
          ini = (case ninit n of None \<Rightarrow> [] | Some m \<Rightarrow> placed_labels m)
      in if k = ND_LABEL then [ni_label (ninf n)]
         else if k = ND_BLOCK then concat (map placed_labels (nbody n))
         else if k = ND_IF then th @ els
         else if k = ND_FOR then ini @ th
         else if k = ND_WHILE \<or> k = ND_DOWHILE \<or> k = ND_TRY then th
         else [])"
  by pat_completeness auto
termination by (relation "measure size") (auto intro!: children_smaller simp: children_def)

function jump_labels :: "node \<Rightarrow> string list" where
  "jump_labels n =
     (if nkind n = ND_LABEL \<or> nkind n = ND_GOTO then [ni_label (ninf n)] else [])
     @ (case nthen n of None \<Rightarrow> [] | Some m \<Rightarrow> jump_labels m) @ (case nels n of None \<Rightarrow> [] | Some m \<Rightarrow> jump_labels m)
     @ (case ninit n of None \<Rightarrow> [] | Some m \<Rightarrow> jump_labels m) @ (case ninc n of None \<Rightarrow> [] | Some m \<Rightarrow> jump_labels m)
     @ concat (map jump_labels (nbody n))"
  by pat_completeness auto
termination by (relation "measure size") (auto intro!: children_smaller simp: children_def)

declare placed_labels.simps [simp del] jump_labels.simps [simp del]

section \<open>The invariant\<close>

text \<open>A text after whose end control does not go on.\<close>

definition closing :: "jgen \<Rightarrow> string \<Rightarrow> bool" where
  "closing c s \<longleftrightarrow> (\<exists>p. s = p @ ''continue;'' @ nl) \<or> (\<exists>p. s = p @ ''return 0;'' @ nl)
     \<or> (\<exists>p e st v st1. js_val c e st = Inr (v, st1) \<and> s = p @ ''return ('' @ v @ '');'' @ nl)"

text \<open>\<open>G\<close>: all labels of the function; \<open>P\<close>: those placed so far; \<open>X\<close>: blocks still to be filled.\<close>

definition flow :: "jgen \<Rightarrow> string set \<Rightarrow> string set \<Rightarrow> nat set \<Rightarrow> jstate \<Rightarrow> bool" where
  "flow c G P X st \<longleftrightarrow>
     js_cur st < length (js_blocks st) \<and> js_cur st \<notin> X \<and> X \<subseteq> {..<length (js_blocks st)}
     \<and> P \<subseteq> dom (map_of (js_labels st)) \<and> dom (map_of (js_labels st)) \<subseteq> G
     \<and> (\<forall>x b. map_of (js_labels st) x = Some b \<longrightarrow> b < length (js_blocks st) \<and> b \<notin> X)
     \<and> (\<forall>i<length (js_blocks st). \<not> jb_term (js_blocks st ! i) \<longrightarrow>
          i = js_cur st \<or> i \<in> X \<or> (\<exists>x. x \<notin> P \<and> map_of (js_labels st) x = Some i))
     \<and> (\<forall>i<length (js_blocks st). jb_term (js_blocks st ! i) \<longrightarrow> closing c (jb_out (js_blocks st ! i)))"

text \<open>The same with the current block left.\<close>

definition left :: "jgen \<Rightarrow> string set \<Rightarrow> string set \<Rightarrow> nat set \<Rightarrow> jstate \<Rightarrow> bool" where
  "left c G P X st \<longleftrightarrow> flow c G P X st \<and> jb_term (cur_block st)"

definition entered :: "jgen \<Rightarrow> string set \<Rightarrow> string set \<Rightarrow> nat set \<Rightarrow> jstate \<Rightarrow> bool" where
  "entered c G P X st \<longleftrightarrow> flow c G P X st \<and> \<not> jb_term (cur_block st)"

lemma flow_chunks [simp]: "flow c G P X (st\<lparr>js_chunks := cs\<rparr>) = flow c G P X st"
  by (simp add: flow_def)

lemma flow_fewer: "flow c G P X st \<Longrightarrow> P1 \<subseteq> P \<Longrightarrow> flow c G P1 X st"
  unfolding flow_def by blast

lemma flow_upd:
  assumes "flow c G P X st" "jb_term (f (cur_block st)) \<Longrightarrow> closing c (jb_out (f (cur_block st)))"
    "jb_term (cur_block st) \<Longrightarrow> jb_term (f (cur_block st))"
  shows "flow c G P X (upd_block f st)"
  using assms unfolding flow_def upd_block_def cur_block_def by (auto simp: nth_list_update)

lemma cur_upd [simp]: "js_cur st < length (js_blocks st) \<Longrightarrow> cur_block (upd_block f st) = f (cur_block st)"
  by (simp add: cur_block_def upd_block_def)

lemma cur_chunks [simp]: "cur_block (st\<lparr>js_chunks := cs\<rparr>) = cur_block st"
  by (simp add: cur_block_def)

section \<open>Steps\<close>

lemma hoare_emit: "text_only c a \<Longrightarrow> hoare (entered c G P X) (emit_to a) (flow c G P X)"
  by (intro hoareI) (auto simp: emit_to_def rbind_eq_Inr entered_def dest!: text_onlyD intro!: flow_upd)

lemma hoare_close:
  assumes "text_only c a" "\<And>st s st1 p. a st = Inr (s, st1) \<Longrightarrow> closing c (p @ s)"
  shows "hoare (flow c G P X) (seq [emit_to a, set_term]) (left c G P X)"
proof (rule hoareI)
  fix st st2
  assume st: "flow c G P X st" "seq [emit_to a, set_term] st = Inr st2"
  then obtain s st1 where s: "a st = Inr (s, st1)"
    "st2 = upd_block (\<lambda>b. b\<lparr>jb_term := True\<rparr>) (upd_block (\<lambda>b. b\<lparr>jb_out := jb_out b @ s\<rparr>) st1)"
    by (auto simp: seq.simps(2) rbind_eq_Inr emit_to_def set_term_def)
  obtain xs where x: "st1 = st\<lparr>js_chunks := marks c xs (js_chunks st)\<rparr>" using text_onlyD [OF assms(1) s(1)] by blast
  have f: "flow c G P X st1" using st(1) x by simp
  then have b: "js_cur st1 < length (js_blocks st1)" by (simp add: flow_def)
  have "st2 = upd_block (\<lambda>b. b\<lparr>jb_out := jb_out b @ s, jb_term := True\<rparr>) st1"
    unfolding s(2) using b by (simp add: upd_block_def cur_block_def)
  then show "left c G P X st2" using f b assms(2) [OF s(1)] by (auto simp: left_def intro!: flow_upd)
qed

lemma hoare_jump: "hoare (flow c G P X) (jump_to b) (left c G P X)"
  unfolding jump_to_def
proof (rule hoare_close)
  fix st s st1 p
  assume "out (''pc='' @ dec_nat b @ '';continue;'' @ nl) st = Inr (s, st1)"
  then have "p @ s = (p @ ''pc='' @ dec_nat b @ '';'') @ ''continue;'' @ nl" by (auto simp: out_def)
  then show "closing c (p @ s)" unfolding closing_def by blast
qed simp

lemma hoare_branch: "text_only c v \<Longrightarrow> hoare (flow c G P X) (branch v p q) (left c G P X)"
  unfolding branch_def
proof (rule hoare_close)
  fix st s st1 r
  assume "acts [out ''pc=('', v, out ('')?'' @ dec_nat p @ '':'' @ dec_nat q @ '';continue;'' @ nl)] st = Inr (s, st1)"
  then obtain s1 where "s = s1 @ ''continue;'' @ nl" by (auto simp: acts_Inr_Cons out_def)
  then show "closing c (r @ s)" unfolding closing_def by (intro disjI1 exI [of _ "r @ s1"]) simp
qed (auto intro!: text_acts)

lemma hoare_return: "hoare (flow c G P X) (return_step c v) (left c G P X)"
proof (rule hoareI)
  fix st st1
  assume st: "flow c G P X st" "return_step c v st = Inr st1"
  let ?a = "acts [out (if js_restore_fp st then ''FP=fp;'' else []),
      (case v of Some e \<Rightarrow> acts [out ''return ('', js_val c e, out ('');'' @ nl)] | None \<Rightarrow> out (''return 0;'' @ nl))]"
  have "hoare (flow c G P X) (seq [emit_to ?a, set_term]) (left c G P X)"
  proof (rule hoare_close)
    show "text_only c ?a" by (auto intro!: text_acts split: option.split)
    fix st0 s st2 p
    assume a: "?a st0 = Inr (s, st2)"
    show "closing c (p @ s)"
    proof (cases v)
      case None
      with a obtain s1 where "s = s1 @ ''return 0;'' @ nl" by (auto simp: acts_Inr_Cons out_def)
      then show ?thesis unfolding closing_def by (intro disjI2 disjI1 exI [of _ "p @ s1"]) simp
    next
      case (Some e)
      with a obtain s1 r st3 st4 where "s = s1 @ ''return ('' @ r @ '');'' @ nl" "js_val c e st3 = Inr (r, st4)"
        by (auto simp: acts_Inr_Cons out_def)
      then show ?thesis unfolding closing_def
        by (intro disjI2 exI [of _ "p @ s1"] exI [of _ e] exI [of _ st3] exI [of _ r] exI [of _ st4]) simp
    qed
  qed
  from hoareD [OF this st(1)] st(2) show "left c G P X st1" by (simp only: return_step_def)
qed

lemma hoare_jump_if_open: "hoare (flow c G P X) (jump_if_open b) (left c G P X)"
  using hoare_jump [of c G P X b] unfolding jump_if_open_def hoare_def left_def by auto

lemma hoare_if_open: "hoare (flow c G P X) a (flow c G P X) \<Longrightarrow> hoare (flow c G P X) (if_open a) (flow c G P X)"
  unfolding if_open_def hoare_def by auto

lemma hoare_set_cur: "Y = insert b X \<Longrightarrow> b \<notin> X \<Longrightarrow> hoare (left c G P Y) (set_cur b) (flow c G P X)"
  unfolding hoare_def set_cur_def left_def flow_def cur_block_def by auto

lemma flow_new_block:
  assumes "flow c G P X st" "new_block st = Inr (b, st1)"
  shows "b \<notin> X" "flow c G P (insert b X) st1" "cur_block st1 = cur_block st" "\<not> jb_term (js_blocks st1 ! b)"
proof -
  have b: "b = length (js_blocks st)" "st1 = st\<lparr>js_blocks := js_blocks st @ [\<lparr>jb_out = [], jb_term = False\<rparr>]\<rparr>"
    using assms(2) by (auto simp: new_block_def split: if_split_asm)
  note f = assms(1) [unfolded flow_def]
  show "b \<notin> X" "cur_block st1 = cur_block st" "\<not> jb_term (js_blocks st1 ! b)"
    using f b by (auto simp: cur_block_def nth_append)
  show "flow c G P (insert b X) st1" unfolding flow_def
  proof (intro conjI allI impI)
    fix i assume i: "i < length (js_blocks st1)" "\<not> jb_term (js_blocks st1 ! i)"
    show "i = js_cur st1 \<or> i \<in> insert b X \<or> (\<exists>x. x \<notin> P \<and> map_of (js_labels st1) x = Some i)"
    proof (cases "i = b")
      case False
      with i b have "i < length (js_blocks st)" "\<not> jb_term (js_blocks st ! i)" by (auto simp: nth_append)
      with f have "i = js_cur st \<or> i \<in> X \<or> (\<exists>x. x \<notin> P \<and> map_of (js_labels st) x = Some i)" by blast
      then show ?thesis unfolding b(2) by (elim disjE) simp_all
    qed simp
  next
    fix x d assume "map_of (js_labels st1) x = Some d"
    then have "d < length (js_blocks st) \<and> d \<notin> X" using f b(2) by simp
    then show "d < length (js_blocks st1)" "d \<notin> insert b X" using b by auto
  qed (use f b in \<open>auto simp: nth_append less_Suc_eq\<close>)
qed

lemma hoare_new:
  assumes "\<And>b. b \<notin> X \<Longrightarrow> hoare (flow c G P (insert b X)) (f b) Q"
  shows "hoare (flow c G P X) (with_block f) Q"
proof (rule hoareI)
  fix st st2
  assume st: "flow c G P X st" "with_block f st = Inr st2"
  then obtain b st1 where b: "new_block st = Inr (b, st1)" "f b st1 = Inr st2" by (auto simp: with_block_def rbind_eq_Inr)
  show "Q st2" using assms [OF flow_new_block(1) [OF st(1) b(1)]] flow_new_block(2) [OF st(1) b(1)] b(2) by (rule hoareD)
qed

lemma hoare_fresh: "hoare (flow c G P X) (fresh_if_closed k) (\<lambda>st. flow c G P X st \<and> (k \<noteq> ND_LABEL \<longrightarrow> \<not> jb_term (cur_block st)))"
proof (rule hoareI)
  fix st st2
  assume st: "flow c G P X st" "fresh_if_closed k st = Inr st2"
  show "flow c G P X st2 \<and> (k \<noteq> ND_LABEL \<longrightarrow> \<not> jb_term (cur_block st2))"
  proof (cases "jb_term (cur_block st) \<and> k \<noteq> ND_LABEL")
    case False
    with st show ?thesis by (auto simp: fresh_if_closed_def)
  next
    case True
    with st(2) obtain b st1 where b: "new_block st = Inr (b, st1)" "set_cur b st1 = Inr st2"
      by (auto simp: fresh_if_closed_def with_block_def rbind_eq_Inr)
    note n = flow_new_block [OF st(1) b(1)]
    have "left c G P (insert b X) st1" using n(2,3) True by (simp add: left_def)
    from hoareD [OF hoare_set_cur [OF refl n(1)] this b(2)] b(2) n(4) show ?thesis
      by (auto simp: set_cur_def cur_block_def)
  qed
qed

lemma flow_label_block:
  assumes "flow c G P X st" "label_block x st = Inr (b, st1)" "x \<in> G"
  shows "flow c G P X st1" "map_of (js_labels st1) x = Some b"
proof -
  show m: "map_of (js_labels st1) x = Some b"
    using assms(2) by (auto simp: label_block_def rbind_eq_Inr map_add_def new_block_def split: option.split_asm if_split_asm)
  show "flow c G P X st1"
  proof (cases "map_of (js_labels st) x")
    case (Some b1)
    with assms show ?thesis by (auto simp: label_block_def)
  next
    case None
    then obtain st2 where n: "new_block st = Inr (b, st2)" "st1 = st2\<lparr>js_labels := js_labels st2 @ [(x, b)]\<rparr>"
      using assms(2) by (auto simp: label_block_def rbind_eq_Inr split: if_split_asm)
    have l: "js_labels st2 = js_labels st" using n(1) by (auto simp: new_block_def split: if_split_asm)
    have mo: "map_of (js_labels st1) = (map_of (js_labels st))(x \<mapsto> b)"
      using None unfolding n(2) by (auto simp: l map_add_def fun_eq_iff split: option.split)
    note f = flow_new_block [OF assms(1) n(1)]
    have "x \<notin> P" using assms(1) None unfolding flow_def by auto
    have b: "b = length (js_blocks st)" "js_blocks st1 = js_blocks st @ [\<lparr>jb_out = [], jb_term = False\<rparr>]" "js_cur st1 = js_cur st"
      using n by (auto simp: new_block_def split: if_split_asm)
    show ?thesis unfolding flow_def
    proof (intro conjI allI impI)
      fix i assume i: "i < length (js_blocks st1)" "\<not> jb_term (js_blocks st1 ! i)"
      show "i = js_cur st1 \<or> i \<in> X \<or> (\<exists>y. y \<notin> P \<and> map_of (js_labels st1) y = Some i)"
      proof (cases "i = b")
        case True
        with \<open>x \<notin> P\<close> m show ?thesis by blast
      next
        case False
        with i b have "i < length (js_blocks st)" "\<not> jb_term (js_blocks st ! i)" by (auto simp: nth_append)
        then have "i = js_cur st \<or> i \<in> X \<or> (\<exists>y. y \<notin> P \<and> map_of (js_labels st) y = Some i)"
          using assms(1) unfolding flow_def by blast
        moreover have "y \<noteq> x" if "map_of (js_labels st) y = Some i" for y using None that by auto
        ultimately show ?thesis unfolding mo b(3) by (metis fun_upd_other)
      qed
    next
      fix y d assume y: "map_of (js_labels st1) y = Some d"
      have "b \<notin> X" "X \<subseteq> {..<length (js_blocks st)}" using f(1) assms(1) by (auto simp: flow_def)
      with y assms(1) b mo show "d < length (js_blocks st1)" "d \<notin> X"
        by (auto simp: flow_def less_Suc_eq split: if_split_asm)
    next
      fix i assume "i < length (js_blocks st1)" "jb_term (js_blocks st1 ! i)"
      with assms(1) b show "closing c (jb_out (js_blocks st1 ! i))"
        unfolding flow_def by (auto simp: nth_append less_Suc_eq split: if_split_asm)
    next
      show "P \<subseteq> dom (map_of (js_labels st1))" "dom (map_of (js_labels st1)) \<subseteq> G"
        using assms(1,3) unfolding flow_def mo by auto
    qed (use assms(1) b in \<open>auto simp: flow_def less_Suc_eq\<close>)
  qed
qed

lemma hoare_goto: "x \<in> G \<Longrightarrow> hoare (flow c G P X) (at_label x jump_to) (flow c G P X)"
proof (rule hoareI)
  fix st st2
  assume x: "x \<in> G" and st: "flow c G P X st" "at_label x jump_to st = Inr st2"
  then obtain b st1 where b: "label_block x st = Inr (b, st1)" "jump_to b st1 = Inr st2" by (auto simp: at_label_def rbind_eq_Inr)
  from hoareD [OF hoare_jump flow_label_block(1) [OF st(1) b(1) x] b(2)] show "flow c G P X st2" by (simp add: left_def)
qed

lemma jump_if_open_labels: "jump_if_open b st = Inr st1 \<Longrightarrow> js_labels st1 = js_labels st"
  by (auto simp: jump_if_open_def jump_to_def seq.simps(2) rbind_eq_Inr emit_to_def out_def set_term_def upd_block_def split: if_split_asm)

lemma hoare_label: "x \<in> G \<Longrightarrow> hoare (flow c G P X) (at_label x (\<lambda>b. seq [jump_if_open b, set_cur b])) (flow c G (insert x P) X)"
proof (rule hoareI)
  fix st st3
  assume x: "x \<in> G" and st: "flow c G P X st" "at_label x (\<lambda>b. seq [jump_if_open b, set_cur b]) st = Inr st3"
  then obtain b st1 st2 where b: "label_block x st = Inr (b, st1)" "jump_if_open b st1 = Inr st2" "st3 = st2\<lparr>js_cur := b\<rparr>"
    by (auto simp: at_label_def rbind_eq_Inr seq.simps(2) set_cur_def)
  note l = flow_label_block [OF st(1) b(1) x]
  have f: "left c G P X st2" using hoareD [OF hoare_jump_if_open l(1) b(2)] .
  have m: "map_of (js_labels st2) x = Some b" using l(2) jump_if_open_labels [OF b(2)] by simp
  show "flow c G (insert x P) X st3" unfolding flow_def
  proof (intro conjI allI impI)
    fix i assume i: "i < length (js_blocks st3)" "\<not> jb_term (js_blocks st3 ! i)"
    then have "i < length (js_blocks st2)" "\<not> jb_term (js_blocks st2 ! i)" using b(3) by simp_all
    then have "i \<in> X \<or> (\<exists>y. y \<notin> P \<and> map_of (js_labels st2) y = Some i)"
      using f unfolding left_def flow_def cur_block_def by metis
    moreover have "y \<noteq> x" if "map_of (js_labels st2) y = Some i" "i \<noteq> b" for y using m that by auto
    ultimately show "i = js_cur st3 \<or> i \<in> X \<or> (\<exists>y. y \<notin> insert x P \<and> map_of (js_labels st3) y = Some i)"
      unfolding b(3) by (cases "i = b") (simp_all, blast)
  qed (use f m b(3) x in \<open>auto simp: left_def flow_def\<close>)
qed
section \<open>Statements\<close>

text \<open>Steps that keep the invariant and place some labels, whatever is still to be filled.\<close>

definition places :: "jgen \<Rightarrow> string set \<Rightarrow> string set \<Rightarrow> jstep \<Rightarrow> bool" where
  "places c G L a \<longleftrightarrow> (\<forall>P X. hoare (flow c G P X) a (flow c G (P \<union> L) X))"

lemma placesD: "places c G L a \<Longrightarrow> hoare (flow c G P X) a (flow c G (P \<union> L) X)"
  by (simp add: places_def)

lemma places_skip: "places c G {} Inr"
  by (simp add: places_def)

lemma places_seq: "places c G L a \<Longrightarrow> places c G M (seq as) \<Longrightarrow> places c G (L \<union> M) (seq (a # as))"
  unfolding places_def by (metis hoare_seq sup_assoc)

lemma places_seq_map:
  assumes "\<And>x. x \<in> set xs \<Longrightarrow> places c G (set (l x)) (f x)"
  shows "places c G (set (concat (map l xs))) (seq (map f xs))"
  using assms
proof (induction xs)
  case Nil
  show ?case by (simp add: places_def hoare_def)
next
  case (Cons x xs)
  then have "places c G (set (l x)) (f x)" "places c G (set (concat (map l xs))) (seq (map f xs))" by simp_all
  from places_seq [OF this] show ?case by (simp add: seq.simps(2))
qed

lemma places_if:
  assumes "text_only c v" "places c G L th" "\<And>e. els = Some e \<Longrightarrow> places c G M e" "els = None \<Longrightarrow> M = {}"
  shows "places c G (L \<union> M) (if_step v th els)"
proof (cases els)
  case None
  show ?thesis unfolding places_def None if_step_def option.case
  proof (intro allI hoare_new)
    fix P and X :: "nat set" and tb db :: nat assume n: "tb \<notin> X" "db \<notin> insert tb X"
    show "hoare (flow c G P (insert db (insert tb X))) (seq [branch v tb db, set_cur tb, th, jump_if_open db, set_cur db]) (flow c G (P \<union> (L \<union> M)) X)"
      by (rule hoare_seq [OF hoare_branch [OF assms(1)]], rule hoare_seq [OF hoare_set_cur [where X = "insert db X"]], blast, use n in blast,
          rule hoare_seq [OF placesD [OF assms(2)]], rule hoare_seq [OF hoare_jump_if_open], rule hoare_seq [OF hoare_set_cur [where X = X]], blast,
          use n in blast, rule hoare_seq_Nil, simp add: assms(4) [OF None])
  qed
next
  case (Some e)
  show ?thesis unfolding places_def Some if_step_def option.case
  proof (intro allI hoare_new)
    fix P and X :: "nat set" and tb eb db :: nat assume n: "tb \<notin> X" "eb \<notin> insert tb X" "db \<notin> insert eb (insert tb X)"
    show "hoare (flow c G P (insert db (insert eb (insert tb X))))
       (seq [branch v tb eb, set_cur tb, th, jump_if_open db, set_cur eb, e, jump_if_open db, set_cur db]) (flow c G (P \<union> (L \<union> M)) X)"
      by (rule hoare_seq [OF hoare_branch [OF assms(1)]],
          rule hoare_seq [OF hoare_set_cur [where X = "insert db (insert eb X)"]], blast, use n in blast,
          rule hoare_seq [OF placesD [OF assms(2)]], rule hoare_seq [OF hoare_jump_if_open],
          rule hoare_seq [OF hoare_set_cur [where X = "insert db X"]], blast, use n in blast,
          rule hoare_seq [OF placesD [OF assms(3) [OF Some]]], rule hoare_seq [OF hoare_jump_if_open],
          rule hoare_seq [OF hoare_set_cur [where X = X]], blast, use n in blast, rule hoare_seq_Nil, simp add: Un_assoc)
  qed
qed

lemma places_loop:
  assumes "\<And>x. v = Some x \<Longrightarrow> text_only c x" "places c G L th" "places c G M inc"
  shows "places c G L (loop_step v th inc)"
  unfolding places_def loop_step_def
proof (intro allI hoare_new)
  fix P and X :: "nat set" and hb bb db :: nat assume n: "hb \<notin> X" "bb \<notin> insert hb X" "db \<notin> insert bb (insert hb X)"
  have head: "hoare (flow c G P Y) (case v of Some x \<Rightarrow> branch x bb db | None \<Rightarrow> jump_to bb) (left c G P Y)" for Y
    using assms(1) hoare_branch hoare_jump by (cases v) auto
  have inc: "hoare (flow c G (P \<union> L) Y) (if_open inc) (flow c G (P \<union> L) Y)" for Y
    by (rule hoare_if_open, rule hoare_weaken [OF placesD [OF assms(3)]]) (auto intro: flow_fewer)
  show "hoare (flow c G P (insert db (insert bb (insert hb X))))
     (seq [jump_to hb, set_cur hb, (case v of Some x \<Rightarrow> branch x bb db | None \<Rightarrow> jump_to bb), set_cur bb,
        th, if_open inc, jump_if_open hb, set_cur db]) (flow c G (P \<union> L) X)"
    by (rule hoare_seq [OF hoare_jump], rule hoare_seq [OF hoare_set_cur [where X = "insert db (insert bb X)"]], blast, use n in blast,
        rule hoare_seq [OF head], rule hoare_seq [OF hoare_set_cur [where X = "insert db X"]], blast, use n in blast,
        rule hoare_seq [OF placesD [OF assms(2)]], rule hoare_seq [OF inc], rule hoare_seq [OF hoare_jump_if_open],
        rule hoare_seq [OF hoare_set_cur [where X = X]], blast, use n in blast, rule hoare_seq_Nil, assumption)
qed

lemma places_dowhile:
  assumes "text_only c v" "places c G L th"
  shows "places c G L (dowhile_step v th)"
  unfolding places_def dowhile_step_def
proof (intro allI hoare_new)
  fix P and X :: "nat set" and bb hb db :: nat assume n: "bb \<notin> X" "hb \<notin> insert bb X" "db \<notin> insert hb (insert bb X)"
  show "hoare (flow c G P (insert db (insert hb (insert bb X))))
     (seq [jump_to bb, set_cur bb, th, jump_if_open hb, set_cur hb, branch v bb db, set_cur db]) (flow c G (P \<union> L) X)"
    by (rule hoare_seq [OF hoare_jump], rule hoare_seq [OF hoare_set_cur [where X = "insert db (insert hb X)"]], blast, use n in blast,
        rule hoare_seq [OF placesD [OF assms(2)]], rule hoare_seq [OF hoare_jump_if_open],
        rule hoare_seq [OF hoare_set_cur [where X = "insert db X"]], blast, use n in blast,
        rule hoare_seq [OF hoare_branch [OF assms(1)]], rule hoare_seq [OF hoare_set_cur [where X = X]], blast, use n in blast,
        rule hoare_seq_Nil, assumption)
qed

lemma places_stops: "places c G L (\<lambda>st. Inl e)" "places c G L no_step"
  by (simp_all add: places_def hoare_def no_step_def)

lemma places_fresh: "places c G L a \<Longrightarrow> places c G L (seq [fresh_if_closed k, a])"
  unfolding places_def
proof (intro allI)
  fix P X assume a: "\<forall>P X. hoare (flow c G P X) a (flow c G (P \<union> L) X)"
  show "hoare (flow c G P X) (seq [fresh_if_closed k, a]) (flow c G (P \<union> L) X)"
    by (rule hoare_seq [OF hoare_fresh], rule hoare_seq [where Q = "flow c G (P \<union> L) X"])
      (use a in \<open>auto simp: hoare_def seq.simps\<close>)
qed

lemma places_emit: "text_only c a \<Longrightarrow> k \<noteq> ND_LABEL \<Longrightarrow> places c G {} (seq [fresh_if_closed k, emit_to a])"
  unfolding places_def
proof (intro allI)
  fix P X assume "text_only c a" "k \<noteq> ND_LABEL"
  then show "hoare (flow c G P X) (seq [fresh_if_closed k, emit_to a]) (flow c G (P \<union> {}) X)"
    using hoare_emit [of c a G P X]
    by (intro hoare_seq [OF hoare_fresh] hoare_seq [where Q = "flow c G P X"] hoare_seq_Nil)
      (auto simp: hoare_def entered_def)
qed

lemma places_return: "places c G {} (return_step c v)"
  unfolding places_def by (intro allI, rule hoare_weaken [OF hoare_return]) (auto simp: left_def)

lemma places_goto: "x \<in> G \<Longrightarrow> places c G {} (at_label x jump_to)"
  unfolding places_def using hoare_goto by simp

lemma places_label: "x \<in> G \<Longrightarrow> places c G {x} (at_label x (\<lambda>b. seq [jump_if_open b, set_cur b]))"
  unfolding places_def using hoare_label by simp

lemma stmt_places: "set (jump_labels n) \<subseteq> G \<Longrightarrow> places c G (set (placed_labels n)) (js_stmt c n)"
proof (induction n rule: measure_induct_rule [of size])
  case (less n)
  note names = less.prems [unfolded jump_labels.simps [of n]]
  have sub: "places c G (set (case x of None \<Rightarrow> [] | Some m \<Rightarrow> placed_labels m)) (case x of None \<Rightarrow> d | Some m \<Rightarrow> js_stmt c m)"
    if "\<And>m. x = Some m \<Longrightarrow> m \<in> set (children n) \<and> set (jump_labels m) \<subseteq> G" "places c G {} d" for x d
    using less.IH children_smaller that by (cases x) auto
  have th: "places c G (set (case nthen n of None \<Rightarrow> [] | Some m \<Rightarrow> placed_labels m)) (case nthen n of None \<Rightarrow> no_step | Some m \<Rightarrow> js_stmt c m)"
    and ini: "places c G (set (case ninit n of None \<Rightarrow> [] | Some m \<Rightarrow> placed_labels m)) (case ninit n of None \<Rightarrow> Inr | Some m \<Rightarrow> js_stmt c m)"
    and inc: "places c G (set (case ninc n of None \<Rightarrow> [] | Some m \<Rightarrow> placed_labels m)) (case ninc n of None \<Rightarrow> Inr | Some m \<Rightarrow> js_stmt c m)"
    by (rule sub; use names in \<open>auto simp: children_def places_skip places_stops\<close>)+
  have els: "places c G (set (case nels n of None \<Rightarrow> [] | Some m \<Rightarrow> placed_labels m)) e"
    if "(case nels n of None \<Rightarrow> None | Some m \<Rightarrow> Some (js_stmt c m)) = Some e" for e
    using that less.IH children_smaller names by (cases "nels n") (auto simp: children_def)
  have body: "places c G (set (concat (map placed_labels (nbody n)))) (seq (map (js_stmt c) (nbody n)))"
  proof (rule places_seq_map)
    fix x assume x: "x \<in> set (nbody n)"
    show "places c G (set (placed_labels x)) (js_stmt c x)"
      by (rule less.IH [OF children_smaller]) (use x names in \<open>auto simp: children_def\<close>)
  qed
  consider "nkind n = ND_BLOCK" | "nkind n = ND_IF" | "nkind n = ND_FOR" | "nkind n = ND_WHILE" | "nkind n = ND_DOWHILE" | "nkind n = ND_RETURN"
    | "nkind n = ND_TRY" | "nkind n = ND_GOTO" | "nkind n = ND_LABEL" | "nkind n = ND_NOP" | "nkind n = ND_EXPR_STMT"
    | (other) "nkind n \<notin> {ND_BLOCK, ND_IF, ND_FOR, ND_WHILE, ND_DOWHILE, ND_RETURN, ND_TRY, ND_GOTO, ND_LABEL, ND_NOP, ND_EXPR_STMT}"
    by blast
  then show ?case
  proof cases
    case 1
    show ?thesis unfolding js_stmt.simps [of c n] placed_labels.simps [of n] Let_def 1 using places_fresh [OF body] by simp
  next
    case 2
    have "places c G (set (case nthen n of None \<Rightarrow> [] | Some m \<Rightarrow> placed_labels m) \<union> set (case nels n of None \<Rightarrow> [] | Some m \<Rightarrow> placed_labels m))
       (if_step (opt_val c (ncond n)) (case nthen n of None \<Rightarrow> no_step | Some m \<Rightarrow> js_stmt c m)
         (case nels n of None \<Rightarrow> None | Some m \<Rightarrow> Some (js_stmt c m)))"
      by (rule places_if [OF text_opt_val th els]) (auto split: option.split_asm)
    from places_fresh [OF this] show ?thesis unfolding js_stmt.simps [of c n] placed_labels.simps [of n] Let_def 2 by simp
  next
    case 3
    have "places c G (set (case nthen n of None \<Rightarrow> [] | Some m \<Rightarrow> placed_labels m))
       (loop_step (if ncond n = None then None else Some (opt_val c (ncond n))) (case nthen n of None \<Rightarrow> no_step | Some m \<Rightarrow> js_stmt c m)
         (case ninc n of None \<Rightarrow> Inr | Some m \<Rightarrow> js_stmt c m))"
      by (rule places_loop [OF _ th inc]) (auto split: if_split_asm)
    then have "places c G (set (case nthen n of None \<Rightarrow> [] | Some m \<Rightarrow> placed_labels m))
       (seq [loop_step (if ncond n = None then None else Some (opt_val c (ncond n))) (case nthen n of None \<Rightarrow> no_step | Some m \<Rightarrow> js_stmt c m)
         (case ninc n of None \<Rightarrow> Inr | Some m \<Rightarrow> js_stmt c m)])"
      by (simp add: places_def hoare_def seq.simps(2) rbind_eq_Inr)
    from places_fresh [OF places_seq [OF ini this]] show ?thesis
      unfolding js_stmt.simps [of c n] placed_labels.simps [of n] Let_def 3 by simp
  next
    case 4
    have "places c G (set (case nthen n of None \<Rightarrow> [] | Some m \<Rightarrow> placed_labels m))
       (loop_step (Some (opt_val c (ncond n))) (case nthen n of None \<Rightarrow> no_step | Some m \<Rightarrow> js_stmt c m) Inr)"
      by (rule places_loop [OF _ th places_skip]) auto
    from places_fresh [OF this] show ?thesis unfolding js_stmt.simps [of c n] placed_labels.simps [of n] Let_def 4 by simp
  next
    case 5
    from places_fresh [OF places_dowhile [OF text_opt_val th]] show ?thesis
      unfolding js_stmt.simps [of c n] placed_labels.simps [of n] Let_def 5 by simp
  next
    case 6
    from places_fresh [OF places_return] show ?thesis
      unfolding js_stmt.simps [of c n] placed_labels.simps [of n] Let_def 6 by simp
  next
    case 7
    from places_fresh [OF th] places_fresh [OF places_stops(1)] show ?thesis
      unfolding js_stmt.simps [of c n] placed_labels.simps [of n] Let_def 7 by simp
  next
    case 8
    with names have "ni_label (ninf n) \<in> G" by simp
    from places_fresh [OF places_goto [OF this]] show ?thesis
      unfolding js_stmt.simps [of c n] placed_labels.simps [of n] Let_def 8 by simp
  next
    case 9
    with names have "ni_label (ninf n) \<in> G" by simp
    from places_fresh [OF places_label [OF this]] show ?thesis
      unfolding js_stmt.simps [of c n] placed_labels.simps [of n] Let_def 9 by simp
  next
    case 10
    from places_fresh [OF places_skip] show ?thesis
      unfolding js_stmt.simps [of c n] placed_labels.simps [of n] Let_def 10 by simp
  next
    case 11
    have "text_only c (acts [opt_val c (nlhs n), out ('';'' @ nl)])" by (intro text_acts_Cons text_acts_Nil text_opt_val text_out)
    from places_emit [OF this] show ?thesis
      unfolding js_stmt.simps [of c n] placed_labels.simps [of n] Let_def 11 by simp
  next
    case other
    have "text_only c (acts [js_val c n, out ('';'' @ nl)])" by (intro text_acts_Cons text_acts_Nil text_val text_out)
    from places_emit [OF this] other show ?thesis
      unfolding js_stmt.simps [of c n] placed_labels.simps [of n] Let_def by simp
  qed
qed
text \<open>C3: In a function with gotos no block falls through to the next case of the emitted switch: when every
  label that is jumped to is placed, the text of every block ends by continuing at another block or
  by returning.\<close>
theorem no_fall_through:
  assumes "function_blocks c body st = Inr st1" "js_labels st = []" "set (jump_labels body) \<subseteq> set (placed_labels body)"
  shows "\<forall>b \<in> set (js_blocks st1). closing c (jb_out b)"
proof -
  let ?G = "set (jump_labels body)" and ?s0 = "st\<lparr>js_blocks := [\<lparr>jb_out = [], jb_term = False\<rparr>], js_cur := 0\<rparr>"
  obtain s1 where s1: "js_stmt c body ?s0 = Inr s1"
    "(if jb_term (cur_block s1) then Inr s1
      else emit_to (out ((if js_restore_fp s1 then ''FP=fp;'' else []) @ ''return 0;'' @ nl)) s1) = Inr st1"
    using assms(1) by (auto simp: function_blocks_def with_block_def new_block_def rbind_eq_Inr seq.simps set_cur_def)
  have "flow c ?G {} {} ?s0" using assms(2) by (simp add: flow_def)
  from hoareD [OF placesD [OF stmt_places [OF order_refl]] this s1(1)] have f: "flow c ?G (set (placed_labels body)) {} s1" by simp
  have other: "closing c (jb_out (js_blocks s1 ! i))" if i: "i < length (js_blocks s1)" "i \<noteq> js_cur s1 \<or> jb_term (js_blocks s1 ! i)" for i
  proof -
    have "jb_term (js_blocks s1 ! i)"
    proof (rule ccontr)
      assume n: "\<not> jb_term (js_blocks s1 ! i)"
      with f i obtain x where x: "x \<notin> set (placed_labels body)" "map_of (js_labels s1) x = Some i" unfolding flow_def by blast
      then have "x \<in> ?G" using f unfolding flow_def by blast
      with x(1) assms(3) show False by blast
    qed
    with f i(1) show ?thesis unfolding flow_def by blast
  qed
  show ?thesis
  proof (cases "jb_term (cur_block s1)")
    case True
    then have "st1 = s1" using s1(2) by simp
    with True other show ?thesis by (fastforce simp: in_set_conv_nth cur_block_def)
  next
    case False
    let ?r = "jb_out (cur_block s1) @ (if js_restore_fp s1 then ''FP=fp;'' else []) @ ''return 0;'' @ nl"
    have "js_blocks st1 = (js_blocks s1)[js_cur s1 := (cur_block s1)\<lparr>jb_out := ?r\<rparr>]"
      using False s1(2) by (simp add: emit_to_def out_def upd_block_def flip: append_assoc) (auto simp: upd_block_def)
    moreover have "closing c ?r"
      unfolding closing_def by (rule disjI2, rule disjI1, rule exI [of _ "jb_out (cur_block s1) @ (if js_restore_fp s1 then ''FP=fp;'' else [])"]) simp
    moreover have "closing c (jb_out (bs ! i))"
      if "bs = (js_blocks s1)[js_cur s1 := d]" "closing c (jb_out d)" "i < length bs" for bs d i
      using that other [of i] by (cases "i = js_cur s1") simp_all
    ultimately show ?thesis by (fastforce simp: in_set_conv_nth)
  qed
qed

definition jump_node :: "node_kind \<Rightarrow> string \<Rightarrow> node list \<Rightarrow> node" where
  "jump_node k l b = Node k None None None None None None None b [] None 0 TRY_NONE ((ninfo0 (new_token [] 1 TK_ID))\<lparr>ni_label := l\<rparr>)"

text \<open>\<open>again: goto again;\<close>\<close>

theorem no_fall_through_witness:
  "\<exists>c body st st1. function_blocks c body st = Inr st1 \<and> length (js_blocks st1) = 2 \<and> closing c (jb_out (js_blocks st1 ! 0))
     \<and> closing c (jb_out (js_blocks st1 ! 1))"
proof -
  define c :: jgen where "c = \<lparr>jg_exc = True, jg_vars = (\<lambda>u. obj0 ''x'' ty_i64), jg_funcs = [], jg_classes = [], jg_g17 = (\<lambda>d. []), jg_str = (\<lambda>i. 0)\<rparr>"
  define body where "body = jump_node ND_BLOCK [] [jump_node ND_LABEL ''again'' [], jump_node ND_GOTO ''again'' []]"
  have "\<exists>st1. function_blocks c body (js_start []) = Inr st1 \<and> length (js_blocks st1) = 2"
    by (simp add: function_blocks_def with_block_def new_block_def seq.simps set_cur_def js_start_def body_def jump_node_def
        js_stmt.simps at_label_def label_block_def jump_if_open_def jump_to_def emit_to_def set_term_def upd_block_def cur_block_def
        fresh_if_closed_def out_def Let_def)
  then obtain st1 where s: "function_blocks c body (js_start []) = Inr st1" "length (js_blocks st1) = 2" by blast
  have "js_labels (js_start []) = []" "set (jump_labels body) \<subseteq> set (placed_labels body)"
    by (simp_all add: js_start_def body_def jump_node_def jump_labels.simps placed_labels.simps)
  from no_fall_through [OF s(1) this] s show ?thesis by (metis nth_mem zero_less_numeral one_less_numeral_iff semiring_norm(76))
qed

end
