(* ===== verification/JsLayout.thy ===== *)
theory JsLayout
  imports JsBack
begin

text \<open>
  Linear memory of an emitted JavaScript program: strings, then globals, and in every frame the
  parameters and locals that live in memory. No two of them share a byte.
\<close>

section \<open>Frames\<close>

definition bytes :: "int \<Rightarrow> int \<Rightarrow> int set" where
  "bytes a n = {a ..< a + n}"

text \<open>Slots that are laid out from an offset: where each is, and that they do not overlap.\<close>

lemma lay_out_Cons:
  "lay_out ((u, n) # slots) off st = Inr (e, st1) \<longleftrightarrow>
     u < 65536 \<and> lay_out slots (off + n) (st\<lparr>js_umap := (js_umap st)(u \<mapsto> off)\<rparr>) = Inr (e, st1)"
  by (auto simp: uid_set_def)

lemma lay_out_keeps: "lay_out slots off st = Inr (e, st1) \<Longrightarrow> u \<notin> fst ` set slots \<Longrightarrow> js_umap st1 u = js_umap st u"
proof (induction slots arbitrary: off st)
  case (Cons s slots)
  then show ?case by (cases s) (fastforce simp: lay_out_Cons simp del: lay_out.simps(2))
qed simp

lemma lay_out_ranges:
  assumes "lay_out slots off st = Inr (e, st1)" "distinct (map fst slots)" "\<forall>u n. (u, n) \<in> set slots \<longrightarrow> 0 \<le> n \<and> 8 dvd n" "8 dvd off"
  shows "off \<le> e \<and> 8 dvd e
    \<and> (\<forall>u n. (u, n) \<in> set slots \<longrightarrow> (\<exists>a. js_umap st1 u = Some a \<and> 8 dvd a \<and> bytes a n \<subseteq> {off ..< e}))
    \<and> (\<forall>u n v m. (u, n) \<in> set slots \<longrightarrow> (v, m) \<in> set slots \<longrightarrow> u \<noteq> v \<longrightarrow>
         bytes (the (js_umap st1 u)) n \<inter> bytes (the (js_umap st1 v)) m = {})"
  using assms
proof (induction slots arbitrary: off st)
  case Nil
  then show ?case by simp
next
  case (Cons s slots)
  obtain x k where s: "s = (x, k)" by fastforce
  have run: "lay_out slots (off + k) (st\<lparr>js_umap := (js_umap st)(x \<mapsto> off)\<rparr>) = Inr (e, st1)"
    using Cons.prems(1) unfolding s lay_out_Cons by simp
  have k: "0 \<le> k" "8 dvd k" using Cons.prems(3) s by auto
  have ih: "off + k \<le> e \<and> 8 dvd e
    \<and> (\<forall>u n. (u, n) \<in> set slots \<longrightarrow> (\<exists>a. js_umap st1 u = Some a \<and> 8 dvd a \<and> bytes a n \<subseteq> {off + k ..< e}))
    \<and> (\<forall>u n v m. (u, n) \<in> set slots \<longrightarrow> (v, m) \<in> set slots \<longrightarrow> u \<noteq> v \<longrightarrow>
         bytes (the (js_umap st1 u)) n \<inter> bytes (the (js_umap st1 v)) m = {})"
    using Cons.prems k by (intro Cons.IH [OF run]) auto
  have x: "js_umap st1 x = Some off" using lay_out_keeps [OF run, of x] Cons.prems(2) s by (auto simp: rev_image_eqI)
  have own: "bytes off k \<inter> bytes (the (js_umap st1 u)) n = {}" if "(u, n) \<in> set slots" for u n
    using ih that by (fastforce simp: bytes_def)
  have same: "n = k" if "(x, n) \<in> set (s # slots)" for n using that Cons.prems(2) s by (auto simp: rev_image_eqI)
  show ?case
  proof (intro conjI allI impI)
    show "off \<le> e" "8 dvd e" using ih k by auto
    fix u n assume u: "(u, n) \<in> set (s # slots)"
    show "\<exists>a. js_umap st1 u = Some a \<and> 8 dvd a \<and> bytes a n \<subseteq> {off ..< e}"
    proof (cases "u = x")
      case True
      with u same x ih k Cons.prems(4) show ?thesis by (auto simp: bytes_def)
    next
      case False
      with u s have "(u, n) \<in> set slots" by simp
      with ih obtain a where "js_umap st1 u = Some a" "8 dvd a" "bytes a n \<subseteq> {off + k ..< e}" by blast
      with k show ?thesis by auto
    qed
    fix v m assume v: "(v, m) \<in> set (s # slots)" "u \<noteq> v"
    show "bytes (the (js_umap st1 u)) n \<inter> bytes (the (js_umap st1 v)) m = {}"
    proof (cases "u = x \<or> v = x")
      case True
      then show ?thesis
      proof
        assume ux: "u = x"
        then have "(v, m) \<in> set slots" using v s by auto
        moreover have "n = k" by (rule same) (use u ux in simp)
        ultimately show ?thesis using own [of v m] ux x by simp
      next
        assume vx: "v = x"
        then have "(u, n) \<in> set slots" using u v s by auto
        moreover have "m = k" by (rule same) (use v vx in simp)
        ultimately show ?thesis using own [of u n] vx x by (simp add: Int_commute)
      qed
    next
      case False
      with u v s ih show ?thesis by auto
    qed
  qed
qed

lemma align8_bounds: "a \<le> align8 a" "align8 a < a + 8" "8 dvd align8 a"
  unfolding align8_def by presburger+

lemma lay_globals_lay_out:
  "8 dvd a \<Longrightarrow> lay_globals c us a st = lay_out (map (\<lambda>u. (u, align8 (global_size c u))) us) a st"
proof (induction us arbitrary: a st)
  case (Cons u us)
  have "align8 (a + k) = a + align8 k" for k using Cons.prems unfolding align8_def by presburger
  moreover have "lay_globals c us (a + align8 k) = lay_out (map (\<lambda>u. (u, align8 (global_size c u))) us) (a + align8 k)" for k
    using Cons.prems align8_bounds(3) by (intro ext Cons.IH) simp
  ultimately show ?case by simp
qed simp


section \<open>Strings and globals\<close>

lemma string_ranges:
  assumes "string_addrs ss a = (m, e)"
  shows "a \<le> e \<and> map fst m = map fst ss
    \<and> (\<forall>i<length ss. bytes (snd (m ! i)) (int (length (snd (ss ! i))) + 1) \<subseteq> {a ..< e})
    \<and> (\<forall>i j. i < j \<longrightarrow> j < length ss \<longrightarrow>
         bytes (snd (m ! i)) (int (length (snd (ss ! i))) + 1) \<inter> bytes (snd (m ! j)) (int (length (snd (ss ! j))) + 1) = {})"
  using assms
proof (induction ss a arbitrary: m e rule: string_addrs.induct)
  case (2 i s ss a)
  obtain m1 where m1: "string_addrs ss (align8 (a + int (length s) + 1)) = (m1, e)" "m = (i, a) # m1"
    using 2(2) by (cases "string_addrs ss (align8 (a + int (length s) + 1))") auto
  have b: "a + int (length s) + 1 \<le> align8 (a + int (length s) + 1)" by (rule align8_bounds)
  have ih: "align8 (a + int (length s) + 1) \<le> e \<and> map fst m1 = map fst ss
    \<and> (\<forall>i<length ss. bytes (snd (m1 ! i)) (int (length (snd (ss ! i))) + 1) \<subseteq> {align8 (a + int (length s) + 1) ..< e})
    \<and> (\<forall>i j. i < j \<longrightarrow> j < length ss \<longrightarrow>
         bytes (snd (m1 ! i)) (int (length (snd (ss ! i))) + 1) \<inter> bytes (snd (m1 ! j)) (int (length (snd (ss ! j))) + 1) = {})"
    by (rule "2.IH" [OF m1(1)])
  have head: "bytes a (int (length s) + 1) \<inter> bytes (snd (m1 ! j)) (int (length (snd (ss ! j))) + 1) = {}" if "j < length ss" for j
    using ih b that by (fastforce simp: bytes_def)
  show ?case
  proof (intro conjI allI impI)
    show "a \<le> e" "map fst m = map fst ((i, s) # ss)" using ih b m1(2) by auto
    fix j assume j: "j < length ((i, s) # ss)"
    show "bytes (snd (m ! j)) (int (length (snd (((i, s) # ss) ! j))) + 1) \<subseteq> {a ..< e}"
    proof (cases j)
      case 0
      then show ?thesis using ih b m1(2) by (auto simp: bytes_def)
    next
      case (Suc k)
      with j ih have "bytes (snd (m1 ! k)) (int (length (snd (ss ! k))) + 1) \<subseteq> {align8 (a + int (length s) + 1) ..< e}" by simp
      also have "\<dots> \<subseteq> {a ..< e}" using b by auto
      finally show ?thesis using Suc m1(2) by simp
    qed
  next
    fix k j assume kj: "k < j" "j < length ((i, s) # ss)"
    then show "bytes (snd (m ! k)) (int (length (snd (((i, s) # ss) ! k))) + 1)
        \<inter> bytes (snd (m ! j)) (int (length (snd (((i, s) # ss) ! j))) + 1) = {}"
      using head ih m1(2) by (cases j; cases k) auto
  qed
qed simp

lemma string_addrs_aligned: "8 dvd a \<Longrightarrow> 8 dvd snd (string_addrs ss a)"
proof (induction ss a rule: string_addrs.induct)
  case (2 i s ss a)
  then show ?case using align8_bounds(3) by (simp add: case_prod_beta Let_def)
qed simp

text \<open>Two variables whose address is taken, as a frame and as globals; two strings.\<close>

definition mem_obj :: obj where "mem_obj = (obj0 ''x'' ty_i64)\<lparr>o_addr := True\<rparr>"

definition mem_gen :: jgen where
  "mem_gen = \<lparr>jg_exc = True, jg_vars = (\<lambda>u. mem_obj), jg_funcs = [], jg_classes = [], jg_g17 = (\<lambda>d. []), jg_str = (\<lambda>i. 0)\<rparr>"

definition mem_fun :: func where
  "mem_fun = (new_func ''f'' 1)\<lparr>f_params := [1], f_locals := [2]\<rparr>"

definition mem_prog :: program where
  "mem_prog = \<lparr>pr_funcs = [], pr_globals = [1, 2], pr_startup = mem_fun, pr_strings = [''ab'', ''c''], pr_asms = [], pr_vars = (\<lambda>u. mem_obj),
     pr_classes = []\<rparr>"

lemmas mem_defs = mem_obj_def mem_gen_def mem_fun_def mem_prog_def obj0_def native_var_def is_agg_def ty_i64_def ty_size_def



end
