(* ===== verification/Spec2Isabelle.thy ===== *)
theory Spec2Isabelle
  imports LexerRound StrBuf PreprocSem Effects Getopt RtTask RtBits Fmt Driver ParseSafe SwitchSem ClassLayout CValue CStmtProps JsFlow JsLayout
begin

text \<open>
  A verification library for \<open>aholyc\<close>, a compiler from HolyC to C, LLVM and JavaScript. This theory
  imports all others; the definitions and theorems are in them.

  \<^bold>\<open>The program.\<close> \<open>src/src/aholyc.c\<close> reads the command line (\<open>getopt.c\<close>) and drives the phases: a
  tokenizer (\<open>lex.c\<close>, comment hints in \<open>lexhints.c\<close>), a preprocessor on tokens (\<open>lexpp.c\<close>), a
  parser that types and lowers as it parses (\<open>parse.c\<close>), an exception analysis (\<open>effects.c\<close>), and one
  of three backends (\<open>back_c.c\<close>, \<open>back_ll.c\<close>, \<open>back_js.c\<close>) that write a text, which the system's tools
  build. \<open>fmt.c\<close> is a source formatter, \<open>sb.c\<close> and \<open>util.c\<close> hold the string buffer and the services of
  the host, and \<open>src/runtime/rt.c\<close> is the runtime that compiled programs are linked with.

  \<^bold>\<open>Which theory models what.\<close>
  \<^item> \<open>Prelude\<close>: errors as values (\<open>err\<close>, \<open>'a res\<close>), bind, machine words, decimal texts. A diagnostic is
    \<open>Err\<close> or \<open>ErrTok\<close>; a read outside a buffer, a null dereference and other undefined behaviour have
    constructors of their own, so each is a value that theorems can exclude or exhibit. \<open>Iterate\<close>: loops
    that may run forever.
  \<^item> \<open>Util\<close> (\<open>util.c\<close>: cleanup stack, argument vectors, reading files, diagnostics), \<open>StrBuf\<close> (\<open>sb.c\<close>),
    \<open>Getopt\<close> (\<open>getopt.c\<close>), \<open>Driver\<close> (\<open>aholyc.c\<close>: options, checks, the build steps and their files).
  \<^item> \<open>Tokens\<close>, \<open>Hints\<close>, \<open>Lexer\<close>: \<open>Token\<close> of \<open>aholyc.h\<close>, \<open>lexhints.c\<close>, \<open>tokenize\<close>. \<open>LexerProps\<close>
    and \<open>LexerRound\<close> hold what is proved of them.
  \<^item> \<open>Macros\<close>, \<open>PPExpr\<close>, \<open>Preproc\<close>: \<open>lexpp.c\<close>, its macro table, directive expressions and the loop of
    \<open>lex_preprocess\<close>. \<open>PreprocProps\<close> and \<open>PreprocSem\<close> hold the theorems.
  \<^item> \<open>Types\<close>, \<open>Ast\<close>, \<open>ParserState\<close>, \<open>NodeBuild\<close>, \<open>ConstEval\<close>, \<open>ParseTypes\<close>, \<open>ParseExpr\<close>, \<open>ParseSwitch\<close>,
    \<open>ParseStmt\<close>, \<open>ParseDecl\<close>, \<open>Parse\<close>: \<open>parse.c\<close> in the order of the file. \<open>Parser\<close> of \<open>aholyc.h\<close> is
    the record \<open>parser\<close>; an object is named by its \<open>uid\<close>, a function by its place in the program, a
    class by its place in the list of classes; \<open>next\<close> chains are lists.
  \<^item> \<open>ParseKeep\<close>, \<open>ParseRules\<close>, \<open>ParseTotal\<close>, \<open>ParseTotalStmt\<close>, \<open>ParseTotalDecl\<close>, \<open>ParseSafe\<close>: rules of a
    judgement for parsing functions, one per construct, and the theorem that the parser is total.
    \<open>ClassLayout\<close> and \<open>SwitchSem\<close>: layout of classes, meaning of a lowered \<open>switch\<close>.
  \<^item> \<open>Effects\<close>: \<open>effects.c\<close>, the flags of functions and the modes of \<open>try\<close>.
  \<^item> \<open>Emit\<close>: writing text, for both backends. \<open>CExpr\<close>, \<open>CStmt\<close>, \<open>CBack\<close>: \<open>back_c.c\<close>; \<open>CRead\<close> is a reader
    for the expressions of C, against which \<open>CValue\<close> states what the emitted text means; \<open>CStmtProps\<close>.
  \<^item> \<open>JsRt\<close>, \<open>JsExpr\<close>, \<open>JsStmt\<close>, \<open>JsBack\<close>: \<open>back_js.c\<close>; \<open>JsProps\<close>, \<open>JsFlow\<close>, \<open>JsLayout\<close> hold what is
    proved. \<open>JsGen\<close> is split into what never changes (\<open>jgen\<close>) and what does (\<open>jstate\<close>).
  \<^item> \<open>Fmt\<close>: \<open>fmt.c\<close>. \<open>RtMem\<close>, \<open>RtBits\<close>, \<open>RtPrint\<close>, \<open>RtTask\<close>: \<open>rt.c\<close>.

  \<^bold>\<open>What is proved.\<close> For each phase there are theorems that say that it ends, what it gives, and what it
  never does. The tokenizer returns well-formed chains and reads back what is printed; the
  preprocessor computes a reference meaning of structured sources and expands acyclic macros in finite
  time; the parser ends with a program or a diagnostic, never by running out of fuel or through an
  invalid access that the theorem does not name; members of a class do not overlap unless it is a
  union; a lowered switch reaches the first matching case; constants agree with the values of C; the
  exception analysis is the least fixpoint; the C text of an integer expression has the expression's
  value; handlers are restored after every statement; an emitted JavaScript function never falls from
  one case into the next, its runtime is complete and its memory is laid out without overlap; the
  formatter changes only white space; the runtime prints, searches, allocates and sets bits as
  specified. Where the code does not do what it means to, the theorem states what it does, and the
  manifest lists the finding.

  \<^bold>\<open>Interfaces.\<close> Locales state what a client relies on: \<open>byte_sink\<close> (a text sink: the string buffer and
  the output of the print core), \<open>name_table\<close> (the macro table), \<open>block_heap\<close> (the allocator),
  \<open>parser_calls\<close> (the mutually recursive calls of the parser). Each is interpreted on the model's own
  definitions.

  \<^bold>\<open>Fuel and bounds.\<close> \<open>Iterate\<close> takes a number of turns; a theorem that a loop returns gives a number
  that is enough. The option loop has the number of arguments left and one; the parser's recursion has
  twice the number of tokens and four, because no two calls in a row leave the tokens alone more than
  the judgement allows; \<open>pwhile\<close> has the number of tokens and one, because every turn consumes one;
  member lookup has the number of classes and one; the reader of C has four per token. \<open>parse_total\<close>
  shows that the parser's fuel never runs out. Machine integers have their width; a C \<open>int\<close> that does
  not fit is the error \<open>Undefined\<close>. Fixed arrays of the code (handlers, blocks, labels, chunks, names)
  have the limits of the code, and exceeding them is the code's diagnostic or an overrun.

  \<^bold>\<open>Parameters.\<close> What lies outside the repository's C is an argument of the model: the file system and the
  results of external tools, \<open>printf\<close> of floating-point numbers, the texts of the embedded runtime
  sources, and the result of \<open>#exe\<close>. The text of inline assembly is a parameter of the C backend. Where
  C leaves the order of arguments open, the model takes them in the order of the text.

  \<^bold>\<open>Not modelled.\<close> \<open>back_ll.c\<close>: the meaning of its output is that of LLVM, which is not in the repository.
  \<open>asm.c\<close> (but for the rejection of asm blocks by JavaScript) with its generated tables of names.
  \<open>exe.c\<close>, which loads and runs native code in the compiler. \<open>file2c.c\<close>, a build tool. In \<open>util.c\<close>, \<open>rt.c\<close> and \<open>aholyc.c\<close> the
  functions that only call the system.
\<close>

end
